(* ===== verification/Ext4_Prelude.thy ===== *)
theory Ext4_Prelude
  imports Main "HOL-Library.Word" "HOL-Library.Signed_Division"
begin

text \<open>
  Shared vocabulary of the development: the C integer types as words, the ways a C
  function can stop without returning, checked array accesses, and the lemma
  collections the component theories extend.

  A function of the program that can leave abnormally returns \<open>'a res\<close>:
  \<^item> \<open>Inl Error\<close>: the macro \<open>error\<close> of \<^verbatim>\<open>ext4_utils.h\<close> was reached without \<open>force\<close>, so
    it jumped to the \<open>setjmp\<close> in \<open>make_ext4fs_internal\<close>;
  \<^item> \<open>Inl Critical\<close>: \<open>critical_error\<close>, which jumps whatever \<open>force\<close> says;
  \<^item> \<open>Inl Fault\<close>: the C program has undefined behaviour there (an array index out of
    range, a null or freed pointer dereferenced, a division by zero);
  \<^item> \<open>Inl Assert\<close>: an \<open>assert\<close> fails and the program aborts;
  \<^item> \<open>Inl Diverge\<close>: a pointer chain is followed past the number of cells that exist, so
    the loop over it never ends.
  The texts printed to \<open>stderr\<close> are not part of the model.
\<close>

unbundle bit_operations_syntax

section \<open>C integers\<close>

type_synonym u8 = "8 word"
type_synonym u16 = "16 word"
type_synonym u32 = "32 word"
type_synonym u64 = "64 word"

named_theorems res_simps \<open>evaluation of results\<close>
named_theorems bitmap_simps \<open>bits of byte arrays\<close>

section \<open>Results\<close>

datatype fail = Error | Critical | Fault | Assert | Diverge

type_synonym 'a res = "fail + 'a"

definition rbind :: "'a res \<Rightarrow> ('a \<Rightarrow> 'b res) \<Rightarrow> 'b res" where
  "rbind m f = (case m of Inl e \<Rightarrow> Inl e | Inr x \<Rightarrow> f x)"

lemma rbind_Inl [simp, res_simps]: "rbind (Inl e) f = Inl e"
  by (simp add: rbind_def)

lemma rbind_Inr [simp, res_simps]: "rbind (Inr x) f = f x"
  by (simp add: rbind_def)

lemma rbind_eq_Inr [simp]: "rbind m f = Inr y \<longleftrightarrow> (\<exists>x. m = Inr x \<and> f x = Inr y)"
  by (cases m) auto

lemma rbind_eq_Inl:
  "rbind m f = Inl e \<longleftrightarrow> m = Inl e \<or> (\<exists>x. m = Inr x \<and> f x = Inl e)"
  by (cases m) auto

lemma rbind_cong [fundef_cong]:
  "m = m' \<Longrightarrow> (\<And>x. m' = Inr x \<Longrightarrow> f x = f' x) \<Longrightarrow> rbind m f = rbind m' f'"
  by (cases m') auto

text \<open>The \<open>error\<close> macro followed by the statement it guards.\<close>

definition error_then :: "bool \<Rightarrow> 'a res \<Rightarrow> 'a res" where
  "error_then force k = (if force then k else Inl Error)"

lemma error_then_simps [simp, res_simps]:
  "error_then True k = k" "error_then False k = Inl Error"
  by (simp_all add: error_then_def)

section \<open>Checked accesses\<close>

definition rd :: "'a list \<Rightarrow> nat \<Rightarrow> 'a res" where
  "rd xs i = (if i < length xs then Inr (xs ! i) else Inl Fault)"

definition wr :: "'a list \<Rightarrow> nat \<Rightarrow> 'a \<Rightarrow> 'a list res" where
  "wr xs i v = (if i < length xs then Inr (xs[i := v]) else Inl Fault)"

lemma rd_in [simp]: "i < length xs \<Longrightarrow> rd xs i = Inr (xs ! i)"
  by (simp add: rd_def)

lemma wr_in [simp]: "i < length xs \<Longrightarrow> wr xs i v = Inr (xs[i := v])"
  by (simp add: wr_def)

lemma rd_eq_Inr: "rd xs i = Inr v \<longleftrightarrow> i < length xs \<and> v = xs ! i"
  by (auto simp: rd_def)

lemma wr_eq_Inr: "wr xs i v = Inr ys \<longleftrightarrow> i < length xs \<and> ys = xs[i := v]"
  by (auto simp: wr_def)

text \<open>Unsigned division and remainder trap when the divisor is zero.\<close>

definition udiv :: "'a::len word \<Rightarrow> 'a word \<Rightarrow> 'a word res" where
  "udiv x y = (if y = 0 then Inl Fault else Inr (x div y))"

definition umod :: "'a::len word \<Rightarrow> 'a word \<Rightarrow> 'a word res" where
  "umod x y = (if y = 0 then Inl Fault else Inr (x mod y))"

lemma udiv_nz [simp]: "y \<noteq> 0 \<Longrightarrow> udiv x y = Inr (x div y)"
  by (simp add: udiv_def)

lemma umod_nz [simp]: "y \<noteq> 0 \<Longrightarrow> umod x y = Inr (x mod y)"
  by (simp add: umod_def)

text \<open>The macro \<open>DIV_ROUND_UP\<close> at an unsigned type.\<close>

definition DIV_ROUND_UP :: "'a::len word \<Rightarrow> 'a word \<Rightarrow> 'a word res" where
  "DIV_ROUND_UP x y = udiv (x + y - 1) y"

definition EXT4_ALIGN :: "'a::len word \<Rightarrow> 'a word \<Rightarrow> 'a word res" where
  "EXT4_ALIGN x y = rbind (DIV_ROUND_UP x y) (\<lambda>q. Inr (y * q))"

lemma DIV_ROUND_UP_nat:
  assumes "y \<noteq> 0" "unat x + unat y \<le> 2 ^ LENGTH('a)"
  shows "\<exists>q. DIV_ROUND_UP x (y :: 'a::len word) = Inr q \<and> unat q = (unat x + unat y - 1) div unat y"
proof -
  have y: "1 \<le> unat y" using assms(1) by (simp add: Suc_le_eq unat_gt_0)
  have "x + y - 1 = of_nat (unat x + unat y - 1)"
    using y by (simp add: of_nat_diff)
  moreover have "unat x + unat y - 1 < 2 ^ LENGTH('a)"
    using assms(2) y by linarith
  ultimately have "unat (x + y - 1) = unat x + unat y - 1"
    by (simp add: unat_of_nat)
  then show ?thesis
    using assms(1) by (simp add: DIV_ROUND_UP_def unat_div)
qed

text \<open>The same rounding on words written as casts of naturals.\<close>

lemma DIV_ROUND_UP_of_nat:
  assumes "0 < y" "y < 2 ^ LENGTH('a)" "x + y \<le> 2 ^ LENGTH('a)" "z = (x + (y - 1)) div y"
  shows "DIV_ROUND_UP (of_nat x) (of_nat y :: 'a::len word) = Inr (of_nat z)"
proof -
  have x: "unat (of_nat x :: 'a word) = x" and y: "unat (of_nat y :: 'a word) = y"
    using assms by (simp_all add: unat_of_nat)
  then have "(of_nat y :: 'a word) \<noteq> 0" using assms(1) by (metis unat_0 less_irrefl)
  from DIV_ROUND_UP_nat [OF this, of "of_nat x"] x y assms(3)
  obtain q where "DIV_ROUND_UP (of_nat x) (of_nat y :: 'a word) = Inr q"
    "unat q = (x + y - 1) div y" by auto
  moreover from this(2) have "q = of_nat ((x + y - 1) div y)" by (metis of_nat_unat ucast_id)
  moreover have "x + y - 1 = x + (y - 1)" using assms(1) by simp
  ultimately show ?thesis unfolding assms(4) by simp
qed

section \<open>Words read as naturals\<close>

lemma unat_add_small:
  "unat x + unat y < 2 ^ LENGTH('a) \<Longrightarrow> unat (x + y :: 'a::len word) = unat x + unat y"
  by (rule unat_add_lem [THEN iffD1])

lemma unat_Suc_less:
  assumes "x < (y :: 'a::len word)"
  shows "unat (x + 1) = Suc (unat x)"
proof -
  have "unat x < unat y" using assms by (simp add: word_less_nat_alt)
  moreover have "unat y < 2 ^ LENGTH('a)" by simp
  ultimately have "unat x + 1 < 2 ^ LENGTH('a)" by linarith
  then show ?thesis by (simp add: unat_word_ariths)
qed

lemma sint_small:
  assumes "unat w < 2 ^ (LENGTH('a) - 1)"
  shows "sint (w :: 'a::len word) = int (unat w)"
proof -
  have "uint w = int (unat w)" by simp
  also have "\<dots> < 2 ^ (LENGTH('a) - Suc 0)"
    using assms by (metis One_nat_def of_nat_less_iff of_nat_numeral of_nat_power)
  finally show ?thesis
    by (simp add: sint_uint signed_take_bit_int_eq_self order_trans [of _ 0])
qed

lemma sint_nonneg:
  assumes "0 \<le> sint w"
  shows "sint (w :: 'a::len word) = int (unat w)"
proof -
  let ?n = "LENGTH('a) - Suc 0"
  have "\<not> signed_take_bit ?n (uint w) < 0" using assms by (simp add: sint_uint)
  then have nb: "\<not> bit (uint w) ?n" by (simp only: signed_take_bit_negative_iff not_less simp_thms)
  have "uint w = take_bit (Suc ?n) (uint w)"
    by (simp add: take_bit_int_eq_self)
  also have "\<dots> = take_bit ?n (uint w)"
    using nb by (simp only: take_bit_Suc_from_most) simp
  also have "\<dots> = sint w"
    using nb by (simp add: sint_uint signed_take_bit_eq_if_positive)
  finally show ?thesis by simp
qed

text \<open>Widening keeps the value.\<close>

lemma unat_ucast_up:
  "LENGTH('b) \<le> LENGTH('a) \<Longrightarrow> unat (ucast (w :: 'b::len word) :: 'a::len word) = unat w"
proof -
  assume "LENGTH('b) \<le> LENGTH('a)"
  then have "(2 :: nat) ^ LENGTH('b) \<le> 2 ^ LENGTH('a)" by simp
  then have "unat w < 2 ^ LENGTH('a)" by (rule less_le_trans [OF unsigned_less])
  then show ?thesis by (simp add: unsigned_ucast_eq take_bit_nat_eq_self)
qed

lemma unat_ucast_32_64 [simp]: "unat (ucast (w :: u32) :: u64) = unat w"
  by (simp add: unat_ucast_up)

lemma unat_ucast_16_32 [simp]: "unat (ucast (w :: u16) :: u32) = unat w"
  by (simp add: unat_ucast_up)

lemma uint_ucast_32_64 [simp]: "uint (ucast (w :: u32) :: u64) = uint w"
  by (simp only: uint_nat unat_ucast_32_64)

lemma ucast_32_64_eq_0 [simp]: "(ucast (w :: u32) :: u64) = 0 \<longleftrightarrow> w = 0"
  by (simp only: unat_0_iff [symmetric] unat_ucast_32_64)

lemma uint_pos: "0 < uint w \<longleftrightarrow> w \<noteq> 0"
  using uint_ge_0 [of w] by (auto simp: order_le_less uint_0_iff)

text \<open>Narrowing keeps a value that fits.\<close>

lemma unat_ucast_64_32: "unat w < 2 ^ 32 \<Longrightarrow> unat (ucast (w :: u64) :: u32) = unat w"
  by (simp add: unsigned_ucast_eq take_bit_nat_eq_self)

lemma unat_less_32: "unat (w :: u32) < 4294967296"
  using unsigned_less [of w] by simp

lemma unat_less_64: "unat (w :: u64) < 18446744073709551616"
  using unsigned_less [of w] by simp


lemma of_nat_less_iff_small:
  "m < 2 ^ LENGTH('a) \<Longrightarrow> n < 2 ^ LENGTH('a) \<Longrightarrow> (of_nat m :: 'a::len word) < of_nat n \<longleftrightarrow> m < n"
  by (simp add: word_less_nat_alt unat_of_nat)



lemma ucast_of_nat_32_64: "m < 4294967296 \<Longrightarrow> ucast (of_nat m :: u32) = (of_nat m :: u64)"
  by (simp add: word_unat_eq_iff unat_of_nat)

lemma ucast_of_nat_64_32: "m < 4294967296 \<Longrightarrow> ucast (of_nat m :: u64) = (of_nat m :: u32)"
  by (simp add: word_unat_eq_iff unat_of_nat unsigned_ucast_eq take_bit_nat_eq_self)

text \<open>Clearing the low bits rounds down.\<close>

lemma unat_and_not_mask:
  "unat (x AND NOT (mask n) :: 'a::len word) = 2 ^ n * (unat x div 2 ^ n)"
proof -
  have "x AND NOT (mask n) = push_bit n (drop_bit n x)"
    by (simp add: bit_eq_iff bit_simps) auto
  moreover have "unat (drop_bit n x) = unat x div 2 ^ n"
    by (simp only: unsigned_drop_bit_eq) (simp add: drop_bit_eq_div take_bit_nat_eq_self)
  moreover have "2 ^ n * (unat x div 2 ^ n) < 2 ^ LENGTH('a)"
    by (rule le_less_trans [OF times_div_less_eq_dividend unsigned_less])
  ultimately show ?thesis
    by (simp only: unsigned_push_bit_eq) (simp add: push_bit_eq_mult take_bit_nat_eq_self mult.commute)
qed

text \<open>Signed quotients of non-negative values are unsigned ones.\<close>

lemma sdiv_nonneg: "0 \<le> a \<Longrightarrow> 0 \<le> b \<Longrightarrow> a sdiv b = a div (b :: int)"
  by (cases "a = 0"; cases "b = 0") (auto simp: signed_divide_int_def sgn_if)

end
