(* ===== verification/Crc.thy ===== *)
theory Crc
  imports Ext4_Prelude
begin

text \<open>
  The two table-driven checksums: \<open>ext4_crc16\<close> (\<^verbatim>\<open>src/crc16.c\<close>), which seals the block
  group descriptors, and \<open>sparse_crc32\<close> (\<^verbatim>\<open>src/libsparse/sparse_crc32.c\<close>), which seals a
  sparse image. The locale \<open>table_crc\<close> states what a 256-entry feedback table has to
  satisfy; inside it the byte-at-a-time loop is shown to run the bit-serial shift
  register, and to tell apart any two messages that differ in one byte. Both tables of
  the source are instances.
\<close>

section \<open>The code\<close>

definition crc16_tab :: "u16 list" where
  "crc16_tab = [
    0x0000, 0xC0C1, 0xC181, 0x0140, 0xC301, 0x03C0, 0x0280, 0xC241,
    0xC601, 0x06C0, 0x0780, 0xC741, 0x0500, 0xC5C1, 0xC481, 0x0440,
    0xCC01, 0x0CC0, 0x0D80, 0xCD41, 0x0F00, 0xCFC1, 0xCE81, 0x0E40,
    0x0A00, 0xCAC1, 0xCB81, 0x0B40, 0xC901, 0x09C0, 0x0880, 0xC841,
    0xD801, 0x18C0, 0x1980, 0xD941, 0x1B00, 0xDBC1, 0xDA81, 0x1A40,
    0x1E00, 0xDEC1, 0xDF81, 0x1F40, 0xDD01, 0x1DC0, 0x1C80, 0xDC41,
    0x1400, 0xD4C1, 0xD581, 0x1540, 0xD701, 0x17C0, 0x1680, 0xD641,
    0xD201, 0x12C0, 0x1380, 0xD341, 0x1100, 0xD1C1, 0xD081, 0x1040,
    0xF001, 0x30C0, 0x3180, 0xF141, 0x3300, 0xF3C1, 0xF281, 0x3240,
    0x3600, 0xF6C1, 0xF781, 0x3740, 0xF501, 0x35C0, 0x3480, 0xF441,
    0x3C00, 0xFCC1, 0xFD81, 0x3D40, 0xFF01, 0x3FC0, 0x3E80, 0xFE41,
    0xFA01, 0x3AC0, 0x3B80, 0xFB41, 0x3900, 0xF9C1, 0xF881, 0x3840,
    0x2800, 0xE8C1, 0xE981, 0x2940, 0xEB01, 0x2BC0, 0x2A80, 0xEA41,
    0xEE01, 0x2EC0, 0x2F80, 0xEF41, 0x2D00, 0xEDC1, 0xEC81, 0x2C40,
    0xE401, 0x24C0, 0x2580, 0xE541, 0x2700, 0xE7C1, 0xE681, 0x2640,
    0x2200, 0xE2C1, 0xE381, 0x2340, 0xE101, 0x21C0, 0x2080, 0xE041,
    0xA001, 0x60C0, 0x6180, 0xA141, 0x6300, 0xA3C1, 0xA281, 0x6240,
    0x6600, 0xA6C1, 0xA781, 0x6740, 0xA501, 0x65C0, 0x6480, 0xA441,
    0x6C00, 0xACC1, 0xAD81, 0x6D40, 0xAF01, 0x6FC0, 0x6E80, 0xAE41,
    0xAA01, 0x6AC0, 0x6B80, 0xAB41, 0x6900, 0xA9C1, 0xA881, 0x6840,
    0x7800, 0xB8C1, 0xB981, 0x7940, 0xBB01, 0x7BC0, 0x7A80, 0xBA41,
    0xBE01, 0x7EC0, 0x7F80, 0xBF41, 0x7D00, 0xBDC1, 0xBC81, 0x7C40,
    0xB401, 0x74C0, 0x7580, 0xB541, 0x7700, 0xB7C1, 0xB681, 0x7640,
    0x7200, 0xB2C1, 0xB381, 0x7340, 0xB101, 0x71C0, 0x7080, 0xB041,
    0x5000, 0x90C1, 0x9181, 0x5140, 0x9301, 0x53C0, 0x5280, 0x9241,
    0x9601, 0x56C0, 0x5780, 0x9741, 0x5500, 0x95C1, 0x9481, 0x5440,
    0x9C01, 0x5CC0, 0x5D80, 0x9D41, 0x5F00, 0x9FC1, 0x9E81, 0x5E40,
    0x5A00, 0x9AC1, 0x9B81, 0x5B40, 0x9901, 0x59C0, 0x5880, 0x9841,
    0x8801, 0x48C0, 0x4980, 0x8941, 0x4B00, 0x8BC1, 0x8A81, 0x4A40,
    0x4E00, 0x8EC1, 0x8F81, 0x4F40, 0x8D01, 0x4DC0, 0x4C80, 0x8C41,
    0x4400, 0x84C1, 0x8581, 0x4540, 0x8701, 0x47C0, 0x4680, 0x8641,
    0x8201, 0x42C0, 0x4380, 0x8341, 0x4100, 0x81C1, 0x8081, 0x4040]"

definition crc32_tab :: "u32 list" where
  "crc32_tab = [
    0x00000000, 0x77073096, 0xee0e612c, 0x990951ba, 0x076dc419, 0x706af48f,
    0xe963a535, 0x9e6495a3, 0x0edb8832, 0x79dcb8a4, 0xe0d5e91e, 0x97d2d988,
    0x09b64c2b, 0x7eb17cbd, 0xe7b82d07, 0x90bf1d91, 0x1db71064, 0x6ab020f2,
    0xf3b97148, 0x84be41de, 0x1adad47d, 0x6ddde4eb, 0xf4d4b551, 0x83d385c7,
    0x136c9856, 0x646ba8c0, 0xfd62f97a, 0x8a65c9ec, 0x14015c4f, 0x63066cd9,
    0xfa0f3d63, 0x8d080df5, 0x3b6e20c8, 0x4c69105e, 0xd56041e4, 0xa2677172,
    0x3c03e4d1, 0x4b04d447, 0xd20d85fd, 0xa50ab56b, 0x35b5a8fa, 0x42b2986c,
    0xdbbbc9d6, 0xacbcf940, 0x32d86ce3, 0x45df5c75, 0xdcd60dcf, 0xabd13d59,
    0x26d930ac, 0x51de003a, 0xc8d75180, 0xbfd06116, 0x21b4f4b5, 0x56b3c423,
    0xcfba9599, 0xb8bda50f, 0x2802b89e, 0x5f058808, 0xc60cd9b2, 0xb10be924,
    0x2f6f7c87, 0x58684c11, 0xc1611dab, 0xb6662d3d, 0x76dc4190, 0x01db7106,
    0x98d220bc, 0xefd5102a, 0x71b18589, 0x06b6b51f, 0x9fbfe4a5, 0xe8b8d433,
    0x7807c9a2, 0x0f00f934, 0x9609a88e, 0xe10e9818, 0x7f6a0dbb, 0x086d3d2d,
    0x91646c97, 0xe6635c01, 0x6b6b51f4, 0x1c6c6162, 0x856530d8, 0xf262004e,
    0x6c0695ed, 0x1b01a57b, 0x8208f4c1, 0xf50fc457, 0x65b0d9c6, 0x12b7e950,
    0x8bbeb8ea, 0xfcb9887c, 0x62dd1ddf, 0x15da2d49, 0x8cd37cf3, 0xfbd44c65,
    0x4db26158, 0x3ab551ce, 0xa3bc0074, 0xd4bb30e2, 0x4adfa541, 0x3dd895d7,
    0xa4d1c46d, 0xd3d6f4fb, 0x4369e96a, 0x346ed9fc, 0xad678846, 0xda60b8d0,
    0x44042d73, 0x33031de5, 0xaa0a4c5f, 0xdd0d7cc9, 0x5005713c, 0x270241aa,
    0xbe0b1010, 0xc90c2086, 0x5768b525, 0x206f85b3, 0xb966d409, 0xce61e49f,
    0x5edef90e, 0x29d9c998, 0xb0d09822, 0xc7d7a8b4, 0x59b33d17, 0x2eb40d81,
    0xb7bd5c3b, 0xc0ba6cad, 0xedb88320, 0x9abfb3b6, 0x03b6e20c, 0x74b1d29a,
    0xead54739, 0x9dd277af, 0x04db2615, 0x73dc1683, 0xe3630b12, 0x94643b84,
    0x0d6d6a3e, 0x7a6a5aa8, 0xe40ecf0b, 0x9309ff9d, 0x0a00ae27, 0x7d079eb1,
    0xf00f9344, 0x8708a3d2, 0x1e01f268, 0x6906c2fe, 0xf762575d, 0x806567cb,
    0x196c3671, 0x6e6b06e7, 0xfed41b76, 0x89d32be0, 0x10da7a5a, 0x67dd4acc,
    0xf9b9df6f, 0x8ebeeff9, 0x17b7be43, 0x60b08ed5, 0xd6d6a3e8, 0xa1d1937e,
    0x38d8c2c4, 0x4fdff252, 0xd1bb67f1, 0xa6bc5767, 0x3fb506dd, 0x48b2364b,
    0xd80d2bda, 0xaf0a1b4c, 0x36034af6, 0x41047a60, 0xdf60efc3, 0xa867df55,
    0x316e8eef, 0x4669be79, 0xcb61b38c, 0xbc66831a, 0x256fd2a0, 0x5268e236,
    0xcc0c7795, 0xbb0b4703, 0x220216b9, 0x5505262f, 0xc5ba3bbe, 0xb2bd0b28,
    0x2bb45a92, 0x5cb36a04, 0xc2d7ffa7, 0xb5d0cf31, 0x2cd99e8b, 0x5bdeae1d,
    0x9b64c2b0, 0xec63f226, 0x756aa39c, 0x026d930a, 0x9c0906a9, 0xeb0e363f,
    0x72076785, 0x05005713, 0x95bf4a82, 0xe2b87a14, 0x7bb12bae, 0x0cb61b38,
    0x92d28e9b, 0xe5d5be0d, 0x7cdcefb7, 0x0bdbdf21, 0x86d3d2d4, 0xf1d4e242,
    0x68ddb3f8, 0x1fda836e, 0x81be16cd, 0xf6b9265b, 0x6fb077e1, 0x18b74777,
    0x88085ae6, 0xff0f6a70, 0x66063bca, 0x11010b5c, 0x8f659eff, 0xf862ae69,
    0x616bffd3, 0x166ccf45, 0xa00ae278, 0xd70dd2ee, 0x4e048354, 0x3903b3c2,
    0xa7672661, 0xd06016f7, 0x4969474d, 0x3e6e77db, 0xaed16a4a, 0xd9d65adc,
    0x40df0b66, 0x37d83bf0, 0xa9bcae53, 0xdebb9ec5, 0x47b2cf7f, 0x30b5ffe9,
    0xbdbdf21c, 0xcabac28a, 0x53b39330, 0x24b4a3a6, 0xbad03605, 0xcdd70693,
    0x54de5729, 0x23d967bf, 0xb3667a2e, 0xc4614ab8, 0x5d681b02, 0x2a6f2b94,
    0xb40bbe37, 0xc30c8ea1, 0x5a05df1b, 0x2d02ef8d]"

text \<open>
  The loop \<open>while (size--)\<close> of both functions; the buffer is the list of its
  \<open>size\<close> bytes.
\<close>

definition crc16_step :: "u16 \<Rightarrow> u8 \<Rightarrow> u16" where
  "crc16_step crc p = (crc16_tab ! unat ((crc XOR ucast p) AND 0xFF)) XOR drop_bit 8 crc"

definition ext4_crc16 :: "u16 \<Rightarrow> u8 list \<Rightarrow> u16" where
  "ext4_crc16 crc_in buf = foldl crc16_step crc_in buf"

definition crc32_step :: "u32 \<Rightarrow> u8 \<Rightarrow> u32" where
  "crc32_step crc p = (crc32_tab ! unat ((crc XOR ucast p) AND 0xFF)) XOR drop_bit 8 crc"

definition sparse_crc32 :: "u32 \<Rightarrow> u8 list \<Rightarrow> u32" where
  "sparse_crc32 crc_in buf = foldl crc32_step (crc_in XOR 0xFFFFFFFF) buf XOR 0xFFFFFFFF"

section \<open>The bit-serial reference\<close>

text \<open>
  One clock of the reflected shift register with feedback polynomial \<open>poly\<close>: the
  message bit is added to the outgoing low bit, and when the sum is one the
  polynomial is added to the shifted register.
\<close>

definition lfsr_bit :: "'a::len word \<Rightarrow> 'a word \<Rightarrow> bool \<Rightarrow> 'a word" where
  "lfsr_bit poly r b = (if bit r 0 \<noteq> b then drop_bit 1 r XOR poly else drop_bit 1 r)"

lemma xor_right_cancel: "x XOR z = y XOR z \<Longrightarrow> x = (y :: 'a::len word)"
proof (rule bit_eqI)
  fix n assume "x XOR z = y XOR z"
  then have "bit (x XOR z) n = bit (y XOR z) n" by simp
  then show "bit x n = bit y n" by (auto simp: bit_simps)
qed

lemma xor_left_cancel: "z XOR x = z XOR y \<Longrightarrow> x = (y :: 'a::len word)"
  by (rule xor_right_cancel [of _ z]) (simp add: xor.commute)

text \<open>A byte enters low bit first.\<close>

definition byte_bits :: "u8 \<Rightarrow> bool list" where
  "byte_bits p = map (bit p) [0..<8]"

definition lfsr_bytes :: "'a::len word \<Rightarrow> 'a word \<Rightarrow> u8 list \<Rightarrow> 'a word" where
  "lfsr_bytes poly r buf = foldl (lfsr_bit poly) r (concat (map byte_bits buf))"

abbreviation lfsr_shift :: "'a::len word \<Rightarrow> 'a word \<Rightarrow> 'a word" where
  "lfsr_shift poly r \<equiv> lfsr_bit poly r False"

lemma lfsr_shift_0 [simp]: "lfsr_shift poly 0 = 0"
  by (simp add: lfsr_bit_def)

lemma lfsr_shift_xor:
  "lfsr_shift poly (x XOR y) = lfsr_shift poly x XOR lfsr_shift poly y"
  by (auto simp: lfsr_bit_def bit_xor_iff bit_simps intro!: bit_eqI)

lemma lfsr_shifts_xor:
  "(lfsr_shift poly ^^ n) (x XOR y) = (lfsr_shift poly ^^ n) x XOR (lfsr_shift poly ^^ n) y"
  by (induction n arbitrary: x y) (simp_all add: lfsr_shift_xor)

lemma lfsr_shifts_clear:
  "(\<And>k. k < n \<Longrightarrow> \<not> bit r k) \<Longrightarrow> (lfsr_shift poly ^^ n) r = drop_bit n r"
proof (induction n)
  case (Suc n)
  then have "(lfsr_shift poly ^^ n) r = drop_bit n r" by simp
  with Suc.prems show ?case
    by (auto simp: lfsr_bit_def bit_simps intro!: bit_eqI)
qed simp

text \<open>Feeding a bit is shifting after adding it to the low end of the register.\<close>

lemma lfsr_bit_as_shift: "lfsr_bit poly r b = lfsr_shift poly (r XOR of_bool b)"
  by (cases b) (auto simp: lfsr_bit_def bit_simps intro!: bit_eqI)

lemma take_bit_Suc_xor:
  "take_bit (Suc n) w = take_bit n w XOR push_bit n (of_bool (bit (w :: 'a::len word) n))"
  by (auto simp: bit_simps less_Suc_eq intro!: bit_eqI)

lemma lfsr_feed:
  fixes w r poly :: "'a::len word"
  assumes "n \<le> LENGTH('a)"
  shows "foldl (lfsr_bit poly) r (map (bit w) [0..<n])
    = (lfsr_shift poly ^^ n) (r XOR take_bit n w)"
  using assms
proof (induction n)
  case (Suc n)
  let ?b = "of_bool (bit w n) :: 'a word"
  have "(lfsr_shift poly ^^ n) (push_bit n ?b) = drop_bit n (push_bit n ?b)"
    by (rule lfsr_shifts_clear) (simp add: bit_simps)
  also have "\<dots> = ?b"
    using Suc.prems by (auto simp: bit_simps intro!: bit_eqI)
  finally have shifted: "(lfsr_shift poly ^^ n) (push_bit n ?b) = ?b" .
  have "foldl (lfsr_bit poly) r (map (bit w) [0..<Suc n])
      = lfsr_bit poly ((lfsr_shift poly ^^ n) (r XOR take_bit n w)) (bit w n)"
    using Suc by simp
  also have "\<dots> = lfsr_shift poly ((lfsr_shift poly ^^ n) (r XOR take_bit n w) XOR ?b)"
    by (rule lfsr_bit_as_shift)
  also have "\<dots> = lfsr_shift poly ((lfsr_shift poly ^^ n) (r XOR take_bit (Suc n) w))"
    using shifted by (simp add: take_bit_Suc_xor lfsr_shifts_xor xor.assoc)
  finally show ?case by simp
qed simp

text \<open>The low byte of a register as an index, and what is left above it.\<close>

lemma low_byte_lt: "unat (x AND 0xFF :: 'a::len word) < 256"
proof -
  have "unat (x AND 0xFF) \<le> unat (0xFF :: 'a word)"
    by (metis word_and_le1 word_le_nat_alt)
  also have "\<dots> \<le> 255" by (simp add: unat_numeral)
  finally show ?thesis by simp
qed

lemma low_byte_mask: "x AND 0xFF = take_bit 8 (x :: 'a::len word)"
  by (simp add: take_bit_eq_mask mask_eq_exp_minus_1)

section \<open>What a feedback table has to satisfy\<close>

locale table_crc =
  fixes poly :: "'a::len word" and tab :: "'a word list"
  assumes width: "8 \<le> LENGTH('a)"
    and tab_entry: "i < 256 \<Longrightarrow> tab ! i = (lfsr_shift poly ^^ 8) (of_nat i)"
    and poly_top: "bit poly (LENGTH('a) - 1)"
begin

definition tstep :: "'a word \<Rightarrow> u8 \<Rightarrow> 'a word" where
  "tstep crc p = (tab ! unat ((crc XOR ucast p) AND 0xFF)) XOR drop_bit 8 crc"

lemma lfsr_byte:
  "foldl (lfsr_bit poly) r (byte_bits p) = (lfsr_shift poly ^^ 8) (r XOR ucast p)"
proof -
  have "byte_bits p = map (bit (ucast p :: 'a word)) [0..<8]"
    using width by (auto simp: byte_bits_def bit_simps)
  then have "foldl (lfsr_bit poly) r (byte_bits p)
      = (lfsr_shift poly ^^ 8) (r XOR take_bit 8 (ucast p :: 'a word))"
    using lfsr_feed [OF width] by simp
  also have "take_bit 8 (ucast p :: 'a word) = ucast p"
    by (rule bit_eqI) (auto simp: bit_simps dest: bit_imp_le_length)
  finally show ?thesis .
qed

text \<open>One table lookup advances the register by eight clocks.\<close>

lemma tstep_lfsr: "tstep r p = foldl (lfsr_bit poly) r (byte_bits p)"
proof -
  let ?x = "r XOR ucast p :: 'a word"
  let ?lo = "?x AND 0xFF" and ?hi = "push_bit 8 (drop_bit 8 r)"
  have idx: "(of_nat (unat ?lo) :: 'a word) = ?lo" by simp
  have "tab ! unat ?lo = (lfsr_shift poly ^^ 8) (of_nat (unat ?lo))"
    by (rule tab_entry [OF low_byte_lt])
  then have lo: "(lfsr_shift poly ^^ 8) ?lo = tab ! unat ?lo"
    by (simp only: idx)
  have "(lfsr_shift poly ^^ 8) ?hi = drop_bit 8 ?hi"
    by (rule lfsr_shifts_clear) (simp add: bit_simps)
  also have "\<dots> = drop_bit 8 r"
    by (rule bit_eqI) (auto simp: bit_simps dest: bit_imp_le_length)
  finally have hi: "(lfsr_shift poly ^^ 8) ?hi = drop_bit 8 r" .
  have "?x = ?lo XOR ?hi"
    unfolding low_byte_mask
    by (rule bit_eqI) (auto simp: bit_simps dest: bit_imp_le_length)
  then have "(lfsr_shift poly ^^ 8) ?x = (lfsr_shift poly ^^ 8) (?lo XOR ?hi)"
    by (rule arg_cong)
  also have "\<dots> = tab ! unat ?lo XOR drop_bit 8 r"
    by (simp only: lfsr_shifts_xor lo hi)
  finally show ?thesis by (simp only: tstep_def lfsr_byte)
qed

lemma foldl_tstep: "foldl tstep r buf = lfsr_bytes poly r buf"
  by (induction buf arbitrary: r) (simp_all add: lfsr_bytes_def tstep_lfsr)

text \<open>
  The register is never confused: clocking is injective because the polynomial has its
  top bit, so neither two registers nor two input bytes collide in one step.
\<close>

lemma lfsr_shift_eq_0: "lfsr_shift poly r = 0 \<Longrightarrow> r = 0"
proof -
  assume z: "lfsr_shift poly r = 0"
  have "\<not> bit r 0"
  proof
    assume "bit r 0"
    then have "bit (lfsr_shift poly r) (LENGTH('a) - 1)"
      using poly_top by (auto simp: lfsr_bit_def bit_simps dest: bit_imp_le_length)
    with z show False by simp
  qed
  then have "drop_bit 1 r = 0" using z by (simp add: lfsr_bit_def)
  then have "\<not> bit r (Suc k)" for k
    by (metis bit_0_eq bit_drop_bit_eq bot_apply bot_bool_def comp_apply plus_1_eq_Suc)
  with \<open>\<not> bit r 0\<close> have "\<not> bit r k" for k by (cases k) auto
  then show "r = 0" by (intro bit_eqI) simp
qed

lemma lfsr_shifts_eq_0: "(lfsr_shift poly ^^ n) r = 0 \<Longrightarrow> r = 0"
  by (induction n arbitrary: r) (auto dest: lfsr_shift_eq_0)

lemma tstep_inj: "tstep r p = tstep r' p' \<Longrightarrow> r XOR ucast p = r' XOR ucast p'"
proof -
  assume "tstep r p = tstep r' p'"
  then have "(lfsr_shift poly ^^ 8) ((r XOR ucast p) XOR (r' XOR ucast p')) = 0"
    unfolding tstep_lfsr lfsr_byte lfsr_shifts_xor by simp
  then have "(r XOR ucast p) XOR (r' XOR ucast p') = 0"
    by (rule lfsr_shifts_eq_0)
  then have "(r XOR ucast p) XOR (r' XOR ucast p') = (r' XOR ucast p') XOR (r' XOR ucast p')"
    by simp
  then show ?thesis by (rule xor_right_cancel)
qed

lemma ucast_byte_inj: "(ucast (p :: u8) :: 'a word) = ucast p' \<Longrightarrow> p = p'"
proof (rule bit_eqI)
  fix n assume eq: "(ucast p :: 'a word) = ucast p'" and "possible_bit TYPE(8 word) n"
  then have "n < LENGTH('a)" using width by simp
  moreover have "bit (ucast p :: 'a word) n = bit (ucast p' :: 'a word) n"
    using eq by simp
  ultimately show "bit p n = bit p' n"
    by (simp add: bit_simps)
qed

lemma foldl_tstep_inj: "foldl tstep r buf = foldl tstep r' buf \<Longrightarrow> r = r'"
proof (induction buf arbitrary: r r')
  case (Cons p buf)
  then have "tstep r p = tstep r' p" by simp
  then have "r XOR ucast p = r' XOR ucast p" by (rule tstep_inj)
  then show ?case by (rule xor_right_cancel)
qed simp

lemma foldl_tstep_one_byte:
  assumes "p \<noteq> p'"
  shows "foldl tstep r (xs @ p # ys) \<noteq> foldl tstep r (xs @ p' # ys)"
proof
  let ?s = "foldl tstep r xs"
  assume "foldl tstep r (xs @ p # ys) = foldl tstep r (xs @ p' # ys)"
  then have "tstep ?s p = tstep ?s p'"
    using foldl_tstep_inj [where buf = ys] by simp
  then have "?s XOR ucast p = ?s XOR ucast p'" by (rule tstep_inj)
  then have "(ucast p :: 'a word) = ucast p'" by (rule xor_left_cancel)
  then have "p = p'" by (rule ucast_byte_inj)
  with assms show False by simp
qed

end

section \<open>The two tables of the source\<close>

text \<open>
  Feedback is linear, so a table is determined by its entries at the powers of two:
  \<open>span es\<close> lists every sum of the feedbacks \<open>es\<close> (highest index first) in the order of
  the table.
\<close>

fun span :: "'a::len word list \<Rightarrow> 'a word list" where
  "span [] = [0]"
| "span (e # es) = span es @ map (\<lambda>x. e XOR x) (span es)"

lemma length_span: "length (span es) = 2 ^ length es"
  by (induction es) simp_all

lemma span_nth:
  assumes "n \<le> LENGTH('a)" "i < 2 ^ n"
  shows "span (map (\<lambda>k. (lfsr_shift poly ^^ 8) (2 ^ k)) (rev [0..<n])) ! i
    = (lfsr_shift poly ^^ 8) (of_nat i :: 'a::len word)"
  using assms
proof (induction n arbitrary: i)
  case 0
  then show ?case by (simp add: lfsr_shifts_clear)
next
  case (Suc n)
  let ?T = "span (map (\<lambda>k. (lfsr_shift poly ^^ 8) (2 ^ k)) (rev [0..<n]))"
  have len: "length ?T = 2 ^ n" by (simp add: length_span)
  show ?case
  proof (cases "i < 2 ^ n")
    case True
    with Suc len show ?thesis by (simp add: nth_append)
  next
    case False
    define j where "j = i - 2 ^ n"
    have i: "i = 2 ^ n + j" and j: "j < 2 ^ n"
      using False Suc.prems(2) by (auto simp: j_def)
    have bits: "\<not> bit (of_nat j :: 'a word) n"
      using j by (simp add: bit_of_nat_iff bit_iff_odd [where 'a = nat])
    have "(2 ^ n :: 'a word) AND of_nat j = 0"
      using bits by (auto simp: bit_simps intro!: bit_eqI)
    then have sum: "(of_nat i :: 'a word) = 2 ^ n XOR of_nat j"
      by (simp add: i disjunctive_add_eq_xor)
    have "map (\<lambda>k. (lfsr_shift poly ^^ 8) (2 ^ k)) (rev [0..<Suc n])
        = (lfsr_shift poly ^^ 8) (2 ^ n) # map (\<lambda>k. (lfsr_shift poly ^^ 8) (2 ^ k)) (rev [0..<n])"
      by simp
    then have "span (map (\<lambda>k. (lfsr_shift poly ^^ 8) (2 ^ k)) (rev [0..<Suc n])) ! i
        = (lfsr_shift poly ^^ 8) (2 ^ n) XOR ?T ! j"
      using len j by (simp add: i nth_append)
    also have "?T ! j = (lfsr_shift poly ^^ 8) (of_nat j)"
      using Suc.IH [OF _ j] Suc.prems(1) by simp
    finally show ?thesis by (simp only: sum lfsr_shifts_xor)
  qed
qed

lemma lfsr_shift8:
  "(lfsr_shift poly ^^ 8) i = lfsr_shift poly (lfsr_shift poly (lfsr_shift poly (lfsr_shift poly
     (lfsr_shift poly (lfsr_shift poly (lfsr_shift poly (lfsr_shift poly i)))))))"
  by (simp add: numeral_eq_Suc)

lemma tab_entry_span:
  assumes "tab = span (map (\<lambda>k. (lfsr_shift poly ^^ 8) (2 ^ k)) (rev [0..<8]))"
    and "i < 256" "8 \<le> LENGTH('a)"
  shows "tab ! i = (lfsr_shift poly ^^ 8) (of_nat i :: 'a::len word)"
  using assms span_nth [of 8 i poly] by simp

lemma crc16_powers:
  "map (\<lambda>k. (lfsr_shift 0xA001 ^^ 8) (2 ^ k)) (rev [0..<8])
    = [0xA001, 0xF001, 0xD801, 0xCC01, 0xC601, 0xC301, 0xC181, 0xC0C1 :: u16]"
  unfolding lfsr_shift8 by (simp add: upt_rec lfsr_bit_def)

lemma crc16_span: "crc16_tab = span (map (\<lambda>k. (lfsr_shift 0xA001 ^^ 8) (2 ^ k)) (rev [0..<8]))"
  unfolding crc16_powers crc16_tab_def by simp

lemma crc32_powers:
  "map (\<lambda>k. (lfsr_shift 0xEDB88320 ^^ 8) (2 ^ k)) (rev [0..<8])
    = [0xEDB88320, 0x76DC4190, 0x3B6E20C8, 0x1DB71064, 0x0EDB8832, 0x076DC419, 0xEE0E612C,
       0x77073096 :: u32]"
  unfolding lfsr_shift8 by (simp add: upt_rec lfsr_bit_def)

lemma crc32_span: "crc32_tab = span (map (\<lambda>k. (lfsr_shift 0xEDB88320 ^^ 8) (2 ^ k)) (rev [0..<8]))"
  unfolding crc32_powers crc32_tab_def by simp

interpretation c16: table_crc "0xA001" crc16_tab
proof unfold_locales
  fix i :: nat assume "i < 256"
  then show "crc16_tab ! i = (lfsr_shift 0xA001 ^^ 8) (of_nat i)"
    by (intro tab_entry_span crc16_span) simp_all
qed simp_all

interpretation c32: table_crc "0xEDB88320" crc32_tab
proof unfold_locales
  fix i :: nat assume "i < 256"
  then show "crc32_tab ! i = (lfsr_shift 0xEDB88320 ^^ 8) (of_nat i)"
    by (intro tab_entry_span crc32_span) simp_all
qed simp_all

lemma crc16_step_tstep: "crc16_step = c16.tstep"
  by (intro ext) (simp add: crc16_step_def c16.tstep_def)

lemma crc32_step_tstep: "crc32_step = c32.tstep"
  by (intro ext) (simp add: crc32_step_def c32.tstep_def)

lemma ext4_crc16_append: "ext4_crc16 c (xs @ ys) = ext4_crc16 (ext4_crc16 c xs) ys"
  by (simp add: ext4_crc16_def)

lemma sparse_crc32_append: "sparse_crc32 c (xs @ ys) = sparse_crc32 (sparse_crc32 c xs) ys"
  by (simp add: sparse_crc32_def xor.assoc)

lemma sparse_crc32_Nil [simp]: "sparse_crc32 c [] = c"
  by (simp add: sparse_crc32_def xor.assoc)

section \<open>Properties\<close>

lemma ext4_crc16_lfsr: "ext4_crc16 c buf = lfsr_bytes 0xA001 c buf"
  by (simp add: ext4_crc16_def crc16_step_tstep c16.foldl_tstep)

lemma sparse_crc32_lfsr:
  "sparse_crc32 c buf = lfsr_bytes 0xEDB88320 (c XOR 0xFFFFFFFF) buf XOR 0xFFFFFFFF"
  by (simp add: sparse_crc32_def crc32_step_tstep c32.foldl_tstep)

text \<open>C18: the 256-entry table of \<open>ext4_crc16\<close> and its byte loop compute exactly the
  bit-serial CRC-16 register with the reflected polynomial 0xA001, for every start value
  and every buffer.\<close>

theorem crc16_table_is_bit_serial: "ext4_crc16 crc_in buf = lfsr_bytes 0xA001 crc_in buf"
  by (rule ext4_crc16_lfsr)

text \<open>C19: \<open>sparse_crc32\<close> computes the bit-serial CRC-32 with the reflected 802.3 polynomial
  0xEDB88320, inverted on entry and on exit, and a checksum continued from an earlier one
  is the checksum of the two buffers in sequence, as the chunk writers rely on.\<close>

theorem crc32_table_is_bit_serial:
  "sparse_crc32 crc_in buf = lfsr_bytes 0xEDB88320 (crc_in XOR 0xFFFFFFFF) buf XOR 0xFFFFFFFF
   \<and> sparse_crc32 (sparse_crc32 crc_in buf) more = sparse_crc32 crc_in (buf @ more)"
  using sparse_crc32_lfsr sparse_crc32_append [symmetric] by blast

text \<open>C20: damage to a single byte never goes unnoticed: two buffers that differ in exactly one
  byte have different CRC-16 and different CRC-32 values.\<close>

theorem crc_detects_one_byte:
  assumes "p \<noteq> p'"
  shows "ext4_crc16 c (xs @ p # ys) \<noteq> ext4_crc16 c (xs @ p' # ys)
    \<and> sparse_crc32 d (xs @ p # ys) \<noteq> sparse_crc32 d (xs @ p' # ys)"
proof
  show "ext4_crc16 c (xs @ p # ys) \<noteq> ext4_crc16 c (xs @ p' # ys)"
    using c16.foldl_tstep_one_byte [OF assms] by (simp only: ext4_crc16_def crc16_step_tstep) blast
  show "sparse_crc32 d (xs @ p # ys) \<noteq> sparse_crc32 d (xs @ p' # ys)"
    unfolding sparse_crc32_def crc32_step_tstep
    using c32.foldl_tstep_one_byte [OF assms] by (blast dest: xor_right_cancel)
qed

theorem crc_detects_one_byte_witness:
  "ext4_crc16 0xFFFF ([1] @ 2 # [3]) \<noteq> ext4_crc16 0xFFFF ([1] @ 7 # [3])
   \<and> sparse_crc32 0 ([1] @ 2 # [3]) \<noteq> sparse_crc32 0 ([1] @ 7 # [3])"
  by (rule crc_detects_one_byte) simp

end
