(* ===== verification/Bitmap.thy ===== *)
theory Bitmap
  imports Ext4_Prelude
begin

text \<open>
  The bitmap operations of \<^verbatim>\<open>src/allocate.c\<close> and \<^verbatim>\<open>src/ext4_utils.c\<close>. A bitmap is the byte
  array \<open>bm\<close> it lives in together with the offset \<open>base\<close> of its first byte, because a block
  group keeps its block bitmap and its inode bitmap in one allocation. An access past the
  end of the array is a \<open>Fault\<close>. The \<open>_spec\<close>
  lemmas read the array as the predicate \<open>bm_bit\<close> of its set bits and state what every
  operation does to it.
\<close>

section \<open>The code\<close>

text \<open>\<open>1 << (bit % 8)\<close> at byte width.\<close>

definition bit_mask :: "u32 \<Rightarrow> u8" where
  "bit_mask b = push_bit (unat (b mod 8)) 1"

definition byte_index :: "nat \<Rightarrow> u32 \<Rightarrow> nat" where
  "byte_index base b = base + unat (b div 8)"

definition bitmap_get_bit :: "u8 list \<Rightarrow> nat \<Rightarrow> u32 \<Rightarrow> bool res" where
  "bitmap_get_bit bm base b = rbind (rd bm (byte_index base b)) (\<lambda>v. Inr (v AND bit_mask b \<noteq> 0))"

definition bitmap_clear_bit :: "u8 list \<Rightarrow> nat \<Rightarrow> u32 \<Rightarrow> u8 list res" where
  "bitmap_clear_bit bm base b = rbind (rd bm (byte_index base b)) (\<lambda>v.
     wr bm (byte_index base b) (v AND NOT (bit_mask b)))"

text \<open>Returns whether the bit was set before, and the array.\<close>

definition bitmap_set_bit :: "u8 list \<Rightarrow> nat \<Rightarrow> u32 \<Rightarrow> (bool \<times> u8 list) res" where
  "bitmap_set_bit bm base b = rbind (rd bm (byte_index base b)) (\<lambda>v.
     if v AND bit_mask b \<noteq> 0 then Inr (True, bm)
     else rbind (wr bm (byte_index base b) (v OR bit_mask b)) (\<lambda>bm'. Inr (False, bm')))"

text \<open>Returns the byte that was there before; the byte is overwritten even when it was not zero.\<close>

definition bitmap_set_8_bits :: "u8 list \<Rightarrow> nat \<Rightarrow> u32 \<Rightarrow> (u8 \<times> u8 list) res" where
  "bitmap_set_8_bits bm base b = rbind (rd bm (byte_index base b)) (\<lambda>ret.
     rbind (wr bm (byte_index base b) 0xFF) (\<lambda>bm'. Inr (ret, bm')))"

section \<open>Bits of a byte array\<close>

text \<open>Bit \<open>k\<close> of the array, counted from its first byte; false past the end.\<close>

definition bm_bit :: "u8 list \<Rightarrow> nat \<Rightarrow> bool" where
  "bm_bit bm k \<longleftrightarrow> k div 8 < length bm \<and> bit (bm ! (k div 8)) (k mod 8)"

lemma bit_bit_mask [bitmap_simps]: "bit (bit_mask b) k \<longleftrightarrow> k = unat b mod 8"
proof -
  have "unat (b mod 8) = unat b mod 8" by (simp add: unat_mod)
  then show ?thesis by (auto simp: bit_mask_def bit_simps)
qed

lemma and_bit_mask [bitmap_simps]: "v AND bit_mask b = 0 \<longleftrightarrow> \<not> bit v (unat b mod 8)"
proof
  assume "v AND bit_mask b = 0"
  then have "\<not> bit (v AND bit_mask b) (unat b mod 8)" by simp
  then show "\<not> bit v (unat b mod 8)" by (simp add: bit_simps bit_bit_mask)
next
  assume "\<not> bit v (unat b mod 8)"
  then show "v AND bit_mask b = 0" by (intro bit_word_eqI) (auto simp: bit_simps bit_bit_mask)
qed

lemma byte_index_div [bitmap_simps]: "byte_index base b = (8 * base + unat b) div 8"
  by (simp add: byte_index_def unat_div)

lemma bm_bit_update:
  assumes "i < length bm"
  shows "bm_bit (bm[i := v]) k \<longleftrightarrow> (if k div 8 = i then bit v (k mod 8) else bm_bit bm k)"
  using assms by (auto simp: bm_bit_def nth_list_update)

text \<open>To describe an array after one byte changed, describe that byte and the rest apart.\<close>

lemma bm_bit_byte_update:
  assumes "i < length bm"
    and "\<And>m. m < 8 \<Longrightarrow> bit v m = f (8 * i + m)"
    and "\<And>k. k div 8 \<noteq> i \<Longrightarrow> f k = bm_bit bm k"
  shows "bm_bit (bm[i := v]) = f"
proof
  fix k :: nat
  show "bm_bit (bm[i := v]) k = f k"
  proof (cases "k div 8 = i")
    case True
    then have k: "k = 8 * i + k mod 8" by (metis mult_div_mod_eq)
    have "bit v (k mod 8) = f (8 * i + k mod 8)" by (rule assms(2)) simp
    with True k assms(1) show ?thesis by (simp add: bm_bit_update)
  next
    case False
    with assms(1,3) show ?thesis by (simp add: bm_bit_update)
  qed
qed

lemma bm_bit_byte: "i < length bm \<Longrightarrow> m < 8 \<Longrightarrow> bm_bit bm (8 * i + m) = bit (bm ! i) m"
  by (simp add: bm_bit_def)

section \<open>What each operation does to the bits\<close>

lemma bitmap_get_bit_spec:
  assumes "8 * base + unat b < 8 * length bm"
  shows "bitmap_get_bit bm base b = Inr (bm_bit bm (8 * base + unat b))"
  using assms by (auto simp: bitmap_get_bit_def bm_bit_def bitmap_simps)

text \<open>The byte and the bit in the byte that a bit number falls in.\<close>

lemma bit_position:
  assumes "8 * base + unat b < 8 * length bm"
  obtains q m where "8 * base + unat b = 8 * q + m" "m < 8" "q < length bm"
    "byte_index base b = q" "unat b mod 8 = m"
proof
  let ?k = "8 * base + unat b"
  show "?k = 8 * (?k div 8) + unat b mod 8" by simp
  show "?k div 8 < length bm" using assms by auto
qed (simp_all add: byte_index_div)

lemma bitmap_clear_bit_spec:
  assumes "8 * base + unat b < 8 * length bm"
  shows "\<exists>bm'. bitmap_clear_bit bm base b = Inr bm' \<and> length bm' = length bm
    \<and> bm_bit bm' = (bm_bit bm)(8 * base + unat b := False)"
  using assms
proof (rule bit_position)
  fix q m assume pos: "8 * base + unat b = 8 * q + m" "m < 8" "q < length bm"
    "byte_index base b = q" "unat b mod 8 = m"
  have "bm_bit (bm[q := bm ! q AND NOT (bit_mask b)]) = (bm_bit bm)(8 * q + m := False)"
    using pos by (intro bm_bit_byte_update) (auto simp: bit_simps bm_bit_byte bit_bit_mask)
  with pos show ?thesis by (auto simp: bitmap_clear_bit_def)
qed

lemma bitmap_set_bit_spec:
  assumes "8 * base + unat b < 8 * length bm"
  shows "\<exists>bm'. bitmap_set_bit bm base b = Inr (bm_bit bm (8 * base + unat b), bm')
    \<and> length bm' = length bm \<and> bm_bit bm' = (bm_bit bm)(8 * base + unat b := True)"
  using assms
proof (rule bit_position)
  fix q m assume pos: "8 * base + unat b = 8 * q + m" "m < 8" "q < length bm"
    "byte_index base b = q" "unat b mod 8 = m"
  have "bm_bit (bm[q := bm ! q OR bit_mask b]) = (bm_bit bm)(8 * q + m := True)"
    using pos by (intro bm_bit_byte_update) (auto simp: bit_simps bm_bit_byte bit_bit_mask)
  moreover have "bm_bit bm (8 * q + m) = bit (bm ! q) m"
    using pos by (simp add: bm_bit_byte)
  ultimately show ?thesis
    using pos by (auto simp: bitmap_set_bit_def and_bit_mask fun_upd_idem)
qed

lemma byte_0xFF: "(0xFF :: u8) = mask 8"
  by (simp add: mask_eq_exp_minus_1)

lemma byte_eq_0_iff: "v = 0 \<longleftrightarrow> (\<forall>k < 8. \<not> bit (v :: u8) k)"
  by (auto intro: bit_word_eqI)

lemma bitmap_set_8_bits_spec:
  assumes "8 * base + unat b + 8 \<le> 8 * length bm" "unat b mod 8 = 0"
  shows "\<exists>v bm'. bitmap_set_8_bits bm base b = Inr (v, bm') \<and> length bm' = length bm
    \<and> (v = 0 \<longleftrightarrow> (\<forall>j < 8. \<not> bm_bit bm (8 * base + unat b + j)))
    \<and> bm_bit bm' = (\<lambda>k. if 8 * base + unat b \<le> k \<and> k < 8 * base + unat b + 8 then True
         else bm_bit bm k)"
proof -
  let ?k = "8 * base + unat b"
  obtain q where q: "?k = 8 * q" "byte_index base b = q"
    using assms(2) by (metis byte_index_div dvd_add dvd_def mod_0_imp_dvd dvd_triv_left
        nonzero_mult_div_cancel_left zero_neq_numeral)
  have i: "q < length bm" using assms(1) q by simp
  have v: "bm ! q = 0 \<longleftrightarrow> (\<forall>j < 8. \<not> bm_bit bm (8 * q + j))"
    using i by (simp add: byte_eq_0_iff bm_bit_byte)
  have "bm_bit (bm[q := 0xFF])
      = (\<lambda>k. if 8 * q \<le> k \<and> k < 8 * q + 8 then True else bm_bit bm k)"
    unfolding byte_0xFF using i by (intro bm_bit_byte_update) (auto simp: bit_mask_iff)
  then show ?thesis
    using i v q by (auto simp: bitmap_set_8_bits_def)
qed

end
