(* ===== verification/Fs_Geometry.thy ===== *)
theory Fs_Geometry
  imports Ext4_Prelude
begin

text \<open>
  The parameters of the file system and the layout derived from them:
  \<^item> \<open>fs_info\<close> is \<^verbatim>\<open>struct fs_info\<close> (\<^verbatim>\<open>ext4_sb.h\<close>), \<open>fs_geom\<close> the numeric part of
    \<^verbatim>\<open>struct fs_aux_info\<close> (\<^verbatim>\<open>ext4_utils.h\<close>);
  \<^item> \<open>is_power_of\<close>, \<open>ext4_bg_has_super_block\<close> and \<open>ext4_init_fs_aux_info\<close> are from
    \<^verbatim>\<open>ext4_utils.c\<close>; the \<open>compute_\<close> functions and \<open>fill_in_params\<close> (the defaults chosen at the
    start of \<open>make_ext4fs_internal\<close>) from \<^verbatim>\<open>make_ext4fs.c\<close>.
  Signed 64-bit values (\<open>len\<close>) are kept as words and read with \<open>sint\<close>; where a signed
  sum overflows the C behaviour is undefined, a \<open>Fault\<close>.
\<close>

section \<open>State\<close>

record fs_info =
  len :: u64
  block_size :: u32
  blocks_per_group :: u32
  inodes_per_group :: u32
  inode_size :: u32
  inodes :: u32
  journal_blocks :: u32
  feat_ro_compat :: u16
  feat_compat :: u16
  feat_incompat :: u16
  bg_desc_reserve_blocks :: u32
  reserve_pcnt :: u32
  label :: "string option"
  no_journal :: u8
  uuid :: "u8 list"

record fs_geom =
  first_data_block :: u32
  len_blocks :: u64
  inode_table_blocks :: u32
  groups :: u32
  bg_desc_blocks :: u32
  default_i_flags :: u32
  blocks_per_ind :: u32
  blocks_per_dind :: u32
  blocks_per_tind :: u32

abbreviation EXT4_FEATURE_COMPAT_HAS_JOURNAL :: u16 where
  "EXT4_FEATURE_COMPAT_HAS_JOURNAL \<equiv> 0x0004"
abbreviation EXT4_FEATURE_COMPAT_EXT_ATTR :: u16 where
  "EXT4_FEATURE_COMPAT_EXT_ATTR \<equiv> 0x0008"
abbreviation EXT4_FEATURE_COMPAT_RESIZE_INODE :: u16 where
  "EXT4_FEATURE_COMPAT_RESIZE_INODE \<equiv> 0x0010"
abbreviation EXT4_FEATURE_RO_COMPAT_SPARSE_SUPER :: u16 where
  "EXT4_FEATURE_RO_COMPAT_SPARSE_SUPER \<equiv> 0x0001"
abbreviation EXT4_FEATURE_RO_COMPAT_LARGE_FILE :: u16 where
  "EXT4_FEATURE_RO_COMPAT_LARGE_FILE \<equiv> 0x0002"
abbreviation EXT4_FEATURE_RO_COMPAT_GDT_CSUM :: u16 where
  "EXT4_FEATURE_RO_COMPAT_GDT_CSUM \<equiv> 0x0010"
abbreviation EXT4_FEATURE_INCOMPAT_FILETYPE :: u16 where
  "EXT4_FEATURE_INCOMPAT_FILETYPE \<equiv> 0x0002"
abbreviation EXT4_FEATURE_INCOMPAT_EXTENTS :: u16 where
  "EXT4_FEATURE_INCOMPAT_EXTENTS \<equiv> 0x0040"
abbreviation EXT4_NOATIME_FL :: u32 where
  "EXT4_NOATIME_FL \<equiv> 0x00000080"

text \<open>\<open>sizeof(struct ext2_group_desc)\<close>: three 32-bit, four 16-bit, two 32-bit, two 16-bit fields.\<close>

abbreviation sizeof_ext2_group_desc :: u64 where
  "sizeof_ext2_group_desc \<equiv> 32"

section \<open>Backup superblocks\<close>

text \<open>
  The loop of \<open>is_power_of\<close>. It is called with \<open>b\<close> = 3, 5, 7 only; for \<open>b \<le> 1\<close> it would
  not end (or divide by zero).
\<close>

function is_power_of :: "int \<Rightarrow> int \<Rightarrow> bool res" where
  "is_power_of a b =
     (if a > b then
        (if b \<le> 1 then Inl Diverge
         else if a mod b \<noteq> 0 then Inr False
         else is_power_of (a div b) b)
      else Inr (a = b))"
  by pat_completeness auto
termination
proof (relation "measure (\<lambda>(a, b). nat a)")
  fix a b :: int
  assume "a > b" "\<not> b \<le> 1"
  then have "a div b < a" "0 < a" by (simp_all add: int_div_less_self)
  then show "((a div b, b), a, b) \<in> measure (\<lambda>(a, b). nat a)" by simp
qed simp

declare is_power_of.simps [simp del]

definition ext4_bg_has_super_block :: "fs_info \<Rightarrow> u32 \<Rightarrow> bool res" where
  "ext4_bg_has_super_block info bg =
     (if feat_ro_compat info AND EXT4_FEATURE_RO_COMPAT_SPARSE_SUPER = 0 then Inr True
      else if sint bg = 0 \<or> sint bg = 1 then Inr True
      else rbind (is_power_of (sint bg) 3) (\<lambda>p3. if p3 then Inr True
      else rbind (is_power_of (sint bg) 5) (\<lambda>p5. if p5 then Inr True
      else is_power_of (sint bg) 7)))"

section \<open>Derived layout\<close>

text \<open>Signed 64-bit dividends over unsigned 32-bit divisors, as in \<open>info->len / info->block_size\<close>.\<close>

definition s64_div :: "u64 \<Rightarrow> u32 \<Rightarrow> u64 res" where
  "s64_div x y = (if y = 0 then Inl Fault else Inr (word_of_int (sint x sdiv uint y)))"

definition s64_div_round_up :: "u64 \<Rightarrow> u32 \<Rightarrow> u64 res" where
  "s64_div_round_up x y =
     (if y = 0 \<or> sint x + uint y - 1 \<ge> 2 ^ 63 then Inl Fault
      else Inr (word_of_int ((sint x + uint y - 1) sdiv uint y)))"

definition ext4_init_fs_aux_info :: "fs_info \<Rightarrow> fs_geom res" where
  "ext4_init_fs_aux_info info =
     (let first = (if block_size info > 1024 then 0 else 1 :: u32) in
      rbind (s64_div (len info) (block_size info)) (\<lambda>lenb.
      rbind (DIV_ROUND_UP (inodes_per_group info * inode_size info) (block_size info)) (\<lambda>itb.
      rbind (DIV_ROUND_UP (lenb - ucast first) (ucast (blocks_per_group info))) (\<lambda>grps.
      let ind = ucast ((ucast (block_size info) :: u64) div 4) :: u32;
          dind = ind * ind;
          tind = dind * dind;
          g = ucast grps :: u32 in
      rbind (DIV_ROUND_UP (ucast g * sizeof_ext2_group_desc) (ucast (block_size info))) (\<lambda>descb.
      rbind (umod lenb (ucast (blocks_per_group info))) (\<lambda>lastg.
      let last_group_size = ucast lastg :: u32;
          descs = ucast descb :: u32 in
      rbind (ext4_bg_has_super_block info (g - 1)) (\<lambda>has.
      let last_header_size = 2 + itb + (if has then 1 + descs + bg_desc_reserve_blocks info else 0);
          short = last_group_size > 0 \<and> last_group_size < last_header_size in
      Inr \<lparr>first_data_block = first,
           len_blocks = (if short then lenb - ucast last_group_size else lenb),
           inode_table_blocks = itb,
           groups = (if short then g - 1 else g),
           bg_desc_blocks = descs,
           default_i_flags = EXT4_NOATIME_FL,
           blocks_per_ind = ind, blocks_per_dind = dind, blocks_per_tind = tind\<rparr>)))))))"

section \<open>Default parameters\<close>

definition compute_block_size :: u32 where
  "compute_block_size = 4096"

definition compute_journal_blocks :: "fs_info \<Rightarrow> u32 res" where
  "compute_journal_blocks info =
     rbind (s64_div_round_up (len info) (block_size info)) (\<lambda>b.
     let j = word_of_int (sint b sdiv 64) :: u32;
         j = (if j < 1024 then 1024 else j);
         j = (if j > 32768 then 32768 else j) in Inr j)"

definition compute_blocks_per_group :: "fs_info \<Rightarrow> u32" where
  "compute_blocks_per_group info = block_size info * 8"

definition compute_inodes :: "fs_info \<Rightarrow> u32 res" where
  "compute_inodes info =
     rbind (s64_div_round_up (len info) (block_size info)) (\<lambda>b.
     Inr (word_of_int (sint b sdiv 4)))"

text \<open>Returns the count and the parameters with \<open>inodes\<close> updated.\<close>

definition compute_inodes_per_group :: "fs_info \<Rightarrow> (u32 \<times> fs_info) res" where
  "compute_inodes_per_group info =
     rbind (s64_div_round_up (len info) (block_size info)) (\<lambda>b.
     let blocks = ucast b :: u32 in
     rbind (DIV_ROUND_UP blocks (blocks_per_group info)) (\<lambda>block_groups.
     rbind (DIV_ROUND_UP (inodes info) block_groups) (\<lambda>n.
     rbind (udiv (block_size info) (inode_size info)) (\<lambda>per_block.
     rbind (EXT4_ALIGN n per_block) (\<lambda>n.
     Inr (n, info\<lparr>inodes := n * block_groups\<rparr>))))))"

definition compute_bg_desc_reserve_blocks :: "fs_info \<Rightarrow> u32 res" where
  "compute_bg_desc_reserve_blocks info =
     rbind (s64_div_round_up (len info) (block_size info)) (\<lambda>b.
     let blocks = ucast b :: u32 in
     rbind (DIV_ROUND_UP blocks (blocks_per_group info)) (\<lambda>block_groups.
     rbind (DIV_ROUND_UP (ucast block_groups * sizeof_ext2_group_desc) (ucast (block_size info)))
       (\<lambda>descb.
     rbind (DIV_ROUND_UP (ucast (block_groups * 1024) * sizeof_ext2_group_desc)
       (ucast (block_size info))) (\<lambda>full.
     let bg_desc_blocks = ucast descb :: u32;
         reserve = ucast (full - ucast bg_desc_blocks) :: u32 in
     Inr (if ucast reserve > (ucast (block_size info) :: u64) div 4
          then ucast ((ucast (block_size info) :: u64) div 4) else reserve)))))"

text \<open>
  The choice of parameters at the start of \<open>make_ext4fs_internal\<close>, up to
  \<open>compute_bg_desc_reserve_blocks\<close>; \<open>file_size\<close> is what \<open>get_file_size\<close> finds for the
  output file. \<open>None\<close> is the early return with \<open>EXIT_FAILURE\<close> when no size is known.
\<close>

definition fill_in_params :: "u64 \<Rightarrow> fs_info \<Rightarrow> fs_info option res" where
  "fill_in_params file_size info =
     (let info = (if sint (len info) \<le> 0 then info\<lparr>len := file_size\<rparr> else info) in
      if sint (len info) \<le> 0 then Inr None else
      let info = (if block_size info = 0 then info\<lparr>block_size := compute_block_size\<rparr> else info);
          info = info\<lparr>len := len info AND NOT (ucast (block_size info) - 1)\<rparr> in
      rbind (if journal_blocks info = 0
             then rbind (compute_journal_blocks info) (\<lambda>j. Inr (info\<lparr>journal_blocks := j\<rparr>))
             else Inr info) (\<lambda>info.
      let info = (if no_journal info = 0
                  then info\<lparr>feat_compat := EXT4_FEATURE_COMPAT_HAS_JOURNAL\<rparr>
                  else info\<lparr>journal_blocks := 0\<rparr>);
          info = (if blocks_per_group info = 0
                  then info\<lparr>blocks_per_group := compute_blocks_per_group info\<rparr> else info) in
      rbind (if inodes info = 0
             then rbind (compute_inodes info) (\<lambda>n. Inr (info\<lparr>inodes := n\<rparr>))
             else Inr info) (\<lambda>info.
      let info = (if inode_size info = 0 then info\<lparr>inode_size := 256\<rparr> else info);
          info = (if label info = None then info\<lparr>label := Some []\<rparr> else info) in
      rbind (compute_inodes_per_group info) (\<lambda>(n, info).
      let info = info\<lparr>inodes_per_group := n\<rparr>;
          info = info\<lparr>feat_compat := feat_compat info OR
            (EXT4_FEATURE_COMPAT_RESIZE_INODE OR EXT4_FEATURE_COMPAT_EXT_ATTR)\<rparr>;
          info = info\<lparr>feat_ro_compat := feat_ro_compat info OR
            (EXT4_FEATURE_RO_COMPAT_SPARSE_SUPER OR EXT4_FEATURE_RO_COMPAT_LARGE_FILE
             OR EXT4_FEATURE_RO_COMPAT_GDT_CSUM)\<rparr>;
          info = info\<lparr>feat_incompat := feat_incompat info OR
            (EXT4_FEATURE_INCOMPAT_EXTENTS OR EXT4_FEATURE_INCOMPAT_FILETYPE)\<rparr> in
      rbind (compute_bg_desc_reserve_blocks info) (\<lambda>r.
      Inr (Some (info\<lparr>bg_desc_reserve_blocks := r\<rparr>)))))))"

section \<open>Lemmas\<close>

lemma is_power_of_correct:
  assumes "1 < b"
  shows "is_power_of a b = Inr (\<exists>k \<ge> 1. a = b ^ k)"
  using assms
proof (induction a b rule: is_power_of.induct)
  case (1 a b)
  show ?case
  proof (cases "a > b")
    case False
    have "a = b \<longleftrightarrow> (\<exists>k \<ge> 1. a = b ^ k)"
    proof
      assume "\<exists>k \<ge> 1. a = b ^ k"
      then obtain k where "1 \<le> k" "a = b ^ k" by blast
      moreover from this have "b \<le> b ^ k" using "1.prems" by (simp add: self_le_power)
      ultimately show "a = b" using False by simp
    qed (auto intro: exI [of _ 1])
    with False show ?thesis by (simp add: is_power_of.simps [of a b])
  next
    case True
    have pow: "(\<exists>k \<ge> 1. a = b ^ k) \<longleftrightarrow> b dvd a \<and> (\<exists>k \<ge> 1. a div b = b ^ k)"
    proof
      assume "\<exists>k \<ge> 1. a = b ^ k"
      then obtain k where k: "1 \<le> k" "a = b ^ k" by blast
      then obtain j where j: "k = Suc j" by (cases k) auto
      with k True have "1 \<le> j" by (cases j) auto
      then show "b dvd a \<and> (\<exists>k \<ge> 1. a div b = b ^ k)"
        using k j "1.prems" by auto
    next
      assume "b dvd a \<and> (\<exists>k \<ge> 1. a div b = b ^ k)"
      then obtain k where "a div b = b ^ k" "b dvd a" by blast
      then have "a = b ^ Suc k" using "1.prems" by auto
      then show "\<exists>k \<ge> 1. a = b ^ k" by (intro exI [of _ "Suc k"]) simp
    qed
    with True "1.prems" "1.IH" show ?thesis
      by (auto simp: is_power_of.simps [of a b] dvd_eq_mod_eq_0)
  qed
qed

text \<open>The groups that keep a copy of the superblock when \<open>sparse_super\<close> is on.\<close>

definition sparse_super_group :: "nat \<Rightarrow> bool" where
  "sparse_super_group g \<longleftrightarrow>
     g = 0 \<or> g = 1 \<or> (\<exists>k \<ge> 1. g = 3 ^ k \<or> g = 5 ^ k \<or> g = 7 ^ k)"

lemma has_super_block_spec:
  assumes "unat bg < 2 ^ 31"
  shows "ext4_bg_has_super_block info bg = Inr
    (feat_ro_compat info AND EXT4_FEATURE_RO_COMPAT_SPARSE_SUPER = 0 \<or> sparse_super_group (unat bg))"
proof -
  obtain u where u: "u = unat bg" by simp
  have sint: "sint bg = int u"
    using assms unfolding u by (intro sint_small) simp
  have pow: "(\<exists>k \<ge> 1. int u = int m ^ k) \<longleftrightarrow> (\<exists>k \<ge> 1. u = m ^ k)" for m
    by (simp flip: of_nat_power)
  have three: "is_power_of (int u) 3 = Inr (\<exists>k \<ge> 1. u = 3 ^ k)"
    and five: "is_power_of (int u) 5 = Inr (\<exists>k \<ge> 1. u = 5 ^ k)"
    and seven: "is_power_of (int u) 7 = Inr (\<exists>k \<ge> 1. u = 7 ^ k)"
    using pow [of 3] pow [of 5] pow [of 7] by (simp_all add: is_power_of_correct)
  show ?thesis
    unfolding ext4_bg_has_super_block_def sint three five seven sparse_super_group_def u [symmetric]
    by auto
qed

lemma s64_div_pos:
  assumes "0 \<le> sint x" "y \<noteq> 0"
  shows "s64_div x y = Inr (x div ucast y)"
proof -
  have "sint x = uint x" using sint_nonneg [OF assms(1)] by simp
  moreover have "uint x sdiv uint y = uint x div uint y"
    by (simp add: sdiv_nonneg)
  moreover have "word_of_int (uint x div uint y) = x div ucast y"
    by (simp add: word_div_def)
  ultimately show ?thesis
    using assms(2) by (simp add: s64_div_def)
qed

lemma s64_div_round_up_pos:
  assumes "0 < sint x" "y \<noteq> 0" "unat x + unat y < 2 ^ 63"
  shows "s64_div_round_up x y = DIV_ROUND_UP x (ucast y)"
proof -
  have x: "sint x = uint x" using sint_nonneg [of x] assms(1) by simp
  have bound: "uint x + uint y < 2 ^ 63"
    using assms(3) by (simp only: uint_nat flip: of_nat_add) (simp only: of_nat_less_numeral_power_cancel_iff)
  let ?s = "x + ucast y - 1 :: u64"
  have s: "uint ?s = uint x + uint y - 1"
  proof -
    have "0 \<le> uint x + uint y - 1" "uint x + uint y - 1 < 2 ^ 64"
      using bound x assms(1) uint_ge_0 [of y] power_strict_increasing [of 63 64 "2 :: int"]
      by linarith+
    then have "(uint x + uint y - 1) mod 2 ^ 64 = uint x + uint y - 1"
      by (rule mod_pos_pos_trivial)
    then show ?thesis by (simp add: uint_word_ariths mod_simps)
  qed
  have "0 \<le> uint x + uint y - 1"
    using x assms(1) uint_ge_0 [of y] by linarith
  then have "(uint x + uint y - 1) sdiv uint y = (uint x + uint y - 1) div uint y"
    by (simp add: sdiv_nonneg)
  moreover have "word_of_int ((uint x + uint y - 1) div uint y) = ?s div ucast y"
    unfolding s [symmetric] by (simp add: word_div_def)
  ultimately show ?thesis
    using bound by (simp add: s64_div_round_up_def DIV_ROUND_UP_def x assms(2))
qed

text \<open>
  The blocks at the start of group \<open>i\<close> that hold metadata: two bitmaps, the inode table and,
  where there is one, the superblock with its descriptor table and reserve.
\<close>

definition group_header_blocks :: "fs_info \<Rightarrow> fs_geom \<Rightarrow> u32 \<Rightarrow> u32 res" where
  "group_header_blocks info g i = rbind (ext4_bg_has_super_block info i) (\<lambda>has.
     Inr (2 + inode_table_blocks g
       + (if has then 1 + bg_desc_blocks g + bg_desc_reserve_blocks info else 0)))"

lemma div_round_up_bounds:
  assumes "0 < (b :: nat)"
  shows "L \<le> (L + b - 1) div b * b" "0 < L \<Longrightarrow> ((L + b - 1) div b - 1) * b < L"
    "(L + b - 1) div b = L div b + (if L mod b = 0 then 0 else 1)"
proof -
  obtain q r where q: "L div b = q" and r: "L mod b = r" by blast
  then have L: "L = q * b + r" and lt: "r < b"
    using assms div_mult_mod_eq [of L b] by auto
  have up: "(L + b - 1) div b = q + (if r = 0 then 0 else 1)"
  proof (cases "r = 0")
    case True
    then have "(L + b - 1) div b = ((b - 1) + q * b) div b" using L assms by (simp add: add.commute)
    also have "\<dots> = q" using assms by (subst div_mult_self1) simp_all
    finally show ?thesis using True by simp
  next
    case False
    then have "L + b - 1 = (r - 1) + (q + 1) * b" using L by (simp add: add_mult_distrib)
    then have "(L + b - 1) div b = ((r - 1) + (q + 1) * b) div b" by (rule arg_cong)
    also have "\<dots> = q + 1" using assms lt by (subst div_mult_self1) simp_all
    finally show ?thesis using False by simp
  qed
  then show "(L + b - 1) div b = L div b + (if L mod b = 0 then 0 else 1)" by (simp only: q r)
  show "L \<le> (L + b - 1) div b * b" unfolding up using L lt by (simp add: add_mult_distrib)
  show "0 < L \<Longrightarrow> ((L + b - 1) div b - 1) * b < L"
    unfolding up using L assms by (cases q) (auto simp: add_mult_distrib)
qed

text \<open>
  The layout in general. The first data block \<open>f\<close> is left out of the blocks to be divided into
  groups, but not out of those that the size of the last group is taken from.
\<close>

lemma init_fs_aux_info_layout:
  fixes info :: fs_info
  defines "f \<equiv> if 1024 < unat (block_size info) then 0 else 1 :: nat"
  defines "L \<equiv> unat (len info) div unat (block_size info)"
  defines "b \<equiv> unat (blocks_per_group info)"
  defines "n \<equiv> (L - f + b - 1) div b"
  assumes "ext4_init_fs_aux_info info = Inr g" "0 \<le> sint (len info)" "L < 2 ^ 31" "f \<le> L"
  obtains h where "group_header_blocks info g (of_nat n - 1) = Inr h" "first_data_block g = of_nat f"
      "unat (len_blocks g) = (if 0 < L mod b \<and> L mod b < unat h then L - L mod b else L)"
      "groups g = (if 0 < L mod b \<and> L mod b < unat h then of_nat n - 1 else of_nat n)"
      "0 < b" "block_size info \<noteq> 0"
proof -
  have bs: "block_size info \<noteq> 0"
    using assms(5) by (auto simp: ext4_init_fs_aux_info_def s64_div_def Let_def)
  let ?lenb = "len info div ucast (block_size info)"
  let ?bpg = "ucast (blocks_per_group info) :: u64"
  have lenb: "s64_div (len info) (block_size info) = Inr ?lenb"
    by (rule s64_div_pos [OF assms(6) bs])
  have bpg: "blocks_per_group info \<noteq> 0"
    using assms(5) by (auto simp: ext4_init_fs_aux_info_def lenb DIV_ROUND_UP_def udiv_def Let_def)
  have b: "0 < b" "b < 4294967296"
    using bpg unat_less_32 [of "blocks_per_group info"] by (auto simp: b_def unat_gt_0)
  have L: "L < 2147483648" using assms(7) by simp
  have "(L - f) div b \<le> L" by (meson diff_le_self div_le_dividend le_trans)
  then have nL: "n \<le> L + 1" unfolding n_def div_round_up_bounds(3) [OF b(1)] by (auto intro: le_SucI)
  have uL: "unat ?lenb = L" by (simp add: unat_div L_def)
  define first where "first = (if block_size info > 1024 then 0 else 1 :: u32)"
  have f: "unat first = f" "first = of_nat f"
    unfolding first_def f_def by (simp_all add: word_less_nat_alt)
  have f64: "unat (ucast first :: u64) = f" using f(1) by (simp add: unat_ucast_32_64)
  have sub: "unat (?lenb - ucast first) = L - f"
    using assms(8) uL f64 by (subst unat_sub) (simp_all add: word_le_nat_alt)
  obtain grps where grps: "DIV_ROUND_UP (?lenb - ucast first) ?bpg = Inr grps" "unat grps = n"
  proof -
    have "L - f + b \<le> 2 ^ 64" using L b(2) by simp
    then show thesis
      using DIV_ROUND_UP_nat [of ?bpg "?lenb - ucast first"] bpg sub that by (auto simp: b_def n_def)
  qed
  have ugrps: "unat (ucast grps :: u32) = n"
    using grps(2) nL L by (simp add: unat_ucast_64_32)
  have lastg: "unat (ucast (?lenb mod ?bpg) :: u32) = L mod b"
  proof -
    have "unat (?lenb mod ?bpg) = L mod b" by (simp add: unat_mod uL b_def)
    moreover have "L mod b < 4294967296" using b by (meson less_trans mod_less_divisor)
    ultimately show ?thesis by (simp add: unat_ucast_64_32)
  qed
  let ?last = "ucast (?lenb mod ?bpg) :: u32"
  let ?hdr = "\<lambda>has. 2 + inode_table_blocks g
    + (if has then 1 + bg_desc_blocks g + bg_desc_reserve_blocks info else 0)"
  have "\<exists>has. ext4_bg_has_super_block info (ucast grps - 1) = Inr has \<and> first_data_block g = first
    \<and> len_blocks g = (if 0 < ?last \<and> ?last < ?hdr has then ?lenb - ucast ?last else ?lenb)
    \<and> groups g = (if 0 < ?last \<and> ?last < ?hdr has then ucast grps - 1 else ucast grps)"
    using assms(5) bpg
    by (clarsimp simp: ext4_init_fs_aux_info_def Let_def lenb grps(1) simp flip: first_def)
      (use exI [of "\<lambda>b. b" True] exI [of Not False] in simp)
  then obtain has where has: "ext4_bg_has_super_block info (ucast grps - 1) = Inr has"
    and first: "first_data_block g = first"
    and lb: "len_blocks g = (if 0 < ?last \<and> ?last < ?hdr has then ?lenb - ucast ?last else ?lenb)"
    and gr: "groups g = (if 0 < ?last \<and> ?last < ?hdr has then ucast grps - 1 else ucast grps)"
    by blast
  have grpn: "ucast grps = (of_nat n :: u32)"
    using nL L by (simp add: word_unat_eq_iff ugrps unat_of_nat)
  have short: "0 < ?last \<and> ?last < ?hdr has \<longleftrightarrow> 0 < L mod b \<and> L mod b < unat (?hdr has)"
    by (simp only: word_less_nat_alt lastg unat_0)
  have le: "L mod b \<le> L" by simp
  show thesis
  proof (rule that [of "?hdr has"])
    show "group_header_blocks info g (of_nat n - 1) = Inr (?hdr has)"
      using has by (simp add: group_header_blocks_def grpn)
    show "first_data_block g = of_nat f" using first f(2) by simp
    show "unat (len_blocks g) = (if 0 < L mod b \<and> L mod b < unat (?hdr has) then L - L mod b else L)"
      unfolding lb short if_distrib [of unat]
      by (simp only: unat_sub word_le_nat_alt uL unat_ucast_32_64 lastg le)
    show "groups g = (if 0 < L mod b \<and> L mod b < unat (?hdr has) then of_nat n - 1 else of_nat n)"
      unfolding gr short grpn ..
  qed (use b bs in simp_all)
qed

section \<open>The default parameters\<close>

lemma and_not_4095: "unat (x AND NOT (ucast (4096 :: u32) - 1) :: u64) = 4096 * (unat x div 4096)"
proof -
  have "ucast (4096 :: u32) - 1 = (mask 12 :: u64)" by (simp add: mask_eq_exp_minus_1)
  then show ?thesis using unat_and_not_mask [of x 12] by simp
qed

definition default_params :: "fs_info \<Rightarrow> bool" where
  "default_params info \<longleftrightarrow> block_size info = 0 \<and> journal_blocks info = 0 \<and> no_journal info = 0
     \<and> blocks_per_group info = 0 \<and> inodes info = 0 \<and> inode_size info = 0"

lemma word_of_int_sdiv_nat: "word_of_int (int n sdiv int k) = (of_nat (n div k) :: 'a::len word)"
  by (simp only: sdiv_nonneg of_nat_0_le_iff flip: zdiv_int) (simp only: of_int_of_nat_eq)

text \<open>The computations of the defaults, on \<open>N\<close> blocks of 4096 bytes in \<open>B\<close> groups of 32768.\<close>

definition has_blocks :: "fs_info \<Rightarrow> nat \<Rightarrow> bool" where
  "has_blocks info N \<longleftrightarrow> len info = of_nat (4096 * N) \<and> block_size info = 4096 \<and> N < 2 ^ 31"

lemma has_blocks_count:
  assumes "has_blocks info N"
  shows "s64_div_round_up (len info) (block_size info) = Inr (of_nat N)" "sint (of_nat N :: u64) = int N"
proof -
  have info: "len info = of_nat (4096 * N)" "block_size info = 4096" "N < 2 ^ 31"
    using assms by (simp_all add: has_blocks_def)
  have "unat (len info) = 4096 * N" using info(3) by (simp add: info(1) unat_of_nat del: of_nat_mult)
  then have sl: "sint (len info) = int (4096 * N)"
    using info(3) by (subst sint_small) simp_all
  have e: "sint (len info) + uint (block_size info) - 1 = int (4096 * N + 4095)"
    unfolding sl info(2) by simp
  have "(4096 * N + 4095) div 4096 = N" by (simp add: div_mult_self4)
  then show "s64_div_round_up (len info) (block_size info) = Inr (of_nat N)"
    unfolding s64_div_round_up_def e
    using word_of_int_sdiv_nat [of "4096 * N + 4095" 4096, where 'a = 64] info(3) by (simp add: info(2))
  show "sint (of_nat N :: u64) = int N"
    using info(3) by (subst sint_small) (simp_all add: unat_of_nat)
qed

lemma has_blocks_groups:
  assumes "has_blocks info N"
  shows "DIV_ROUND_UP (ucast (of_nat N :: u64)) (32768 :: u32) = Inr (of_nat ((N + 32767) div 32768))"
proof -
  have N: "N < 2147483648" using assms by (simp add: has_blocks_def)
  then have "(ucast (of_nat N :: u64) :: u32) = of_nat N"
    by (simp add: word_unat_eq_iff unat_of_nat unsigned_ucast_eq take_bit_nat_eq_self)
  then show ?thesis
    using DIV_ROUND_UP_of_nat [of 32768 N "(N + 32767) div 32768", where 'a = 32] N by simp
qed

lemma compute_journal_blocks_default:
  assumes "has_blocks info N"
  shows "compute_journal_blocks info = Inr (of_nat (max 1024 (min 32768 (N div 64))))"
proof -
  have lt: "N div 64 < 2 ^ LENGTH(32)" using assms by (auto simp: has_blocks_def)
  have q: "word_of_int (int N sdiv 64) = (of_nat (N div 64) :: u32)"
    using word_of_int_sdiv_nat [of N 64, where 'a = 32] by simp
  have a: "(of_nat (N div 64) :: u32) < 1024 \<longleftrightarrow> N div 64 < 1024"
    using of_nat_less_iff_small [OF lt, of 1024] by simp
  have b: "32768 < (of_nat (N div 64) :: u32) \<longleftrightarrow> 32768 < N div 64"
    using of_nat_less_iff_small [OF _ lt, of 32768] by simp
  show ?thesis
    unfolding compute_journal_blocks_def has_blocks_count [OF assms] rbind_Inr Let_def q a
    using b by (auto simp: max_def min_def)
qed

lemma compute_inodes_default:
  "has_blocks info N \<Longrightarrow> compute_inodes info = Inr (of_nat (N div 4))"
  using word_of_int_sdiv_nat [of N 4, where 'a = 32]
  by (simp add: compute_inodes_def has_blocks_count)

lemma compute_inodes_per_group_default:
  fixes info :: fs_info
  assumes "has_blocks info N" "blocks_per_group info = 32768" "inode_size info = 256"
    "inodes info = of_nat (N div 4)"
  defines "B \<equiv> (N + 32767) div 32768"
  defines "n \<equiv> 16 * (((N div 4 + B - 1) div B + 15) div 16)"
  shows "compute_inodes_per_group info =
    (if N = 0 then Inl Fault else Inr (of_nat n, info\<lparr>inodes := of_nat (n * B)\<rparr>))"
proof (cases "N = 0")
  case True
  then show ?thesis
    using assms has_blocks_groups [OF assms(1)] has_blocks_count [OF assms(1)]
    by (simp add: compute_inodes_per_group_def DIV_ROUND_UP_def udiv_def B_def)
next
  case False
  have N: "N < 2 ^ 31" "block_size info = 4096" using assms(1) by (simp_all add: has_blocks_def)
  have B: "0 < B" "B \<le> 65536" using N False unfolding B_def by auto
  let ?n = "(N div 4 + B - 1) div B"
  have c: "DIV_ROUND_UP (inodes info) (of_nat B) = Inr (of_nat ?n)"
    using DIV_ROUND_UP_of_nat [of B "N div 4" ?n, where 'a = 32] assms(4) B N by simp
  have "?n \<le> N div 4 + B - 1" by (rule div_le_dividend)
  then have "?n \<le> N + B" by linarith
  then have "?n \<le> 4294967280" using N B by simp
  then have "DIV_ROUND_UP (of_nat ?n) (16 :: u32) = Inr (of_nat ((?n + 15) div 16))"
    using DIV_ROUND_UP_of_nat [of 16 ?n "(?n + 15) div 16", where 'a = 32] N B by simp
  then show ?thesis
    using False has_blocks_groups [OF assms(1)] has_blocks_count [OF assms(1)] c N
    by (simp add: compute_inodes_per_group_def EXT4_ALIGN_def assms(2,3) n_def flip: B_def)
qed

text \<open>The descriptors of \<open>B\<close> groups fill \<open>d\<close> blocks, those of 1024 times as many groups \<open>8 * B\<close>.\<close>

lemma desc_table_blocks:
  assumes "B \<le> 65536"
  shows "DIV_ROUND_UP (ucast (of_nat B :: u32) * sizeof_ext2_group_desc) (ucast (4096 :: u32))
      = Inr (of_nat ((32 * B + 4095) div 4096))" (is ?now)
    "DIV_ROUND_UP (ucast ((of_nat B :: u32) * 1024) * sizeof_ext2_group_desc) (ucast (4096 :: u32))
      = Inr (of_nat (8 * B))" (is ?full)
proof -
  have "ucast (of_nat B :: u32) * sizeof_ext2_group_desc = of_nat (32 * B)"
    using assms by (simp add: ucast_of_nat_32_64)
  then show ?now
    using DIV_ROUND_UP_of_nat [of 4096 "32 * B" "(32 * B + 4095) div 4096", where 'a = 64] assms
    by simp
  have "(of_nat B :: u32) * 1024 = of_nat (B * 1024)" by simp
  moreover have "ucast (of_nat (B * 1024) :: u32) = (of_nat (B * 1024) :: u64)"
    using assms by (intro ucast_of_nat_32_64) simp
  ultimately have "ucast ((of_nat B :: u32) * 1024) * sizeof_ext2_group_desc
    = of_nat (B * 1024 * 32)" by simp
  moreover have "8 * B = (B * 1024 * 32 + 4095) div 4096" by simp
  moreover have "B * 1024 * 32 + 4096 \<le> 2 ^ 64" using assms by simp
  ultimately show ?full
    using DIV_ROUND_UP_of_nat [of 4096 "B * 1024 * 32" "8 * B", where 'a = 64] by simp
qed


lemma reserve_word:
  assumes "d \<le> e" "e < 4294967296"
  shows "ucast (of_nat e - ucast (ucast (of_nat d :: u64) :: u32) :: u64) = (of_nat (e - d) :: u32)"
proof -
  have "ucast (ucast (of_nat d :: u64) :: u32) = (of_nat d :: u64)"
    using assms by (subst ucast_of_nat_64_32, linarith, subst ucast_of_nat_32_64, linarith) (rule refl)
  moreover have "of_nat e - of_nat d = (of_nat (e - d) :: u64)"
    using assms(1) by (rule of_nat_diff [symmetric])
  moreover have "e - d < 4294967296" using assms by linarith
  ultimately show ?thesis by (simp only: ucast_of_nat_64_32)
qed

lemma compute_bg_desc_reserve_blocks_default:
  assumes "has_blocks info N" "blocks_per_group info = 32768"
  defines "B \<equiv> (N + 32767) div 32768"
  shows "compute_bg_desc_reserve_blocks info
    = Inr (of_nat (min 1024 (8 * B - (32 * B + 4095) div 4096)))"
proof -
  have N: "N < 2 ^ 31" and bs: "block_size info = 4096" using assms(1) by (simp_all add: has_blocks_def)
  have B: "B \<le> 65536" using N unfolding B_def by simp
  let ?d = "(32 * B + 4095) div 4096"
  let ?r = "8 * B - ?d"
  have d: "?d \<le> 8 * B" by simp
  have lt: "?r < 4294967296" "8 * B < 4294967296" using B by simp_all
  have h: "ucast (of_nat ?r :: u32) > ucast (4096 :: u32) div (4 :: u64) \<longleftrightarrow> 1024 < ?r"
    unfolding ucast_of_nat_32_64 [OF lt(1)]
    using of_nat_less_iff_small [of 1024 ?r, where 'a = 64] lt by simp
  have q: "(ucast (ucast (4096 :: u32) div (4 :: u64)) :: u32) = of_nat 1024" by simp
  show ?thesis
    unfolding compute_bg_desc_reserve_blocks_def bs has_blocks_count(1) [OF assms(1), unfolded bs] assms(2) rbind_Inr
      has_blocks_groups [OF assms(1)] Let_def B_def [symmetric] desc_table_blocks [OF B]
      reserve_word [OF d lt(2)] h q min_def
    by auto
qed
lemma fill_in_params_default:
  assumes "default_params info" "0 < sint (len info)" "unat (len info) < 2 ^ 43"
  defines "N \<equiv> unat (len info) div 4096"
  defines "B \<equiv> (N + 32767) div 32768"
  defines "n \<equiv> 16 * (((N div 4 + B - 1) div B + 15) div 16)"
  shows "fill_in_params fs info = (if N = 0 then Inl Fault else Inr (Some (info\<lparr>
     len := of_nat (4096 * N), block_size := 4096,
     journal_blocks := of_nat (max 1024 (min 32768 (N div 64))),
     feat_compat := EXT4_FEATURE_COMPAT_HAS_JOURNAL OR
            (EXT4_FEATURE_COMPAT_RESIZE_INODE OR EXT4_FEATURE_COMPAT_EXT_ATTR),
     blocks_per_group := 32768, inodes := of_nat (n * B), inode_size := 256,
     label := (if label info = None then Some [] else label info), inodes_per_group := of_nat n,
     feat_ro_compat := feat_ro_compat info OR
            (EXT4_FEATURE_RO_COMPAT_SPARSE_SUPER OR EXT4_FEATURE_RO_COMPAT_LARGE_FILE
             OR EXT4_FEATURE_RO_COMPAT_GDT_CSUM),
     feat_incompat := feat_incompat info OR
            (EXT4_FEATURE_INCOMPAT_EXTENTS OR EXT4_FEATURE_INCOMPAT_FILETYPE),
     bg_desc_reserve_blocks := of_nat (min 1024 (8 * B - (32 * B + 4095) div 4096)) \<rparr>)))"
proof -
  have ul: "len info AND NOT (ucast (4096 :: u32) - 1) = of_nat (4096 * N)"
    unfolding N_def by (metis and_not_4095 of_nat_unat ucast_id)
  have N: "N < 2 ^ 31" using assms(3) unfolding N_def by simp
  have hb: "has_blocks i N" if "len i = of_nat (4096 * N)" "block_size i = 4096" for i :: fs_info
    using that N by (simp add: has_blocks_def)
  have d: "block_size info = 0" "journal_blocks info = 0" "no_journal info = 0"
    "blocks_per_group info = 0" "inodes info = 0" "inode_size info = 0"
    using assms(1) by (simp_all add: default_params_def)
  obtain J I R M where v: "of_nat (max 1024 (min 32768 (N div 64))) = (J :: u32)"
      "of_nat (N div 4) = (I :: u32)"
      "of_nat (min 1024 (8 * B - (32 * B + 4095) div 4096)) = (R :: u32)"
      "of_nat (n * B) = (M :: u32)" by blast
  note stages = hb [THEN compute_journal_blocks_default, unfolded v]
    hb [THEN compute_inodes_default, unfolded v]
    hb [THEN compute_inodes_per_group_default, folded B_def, folded n_def, unfolded v]
    hb [THEN compute_bg_desc_reserve_blocks_default, folded B_def, unfolded v]
  show ?thesis
    unfolding fill_in_params_def v
    using assms(2) d
    by (cases "label info") (simp_all add: Let_def compute_block_size_def compute_blocks_per_group_def
       ul [simplified] stages [simplified] v)
qed

section \<open>Properties\<close>

text \<open>C21: on a file system with \<open>sparse_super\<close>, a group is given a superblock copy exactly when
  its number is 0, 1 or a power of 3, 5 or 7; without the feature every group is. The search
  loop always ends.\<close>

theorem backup_superblock_groups:
  assumes "unat bg < 2 ^ 31"
  shows "ext4_bg_has_super_block info bg = Inr
    (feat_ro_compat info AND EXT4_FEATURE_RO_COMPAT_SPARSE_SUPER = 0 \<or> sparse_super_group (unat bg))"
  by (rule has_super_block_spec [OF assms])

definition sample_info :: fs_info where
  "sample_info = \<lparr>len = 0x4000000, block_size = 4096, blocks_per_group = 32768,
     inodes_per_group = 4096, inode_size = 256, inodes = 4096, journal_blocks = 1024,
     feat_ro_compat = 0x13, feat_compat = 0x1C, feat_incompat = 0x42,
     bg_desc_reserve_blocks = 7, reserve_pcnt = 0, label = Some [], no_journal = 0, uuid = []\<rparr>"

theorem backup_superblock_groups_witness:
  "ext4_bg_has_super_block sample_info 49 = Inr
    (feat_ro_compat sample_info AND EXT4_FEATURE_RO_COMPAT_SPARSE_SUPER = 0
     \<or> sparse_super_group (unat (49 :: u32)))"
  by (rule backup_superblock_groups) simp

text \<open>C16: with blocks larger than 1024 bytes, an image of \<open>L\<close> whole blocks (fewer than 2 to the 31)
  keeps all \<open>L\<close> blocks, in as many groups as they fill or begin, unless the last group is a partial
  one that cannot hold its own metadata: then exactly that group and its blocks are left out. In
  both cases the groups cover the blocks that are kept and none is empty.\<close>

theorem layout_covers_image:
  fixes info :: fs_info
  defines "L \<equiv> unat (len info) div unat (block_size info)" and "b \<equiv> unat (blocks_per_group info)"
  assumes "ext4_init_fs_aux_info info = Inr g" "1024 < unat (block_size info)"
    and "0 \<le> sint (len info)" "L < 2 ^ 31"
  shows "\<exists>h. group_header_blocks info g (of_nat ((L + b - 1) div b) - 1) = Inr h
    \<and> (if 0 < L mod b \<and> L mod b < unat h
       then unat (len_blocks g) = L - L mod b \<and> unat (groups g) = L div b
       else unat (len_blocks g) = L \<and> unat (groups g) = L div b + (if L mod b = 0 then 0 else 1))
    \<and> first_data_block g = 0
    \<and> unat (len_blocks g) \<le> unat (groups g) * b
    \<and> (unat (groups g) = 0 \<or> (unat (groups g) - 1) * b < unat (len_blocks g))"
proof -
  have f: "(if 1024 < unat (block_size info) then 0 else 1 :: nat) = 0" using assms(4) by simp
  note layout = init_fs_aux_info_layout [OF assms(3,5), unfolded f, folded L_def, folded b_def, simplified]
  obtain h where h: "group_header_blocks info g (of_nat ((L + b - 1) div b) - 1) = Inr h"
    "first_data_block g = 0"
    "unat (len_blocks g) = (if 0 < L mod b \<and> L mod b < unat h then L - L mod b else L)"
    "groups g = (if 0 < L mod b \<and> L mod b < unat h then of_nat ((L + b - 1) div b) - 1 else of_nat ((L + b - 1) div b))"
    "0 < b"
    using assms(6) by (rule_tac layout) simp_all
  note up = div_round_up_bounds [OF h(5), of L]
  have "L div b \<le> L" by simp
  then have small: "L div b + 1 < 2 ^ 32"
    by (rule le_less_trans [OF add_right_mono]) (use assms(6) in simp)
  have g: "unat (groups g) = (if 0 < L mod b \<and> L mod b < unat h then L div b
      else L div b + (if L mod b = 0 then 0 else 1))"
  proof -
    have w: "unat (of_nat (L div b) :: u32) = L div b" "unat (of_nat (L div b + 1) :: u32) = L div b + 1"
      using small by (intro of_nat_inverse [OF refl]; simp)+
    have "of_nat (L div b + 1) - 1 = (of_nat (L div b) :: u32)" by simp
    then show ?thesis unfolding h(4) up(3) using w by (auto simp: add.commute)
  qed
  obtain q r where qr: "L div b = q" "L mod b = r" by blast
  then have L: "L = q * b + r" "r < b" using h(5) div_mult_mod_eq [of L b] by auto
  have "unat (len_blocks g) \<le> unat (groups g) * b"
    "unat (groups g) = 0 \<or> (unat (groups g) - 1) * b < unat (len_blocks g)"
    unfolding h(3) g qr using L h(5) by (cases q; auto simp: add_mult_distrib)+
  then show ?thesis using h(1,2) g h(3) by (intro exI [of _ h]) simp
qed

theorem layout_covers_image_witness:
  "\<exists>g. ext4_init_fs_aux_info sample_info = Inr g \<and> unat (len_blocks g) \<le> unat (groups g) * 32768"
proof -
  have ev: "ext4_init_fs_aux_info sample_info = Inr \<lparr>first_data_block = 0, len_blocks = 16384,
      inode_table_blocks = 256, groups = 1, bg_desc_blocks = 1, default_i_flags = 128,
      blocks_per_ind = 1024, blocks_per_dind = 1048576, blocks_per_tind = 0\<rparr>"
    by code_simp
  have "1024 < unat (block_size sample_info)" "0 \<le> sint (len sample_info)"
    "unat (len sample_info) div unat (block_size sample_info) < 2 ^ 31" "unat (blocks_per_group sample_info) = 32768"
    by (simp_all add: sample_info_def)
  from layout_covers_image [OF ev this(1-3)] this(4) show ?thesis
    using ev by metis
qed

text \<open>C17: the parameters of an image of a given size with block size, journal, groups and inodes left to
  their defaults, for a size of one block to 2 to the 43 bytes. With \<open>N\<close> whole blocks of 4096
  bytes in \<open>B\<close> groups: the size is cut to \<open>N\<close> blocks, the journal gets one block in 64 but 1024 to
  32768 (also when the image has fewer than 1024 blocks), a group has 32768 blocks, one inode for
  four blocks is spread over the groups and rounded up to whole blocks of the inode table, the
  reserve is what a table of 1024 times as many descriptors takes, at most 1024 blocks; the
  features are the given ones with those the program sets, an absent label is empty, and the UUID
  and the reserved percentage stay as they are. The groups cover the \<open>N\<close> blocks, the inodes of
  a group fit its bitmap block, and no number overflows its field.\<close>

theorem default_parameters_consistent:
  fixes info :: fs_info
  defines "N \<equiv> unat (len info) div 4096"
  defines "B \<equiv> (N + 32767) div 32768"
  defines "n \<equiv> 16 * (((N div 4 + B - 1) div B + 15) div 16)"
  assumes "default_params info" "4096 \<le> unat (len info)" "unat (len info) < 2 ^ 43"
  shows "fill_in_params fs info = Inr (Some (info\<lparr>
       len := of_nat (4096 * N), block_size := 4096,
       journal_blocks := of_nat (max 1024 (min 32768 (N div 64))),
       blocks_per_group := 32768, inodes := of_nat (n * B), inode_size := 256,
       inodes_per_group := of_nat n,
       bg_desc_reserve_blocks := of_nat (min 1024 (8 * B - (32 * B + 4095) div 4096)),
       label := (if label info = None then Some [] else label info),
       feat_compat := EXT4_FEATURE_COMPAT_HAS_JOURNAL OR EXT4_FEATURE_COMPAT_RESIZE_INODE
         OR EXT4_FEATURE_COMPAT_EXT_ATTR,
       feat_ro_compat := feat_ro_compat info OR EXT4_FEATURE_RO_COMPAT_SPARSE_SUPER
         OR EXT4_FEATURE_RO_COMPAT_LARGE_FILE OR EXT4_FEATURE_RO_COMPAT_GDT_CSUM,
       feat_incompat := feat_incompat info OR EXT4_FEATURE_INCOMPAT_EXTENTS
         OR EXT4_FEATURE_INCOMPAT_FILETYPE\<rparr>))
    \<and> (B - 1) * 32768 < N \<and> N \<le> B * 32768 \<and> 16 dvd n \<and> n \<le> 8 * 4096 div 4
    \<and> N div 4 \<le> n * B \<and> n * B < 2 ^ 32 \<and> 4096 * N < 2 ^ 63"
proof -
  have N: "1 \<le> N" "N < 2147483648" using assms(5,6) unfolding N_def by simp_all
  have B: "0 < B" "B \<le> 65536" "N \<le> 32768 * B" using N unfolding B_def by simp_all
  let ?q = "(N div 4 + B - 1) div B" and ?k = "((N div 4 + B - 1) div B + 15) div 16"
  have "N div 4 + B - 1 < 8193 * B" using B N by simp
  then have "?q < 8193" by (rule less_mult_imp_div_less)
  then have k: "?k \<le> 512" by simp
  then have n: "n \<le> 8192" unfolding n_def by simp
  have "N div 4 \<le> ?q * B" using B(1) div_round_up_bounds(1) by simp
  also have "\<dots> \<le> n * B" unfolding n_def by (intro mult_le_mono1) simp
  finally have cover: "N div 4 \<le> n * B" .
  have "n * B \<le> 8192 * 65536" using n B by (intro mult_le_mono) simp_all
  then have small: "n * B < 2 ^ 32" by simp
  have "sint (len info) = int (unat (len info))" using assms(6) by (intro sint_small) simp
  then have "0 < sint (len info)" using assms(5) by linarith
  from fill_in_params_default [OF assms(4) this assms(6), of fs, folded N_def, folded B_def, folded n_def]
  have "fill_in_params fs info = Inr (Some (info\<lparr>
       len := of_nat (4096 * N), block_size := 4096,
       journal_blocks := of_nat (max 1024 (min 32768 (N div 64))),
       blocks_per_group := 32768, inodes := of_nat (n * B), inode_size := 256,
       inodes_per_group := of_nat n,
       bg_desc_reserve_blocks := of_nat (min 1024 (8 * B - (32 * B + 4095) div 4096)),
       label := (if label info = None then Some [] else label info),
       feat_compat := EXT4_FEATURE_COMPAT_HAS_JOURNAL OR EXT4_FEATURE_COMPAT_RESIZE_INODE
         OR EXT4_FEATURE_COMPAT_EXT_ATTR,
       feat_ro_compat := feat_ro_compat info OR EXT4_FEATURE_RO_COMPAT_SPARSE_SUPER
         OR EXT4_FEATURE_RO_COMPAT_LARGE_FILE OR EXT4_FEATURE_RO_COMPAT_GDT_CSUM,
       feat_incompat := feat_incompat info OR EXT4_FEATURE_INCOMPAT_EXTENTS
         OR EXT4_FEATURE_INCOMPAT_FILETYPE\<rparr>))"
    using N(1) by (simp add: or.assoc)
  moreover have "(B - 1) * 32768 < N" using N(1) unfolding B_def by simp
  ultimately show ?thesis using N(2) B(3) n cover small unfolding n_def [THEN meta_eq_to_obj_eq] by simp
qed

definition no_params :: "u64 \<Rightarrow> fs_info" where
  "no_params n = \<lparr>len = n, block_size = 0, blocks_per_group = 0, inodes_per_group = 0,
     inode_size = 0, inodes = 0, journal_blocks = 0, feat_ro_compat = 0, feat_compat = 0,
     feat_incompat = 0, bg_desc_reserve_blocks = 0, reserve_pcnt = 0, label = None,
     no_journal = 0, uuid = []\<rparr>"

theorem default_parameters_consistent_witness:
  "\<exists>info'. fill_in_params 0 (no_params 0x10000000) = Inr (Some info')
    \<and> inodes_per_group info' = 8192 \<and> inodes info' = 16384 \<and> journal_blocks info' = 1024 \<and> bg_desc_reserve_blocks info' = 15"
proof -
  have "default_params (no_params 0x10000000)" "4096 \<le> unat (len (no_params 0x10000000))"
    "unat (len (no_params 0x10000000)) < 2 ^ 43" "unat (len (no_params 0x10000000)) = 268435456"
    by (simp_all add: default_params_def no_params_def)
  with default_parameters_consistent [OF this(1-3), of 0] show ?thesis by simp
qed

text \<open>C24: an image smaller than one block leaves the computation of the inodes per group with
  zero block groups to divide by: the program traps on the division instead of reporting the
  size.\<close>

theorem image_below_one_block_divides_by_zero:
  assumes "default_params info" "0 < unat (len info)" "unat (len info) < 4096"
  shows "fill_in_params fs info = Inl Fault"
proof -
  have "sint (len info) = int (unat (len info))" using assms(3) by (intro sint_small) simp
  then have "0 < sint (len info)" using assms(2) by linarith
  from fill_in_params_default [OF assms(1) this] assms(3) show ?thesis by simp
qed

theorem image_below_one_block_divides_by_zero_witness:
  "fill_in_params 0 (no_params 4095) = Inl Fault"
  by (rule image_below_one_block_divides_by_zero) (simp_all add: default_params_def no_params_def)

text \<open>C25: with blocks of 1024 bytes the first data block is 1, but the size of the last group is taken
  from the length that still has block 0. When the blocks leave a remainder of one in whole
  groups, the last group, which is full, is dropped from the plan while only one block is cut off:
  all blocks of that group but one stay counted and belong to no group.\<close>

theorem one_k_blocks_last_group_lost:
  fixes info :: fs_info
  defines "b \<equiv> unat (blocks_per_group info)"
  assumes "ext4_init_fs_aux_info info = Inr g" "block_size info = 1024"
    and "unat (len info) = 1024 * (k * b + 1)" "k * b + 1 < 2 ^ 31" "1 \<le> k" "1 < b"
    and "unat (inode_table_blocks g) + unat (bg_desc_blocks g) + unat (bg_desc_reserve_blocks info) + 3 < 2 ^ 32"
  shows "unat (len_blocks g) = k * b \<and> unat (groups g) = k - 1
    \<and> unat (first_data_block g) + unat (groups g) * b + (b - 1) = unat (len_blocks g)"
proof -
  let ?L = "k * b + 1"
  have bs: "unat (block_size info) = 1024" by (simp add: assms(3))
  then have f: "(if 1024 < unat (block_size info) then 0 else 1 :: nat) = 1" by simp
  have L: "unat (len info) div unat (block_size info) = ?L" unfolding bs assms(4) by simp
  have "sint (len info) = int (unat (len info))" using assms(4,5) by (intro sint_small) (simp add: mult.commute)
  then have "0 \<le> sint (len info)" by simp
  note layout = init_fs_aux_info_layout [OF assms(2) this, unfolded f L, folded b_def]
  have n: "(?L - 1 + b - 1) div b = k" using div_round_up_bounds(3) [of b "k * b"] assms(7) by simp
  have r: "?L mod b = 1" using assms(7) by (simp only: mod_mult_self3) simp
  obtain h where h: "group_header_blocks info g (of_nat k - 1) = Inr h" "first_data_block g = of_nat 1"
    "unat (len_blocks g) = (if 0 < ?L mod b \<and> ?L mod b < unat h then ?L - ?L mod b else ?L)"
    "groups g = (if 0 < ?L mod b \<and> ?L mod b < unat h then of_nat k - 1 else of_nat k)"
    using assms(5) layout n by (metis le_add2)
  have "1 < unat h"
  proof -
    have "unat (2 + inode_table_blocks g) = 2 + unat (inode_table_blocks g)"
      using assms(8) by (subst unat_add_small) simp_all
    moreover have "unat (2 + inode_table_blocks g + (1 + bg_desc_blocks g + bg_desc_reserve_blocks info))
        = 2 + unat (inode_table_blocks g) + (1 + unat (bg_desc_blocks g) + unat (bg_desc_reserve_blocks info))"
      using assms(8) by (simp add: unat_add_small)
    ultimately show ?thesis using h(1) by (auto simp: group_header_blocks_def split: if_splits)
  qed
  then have s: "0 < ?L mod b \<and> ?L mod b < unat h" unfolding r by simp
  have "k * 1 \<le> k * b" using assms(7) by (intro mult_le_mono2) simp
  then have "k < 2 ^ 31" using assms(5) by linarith
  then have small: "k - 1 < 2 ^ LENGTH(32)" by simp
  have "of_nat k - 1 = (of_nat (k - 1) :: u32)" using assms(6) by (simp add: of_nat_diff)
  then have "unat (groups g) = k - 1"
    unfolding h(4) if_P [OF s] by (metis of_nat_inverse small)
  moreover have "unat (len_blocks g) = k * b" unfolding h(3) if_P [OF s] unfolding r by simp
  ultimately show ?thesis using h(2) assms(6,7) by (cases k) simp_all
qed

definition info_1k :: fs_info where
  "info_1k = \<lparr>len = 16385 * 1024, block_size = 1024, blocks_per_group = 8192,
     inodes_per_group = 2048, inode_size = 256, inodes = 4096, journal_blocks = 1024,
     feat_ro_compat = 0x13, feat_compat = 0x1C, feat_incompat = 0x42,
     bg_desc_reserve_blocks = 64, reserve_pcnt = 0, label = Some [], no_journal = 0, uuid = []\<rparr>"

theorem one_k_blocks_last_group_lost_witness:
  "\<exists>g. ext4_init_fs_aux_info info_1k = Inr g \<and> unat (len_blocks g) = 2 * 8192 \<and> unat (groups g) = 1"
proof -
  have ev: "ext4_init_fs_aux_info info_1k = Inr \<lparr>first_data_block = 1, len_blocks = 16384,
      inode_table_blocks = 512, groups = 1, bg_desc_blocks = 1, default_i_flags = 128,
      blocks_per_ind = 256, blocks_per_dind = 65536, blocks_per_tind = 0\<rparr>"
    by code_simp
  have "block_size info_1k = 1024" "unat (blocks_per_group info_1k) = 8192"
    "unat (len info_1k) = 1024 * (2 * 8192 + 1)" "unat (bg_desc_reserve_blocks info_1k) = 64"
    by (simp_all add: info_1k_def)
  with one_k_blocks_last_group_lost [OF ev, of 2] show ?thesis using ev by simp
qed

end
