(* ===== verification/Heap_Lists.thy ===== *)
theory Heap_Lists
  imports Ext4_Prelude
begin

text \<open>
  The part of the C heap that the linked structures of the program live in: a finite
  map from addresses to cells and the next unused address. A null pointer is \<open>None\<close>.
  \<open>load\<close>, \<open>store\<close> and \<open>release\<close> on an address that holds no cell (a null or freed pointer) are a
  \<open>Fault\<close>; \<open>malloc_cell\<close> always succeeds, so the out-of-memory exits of the program are not
  part of the model. \<open>chain\<close> reads a \<open>next\<close>-linked list off the heap; its lemmas carry the
  proofs about the backed blocks and about the regions of an allocation.
\<close>

section \<open>Heap\<close>

record 'c mem =
  cells :: "nat \<Rightarrow> 'c option"
  brk :: nat

definition load :: "'c mem \<Rightarrow> nat \<Rightarrow> 'c res" where
  "load m a = (case cells m a of None \<Rightarrow> Inl Fault | Some c \<Rightarrow> Inr c)"

definition store :: "'c mem \<Rightarrow> nat \<Rightarrow> 'c \<Rightarrow> 'c mem res" where
  "store m a c = (case cells m a of None \<Rightarrow> Inl Fault
                  | Some _ \<Rightarrow> Inr (m\<lparr>cells := (cells m)(a := Some c)\<rparr>))"

definition malloc_cell :: "'c mem \<Rightarrow> 'c \<Rightarrow> nat \<times> 'c mem" where
  "malloc_cell m c = (brk m, m\<lparr>cells := (cells m)(brk m := Some c), brk := Suc (brk m)\<rparr>)"

definition release :: "'c mem \<Rightarrow> nat \<Rightarrow> 'c mem res" where
  "release m a = (case cells m a of None \<Rightarrow> Inl Fault
                  | Some _ \<Rightarrow> Inr (m\<lparr>cells := (cells m)(a := None)\<rparr>))"

text \<open>Dereferencing a pointer that may be null.\<close>

definition deref :: "nat option \<Rightarrow> nat res" where
  "deref p = (case p of None \<Rightarrow> Inl Fault | Some a \<Rightarrow> Inr a)"

text \<open>Only addresses below the next unused one hold a cell.\<close>

definition mem_ok :: "'c mem \<Rightarrow> bool" where
  "mem_ok m \<longleftrightarrow> (\<forall>a \<ge> brk m. cells m a = None)"

lemma load_Some [simp]: "cells m a = Some c \<Longrightarrow> load m a = Inr c"
  by (simp add: load_def)

lemma load_eq_Inr: "load m a = Inr c \<longleftrightarrow> cells m a = Some c"
  by (simp add: load_def split: option.splits)

lemma store_Some [simp]:
  "cells m a = Some c \<Longrightarrow> store m a d = Inr (m\<lparr>cells := (cells m)(a := Some d)\<rparr>)"
  by (simp add: store_def)

lemma release_Some [simp]:
  "cells m a = Some c \<Longrightarrow> release m a = Inr (m\<lparr>cells := (cells m)(a := None)\<rparr>)"
  by (simp add: release_def)

lemma load_None [simp]: "cells m a = None \<Longrightarrow> load m a = Inl Fault"
  by (simp add: load_def)

lemma deref_simps [simp, res_simps]: "deref None = Inl Fault" "deref (Some a) = Inr a"
  by (simp_all add: deref_def)

lemma mem_ok_fresh [simp]: "mem_ok m \<Longrightarrow> cells m (brk m) = None"
  by (simp add: mem_ok_def)

lemma mem_ok_below: "mem_ok m \<Longrightarrow> cells m a = Some c \<Longrightarrow> a < brk m"
  by (metis mem_ok_def not_le option.distinct(1))

lemma mem_ok_update [simp]:
  "mem_ok m \<Longrightarrow> a < brk m \<Longrightarrow> mem_ok (m\<lparr>cells := (cells m)(a := v)\<rparr>)"
  by (simp add: mem_ok_def)

lemma mem_ok_malloc [simp]:
  "mem_ok m \<Longrightarrow> mem_ok (m\<lparr>cells := (cells m)(brk m := v), brk := Suc (brk m)\<rparr>)"
  by (simp add: mem_ok_def)

section \<open>Chains\<close>

text \<open>Following \<open>nx\<close> from \<open>p\<close> visits the cells at \<open>as\<close> and ends at \<open>q\<close>.\<close>

fun chain :: "('c \<Rightarrow> nat option) \<Rightarrow> (nat \<Rightarrow> 'c option) \<Rightarrow> nat option \<Rightarrow> nat list \<Rightarrow> nat option \<Rightarrow> bool"
where
  "chain nx h p [] q = (p = q)"
| "chain nx h p (a # as) q =
     (p = Some a \<and> (case h a of None \<Rightarrow> False | Some c \<Rightarrow> chain nx h (nx c) as q))"

lemma chain_append:
  "chain nx h p (as @ bs) q \<longleftrightarrow> (\<exists>r. chain nx h p as r \<and> chain nx h r bs q)"
  by (induction as arbitrary: p) (auto split: option.splits)

lemma chain_mapped: "chain nx h p as q \<Longrightarrow> a \<in> set as \<Longrightarrow> \<exists>c. h a = Some c"
  by (induction as arbitrary: p) (auto split: option.splits)

text \<open>A cell outside the chain can change, and a cell on it if its link stays.\<close>

lemma chain_frame [simp]:
  "a \<notin> set as \<Longrightarrow> chain nx (h(a := v)) p as q = chain nx h p as q"
  by (induction as arbitrary: p) (auto split: option.splits)

lemma chain_same_link:
  "h a = Some c \<Longrightarrow> nx d = nx c \<Longrightarrow> chain nx (h(a := Some d)) p as q = chain nx h p as q"
  by (induction as arbitrary: p) (auto split: option.splits)

lemma chain_None_head: "chain nx h None as q \<longleftrightarrow> as = [] \<and> q = None"
  by (cases as) auto

lemma chain_det: "chain nx h p as None \<Longrightarrow> chain nx h p bs None \<Longrightarrow> as = bs"
proof (induction as arbitrary: p bs)
  case Nil
  then show ?case by (simp add: chain_None_head)
next
  case (Cons a as)
  then show ?case by (cases bs) (auto split: option.splits)
qed

text \<open>A chain that ends cannot visit a cell twice, so it is no longer than the heap.\<close>

lemma chain_distinct: "chain nx h p as None \<Longrightarrow> distinct as"
proof (induction as arbitrary: p)
  case Nil
  then show ?case by simp
next
  case (Cons a as)
  then obtain c where c: "h a = Some c" "chain nx h (nx c) as None"
    by (auto split: option.splits)
  then have "distinct as" using Cons.IH by blast
  moreover have "a \<notin> set as"
  proof
    assume "a \<in> set as"
    then obtain us vs where as: "as = us @ a # vs" by (meson split_list)
    then have "chain nx h (Some a) (a # vs) None"
      using c(2) by (auto simp: chain_append split: option.splits)
    moreover have "chain nx h (Some a) (a # as) None" using c by simp
    ultimately have "a # vs = a # as" by (rule chain_det)
    then show False using as by simp
  qed
  ultimately show ?case by simp
qed

lemma chain_below:
  assumes "mem_ok m" "chain nx (cells m) p as q"
  shows "set as \<subseteq> {..< brk m}"
proof
  fix a assume "a \<in> set as"
  then obtain c where "cells m a = Some c" using chain_mapped [OF assms(2)] by blast
  then show "a \<in> {..< brk m}" using mem_ok_below [OF assms(1)] by simp
qed

lemma chain_length:
  assumes "mem_ok m" "chain nx (cells m) p as None"
  shows "length as \<le> brk m"
proof -
  have "card (set as) \<le> card {..< brk m}"
    using chain_below [OF assms] by (intro card_mono) auto
  then show ?thesis using chain_distinct [OF assms(2)] by (simp add: distinct_card)
qed

end
