(* ===== verification/Backed_Block.thy ===== *)
theory Backed_Block
  imports Heap_Lists
begin

text \<open>
  \<^verbatim>\<open>src/libsparse/backed_block.c\<close>: the queue of pieces of the image, kept in the order of their
  first block. The list is the code's own: cells of a heap linked by \<open>next\<close>, with the
  \<open>last_used\<close> shortcut, so that cells freed by a merge are visible as such. The second half
  reads the list off the heap as a list of pieces and shows what queueing does to it.
\<close>

section \<open>State\<close>

text \<open>
  The buffers the file system builder hands over, named by what they hold. A data pointer is
  a buffer and a byte offset in it; the bytes are looked up when the image is written.
\<close>

datatype buffer = Bitmaps nat | Inode_Table nat | Sb | Backup_Sb nat | Bg_Desc | Calloc nat

type_synonym ptr = "buffer \<times> nat"

text \<open>
  The tagged union of \<^verbatim>\<open>struct backed_block\<close>. A file name carries the address \<open>strdup\<close> gave its
  copy: names are compared by address.
\<close>

datatype bb_kind =
    BACKED_BLOCK_DATA ptr
  | BACKED_BLOCK_FILE nat string u64
  | BACKED_BLOCK_FD u32 u64
  | BACKED_BLOCK_FILL u32

record backed_block =
  bb_block :: u32
  bb_len :: u32
  bb_kind :: bb_kind
  bb_next :: "nat option"

record backed_block_list =
  data_blocks :: "nat option"
  last_used :: "nat option"
  bbl_block_size :: u32

type_synonym bb_mem = "backed_block mem"

definition backed_block_list_new :: "u32 \<Rightarrow> backed_block_list" where
  "backed_block_list_new bs = \<lparr>data_blocks = None, last_used = None, bbl_block_size = bs\<rparr>"

section \<open>Queueing\<close>

abbreviation EINVAL :: int where "EINVAL \<equiv> 22"
abbreviation ENOMEM :: int where "ENOMEM \<equiv> 12"

text \<open>\<open>merge_bb\<close>, with the assertion that \<open>a\<close> starts before \<open>b\<close>.\<close>

definition merge_bb ::
  "bb_mem \<Rightarrow> backed_block_list \<Rightarrow> nat option \<Rightarrow> nat option \<Rightarrow> (int \<times> bb_mem) res" where
  "merge_bb m bbl pa pb = (case (pa, pb) of (Some aa, Some ab) \<Rightarrow>
     rbind (load m aa) (\<lambda>a. rbind (load m ab) (\<lambda>b.
     if \<not> bb_block a < bb_block b then Inl Assert else
     let merge = rbind (store m aa (a\<lparr>bb_len := bb_len a + bb_len b, bb_next := bb_next b\<rparr>))
                   (\<lambda>m. rbind (release m ab) (\<lambda>m. Inr (0, m)));
         adjacent = (\<lambda>k. rbind (udiv (bb_len a) (bbl_block_size bbl)) (\<lambda>block_len.
           if bb_block a + block_len \<noteq> bb_block b then Inr (- EINVAL, m) else k)) in
     case (bb_kind a, bb_kind b) of
       (BACKED_BLOCK_DATA _, BACKED_BLOCK_DATA _) \<Rightarrow> adjacent (Inr (- EINVAL, m))
     | (BACKED_BLOCK_FILL u, BACKED_BLOCK_FILL v) \<Rightarrow>
         adjacent (if u \<noteq> v then Inr (- EINVAL, m) else merge)
     | (BACKED_BLOCK_FILE f fn off, BACKED_BLOCK_FILE f' fn' off') \<Rightarrow>
         adjacent (if f \<noteq> f' \<or> off + ucast (bb_len a) \<noteq> off' then Inr (- EINVAL, m) else merge)
     | (BACKED_BLOCK_FD f off, BACKED_BLOCK_FD f' off') \<Rightarrow>
         adjacent (if f \<noteq> f' \<or> off + ucast (bb_len a) \<noteq> off' then Inr (- EINVAL, m) else merge)
     | _ \<Rightarrow> Inr (- EINVAL, m)))
   | _ \<Rightarrow> Inr (- EINVAL, m))"

text \<open>
  The search loop of \<open>queue_bb\<close> from the cell at \<open>bb\<close>, with the number of cells that ever
  existed as fuel: a chain that is longer never ends.
\<close>

fun queue_seek :: "nat \<Rightarrow> bb_mem \<Rightarrow> u32 \<Rightarrow> nat \<Rightarrow> nat res" where
  "queue_seek 0 m n bb = Inl Diverge"
| "queue_seek (Suc fuel) m n bb = rbind (load m bb) (\<lambda>c.
     case bb_next c of None \<Rightarrow> Inr bb
     | Some nx \<Rightarrow> rbind (load m nx) (\<lambda>d.
         if bb_block d < n then queue_seek fuel m n nx else Inr bb))"

text \<open>The end of \<open>queue_bb\<close>: link the new cell behind \<open>bb\<close> and try both merges.\<close>

definition queue_link :: "bb_mem \<Rightarrow> backed_block_list \<Rightarrow> nat \<Rightarrow> nat \<Rightarrow> bb_mem res" where
  "queue_link m bbl bb new_bb =
     rbind (load m new_bb) (\<lambda>new.
     rbind (load m bb) (\<lambda>c.
     rbind (if bb_next c = None then Inr m
            else store m new_bb (new\<lparr>bb_next := bb_next c\<rparr>)) (\<lambda>m.
     rbind (load m bb) (\<lambda>c.
     rbind (store m bb (c\<lparr>bb_next := Some new_bb\<rparr>)) (\<lambda>m.
     rbind (load m new_bb) (\<lambda>new.
     rbind (merge_bb m bbl (Some new_bb) (bb_next new)) (\<lambda>(_, m).
     rbind (merge_bb m bbl (Some bb) (Some new_bb)) (\<lambda>(_, m).
     Inr m))))))))"

definition queue_bb ::
  "bb_mem \<Rightarrow> backed_block_list \<Rightarrow> nat \<Rightarrow> (int \<times> bb_mem \<times> backed_block_list) res" where
  "queue_bb m bbl new_bb =
     rbind (load m new_bb) (\<lambda>new.
     case data_blocks bbl of None \<Rightarrow> Inr (0, m, bbl\<lparr>data_blocks := Some new_bb\<rparr>)
     | Some first \<Rightarrow> rbind (load m first) (\<lambda>f.
     if bb_block f > bb_block new then
       rbind (store m new_bb (new\<lparr>bb_next := data_blocks bbl\<rparr>)) (\<lambda>m.
       Inr (0, m, bbl\<lparr>data_blocks := Some new_bb\<rparr>))
     else
       rbind (case last_used bbl of None \<Rightarrow> Inr first
              | Some l \<Rightarrow> rbind (load m l) (\<lambda>lu.
                  Inr (if bb_block new > bb_block lu then l else first))) (\<lambda>bb.
       let bbl = bbl\<lparr>last_used := Some new_bb\<rparr> in
       rbind (queue_seek (Suc (brk m)) m (bb_block new) bb) (\<lambda>bb.
       rbind (queue_link m bbl bb new_bb) (\<lambda>m.
       Inr (0, m, bbl))))))"

definition backed_block_add ::
  "bb_mem \<Rightarrow> backed_block_list \<Rightarrow> bb_kind \<Rightarrow> u32 \<Rightarrow> u32 \<Rightarrow> (int \<times> bb_mem \<times> backed_block_list) res"
where
  "backed_block_add m bbl k n block =
     (let (a, m) = malloc_cell m \<lparr>bb_block = block, bb_len = n, bb_kind = k, bb_next = None\<rparr> in
      queue_bb m bbl a)"

definition backed_block_add_fill where
  "backed_block_add_fill m bbl val n block = backed_block_add m bbl (BACKED_BLOCK_FILL val) n block"

definition backed_block_add_data where
  "backed_block_add_data m bbl data n block = backed_block_add m bbl (BACKED_BLOCK_DATA data) n block"

definition backed_block_add_fd where
  "backed_block_add_fd m bbl fd off n block = backed_block_add m bbl (BACKED_BLOCK_FD fd off) n block"

text \<open>The cell and the copy of the name are one allocation here: its address stands for both.\<close>

definition backed_block_add_file where
  "backed_block_add_file m bbl filename off n block =
     backed_block_add m bbl (BACKED_BLOCK_FILE (brk m) filename off) n block"

section \<open>Splitting and moving\<close>

definition kind_at :: "bb_kind \<Rightarrow> u32 \<Rightarrow> bb_kind" where
  "kind_at k n = (case k of
     BACKED_BLOCK_DATA (b, off) \<Rightarrow> BACKED_BLOCK_DATA (b, off + unat n)
   | BACKED_BLOCK_FILE f fn off \<Rightarrow> BACKED_BLOCK_FILE f fn (off + ucast n)
   | BACKED_BLOCK_FD fd off \<Rightarrow> BACKED_BLOCK_FD fd (off + ucast n)
   | BACKED_BLOCK_FILL v \<Rightarrow> BACKED_BLOCK_FILL v)"

definition backed_block_split ::
  "bb_mem \<Rightarrow> backed_block_list \<Rightarrow> nat \<Rightarrow> u32 \<Rightarrow> (int \<times> bb_mem) res" where
  "backed_block_split m bbl bb max_len =
     rbind (udiv max_len (bbl_block_size bbl)) (\<lambda>q.
     let max_len = bbl_block_size bbl * q in
     rbind (load m bb) (\<lambda>c.
     if bb_len c \<le> max_len then Inr (0, m) else
     rbind (udiv max_len (bbl_block_size bbl)) (\<lambda>q.
     let (new_bb, m) = malloc_cell m (c\<lparr>bb_len := bb_len c - max_len,
           bb_block := bb_block c + q, bb_kind := kind_at (bb_kind c) max_len\<rparr>) in
     rbind (store m bb (c\<lparr>bb_next := Some new_bb, bb_len := max_len\<rparr>)) (\<lambda>m. Inr (0, m)))))"

section \<open>The queue as a list of pieces\<close>

text \<open>A piece of the image: first block, length in bytes, source.\<close>

type_synonym seg = "u32 \<times> u32 \<times> bb_kind"

definition seg_of :: "backed_block \<Rightarrow> seg" where
  "seg_of c = (bb_block c, bb_len c, bb_kind c)"

abbreviation seg_block :: "seg \<Rightarrow> u32" where "seg_block s \<equiv> fst s"

definition seg_at :: "bb_mem \<Rightarrow> nat \<Rightarrow> seg" where
  "seg_at m a = (case cells m a of Some c \<Rightarrow> seg_of c | None \<Rightarrow> (0, 0, BACKED_BLOCK_FILL 0))"

text \<open>The cells at \<open>as\<close> are the queue, and they hold the pieces \<open>xs\<close>.\<close>

definition queue_list :: "bb_mem \<Rightarrow> backed_block_list \<Rightarrow> nat list \<Rightarrow> seg list \<Rightarrow> bool" where
  "queue_list m bbl as xs \<longleftrightarrow> mem_ok m \<and> chain bb_next (cells m) (data_blocks bbl) as None
     \<and> xs = List.map (seg_at m) as"

definition last_used_ok :: "backed_block_list \<Rightarrow> nat list \<Rightarrow> bool" where
  "last_used_ok bbl as \<longleftrightarrow> (case last_used bbl of None \<Rightarrow> True | Some l \<Rightarrow> l \<in> set as)"

definition can_merge :: "u32 \<Rightarrow> seg \<Rightarrow> seg \<Rightarrow> bool" where
  "can_merge bs x y = (case (x, y) of ((bx, lx, kx), (b_y, ly, ky)) \<Rightarrow>
     bx + lx div bs = b_y \<and>
     (case (kx, ky) of
        (BACKED_BLOCK_FILL u, BACKED_BLOCK_FILL v) \<Rightarrow> u = v
      | (BACKED_BLOCK_FILE f fn off, BACKED_BLOCK_FILE f' fn' off') \<Rightarrow> f = f' \<and> off + ucast lx = off'
      | (BACKED_BLOCK_FD f off, BACKED_BLOCK_FD f' off') \<Rightarrow> f = f' \<and> off + ucast lx = off'
      | _ \<Rightarrow> False))"

fun merge_front :: "u32 \<Rightarrow> seg \<Rightarrow> seg list \<Rightarrow> seg list" where
  "merge_front bs x [] = [x]"
| "merge_front bs (bx, lx, kx) ((b_y, ly, ky) # ys) =
     (if can_merge bs (bx, lx, kx) (b_y, ly, ky) then (bx, lx + ly, kx) # ys
      else (bx, lx, kx) # (b_y, ly, ky) # ys)"

text \<open>
  What queueing is meant to do: a piece in front of all others is put there as it is; any other
  goes behind the last piece that starts before it and is joined with its neighbours
  where they continue each other.
\<close>

definition insert_seg :: "u32 \<Rightarrow> seg \<Rightarrow> seg list \<Rightarrow> seg list" where
  "insert_seg bs n xs = (case xs of [] \<Rightarrow> [n] | x # _ \<Rightarrow>
     if seg_block x > seg_block n then n # xs else
     let pre = takeWhile (\<lambda>s. seg_block s < seg_block n) xs;
         post = dropWhile (\<lambda>s. seg_block s < seg_block n) xs in
     butlast pre @ merge_front bs (last pre) (merge_front bs n post))"

section \<open>Heap lemmas\<close>

lemma seg_at_Some [simp]: "cells m a = Some c \<Longrightarrow> seg_at m a = seg_of c"
  by (simp add: seg_at_def)

lemma seg_block_of [simp]: "seg_block (seg_of c) = bb_block c"
  by (simp add: seg_of_def)

lemma seg_of_next [simp]: "seg_of (c\<lparr>bb_next := p\<rparr>) = seg_of c"
  by (simp add: seg_of_def)

lemma map_seg_at_frame [simp]:
  "a \<notin> set as \<Longrightarrow> List.map (seg_at (m\<lparr>cells := (cells m)(a := v)\<rparr>)) as = List.map (seg_at m) as"
  by (simp add: seg_at_def map_eq_conv)

lemma queue_seek_chain:
  assumes "chain bb_next (cells m) (Some bb) (bb # as) None" "length as < fuel"
  shows "queue_seek fuel m n bb
    = Inr (last (bb # takeWhile (\<lambda>a. seg_block (seg_at m a) < n) as))"
  using assms
proof (induction as arbitrary: bb fuel)
  case Nil
  then show ?case by (cases fuel) (auto split: option.splits)
next
  case (Cons a as)
  then obtain f c d where f: "fuel = Suc f" and c: "cells m bb = Some c" "bb_next c = Some a"
    and d: "cells m a = Some d" by (cases fuel) (auto split: option.splits)
  have "queue_seek f m n a = Inr (last (a # takeWhile (\<lambda>a. seg_block (seg_at m a) < n) as))"
    using Cons c f by simp
  then show ?case using f c d by simp
qed

text \<open>Merging two cells that follow each other on the queue.\<close>

lemma merge_bb_cells:
  assumes "cells m a = Some ca" "cells m b = Some cb" "bb_block ca < bb_block cb"
    and "bbl_block_size bbl \<noteq> 0"
  shows "merge_bb m bbl (Some a) (Some b) =
    (if can_merge (bbl_block_size bbl) (seg_of ca) (seg_of cb)
     then Inr (0, m\<lparr>cells := (cells m)(a := Some (ca\<lparr>bb_len := bb_len ca + bb_len cb,
                 bb_next := bb_next cb\<rparr>), b := None)\<rparr>)
     else Inr (- EINVAL, m))"
proof -
  have "a \<noteq> b" using assms(1-3) by auto
  with assms show ?thesis
    by (auto simp: merge_bb_def can_merge_def seg_of_def Let_def split: bb_kind.splits)
qed

lemma merge_bb_null: "merge_bb m bbl (Some a) None = Inr (- EINVAL, m)"
  by (simp add: merge_bb_def)

lemma merge_step:
  assumes ok: "mem_ok m" and ch: "chain bb_next (cells m) p (us @ a # vs) None"
    and ca: "cells m a = Some ca" and bs: "bbl_block_size bbl \<noteq> 0"
    and lt: "\<And>b ws. vs = b # ws \<Longrightarrow> bb_block ca < seg_block (seg_at m b)"
  obtains r m' vs' where "merge_bb m bbl (Some a) (bb_next ca) = Inr (r, m')" "mem_ok m'"
    "chain bb_next (cells m') p (us @ a # vs') None" "brk m' = brk m"
    "List.map (seg_at m') us = List.map (seg_at m) us"
    "List.map (seg_at m') (a # vs')
       = merge_front (bbl_block_size bbl) (seg_of ca) (List.map (seg_at m) vs)"
    "vs' = vs \<or> (\<exists>b. vs = b # vs' \<and> can_merge (bbl_block_size bbl) (seg_of ca) (seg_at m b))"
    "seg_block (seg_at m' a) = bb_block ca"
    "\<And>b. vs = b # vs' \<Longrightarrow> cells m' b = None"
proof (cases vs)
  case Nil
  then have "bb_next ca = None" using ch ca by (auto simp: chain_append)
  with Nil ok ch ca show thesis by (intro that [of _ m "[]"]) (simp_all add: merge_bb_null)
next
  case (Cons b ws)
  obtain r where r: "chain bb_next (cells m) p us r" "chain bb_next (cells m) r (a # vs) None"
    using ch by (auto simp: chain_append)
  with ca Cons obtain cb where cb: "cells m b = Some cb" "bb_next ca = Some b"
      "chain bb_next (cells m) (bb_next cb) ws None"
    by (auto split: option.splits)
  have dist: "distinct (us @ a # vs)" by (rule chain_distinct [OF ch])
  have below: "a < brk m" "b < brk m" using mem_ok_below [OF ok] ca cb by blast+
  have merge: "merge_bb m bbl (Some a) (bb_next ca) =
    (if can_merge (bbl_block_size bbl) (seg_of ca) (seg_of cb)
     then Inr (0, m\<lparr>cells := (cells m)(a := Some (ca\<lparr>bb_len := bb_len ca + bb_len cb,
                 bb_next := bb_next cb\<rparr>), b := None)\<rparr>)
     else Inr (- EINVAL, m))"
    unfolding cb(2) using lt [OF Cons] cb(1) by (intro merge_bb_cells) (simp_all add: ca bs)
  show thesis
  proof (cases "can_merge (bbl_block_size bbl) (seg_of ca) (seg_of cb)")
    case False
    then show thesis using merge ok ch ca Cons cb(1)
      by (intro that [of _ m vs]) (simp_all add: seg_of_def)
  next
    case True
    let ?ca = "ca\<lparr>bb_len := bb_len ca + bb_len cb, bb_next := bb_next cb\<rparr>"
    let ?m = "m\<lparr>cells := (cells m)(a := Some ?ca, b := None)\<rparr>"
    have "mem_ok ?m" using ok below by (simp add: mem_ok_def)
    moreover have "chain bb_next (cells ?m) p (us @ a # ws) None"
      using r(1) cb(3) dist Cons by (auto simp: chain_append intro: exI [of _ "Some a"])
         (use r in \<open>auto split: option.splits\<close>)
    moreover have "List.map (seg_at ?m) us = List.map (seg_at m) us"
      using dist Cons by (auto simp: seg_at_def)
    moreover have "List.map (seg_at ?m) (a # ws)
       = merge_front (bbl_block_size bbl) (seg_of ca) (List.map (seg_at m) vs)"
      using dist Cons True ca cb(1) by (auto simp: seg_at_def seg_of_def)
    moreover have "seg_block (seg_at ?m a) = bb_block ca"
      using dist Cons by (simp add: seg_at_def)
    ultimately show thesis using merge True cb(1) Cons by (intro that [of 0 ?m ws]) simp_all
  qed
qed

lemma can_merge_front [simp]:
  "can_merge bs x (hd (merge_front bs y ys)) = can_merge bs x y"
  by (cases "(bs, y, ys)" rule: merge_front.cases) (auto simp: can_merge_def split: prod.splits)

definition sorted_segs :: "seg list \<Rightarrow> bool" where
  "sorted_segs xs \<longleftrightarrow> sorted_wrt (\<lambda>x y. seg_block x < seg_block y) xs"

text \<open>Inserting the new cell behind the cell \<open>p\<close> of the queue, before any merge.\<close>

lemma link_behind:
  assumes ok: "mem_ok m" and ch: "chain bb_next (cells m) q (us @ p # post) None"
    and new: "cells m new = Some c0" "bb_next c0 = None" "new \<notin> set (us @ p # post)"
    and cp: "cells m p = Some cp"
  defines "m' \<equiv> m\<lparr>cells := (cells m)(new := Some (c0\<lparr>bb_next := bb_next cp\<rparr>),
                                    p := Some (cp\<lparr>bb_next := Some new\<rparr>))\<rparr>"
  shows "rbind (if bb_next cp = None then Inr m
              else store m new (c0\<lparr>bb_next := bb_next cp\<rparr>)) (\<lambda>m.
       rbind (load m p) (\<lambda>c. store m p (c\<lparr>bb_next := Some new\<rparr>))) = Inr m'"
    "mem_ok m'" "brk m' = brk m" "chain bb_next (cells m') q (us @ p # new # post) None"
    "List.map (seg_at m') (us @ p # new # post)
     = List.map (seg_at m) (us @ [p]) @ seg_of c0 # List.map (seg_at m) post"
proof -
  have dist: "distinct (us @ p # post)" by (rule chain_distinct [OF ch])
  have below: "new < brk m" "p < brk m" using mem_ok_below [OF ok] new(1) cp by blast+
  have np: "new \<noteq> p" using new(3) by auto
  have "c0\<lparr>bb_next := None\<rparr> = c0" using new(2) by (cases c0) simp
  then have upd: "m\<lparr>cells := (cells m)(new := Some (c0\<lparr>bb_next := None\<rparr>))\<rparr> = m"
    using new(1) by (simp add: fun_upd_idem)
  show "rbind (if bb_next cp = None then Inr m
              else store m new (c0\<lparr>bb_next := bb_next cp\<rparr>)) (\<lambda>m.
       rbind (load m p) (\<lambda>c. store m p (c\<lparr>bb_next := Some new\<rparr>))) = Inr m'"
  proof (cases "bb_next cp")
    case None
    have "m' = (m\<lparr>cells := (cells m)(new := Some (c0\<lparr>bb_next := None\<rparr>))\<rparr>)\<lparr>cells :=
        (cells (m\<lparr>cells := (cells m)(new := Some (c0\<lparr>bb_next := None\<rparr>))\<rparr>))
          (p := Some (cp\<lparr>bb_next := Some new\<rparr>))\<rparr>"
      by (simp add: m'_def None)
    then show ?thesis unfolding upd by (simp add: None cp)
  qed (use cp new np in \<open>simp add: m'_def\<close>)
  show "mem_ok m'" using ok below by (simp add: m'_def mem_ok_def)
  show "brk m' = brk m" by (simp add: m'_def)
  obtain r where r: "chain bb_next (cells m) q us r" "chain bb_next (cells m) r (p # post) None"
    using ch by (auto simp: chain_append)
  then show "chain bb_next (cells m') q (us @ p # new # post) None"
    using dist new np cp by (auto simp: chain_append m'_def intro!: exI [of _ r])
  show "List.map (seg_at m') (us @ p # new # post)
     = List.map (seg_at m) (us @ [p]) @ seg_of c0 # List.map (seg_at m) post"
    using dist new np cp by (auto simp: m'_def seg_at_def seg_of_def)
qed

text \<open>Where the search ends: at the last cell that starts before the new one.\<close>

lemma queue_seek_position:
  assumes ok: "mem_ok m" and ch: "chain bb_next (cells m) q as None"
    and sorted: "sorted_segs (List.map (seg_at m) as)"
    and start: "start \<in> set as" "seg_block (seg_at m start) < n"
  obtains us p post where "as = us @ p # post" "queue_seek (Suc (brk m)) m n start = Inr p"
    "takeWhile (\<lambda>s. seg_block s < n) (List.map (seg_at m) as) = List.map (seg_at m) (us @ [p])"
    "dropWhile (\<lambda>s. seg_block s < n) (List.map (seg_at m) as) = List.map (seg_at m) post"
    "seg_block (seg_at m p) < n"
proof -
  let ?lt = "\<lambda>a. seg_block (seg_at m a) < n"
  obtain us0 vs0 where as: "as = us0 @ start # vs0" using start(1) by (meson split_list)
  have front: "?lt a" if "a \<in> set us0" for a
  proof -
    have "seg_block (seg_at m a) < seg_block (seg_at m start)"
      using sorted that unfolding as sorted_segs_def by (auto simp: sorted_wrt_append)
    then show ?thesis using start(2) by (rule less_trans)
  qed
  let ?ws = "start # takeWhile ?lt vs0"
  have tw: "takeWhile ?lt as = us0 @ ?ws"
    unfolding as using front start(2) by (subst takeWhile_append2) auto
  have ws: "?ws = butlast ?ws @ [last ?ws]" by simp
  define us p post where "us = us0 @ butlast ?ws" and "p = last ?ws" and "post = dropWhile ?lt as"
  have pre: "takeWhile ?lt as = us @ [p]" unfolding tw us_def p_def using ws by simp
  have split: "as = us @ p # post"
    using takeWhile_dropWhile_id [of ?lt as] unfolding pre post_def [symmetric] by simp
  have "length as \<le> brk m" by (rule chain_length [OF ok ch])
  then have len: "length vs0 < Suc (brk m)" unfolding as by simp
  have "chain bb_next (cells m) (Some start) (start # vs0) None"
    using ch unfolding as by (auto simp: chain_append split: option.splits)
  then have "queue_seek (Suc (brk m)) m n start = Inr p"
    unfolding p_def using len by (rule queue_seek_chain)
  moreover have "p \<in> set (takeWhile ?lt as)" unfolding pre by simp
  then have "?lt p" by (rule set_takeWhileD [THEN conjunct2])
  ultimately show thesis
    using split pre by (intro that) (simp_all add: takeWhile_map dropWhile_map comp_def post_def)
qed

text \<open>The pieces after linking behind \<open>p\<close> and merging with both neighbours.\<close>

lemma queue_link_pieces:
  assumes ok: "mem_ok m" and ch: "chain bb_next (cells m) q (us @ p # post) None"
    and new: "cells m new = Some c0" "bb_next c0 = None" "new \<notin> set (us @ p # post)"
    and bs: "bbl_block_size bbl \<noteq> 0" and p: "seg_block (seg_at m p) < bb_block c0"
    and order: "\<And>b vs. post = b # vs \<Longrightarrow> bb_block c0 < seg_block (seg_at m b)"
  obtains m3 ws where "queue_link m bbl p new = Inr m3" "mem_ok m3" "brk m3 = brk m"
    "chain bb_next (cells m3) q (us @ p # ws) None"
    "List.map (seg_at m3) (us @ p # ws) = List.map (seg_at m) us
       @ merge_front (bbl_block_size bbl) (seg_at m p)
           (merge_front (bbl_block_size bbl) (seg_of c0) (List.map (seg_at m) post))"
    "\<not> can_merge (bbl_block_size bbl) (seg_at m p) (seg_of c0) \<Longrightarrow> new \<in> set ws"
    "can_merge (bbl_block_size bbl) (seg_at m p) (seg_of c0) \<Longrightarrow> cells m3 new = None"
proof -
  obtain cp where cp: "cells m p = Some cp" using chain_mapped [OF ch, of p] by auto
  note link = link_behind [OF ok ch new cp]
  let ?c0 = "c0\<lparr>bb_next := bb_next cp\<rparr>" and ?bs = "bbl_block_size bbl"
  let ?m1 = "m\<lparr>cells := (cells m)(new := Some ?c0, p := Some (cp\<lparr>bb_next := Some new\<rparr>))\<rparr>"
  have ch1: "chain bb_next (cells ?m1) q ((us @ [p]) @ new # post) None"
    using link(4) by simp
  have c1: "cells ?m1 new = Some ?c0" using new(3) by simp
  have post: "List.map (seg_at ?m1) post = List.map (seg_at m) post" using link(5) by simp
  have order1: "bb_block ?c0 < seg_block (seg_at ?m1 b)" if "post = b # vs" for b vs
    using order [OF that] post that by simp
  obtain r1 m2 vs where
      merge1: "merge_bb ?m1 bbl (Some new) (bb_next ?c0) = Inr (r1, m2)" "mem_ok m2"
      "chain bb_next (cells m2) q ((us @ [p]) @ new # vs) None" "brk m2 = brk ?m1"
      "List.map (seg_at m2) (us @ [p]) = List.map (seg_at ?m1) (us @ [p])"
      "List.map (seg_at m2) (new # vs) = merge_front ?bs (seg_of ?c0) (List.map (seg_at ?m1) post)"
      "seg_block (seg_at m2 new) = bb_block ?c0"
    by (rule merge_step [OF link(2) ch1 c1 bs]) (use order1 in auto)
  obtain cp2 where cp2: "cells m2 p = Some cp2" "bb_next cp2 = Some new"
    using merge1(3) chain_mapped [OF merge1(3), of p]
    by (auto simp: chain_append split: option.splits)
  have seg_p: "seg_of cp2 = seg_at m p"
    using merge1(5) link(5) cp2(1) by simp
  then have block_p: "bb_block cp2 < bb_block c0" using p by (metis seg_block_of)
  have "chain bb_next (cells m2) q (us @ p # new # vs) None"
    using merge1(3) by simp
  then obtain r2 m3 ws where
      merge2: "merge_bb m2 bbl (Some p) (bb_next cp2) = Inr (r2, m3)" "mem_ok m3"
      "chain bb_next (cells m3) q (us @ p # ws) None" "brk m3 = brk m2"
      "List.map (seg_at m3) us = List.map (seg_at m2) us"
      "List.map (seg_at m3) (p # ws)
         = merge_front ?bs (seg_of cp2) (List.map (seg_at m2) (new # vs))"
      "ws = new # vs \<or> (\<exists>b. new # vs = b # ws \<and> can_merge ?bs (seg_of cp2) (seg_at m2 b))"
      "\<And>b. new # vs = b # ws \<Longrightarrow> cells m3 b = None"
    by (rule merge_step [OF merge1(2) _ cp2(1) bs, of q us "new # vs"])
      (use block_p merge1(7) in auto)
  show thesis
  proof (rule that [of m3 ws])
    obtain m' c' where m': "(if bb_next cp = None then Inr m
            else store m new (c0\<lparr>bb_next := bb_next cp\<rparr>)) = Inr m'"
        "load m' p = Inr c'" "store m' p (c'\<lparr>bb_next := Some new\<rparr>) = Inr ?m1"
      using link(1) by auto
    have "load m new = Inr c0" "load m p = Inr cp" "load ?m1 new = Inr ?c0"
      using new(1) cp c1 by simp_all
    moreover have "merge_bb ?m1 bbl (Some new) (bb_next ?c0) = Inr (r1, m2)"
      "merge_bb m2 bbl (Some p) (Some new) = Inr (r2, m3)"
      using merge1(1) merge2(1) cp2(2) by simp_all
    ultimately show "queue_link m bbl p new = Inr m3"
      unfolding queue_link_def by (simp only: rbind_Inr m' Let_def prod.case)
    show "brk m3 = brk m" using merge2(4) merge1(4) by simp
    show "List.map (seg_at m3) (us @ p # ws) = List.map (seg_at m) us
       @ merge_front ?bs (seg_at m p) (merge_front ?bs (seg_of c0) (List.map (seg_at m) post))"
      using merge2(5,6) merge1(5,6) post link(5) seg_p by simp
    show "new \<in> set ws" if "\<not> can_merge ?bs (seg_at m p) (seg_of c0)"
      using merge2(7) seg_p that arg_cong [OF merge1(6), of hd] by auto
    show "cells m3 new = None" if can: "can_merge ?bs (seg_at m p) (seg_of c0)"
    proof -
      have "can_merge ?bs (seg_of cp2) (seg_at m2 new)"
        using can seg_p arg_cong [OF merge1(6), of hd] by simp
      then have "length ws < length (new # vs)" using arg_cong [OF merge2(6), of length]
        by (cases "(?bs, seg_of cp2, List.map (seg_at m2) (new # vs))" rule: merge_front.cases) auto
      then have "ws = vs" using merge2(7) by auto
      then show ?thesis using merge2(8) by blast
    qed
  qed (fact merge2(2,3))+
qed

lemma queue_bb_inserts:
  assumes q: "queue_list m bbl as xs" and last: "last_used_ok bbl as"
    and sorted: "sorted_segs xs" and bs: "bbl_block_size bbl \<noteq> 0"
    and new: "cells m new = Some c0" "bb_next c0 = None" "new \<notin> set as"
    and fresh: "bb_block c0 \<notin> seg_block ` set xs"
  obtains m' bbl' as' where "queue_bb m bbl new = Inr (0, m', bbl')" "brk m' = brk m"
    "bbl_block_size bbl' = bbl_block_size bbl"
    "queue_list m' bbl' as' (insert_seg (bbl_block_size bbl) (seg_of c0) xs)"
    "(\<forall>x \<in> set xs. \<not> can_merge (bbl_block_size bbl) x (seg_of c0)) \<longrightarrow> last_used_ok bbl' as'"
    "\<And>us x vs. xs = us @ x # vs \<Longrightarrow> seg_block x < bb_block c0 \<Longrightarrow> \<forall>y \<in> set vs. bb_block c0 < seg_block y \<Longrightarrow>
       can_merge (bbl_block_size bbl) x (seg_of c0) \<Longrightarrow> last_used bbl' = Some new \<and> cells m' new = None"
proof -
  have ok: "mem_ok m" and ch: "chain bb_next (cells m) (data_blocks bbl) as None"
    and xs: "xs = List.map (seg_at m) as"
    using q by (simp_all add: queue_list_def)
  show thesis
  proof (cases as)
    case Nil
    then have "data_blocks bbl = None" using ch by simp
    with Nil ok ch new last show thesis
      by (intro that [of m "bbl\<lparr>data_blocks := Some new\<rparr>" "[new]"])
        (simp_all add: queue_bb_def queue_list_def xs insert_seg_def last_used_ok_def split: option.splits)
  next
    case (Cons a ws)
    then obtain ca where db: "data_blocks bbl = Some a" and ca: "cells m a = Some ca"
      using ch by (auto split: option.splits)
    show thesis
    proof (cases "bb_block ca > bb_block c0")
      case True
      let ?m = "m\<lparr>cells := (cells m)(new := Some (c0\<lparr>bb_next := Some a\<rparr>))\<rparr>"
      have "mem_ok ?m" using ok mem_ok_below [OF ok new(1)] by simp
      moreover have "chain bb_next (cells ?m) (Some new) (new # as) None"
        using ch db new(3) by simp
      moreover have "List.map (seg_at ?m) (new # as) = seg_of c0 # xs"
        using new xs by (simp add: seg_of_def)
      moreover have above: "bb_block c0 < seg_block s" if "s \<in> set xs" for s
        using that sorted True ca xs Cons by (auto simp: sorted_segs_def dest: less_trans)
      ultimately show thesis
      proof (intro that [of ?m "bbl\<lparr>data_blocks := Some new\<rparr>" "new # as"], goal_cases)
        case (6 us x vs)
        then have "bb_block c0 < seg_block x" by (intro above) simp
        with 6 show ?case by (meson less_asym)
      qed (use True db ca new xs Cons last in
          \<open>auto simp: queue_bb_def queue_list_def insert_seg_def last_used_ok_def split: option.splits\<close>)
    next
      case False
      have "bb_block ca \<noteq> bb_block c0" using fresh ca xs Cons by auto
      with False have first: "seg_block (seg_at m a) < bb_block c0" using ca by simp
      let ?start = "case last_used bbl of None \<Rightarrow> Inr a
              | Some l \<Rightarrow> rbind (load m l) (\<lambda>lu.
                  Inr (if bb_block c0 > bb_block lu then l else a))"
      obtain start where start: "?start = Inr start" "start \<in> set as"
        "seg_block (seg_at m start) < bb_block c0"
      proof (cases "last_used bbl")
        case None
        then show thesis using that first Cons by simp
      next
        case (Some l)
        then have "l \<in> set as" using last by (simp add: last_used_ok_def)
        then obtain cl where "cells m l = Some cl" using chain_mapped [OF ch] by blast
        then show thesis
          using Some that [of "if bb_block c0 > bb_block cl then l else a"] first Cons \<open>l \<in> set as\<close>
          by auto
      qed
      obtain us p post where split: "as = us @ p # post"
          "queue_seek (Suc (brk m)) m (bb_block c0) start = Inr p"
        and tw: "takeWhile (\<lambda>s. seg_block s < bb_block c0) xs = List.map (seg_at m) (us @ [p])"
          "dropWhile (\<lambda>s. seg_block s < bb_block c0) xs = List.map (seg_at m) post"
        and p: "seg_block (seg_at m p) < bb_block c0"
        using queue_seek_position [OF ok ch sorted [unfolded xs] start(2,3)] unfolding xs by blast
      have order: "bb_block c0 < seg_block (seg_at m b)" if "post = b # vs" for b vs
      proof -
        have "\<not> seg_block (seg_at m b) < bb_block c0"
          using hd_dropWhile [of "\<lambda>s. seg_block s < bb_block c0" xs] tw(2) that by simp
        moreover have "seg_block (seg_at m b) \<noteq> bb_block c0"
          using fresh xs split(1) that by auto
        ultimately show ?thesis by simp
      qed
      let ?bbl = "bbl\<lparr>last_used := Some new\<rparr>"
      obtain m3 ws' where link: "queue_link m ?bbl p new = Inr m3" "mem_ok m3" "brk m3 = brk m"
        "chain bb_next (cells m3) (data_blocks bbl) (us @ p # ws') None"
        "List.map (seg_at m3) (us @ p # ws') = List.map (seg_at m) us
          @ merge_front (bbl_block_size ?bbl) (seg_at m p)
              (merge_front (bbl_block_size ?bbl) (seg_of c0) (List.map (seg_at m) post))"
        "\<not> can_merge (bbl_block_size ?bbl) (seg_at m p) (seg_of c0) \<Longrightarrow> new \<in> set ws'"
        "can_merge (bbl_block_size ?bbl) (seg_at m p) (seg_of c0) \<Longrightarrow> cells m3 new = None"
        by (rule queue_link_pieces [OF ok ch [unfolded split(1)] new(1,2) new(3) [unfolded split(1)], of ?bbl])
          (use bs p order in auto)
      show thesis
      proof (rule that [of m3 ?bbl "us @ p # ws'"])
        have "load m new = Inr c0" "load m a = Inr ca" using new(1) ca by simp_all
        then show "queue_bb m bbl new = Inr (0, m3, ?bbl)"
          unfolding queue_bb_def db
          by (simp only: rbind_Inr option.case if_not_P [OF False] start(1) split(2) link(1) Let_def)
        have "\<exists>x ys. xs = x # ys \<and> \<not> seg_block x > bb_block c0" using Cons xs ca False by simp
        then show "queue_list m3 ?bbl (us @ p # ws') (insert_seg (bbl_block_size bbl) (seg_of c0) xs)"
          using link(2,4,5)
          by (auto simp: queue_list_def insert_seg_def tw butlast_append last_map split: list.splits)
        show "(\<forall>x \<in> set xs. \<not> can_merge (bbl_block_size bbl) x (seg_of c0))
          \<longrightarrow> last_used_ok ?bbl (us @ p # ws')"
          using link(6) xs split(1) by (auto simp: last_used_ok_def)
        show "last_used ?bbl = Some new \<and> cells m3 new = None"
          if x: "xs = vs @ x # zs" "seg_block x < bb_block c0" "\<forall>y \<in> set zs. bb_block c0 < seg_block y"
            "can_merge (bbl_block_size bbl) x (seg_of c0)" for vs x zs
        proof -
          have "\<forall>y \<in> set vs. seg_block y < bb_block c0"
            using sorted x(1,2) by (fastforce simp: sorted_segs_def sorted_wrt_append)
          then have "takeWhile (\<lambda>s. seg_block s < bb_block c0) xs = vs @ [x]"
            using x(2,3) unfolding x(1) by (subst takeWhile_append2) (cases zs; auto)+
          then have "x = seg_at m p" using tw(1) by simp
          then show ?thesis using link(7) x(4) by simp
        qed
      qed (simp_all add: link)
    qed
  qed
qed

text \<open>A block number that is queued already: one of the two assertions of \<open>merge_bb\<close> fails.\<close>

lemma queue_link_duplicate:
  assumes ok: "mem_ok m" and ch: "chain bb_next (cells m) q (us @ p # post) None"
    and new: "cells m new = Some c0" "bb_next c0 = None" "new \<notin> set (us @ p # post)"
    and bs: "bbl_block_size bbl \<noteq> 0"
    and dup: "seg_block (seg_at m p) = bb_block c0 \<and> (\<forall>b vs. post = b # vs \<longrightarrow> bb_block c0 < seg_block (seg_at m b))
      \<or> (\<exists>b vs. post = b # vs \<and> seg_block (seg_at m b) = bb_block c0)"
  shows "queue_link m bbl p new = Inl Assert"
proof -
  obtain cp where cp: "cells m p = Some cp" using chain_mapped [OF ch, of p] by auto
  note link = link_behind [OF ok ch new cp]
  let ?c0 = "c0\<lparr>bb_next := bb_next cp\<rparr>"
  let ?m1 = "m\<lparr>cells := (cells m)(new := Some ?c0, p := Some (cp\<lparr>bb_next := Some new\<rparr>))\<rparr>"
  obtain m' c' where m': "(if bb_next cp = None then Inr m
          else store m new (c0\<lparr>bb_next := bb_next cp\<rparr>)) = Inr m'"
      "load m' p = Inr c'" "store m' p (c'\<lparr>bb_next := Some new\<rparr>) = Inr ?m1"
    using link(1) by auto
  have c1: "cells ?m1 new = Some ?c0" using new(3) by simp
  then have loads: "load m new = Inr c0" "load m p = Inr cp" "load ?m1 new = Inr ?c0"
    using new(1) cp by simp_all
  have start: "queue_link m bbl p new = rbind (merge_bb ?m1 bbl (Some new) (bb_next ?c0)) (\<lambda>(_, m).
     rbind (merge_bb m bbl (Some p) (Some new)) (\<lambda>(_, m). Inr m))"
    unfolding queue_link_def by (simp only: rbind_Inr m' loads)
  have post: "List.map (seg_at ?m1) post = List.map (seg_at m) post" using link(5) by simp
  show ?thesis
  proof (cases "\<exists>b vs. post = b # vs \<and> seg_block (seg_at m b) = bb_block c0")
    case True
    then obtain b vs where b: "post = b # vs" "seg_block (seg_at m b) = bb_block c0" by blast
    then have "bb_next cp = Some b"
      using ch cp by (auto simp: chain_append split: option.splits)
    moreover obtain cb where "cells ?m1 b = Some cb"
      using chain_mapped [OF link(4), of b] b(1) by auto
    moreover from this have "seg_of cb = seg_at m b" using b(1) post by simp
    then have "bb_block cb = bb_block c0" using b(2) by (metis seg_block_of)
    ultimately have "merge_bb ?m1 bbl (Some new) (bb_next ?c0) = Inl Assert"
      using c1 by (simp add: merge_bb_def)
    then show ?thesis unfolding start by simp
  next
    case False
    with dup have order: "\<And>b vs. post = b # vs \<Longrightarrow> bb_block ?c0 < seg_block (seg_at ?m1 b)"
      and p: "seg_block (seg_at m p) = bb_block c0" using post by auto
    have ch1: "chain bb_next (cells ?m1) q ((us @ [p]) @ new # post) None" using link(4) by simp
    obtain r1 m2 vs where merge1: "merge_bb ?m1 bbl (Some new) (bb_next ?c0) = Inr (r1, m2)"
      "chain bb_next (cells m2) q ((us @ [p]) @ new # vs) None"
      "List.map (seg_at m2) (us @ [p]) = List.map (seg_at ?m1) (us @ [p])"
      "seg_block (seg_at m2 new) = bb_block ?c0"
      by (rule merge_step [OF link(2) ch1 c1 bs]) (use order in auto)
    obtain cp2 cn where cp2: "cells m2 p = Some cp2" "cells m2 new = Some cn"
      using chain_mapped [OF merge1(2), of p] chain_mapped [OF merge1(2), of new] by auto
    have "seg_of cp2 = seg_at m p" using merge1(3) link(5) cp2(1) by simp
    then have "bb_block cp2 = bb_block c0" using p by (metis seg_block_of)
    then have "merge_bb m2 bbl (Some p) (Some new) = Inl Assert"
      using cp2 merge1(4) by (simp add: merge_bb_def)
    then show ?thesis unfolding start using merge1(1) by simp
  qed
qed

lemma queue_bb_duplicate:
  assumes q: "queue_list m bbl as xs" and last: "last_used_ok bbl as"
    and sorted: "sorted_segs xs" and bs: "bbl_block_size bbl \<noteq> 0"
    and new: "cells m new = Some c0" "bb_next c0 = None" "new \<notin> set as"
    and dup: "bb_block c0 \<in> seg_block ` set xs"
  shows "queue_bb m bbl new = Inl Assert"
proof -
  have ok: "mem_ok m" and ch: "chain bb_next (cells m) (data_blocks bbl) as None"
    and xs: "xs = List.map (seg_at m) as"
    using q by (simp_all add: queue_list_def)
  obtain a ws where as: "as = a # ws" using dup xs by (cases as) auto
  then obtain ca where db: "data_blocks bbl = Some a" and ca: "cells m a = Some ca"
    using ch by (auto split: option.splits)
  let ?n = "bb_block c0"
  have above: "bb_block ca \<le> seg_block (seg_at m b)" if "b \<in> set as" for b
    using sorted that ca unfolding xs as sorted_segs_def by (auto simp: order_le_less)
  moreover obtain b where "b \<in> set as" "seg_block (seg_at m b) = ?n"
    using dup unfolding xs by auto
  ultimately have False: "\<not> bb_block ca > ?n" by (metis leD)
  let ?start = "case last_used bbl of None \<Rightarrow> Inr a
          | Some l \<Rightarrow> rbind (load m l) (\<lambda>lu. Inr (if ?n > bb_block lu then l else a))"
  obtain start where start: "?start = Inr start" "start \<in> set as"
      "seg_block (seg_at m start) < ?n \<or> start = a"
  proof (cases "last_used bbl")
    case None
    then show thesis using that as by simp
  next
    case (Some l)
    then have "l \<in> set as" using last by (simp add: last_used_ok_def)
    then obtain cl where "cells m l = Some cl" using chain_mapped [OF ch] by blast
    then show thesis
      using Some that [of "if ?n > bb_block cl then l else a"] as \<open>l \<in> set as\<close> by auto
  qed
  let ?bbl = "bbl\<lparr>last_used := Some new\<rparr>"
  have "\<exists>p. queue_seek (Suc (brk m)) m ?n start = Inr p \<and> queue_link m ?bbl p new = Inl Assert"
  proof (cases "seg_block (seg_at m start) < ?n")
    case True
    obtain us p post where pos: "as = us @ p # post" "queue_seek (Suc (brk m)) m ?n start = Inr p"
      and tw: "takeWhile (\<lambda>s. seg_block s < ?n) xs = List.map (seg_at m) (us @ [p])"
        "dropWhile (\<lambda>s. seg_block s < ?n) xs = List.map (seg_at m) post"
      using queue_seek_position [OF ok ch sorted [unfolded xs] start(2) True] unfolding xs by blast
    have "?n \<notin> seg_block ` set (takeWhile (\<lambda>s. seg_block s < ?n) xs)"
      by (auto dest: set_takeWhileD)
    then have "?n \<in> seg_block ` set (dropWhile (\<lambda>s. seg_block s < ?n) xs)"
      using dup by (metis Un_iff image_Un set_append takeWhile_dropWhile_id)
    then obtain b vs where post: "post = b # vs" unfolding tw(2) by (cases post) auto
    have "sorted_segs (List.map (seg_at m) post)"
      using sorted unfolding xs pos(1) sorted_segs_def by (simp add: sorted_wrt_append)
    moreover have "\<not> seg_block (seg_at m b) < ?n"
      using hd_dropWhile [of "\<lambda>s. seg_block s < ?n" xs] unfolding tw(2) post by simp
    ultimately have "seg_block (seg_at m b) = ?n"
      using \<open>?n \<in> seg_block ` set (dropWhile _ xs)\<close> unfolding tw(2) post
      by (auto simp: sorted_segs_def)
    then have "queue_link m ?bbl p new = Inl Assert"
      using post bs by (intro queue_link_duplicate [OF ok ch [unfolded pos(1)] new(1,2) new(3) [unfolded pos(1)]])
        auto
    with pos(2) show ?thesis by blast
  next
    case not_below: False
    then have start_a: "start = a" and eq: "?n = bb_block ca" using start(3) False ca by auto
    have gt: "?n < seg_block (seg_at m b)" if "b \<in> set ws" for b
      using sorted that ca eq unfolding xs as sorted_segs_def by simp
    have "length as \<le> brk m" by (rule chain_length [OF ok ch])
    then have "length ws < Suc (brk m)" unfolding as by simp
    moreover have "chain bb_next (cells m) (Some a) (a # ws) None"
      using ch unfolding as by (auto split: option.splits)
    ultimately have "queue_seek (Suc (brk m)) m ?n a
        = Inr (last (a # takeWhile (\<lambda>a. seg_block (seg_at m a) < ?n) ws))"
      by (intro queue_seek_chain) simp_all
    moreover have "takeWhile (\<lambda>a. seg_block (seg_at m a) < ?n) ws = []"
      using gt by (cases ws) (auto dest: less_imp_not_less)
    moreover have "queue_link m ?bbl a new = Inl Assert"
      using bs gt eq ca new(3) ch unfolding as
      by (intro queue_link_duplicate [OF ok _ new(1,2), of "data_blocks bbl" "[]" a ws]) auto
    ultimately show ?thesis using start_a by (auto simp del: queue_seek.simps)
  qed
  then obtain p where "queue_seek (Suc (brk m)) m ?n start = Inr p" "queue_link m ?bbl p new = Inl Assert"
    by blast
  moreover have "load m new = Inr c0" "load m a = Inr ca" using new(1) ca by simp_all
  ultimately show ?thesis
    unfolding queue_bb_def db
    by (simp only: rbind_Inr rbind_Inl option.case if_not_P [OF False] start(1) Let_def)
qed

section \<open>The queue as a sink for pieces\<close>

text \<open>The source of a piece without the address of the copied file name.\<close>

definition erase_name :: "seg \<Rightarrow> seg" where
  "erase_name s = (case s of (b, n, k) \<Rightarrow> (b, n, case k of
     BACKED_BLOCK_FILE f fn off \<Rightarrow> BACKED_BLOCK_FILE 0 fn off | _ \<Rightarrow> k))"

definition from_memory_or_file :: "seg \<Rightarrow> bool" where
  "from_memory_or_file s = (case snd (snd s) of
     BACKED_BLOCK_DATA _ \<Rightarrow> True | BACKED_BLOCK_FILE f _ _ \<Rightarrow> f = 0 | _ \<Rightarrow> False)"

definition add_piece ::
  "bb_mem \<times> backed_block_list \<Rightarrow> seg \<Rightarrow> (bb_mem \<times> backed_block_list) res" where
  "add_piece q s = (case q of (m, bbl) \<Rightarrow> case s of (b, n, k) \<Rightarrow>
     rbind (case k of
         BACKED_BLOCK_DATA p \<Rightarrow> backed_block_add_data m bbl p n b
       | BACKED_BLOCK_FILE _ fn off \<Rightarrow> backed_block_add_file m bbl fn off n b
       | BACKED_BLOCK_FD fd off \<Rightarrow> backed_block_add_fd m bbl fd off n b
       | BACKED_BLOCK_FILL v \<Rightarrow> backed_block_add_fill m bbl v n b) (\<lambda>(_, q). Inr q))"

definition names_below :: "seg list \<Rightarrow> nat \<Rightarrow> bool" where
  "names_below xs k \<longleftrightarrow>
     (\<forall>s \<in> set xs. case snd (snd s) of BACKED_BLOCK_FILE f _ _ \<Rightarrow> f < k | _ \<Rightarrow> True)"

definition queue_repr :: "bb_mem \<times> backed_block_list \<Rightarrow> seg list \<Rightarrow> bool" where
  "queue_repr q xs \<longleftrightarrow> (case q of (m, bbl) \<Rightarrow> bbl_block_size bbl \<noteq> 0 \<and> sorted_segs xs \<and>
     (\<exists>as ys. queue_list m bbl as ys \<and> last_used_ok bbl as \<and> names_below ys (brk m)
        \<and> List.map erase_name ys = xs))"

text \<open>Adding a list of pieces one after the other.\<close>

fun add_all :: "('q \<Rightarrow> 's \<Rightarrow> 'q res) \<Rightarrow> 'q \<Rightarrow> 's list \<Rightarrow> 'q res" where
  "add_all add q [] = Inr q"
| "add_all add q (x # xs) = rbind (add q x) (\<lambda>q. add_all add q xs)"

text \<open>
  What the file system builder relies on when it queues a piece: the queue stays ordered by
  first block, whatever the order of the calls.
\<close>

lemma sorted_segs_unique:
  assumes "sorted_segs xs" "sorted_segs ys" "set xs = set ys"
  shows "xs = ys"
  using assms unfolding sorted_segs_def
proof (induction xs arbitrary: ys)
  case Nil
  then show ?case by simp
next
  case (Cons x xs)
  then obtain y ys' where ys: "ys = y # ys'" by (cases ys) auto
  have "x = y"
  proof (rule ccontr)
    assume "x \<noteq> y"
    then have "x \<in> set ys'" "y \<in> set xs" using Cons.prems(3) ys by auto
    then have "seg_block y < seg_block x" "seg_block x < seg_block y"
      using Cons.prems(1,2) ys by auto
    then show False by simp
  qed
  then have "x \<notin> set xs" "x \<notin> set ys'" using Cons.prems(1,2) ys by auto
  then have "set xs = set ys'"
    using Cons.prems(3) ys \<open>x = y\<close> by (auto simp: insert_ident)
  then show ?case using Cons ys \<open>x = y\<close> by auto
qed

locale piece_sink =
  fixes add :: "'q \<Rightarrow> seg \<Rightarrow> 'q res"
    and repr :: "'q \<Rightarrow> seg list \<Rightarrow> bool"
    and accepts :: "seg \<Rightarrow> bool"
  assumes sorted: "repr q xs \<Longrightarrow> sorted_segs xs"
    and add: "repr q xs \<Longrightarrow> accepts s \<Longrightarrow> fst s \<notin> fst ` set xs \<Longrightarrow>
      \<exists>q' ys. add q s = Inr q' \<and> repr q' ys \<and> set ys = insert s (set xs)"
begin

lemma add_all_adds:
  assumes "repr q xs" "\<forall>s \<in> set ss. accepts s" "distinct (List.map fst ss)"
    "\<forall>s \<in> set ss. fst s \<notin> fst ` set xs"
  shows "\<exists>q' ys. add_all add q ss = Inr q' \<and> repr q' ys \<and> set ys = set xs \<union> set ss"
  using assms
proof (induction ss arbitrary: q xs)
  case (Cons s ss)
  have "accepts s" "fst s \<notin> fst ` set xs" using Cons.prems by simp_all
  then obtain q' ys where q': "add q s = Inr q'" "repr q' ys" "set ys = insert s (set xs)"
    using add [OF Cons.prems(1)] by blast
  have apart: "\<forall>r \<in> set ss. fst r \<notin> fst ` set ys"
  proof
    fix r assume r: "r \<in> set ss"
    then have "fst r \<in> fst ` set ss" by (rule imageI)
    moreover have "fst s \<notin> fst ` set ss" using Cons.prems(3) by simp
    ultimately have "fst r \<noteq> fst s" by metis
    then show "fst r \<notin> fst ` set ys" using Cons.prems(4) r q'(3) by simp
  qed
  have "\<forall>s \<in> set ss. accepts s" "distinct (List.map fst ss)" using Cons.prems(2,3) by simp_all
  then obtain q'' zs where "add_all add q' ss = Inr q''" "repr q'' zs" "set zs = set ys \<union> set ss"
    using Cons.IH [OF q'(2) _ _ apart] by blast
  then show ?case using q'(1,3) by (intro exI [of _ q''] exI [of _ zs]) simp
qed auto

text \<open>The queue does not depend on the order in which pieces are added.\<close>

lemma add_all_order:
  assumes "repr q xs" "\<forall>s \<in> set ss. accepts s" "distinct (List.map fst ss)"
    "\<forall>s \<in> set ss. fst s \<notin> fst ` set xs" "set ts = set ss" "distinct ts"
  shows "\<exists>q1 q2 ys. add_all add q ss = Inr q1 \<and> add_all add q ts = Inr q2
    \<and> repr q1 ys \<and> repr q2 ys \<and> set ys = set xs \<union> set ss"
proof -
  have "distinct (List.map fst ts)"
    using assms(3,5,6) by (simp add: distinct_map)
  then obtain q2 zs where q2: "add_all add q ts = Inr q2" "repr q2 zs" "set zs = set xs \<union> set ss"
    using add_all_adds [OF assms(1), of ts] assms(2,4,5) by auto
  obtain q1 ys where q1: "add_all add q ss = Inr q1" "repr q1 ys" "set ys = set xs \<union> set ss"
    using add_all_adds [OF assms(1-4)] by blast
  have "ys = zs" by (rule sorted_segs_unique) (use sorted q1 q2 in auto)
  then show ?thesis using q1 q2 by blast
qed

end

section \<open>The queue is such a sink\<close>

lemma sorted_segs_insert:
  "sorted_segs (us @ vs) \<Longrightarrow> \<forall>x \<in> set us. fst x < fst s \<Longrightarrow> \<forall>x \<in> set vs. fst s < fst x \<Longrightarrow>
    sorted_segs (us @ s # vs)"
  unfolding sorted_segs_def sorted_wrt_append by simp

text \<open>A piece that no neighbour continues is inserted as it is.\<close>

lemma insert_seg_apart:
  assumes "\<forall>x \<in> set xs. \<not> can_merge bs x s" "\<forall>x \<in> set xs. \<not> can_merge bs s x"
    and "sorted_segs xs" "fst s \<notin> fst ` set xs"
  shows "set (insert_seg bs s xs) = insert s (set xs)" "sorted_segs (insert_seg bs s xs)"
    "\<exists>us vs. insert_seg bs s xs = us @ s # vs \<and> xs = us @ vs"
proof -
  let ?lt = "\<lambda>x. seg_block x < seg_block s"
  have front: "merge_front bs x ys = x # ys" if "ys = [] \<or> \<not> can_merge bs x (hd ys)" for x ys
    using that by (cases "(bs, x, ys)" rule: merge_front.cases) auto
  have ins: "insert_seg bs s xs = takeWhile ?lt xs @ s # dropWhile ?lt xs"
  proof (cases xs)
    case (Cons x ws)
    show ?thesis
    proof (cases "?lt x")
      case False
      with Cons assms(4) have "seg_block s < seg_block x" by auto
      then show ?thesis using Cons False by (simp add: insert_seg_def)
    next
      case True
      have "dropWhile ?lt xs = [] \<or> hd (dropWhile ?lt xs) \<in> set xs"
        by (metis hd_in_set set_dropWhileD)
      then have 1: "merge_front bs s (dropWhile ?lt xs) = s # dropWhile ?lt xs"
        using assms(2) by (intro front) auto
      have ne: "takeWhile ?lt xs \<noteq> []" using Cons True by simp
      then have "last (takeWhile ?lt xs) \<in> set xs" by (metis last_in_set set_takeWhileD)
      then have "merge_front bs (last (takeWhile ?lt xs)) (s # dropWhile ?lt xs)
          = last (takeWhile ?lt xs) # s # dropWhile ?lt xs"
        using assms(1) by (intro front) auto
      then have "butlast (takeWhile ?lt xs) @ merge_front bs (last (takeWhile ?lt xs)) (s # dropWhile ?lt xs)
          = takeWhile ?lt xs @ s # dropWhile ?lt xs"
        using append_butlast_last_id [OF ne] by (metis append.assoc append_Cons append_Nil)
      then show ?thesis using Cons True 1
        by (auto simp: insert_seg_def Let_def split: if_splits)
    qed
  qed (simp add: insert_seg_def)
  have "xs = takeWhile ?lt xs @ dropWhile ?lt xs" by simp
  with ins show split: "\<exists>us vs. insert_seg bs s xs = us @ s # vs \<and> xs = us @ vs" by blast
  then show "set (insert_seg bs s xs) = insert s (set xs)" by auto
  have "\<not> ?lt x" if "x \<in> set (dropWhile ?lt xs)" for x
  proof -
    have "sorted_segs (dropWhile ?lt xs)"
      using assms(3) unfolding sorted_segs_def
      by (subst (asm) takeWhile_dropWhile_id [of ?lt, symmetric]) (simp only: sorted_wrt_append)
    then show ?thesis using that hd_dropWhile [of ?lt xs]
      by (cases "dropWhile ?lt xs") (auto simp: sorted_segs_def)
  qed
  then have "seg_block s < fst x" if "x \<in> set (dropWhile ?lt xs)" for x
    using that assms(4) set_dropWhileD [of x ?lt xs] by (metis image_eqI linorder_neqE)
  moreover have "?lt x" if "x \<in> set (takeWhile ?lt xs)" for x
    using set_takeWhileD [OF that] by simp
  moreover have "sorted_segs (takeWhile ?lt xs @ dropWhile ?lt xs)" using assms(3) by simp
  ultimately show "sorted_segs (insert_seg bs s xs)"
    unfolding ins by (intro sorted_segs_insert ballI)
qed

text \<open>The kinds that the file system builder queues never continue a neighbour.\<close>

lemma apart_from_queue:
  assumes "case k of BACKED_BLOCK_DATA _ \<Rightarrow> True | BACKED_BLOCK_FILE f _ _ \<Rightarrow> f = j | _ \<Rightarrow> False"
    and "names_below ys j" "y \<in> set ys"
  shows "\<not> can_merge bs y (b, n, k)" "\<not> can_merge bs (b, n, k) y"
proof -
  obtain b' n' k' where y: "y = (b', n', k')" by (cases y)
  have below: "f < j" if "k' = BACKED_BLOCK_FILE f fn off" for f fn off
    using assms(2,3) that unfolding names_below_def y by auto
  have "k' \<noteq> BACKED_BLOCK_FILE j fn off" for fn off using below by blast
  with assms(1) have "\<not> can_merge bs (b', n', k') (b, n, k) \<and> \<not> can_merge bs (b, n, k) (b', n', k')"
    unfolding can_merge_def by (cases k; cases k') auto
  then show "\<not> can_merge bs y (b, n, k)" "\<not> can_merge bs (b, n, k) y" unfolding y by auto
qed

lemma fst_erase_name [simp]: "fst (erase_name s) = fst s"
  by (simp add: erase_name_def split: prod.splits)

lemma sorted_segs_erase: "sorted_segs (List.map erase_name xs) = sorted_segs xs"
  by (simp add: sorted_segs_def sorted_wrt_map)

text \<open>Adding a piece queues a fresh cell that continues no other.\<close>

lemma add_piece_fresh_cell:
  assumes "queue_repr q xs" "from_memory_or_file s"
  obtains m bbl c as ys where "add_piece q s = rbind (queue_bb m bbl (brk m - 1)) (\<lambda>(_, q). Inr q)"
    "bbl_block_size bbl \<noteq> 0" "queue_list m bbl as ys" "last_used_ok bbl as" "sorted_segs ys"
    "cells m (brk m - 1) = Some c" "bb_next c = None" "brk m - 1 \<notin> set as" "bb_block c = fst s"
    "erase_name (seg_of c) = s" "xs = List.map erase_name ys"
    "names_below (seg_of c # ys) (brk m)"
    "\<forall>bs. \<forall>x \<in> set ys. \<not> can_merge bs x (seg_of c) \<and> \<not> can_merge bs (seg_of c) x"
proof -
  obtain m bbl b n k where q: "q = (m, bbl)" and s: "s = (b, n, k)" by (cases q, cases s)
  obtain as ys where bs: "bbl_block_size bbl \<noteq> 0" and ql: "queue_list m bbl as ys"
    and lu: "last_used_ok bbl as" and nb: "names_below ys (brk m)"
    and xs: "xs = List.map erase_name ys" and srt: "sorted_segs ys"
    using assms(1) by (auto simp: queue_repr_def q sorted_segs_erase)
  let ?k = "case k of BACKED_BLOCK_FILE _ fn off \<Rightarrow> BACKED_BLOCK_FILE (brk m) fn off | _ \<Rightarrow> k"
  let ?c = "\<lparr>bb_block = b, bb_len = n, bb_kind = ?k, bb_next = None\<rparr>"
  let ?m = "m\<lparr>cells := (cells m)(brk m := Some ?c), brk := Suc (brk m)\<rparr>"
  have k: "case ?k of BACKED_BLOCK_DATA _ \<Rightarrow> True | BACKED_BLOCK_FILE f _ _ \<Rightarrow> f = brk m | _ \<Rightarrow> False"
    using assms(2) by (auto simp: from_memory_or_file_def s split: bb_kind.splits)
  have ok: "mem_ok m" and ch: "chain bb_next (cells m) (data_blocks bbl) as None"
    and ys: "ys = List.map (seg_at m) as" using ql by (simp_all add: queue_list_def)
  have new: "brk m \<notin> set as" using chain_below [OF ok ch] by auto
  show thesis
  proof (rule that [of ?m bbl as ys ?c])
    show "add_piece q s = rbind (queue_bb ?m bbl (brk ?m - 1)) (\<lambda>(_, q). Inr q)"
      using assms(2)
      by (auto simp: add_piece_def q s from_memory_or_file_def backed_block_add_def malloc_cell_def
        backed_block_add_data_def backed_block_add_file_def split: bb_kind.splits)
    show "queue_list ?m bbl as ys"
      using ok ch ys new by (auto simp: queue_list_def seg_at_def)
    show "erase_name (seg_of ?c) = s"
      using assms(2) by (auto simp: erase_name_def seg_of_def s from_memory_or_file_def split: bb_kind.splits)
    show "names_below (seg_of ?c # ys) (brk ?m)"
      using nb k by (fastforce simp: names_below_def seg_of_def split: bb_kind.splits)
    show "\<forall>bs. \<forall>x \<in> set ys. \<not> can_merge bs x (seg_of ?c) \<and> \<not> can_merge bs (seg_of ?c) x"
      using apart_from_queue [OF k nb] by (simp add: seg_of_def)
  qed (use bs lu srt new xs s in simp_all)
qed

lemma add_piece_adds:
  assumes "queue_repr q xs" "from_memory_or_file s" "fst s \<notin> fst ` set xs"
  shows "\<exists>q' ys. add_piece q s = Inr q' \<and> queue_repr q' ys \<and> set ys = insert s (set xs)"
  using assms(1,2)
proof (rule add_piece_fresh_cell)
  fix m bbl c as ys
  assume a: "add_piece q s = rbind (queue_bb m bbl (brk m - 1)) (\<lambda>(_, q). Inr q)"
    "bbl_block_size bbl \<noteq> 0" "queue_list m bbl as ys" "last_used_ok bbl as" "sorted_segs ys"
    "cells m (brk m - 1) = Some c" "bb_next c = None" "brk m - 1 \<notin> set as" "bb_block c = fst s"
    "erase_name (seg_of c) = s" "xs = List.map erase_name ys" "names_below (seg_of c # ys) (brk m)"
    "\<forall>bs. \<forall>x \<in> set ys. \<not> can_merge bs x (seg_of c) \<and> \<not> can_merge bs (seg_of c) x"
  let ?zs = "insert_seg (bbl_block_size bbl) (seg_of c) ys"
  have fresh: "bb_block c \<notin> fst ` set ys" using assms(3) a(9,11) by (simp add: image_image)
  then obtain m' bbl' as' where r: "queue_bb m bbl (brk m - 1) = Inr (0, m', bbl')" "brk m' = brk m"
    "bbl_block_size bbl' = bbl_block_size bbl" "queue_list m' bbl' as' ?zs"
    "(\<forall>x \<in> set ys. \<not> can_merge (bbl_block_size bbl) x (seg_of c)) \<longrightarrow> last_used_ok bbl' as'"
    by (rule queue_bb_inserts [OF a(3,4,5,2,6,7,8)])
  have ins: "set ?zs = insert (seg_of c) (set ys)" "sorted_segs ?zs"
    using a(5,13) fresh by (simp_all add: insert_seg_apart)
  have "names_below ?zs (brk m')" using a(12) ins(1) r(2) by (simp add: names_below_def)
  then have "queue_repr (m', bbl') (List.map erase_name ?zs)"
    using r(3-5) a(2,13) ins(2) by (auto simp: queue_repr_def sorted_segs_erase)
  moreover have "set (List.map erase_name ?zs) = insert s (set xs)" using ins(1) a(10,11) by simp
  ultimately show ?thesis using a(1) r(1) by auto
qed

lemma queue_repr_sorted: "queue_repr q xs \<Longrightarrow> sorted_segs xs"
  by (auto simp: queue_repr_def)

interpretation image_queue: piece_sink add_piece queue_repr from_memory_or_file
  by unfold_locales (rule queue_repr_sorted, assumption, rule add_piece_adds)

section \<open>Properties\<close>

lemma queue_repr_new:
  "bs \<noteq> 0 \<Longrightarrow> mem_ok m \<Longrightarrow> queue_repr (m, backed_block_list_new bs) []"
  by (auto simp: queue_repr_def queue_list_def last_used_ok_def sorted_segs_def
      names_below_def backed_block_list_new_def intro!: exI [of _ "[]"])

text \<open>C15: whatever the order in which data and file pieces with distinct first blocks are queued,
  every call succeeds and the queue ends as the same list, ordered by first block, with
  every piece in it once: the shortcut through the last used cell never changes the result.\<close>

theorem queue_independent_of_order:
  assumes "bs \<noteq> 0" "\<forall>s \<in> set ss. from_memory_or_file s" "distinct (List.map fst ss)"
    and "set ts = set ss" "distinct ts" "mem_ok m"
  shows "\<exists>q1 q2 ys. add_all add_piece (m, backed_block_list_new bs) ss = Inr q1
    \<and> add_all add_piece (m, backed_block_list_new bs) ts = Inr q2
    \<and> queue_repr q1 ys \<and> queue_repr q2 ys \<and> sorted_segs ys \<and> set ys = set ss"
proof -
  note new = queue_repr_new [OF assms(1,6)]
  from image_queue.add_all_order [OF new assms(2,3) _ assms(4,5)]
  show ?thesis using image_queue.sorted by fastforce
qed

definition empty_mem :: bb_mem where
  "empty_mem = \<lparr>cells = (\<lambda>_. None), brk = 0\<rparr>"

theorem queue_independent_of_order_witness:
  "\<exists>q1 q2 ys. add_all add_piece (empty_mem, backed_block_list_new 4096)
      [(0, 4096, BACKED_BLOCK_DATA (Sb, 0)), (5, 10, BACKED_BLOCK_FILE 0 ''a'' 0)] = Inr q1
    \<and> add_all add_piece (empty_mem, backed_block_list_new 4096)
      [(5, 10, BACKED_BLOCK_FILE 0 ''a'' 0), (0, 4096, BACKED_BLOCK_DATA (Sb, 0))] = Inr q2
    \<and> queue_repr q1 ys \<and> queue_repr q2 ys"
proof -
  let ?ss = "[(0, 4096, BACKED_BLOCK_DATA (Sb, 0)), (5, 10, BACKED_BLOCK_FILE 0 ''a'' 0)] :: seg list"
  have "\<forall>s \<in> set ?ss. from_memory_or_file s" "distinct (List.map fst ?ss)"
    "set (rev ?ss) = set ?ss" "distinct (rev ?ss)" "mem_ok empty_mem"
    by (simp_all add: from_memory_or_file_def empty_mem_def mem_ok_def insert_commute)
  moreover have "(4096 :: u32) \<noteq> 0" by simp
  ultimately  have "\<exists>q1 q2 ys. add_all add_piece (empty_mem, backed_block_list_new 4096) ?ss = Inr q1
    \<and> add_all add_piece (empty_mem, backed_block_list_new 4096) (rev ?ss) = Inr q2
    \<and> queue_repr q1 ys \<and> queue_repr q2 ys"
    using queue_independent_of_order [of 4096 ?ss "rev ?ss" empty_mem] by blast
  then show ?thesis unfolding rev.simps append.simps .
qed

lemma add_piece_duplicate:
  assumes "queue_repr q xs" "from_memory_or_file s" "fst s \<in> fst ` set xs"
  shows "add_piece q s = Inl Assert"
  using assms(1,2)
proof (rule add_piece_fresh_cell)
  fix m bbl c as ys
  assume a: "add_piece q s = rbind (queue_bb m bbl (brk m - 1)) (\<lambda>(_, q). Inr q)"
    "bbl_block_size bbl \<noteq> 0" "queue_list m bbl as ys" "last_used_ok bbl as" "sorted_segs ys"
    "cells m (brk m - 1) = Some c" "bb_next c = None" "brk m - 1 \<notin> set as" "bb_block c = fst s"
    "xs = List.map erase_name ys"
  have "bb_block c \<in> fst ` set ys" using assms(3) a(9,10) by (simp add: image_image)
  then have "queue_bb m bbl (brk m - 1) = Inl Assert"
    by (rule queue_bb_duplicate [OF a(3,4,5,2,6,7,8)])
  then show ?thesis using a(1) by simp
qed

text \<open>C22: queueing a second piece of data or of a file at a block number that is queued already, in a
  queue of such pieces, is never silent: the assertion in \<open>merge_bb\<close> that the first block starts
  before the second one fails, and nothing undefined happens on the way there.\<close>

theorem duplicate_block_aborts:
  "queue_repr q xs \<Longrightarrow> from_memory_or_file s \<Longrightarrow> fst s \<in> fst ` set xs \<Longrightarrow> add_piece q s = Inl Assert"
  by (rule add_piece_duplicate)

theorem duplicate_block_aborts_witness:
  "\<exists>q. add_piece (empty_mem, backed_block_list_new 4096) (7, 4096, BACKED_BLOCK_DATA (Sb, 0)) = Inr q
    \<and> add_piece q (7, 100, BACKED_BLOCK_FILE 0 ''a'' 0) = Inl Assert"
proof -
  let ?s = "(7, 4096, BACKED_BLOCK_DATA (Sb, 0)) :: seg"
  have "queue_repr (empty_mem, backed_block_list_new 4096) []" "from_memory_or_file ?s"
    by (simp_all add: queue_repr_new empty_mem_def mem_ok_def from_memory_or_file_def)
  from image_queue.add [OF this]
  obtain q ys where q: "add_piece (empty_mem, backed_block_list_new 4096) ?s = Inr q"
    "queue_repr q ys" "set ys = {?s}" by auto
  from duplicate_block_aborts [OF q(2), of "(7, 100, BACKED_BLOCK_FILE 0 ''a'' 0)"] q(1,3)
  show ?thesis by (auto simp: from_memory_or_file_def)
qed

text \<open>The first block of the queue stays where it is when a piece is put behind it.\<close>

lemma hd_merge_front: "seg_block (hd (merge_front bs x ys)) = seg_block x"
  by (cases "(bs, x, ys)" rule: merge_front.cases) auto

lemma insert_seg_hd:
  assumes "xs = us @ x # vs" "sorted_segs xs" "seg_block x < seg_block n"
  shows "insert_seg bs n xs \<noteq> [] \<and> seg_block (hd (insert_seg bs n xs)) = seg_block (hd xs)"
proof -
  have "xs \<noteq> []" using assms(1) by simp
  then obtain y ys where xs: "xs = y # ys" by (meson neq_Nil_conv)
  have y: "seg_block y < seg_block n"
    using assms unfolding xs sorted_segs_def by (cases us) (auto dest: less_trans)
  define pre where "pre = takeWhile (\<lambda>s. seg_block s < seg_block n) ys"
  have t: "takeWhile (\<lambda>s. seg_block s < seg_block n) xs = y # pre" using y by (simp add: xs pre_def)
  have "merge_front bs z zs \<noteq> []" for z zs by (cases "(bs, z, zs)" rule: merge_front.cases) auto
  then show ?thesis
    using y by (cases pre) (auto simp: xs insert_seg_def t [unfolded xs] hd_merge_front)
qed

text \<open>C23: fill pieces do merge, and \<open>queue_bb\<close> has by then stored the cell that the merge frees in
  \<open>last_used\<close>. In any queue, a fill that is queued right behind a fill of the same value therefore
  leaves \<open>last_used\<close> at a freed cell, and queueing any piece that does not start before the whole
  queue reads that cell: so does a third adjacent fill, which is what reading a plain image with
  three equal constant blocks does.\<close>

theorem adjacent_fills_use_freed_cell:
  assumes "queue_list m bbl as xs" "last_used_ok bbl as" "sorted_segs xs" "bbl_block_size bbl \<noteq> 0"
    and "xs = us @ (b, n, BACKED_BLOCK_FILL v) # vs" "b + n div bbl_block_size bbl = block" "b < block"
    and "\<forall>y \<in> set vs. block < seg_block y"
  shows "\<exists>m' bbl'. backed_block_add_fill m bbl v n' block = Inr (0, m', bbl')
    \<and> (\<exists>a. last_used bbl' = Some a \<and> cells m' a = None)
    \<and> (\<forall>k n'' block'. seg_block (hd xs) \<le> block' \<longrightarrow> backed_block_add m' bbl' k n'' block' = Inl Fault)"
proof -
  let ?c = "\<lparr>bb_block = block, bb_len = n', bb_kind = BACKED_BLOCK_FILL v, bb_next = None\<rparr>"
  let ?m = "m\<lparr>cells := (cells m)(brk m := Some ?c), brk := Suc (brk m)\<rparr>" and ?x = "(b, n, BACKED_BLOCK_FILL v) :: seg"
  have ok: "mem_ok m" and ch: "chain bb_next (cells m) (data_blocks bbl) as None"
    and xs: "xs = List.map (seg_at m) as" using assms(1) by (simp_all add: queue_list_def)
  have new: "brk m \<notin> set as" using chain_below [OF ok ch] by auto
  have q: "queue_list ?m bbl as xs" using ok ch xs new by (auto simp: queue_list_def seg_at_def)
  have c: "cells ?m (brk m) = Some ?c" "bb_next ?c = None" by simp_all
  have "\<forall>y \<in> set us. seg_block y < b"
    using assms(3) unfolding assms(5) by (auto simp: sorted_segs_def sorted_wrt_append)
  then have fresh: "bb_block ?c \<notin> seg_block ` set xs"
    using assms(5,7,8) by (auto dest: less_trans)
  obtain m' bbl' as' where r: "queue_bb ?m bbl (brk m) = Inr (0, m', bbl')" "brk m' = brk ?m"
    "queue_list m' bbl' as' (insert_seg (bbl_block_size bbl) (seg_of ?c) xs)"
    "\<And>us x vs. xs = us @ x # vs \<Longrightarrow> seg_block x < bb_block ?c \<Longrightarrow> \<forall>y \<in> set vs. bb_block ?c < seg_block y \<Longrightarrow>
       can_merge (bbl_block_size bbl) x (seg_of ?c) \<Longrightarrow> last_used bbl' = Some (brk m) \<and> cells m' (brk m) = None"
    by (rule queue_bb_inserts [OF q assms(2,3,4) c new fresh]) blast
  have stale: "last_used bbl' = Some (brk m)" "cells m' (brk m) = None"
    using r(4) [OF assms(5)] assms(6-8) by (simp_all add: can_merge_def seg_of_def)
  have hd: "insert_seg (bbl_block_size bbl) (seg_of ?c) xs \<noteq> []
      \<and> seg_block (hd (insert_seg (bbl_block_size bbl) (seg_of ?c) xs)) = seg_block (hd xs)"
    by (rule insert_seg_hd [OF assms(5,3)]) (simp add: assms(7))
  obtain f cf where f: "data_blocks bbl' = Some f" "cells m' f = Some cf" "bb_block cf = seg_block (hd xs)"
    using r(3) hd by (cases as') (auto simp: queue_list_def split: option.splits)
  have "backed_block_add m' bbl' k n'' block' = Inl Fault" if "seg_block (hd xs) \<le> block'" for k n'' block'
    using stale f r(2) mem_ok_below [of m' f cf] r(3) that
    by (simp add: backed_block_add_def malloc_cell_def queue_bb_def queue_list_def load_def)
  moreover have "backed_block_add_fill m bbl v n' block = Inr (0, m', bbl')"
    using r(1) by (simp add: backed_block_add_fill_def backed_block_add_def malloc_cell_def)
  ultimately show ?thesis using stale by blast
qed

theorem adjacent_fills_use_freed_cell_witness:
  "\<exists>m1 l1 m2 l2. backed_block_add_fill empty_mem (backed_block_list_new 4096) 7 4096 0 = Inr (0, m1, l1)
    \<and> backed_block_add_fill m1 l1 7 4096 1 = Inr (0, m2, l2) \<and> backed_block_add_fill m2 l2 7 4096 2 = Inl Fault"
proof -
  let ?c = "\<lparr>bb_block = 0, bb_len = 4096, bb_kind = BACKED_BLOCK_FILL 7, bb_next = None\<rparr> :: backed_block"
  let ?m = "\<lparr>cells = (\<lambda>_. None)(0 := Some ?c), brk = 1\<rparr>" and ?l = "(backed_block_list_new 4096)\<lparr>data_blocks := Some 0\<rparr>"
  have "backed_block_add_fill empty_mem (backed_block_list_new 4096) 7 4096 0 = Inr (0, ?m, ?l)"
    by (simp add: backed_block_add_fill_def backed_block_add_def malloc_cell_def empty_mem_def
      backed_block_list_new_def queue_bb_def load_def)
  moreover have "queue_list ?m ?l [0] [(0, 4096, BACKED_BLOCK_FILL 7)]" "last_used_ok ?l [0]"
    "sorted_segs [(0, 4096, BACKED_BLOCK_FILL 7)]" "bbl_block_size ?l \<noteq> 0"
    "(0 :: u32) + 4096 div bbl_block_size ?l = 1"
    by (simp_all add: queue_list_def mem_ok_def seg_of_def last_used_ok_def backed_block_list_new_def sorted_segs_def)
  ultimately show ?thesis
    using adjacent_fills_use_freed_cell [of ?m ?l "[0]" "[(0, 4096, BACKED_BLOCK_FILL 7)]" "[]" 0 4096 7 "[]" 1 4096]
    by (fastforce simp: backed_block_add_fill_def)
qed

end
