(* ===== verification/Sparse_Output.thy ===== *)
theory Sparse_Output
  imports Backed_Block Crc
begin

text \<open>
  \<^verbatim>\<open>src/libsparse/output_file.c\<close> and the writing half of \<^verbatim>\<open>src/libsparse/sparse.c\<close>. An output is an
  \<open>output_file\<close> over a table of operations, as in the code; the tables modelled are the
  plain file (\<open>file_ops\<close>) and the callback (\<open>callback_file_ops\<close>); the gzip table is in
  \<open>Gzip_Output\<close>. A file is its bytes, its offset and the number of bytes the device has
  room for, which is what makes a write fail. Signed 64-bit lengths are integers; a value
  that would leave their range is a \<open>Fault\<close>. The write of a table takes the bytes and the \<open>int\<close> that the
  code passes as their number.
\<close>

section \<open>What the image is read from\<close>

text \<open>
  The memory behind the data pointers, the files on disk and the files behind descriptors at
  the time the image is written.
\<close>

record env =
  env_buf :: "buffer \<Rightarrow> u8 list"
  env_file :: "string \<Rightarrow> u8 list option"
  env_fd :: "u32 \<Rightarrow> u8 list"

section \<open>Bytes\<close>

text \<open>The in-memory representation of the packed header fields (little-endian hosts).\<close>

definition le16 :: "u16 \<Rightarrow> u8 list" where
  "le16 w = [ucast w, ucast (drop_bit 8 w)]"

definition le32 :: "u32 \<Rightarrow> u8 list" where
  "le32 w = [ucast w, ucast (drop_bit 8 w), ucast (drop_bit 16 w), ucast (drop_bit 24 w)]"

section \<open>Files\<close>

record fd_file =
  fd_bytes :: "u8 list"
  fd_pos :: nat
  fd_room :: nat

text \<open>\<open>write\<close> at the offset: a hole before it reads as zeros.\<close>

definition put_bytes :: "u8 list \<Rightarrow> nat \<Rightarrow> u8 list \<Rightarrow> u8 list" where
  "put_bytes bs pos data = (if data = [] then bs
     else take pos (bs @ replicate (pos - length bs) 0) @ data @ drop (pos + length data) bs)"

record 'o output_file_ops =
  skip_op :: "'o \<Rightarrow> int \<Rightarrow> int \<times> 'o"
  pad_op :: "'o \<Rightarrow> int \<Rightarrow> int \<times> 'o"
  write_op :: "'o \<Rightarrow> u8 list \<Rightarrow> int \<Rightarrow> int \<times> 'o"

definition file_skip :: "fd_file \<Rightarrow> int \<Rightarrow> int \<times> fd_file" where
  "file_skip f cnt = (if int (fd_pos f) + cnt < 0 then (-1, f)
     else (0, f\<lparr>fd_pos := nat (int (fd_pos f) + cnt)\<rparr>))"

definition file_pad :: "fd_file \<Rightarrow> int \<Rightarrow> int \<times> fd_file" where
  "file_pad f n = (if n < 0 then (- EINVAL, f)
     else (0, f\<lparr>fd_bytes := take (nat n) (fd_bytes f @ replicate (nat n - length (fd_bytes f)) 0)\<rparr>))"

text \<open>
  \<open>write\<close> followed by the test that all was written. One call transfers at most
  \<open>MAX_RW_COUNT\<close> bytes (the limit of Linux), and no more than there is room for.
\<close>

abbreviation MAX_RW_COUNT :: nat where "MAX_RW_COUNT \<equiv> 2147479552"

definition write_whole :: "fd_file \<Rightarrow> u8 list \<Rightarrow> int \<times> fd_file" where
  "write_whole f data =
     (let kept = take (min (fd_room f - fd_pos f) MAX_RW_COUNT) data;
          f' = f\<lparr>fd_bytes := put_bytes (fd_bytes f) (fd_pos f) kept,
                fd_pos := fd_pos f + length kept\<rparr>
      in (if length kept < length data then -1 else 0, f'))"

text \<open>
  \<open>file_write\<close>: the length is an \<open>int\<close>. A negative one becomes a \<open>size_t\<close> above \<open>SSIZE_MAX\<close>, which
  \<open>write\<close> refuses.
\<close>

definition file_write :: "fd_file \<Rightarrow> u8 list \<Rightarrow> int \<Rightarrow> int \<times> fd_file" where
  "file_write f data n = (if n < 0 then (-1, f) else write_whole f (take (nat n) data))"

definition file_ops :: "fd_file output_file_ops" where
  "file_ops = \<lparr>skip_op = file_skip, pad_op = file_pad, write_op = file_write\<rparr>"

text \<open>The callback writer: \<open>write priv data len\<close>, where a skip passes a null \<open>data\<close>.\<close>

abbreviation INT_MAX :: int where "INT_MAX \<equiv> 2147483647"

function callback_skip_loop ::
  "('p \<Rightarrow> u8 list option \<Rightarrow> int \<Rightarrow> int \<times> 'p) \<Rightarrow> 'p \<Rightarrow> int \<Rightarrow> int \<times> 'p" where
  "callback_skip_loop write p off =
     (if off > 0 then
        (let to_write = min off INT_MAX; (ret, p) = write p None to_write in
         if ret < 0 then (ret, p) else callback_skip_loop write p (off - to_write))
      else (0, p))"
  by pat_completeness auto
termination by (relation "measure (\<lambda>(w, p, off). nat off)") (auto simp: min_def)

definition callback_file_ops ::
  "('p \<Rightarrow> u8 list option \<Rightarrow> int \<Rightarrow> int \<times> 'p) \<Rightarrow> 'p output_file_ops" where
  "callback_file_ops write =
     \<lparr>skip_op = callback_skip_loop write, pad_op = (\<lambda>p _. (-1, p)),
      write_op = (\<lambda>p data n. write p (Some data) n)\<rparr>"

definition out_counter_write :: "int \<Rightarrow> u8 list option \<Rightarrow> int \<Rightarrow> int \<times> int" where
  "out_counter_write count data n = (0, count + n)"

section \<open>Chunk writers\<close>

record 'o output_file =
  cur_out_ptr :: int
  chunk_cnt :: u32
  out_crc32 :: u32
  ops :: "'o output_file_ops"
  out_sparse :: bool
  use_crc :: bool
  out_block_size :: u32
  out_len :: int
  priv :: 'o

abbreviation CHUNK_TYPE_RAW :: u16 where "CHUNK_TYPE_RAW \<equiv> 0xCAC1"
abbreviation CHUNK_TYPE_FILL :: u16 where "CHUNK_TYPE_FILL \<equiv> 0xCAC2"
abbreviation CHUNK_TYPE_DONT_CARE :: u16 where "CHUNK_TYPE_DONT_CARE \<equiv> 0xCAC3"
abbreviation CHUNK_TYPE_CRC32 :: u16 where "CHUNK_TYPE_CRC32 \<equiv> 0xCAC4"
abbreviation SPARSE_HEADER_MAGIC :: u32 where "SPARSE_HEADER_MAGIC \<equiv> 0xED26FF3A"
abbreviation CHUNK_HEADER_LEN :: u32 where "CHUNK_HEADER_LEN \<equiv> 12"
abbreviation SPARSE_HEADER_LEN :: u32 where "SPARSE_HEADER_LEN \<equiv> 28"

text \<open>\<open>chunk_header_t\<close> with \<open>reserved1\<close> zero.\<close>

definition chunk_header :: "u16 \<Rightarrow> u32 \<Rightarrow> u32 \<Rightarrow> u8 list" where
  "chunk_header t chunk_sz total_sz = le16 t @ le16 0 @ le32 chunk_sz @ le32 total_sz"

text \<open>
  \<open>out->ops->write (out, data, len)\<close> for the bytes behind \<open>data\<close>: the callers have an unsigned length,
  the parameter is an \<open>int\<close>.
\<close>

definition int_len :: "u8 list \<Rightarrow> int" where
  "int_len data = sint (of_nat (length data) :: u32)"

definition out_write :: "'o output_file \<Rightarrow> u8 list \<Rightarrow> int \<times> 'o output_file" where
  "out_write out data =
     (let (ret, p) = write_op (ops out) (priv out) data (int_len data) in (ret, out\<lparr>priv := p\<rparr>))"

definition out_skip :: "'o output_file \<Rightarrow> int \<Rightarrow> int \<times> 'o output_file" where
  "out_skip out n = (let (ret, p) = skip_op (ops out) (priv out) n in (ret, out\<lparr>priv := p\<rparr>))"

definition out_pad :: "'o output_file \<Rightarrow> int \<Rightarrow> int \<times> 'o output_file" where
  "out_pad out n = (let (ret, p) = pad_op (ops out) (priv out) n in (ret, out\<lparr>priv := p\<rparr>))"

text \<open>A write whose failure ends the chunk with -1.\<close>

definition write_or_fail ::
  "'o output_file \<Rightarrow> u8 list \<Rightarrow> ('o output_file \<Rightarrow> (int \<times> 'o output_file) res) \<Rightarrow> (int \<times> 'o output_file) res"
where
  "write_or_fail out data k =
     (let (ret, out) = out_write out data in if ret < 0 then Inr (-1, out) else k out)"

definition write_sparse_skip_chunk :: "'o output_file \<Rightarrow> int \<Rightarrow> (int \<times> 'o output_file) res" where
  "write_sparse_skip_chunk out skip_len =
     (if out_block_size out = 0 then Inl Fault
      else if skip_len smod uint (out_block_size out) \<noteq> 0 then Inr (-1, out)
      else write_or_fail out (chunk_header CHUNK_TYPE_DONT_CARE
             (word_of_int (skip_len sdiv uint (out_block_size out))) CHUNK_HEADER_LEN) (\<lambda>out.
        Inr (0, out\<lparr>cur_out_ptr := cur_out_ptr out + skip_len, chunk_cnt := chunk_cnt out + 1\<rparr>)))"

fun crc_repeat :: "nat \<Rightarrow> u32 \<Rightarrow> u8 list \<Rightarrow> u32" where
  "crc_repeat 0 c bs = c"
| "crc_repeat (Suc n) c bs = crc_repeat n (sparse_crc32 c bs) bs"

definition write_sparse_fill_chunk :: "'o output_file \<Rightarrow> u32 \<Rightarrow> u32 \<Rightarrow> (int \<times> 'o output_file) res" where
  "write_sparse_fill_chunk out n fill_val =
     rbind (EXT4_ALIGN n (out_block_size out)) (\<lambda>rnd_up_len.
     rbind (udiv rnd_up_len (out_block_size out)) (\<lambda>chunk_sz.
     write_or_fail out (chunk_header CHUNK_TYPE_FILL chunk_sz (CHUNK_HEADER_LEN + 4)) (\<lambda>out.
     write_or_fail out (le32 fill_val) (\<lambda>out.
     let out = (if use_crc out then out\<lparr>out_crc32 :=
           crc_repeat (unat (out_block_size out div 4)) (out_crc32 out) (le32 fill_val)\<rparr> else out) in
     Inr (0, out\<lparr>cur_out_ptr := cur_out_ptr out + sint rnd_up_len,
                chunk_cnt := chunk_cnt out + 1\<rparr>)))))"

definition write_sparse_data_chunk :: "'o output_file \<Rightarrow> u32 \<Rightarrow> u8 list \<Rightarrow> (int \<times> 'o output_file) res" where
  "write_sparse_data_chunk out n data =
     rbind (EXT4_ALIGN n (out_block_size out)) (\<lambda>rnd_up_len.
     rbind (udiv rnd_up_len (out_block_size out)) (\<lambda>chunk_sz.
     let zero_len = rnd_up_len - n; zeros = replicate (unat zero_len) 0 in
     write_or_fail out (chunk_header CHUNK_TYPE_RAW chunk_sz (CHUNK_HEADER_LEN + rnd_up_len)) (\<lambda>out.
     write_or_fail out data (\<lambda>out.
     (if zero_len \<noteq> 0 then write_or_fail out zeros else (\<lambda>k. k out)) (\<lambda>out.
     let out = (if use_crc out then
           (let c = sparse_crc32 (out_crc32 out) data in
            out\<lparr>out_crc32 := if zero_len \<noteq> 0 then sparse_crc32 c zeros else c\<rparr>) else out) in
     Inr (0, out\<lparr>cur_out_ptr := cur_out_ptr out + sint rnd_up_len,
                chunk_cnt := chunk_cnt out + 1\<rparr>))))))"

text \<open>The result of the second write is dropped and that of the first tested again.\<close>

definition write_sparse_end_chunk :: "'o output_file \<Rightarrow> int \<times> 'o output_file" where
  "write_sparse_end_chunk out =
     (if use_crc out then
        (let (ret, out) = out_write out (chunk_header CHUNK_TYPE_CRC32 0 (CHUNK_HEADER_LEN + 4)) in
         if ret < 0 then (ret, out)
         else (let (_, out) = out_write out (le32 (out_crc32 out)) in
               (0, out\<lparr>chunk_cnt := chunk_cnt out + 1\<rparr>)))
      else (0, out))"

definition write_normal_data_chunk :: "'o output_file \<Rightarrow> u32 \<Rightarrow> u8 list \<Rightarrow> (int \<times> 'o output_file) res" where
  "write_normal_data_chunk out n data =
     rbind (EXT4_ALIGN n (out_block_size out)) (\<lambda>rnd_up_len.
     let (ret, out) = out_write out data in
     if ret < 0 then Inr (ret, out)
     else if rnd_up_len > n then Inr (out_skip out (uint (rnd_up_len - n)))
     else Inr (ret, out))"

text \<open>The buffer \<open>fill_buf\<close> once filled: whole words of the value, then the zeros it was allocated with.\<close>

definition fill_buf :: "u32 \<Rightarrow> u32 \<Rightarrow> u8 list" where
  "fill_buf bs v = concat (replicate (unat (bs div 4)) (le32 v)) @ replicate (unat (bs mod 4)) 0"

function normal_fill_loop :: "'o output_file \<Rightarrow> u8 list \<Rightarrow> u32 \<Rightarrow> (int \<times> 'o output_file) res" where
  "normal_fill_loop out buf n =
     (if n = 0 then Inr (0, out)
      else if out_block_size out = 0 then Inl Diverge
      else let write_len = min n (out_block_size out);
               (ret, out') = out_write out (take (unat write_len) buf) in
           if ret < 0 then Inr (ret, out') else normal_fill_loop out' buf (n - write_len))"
  by pat_completeness auto
termination
proof (relation "measure (\<lambda>(out, buf, n). unat n)", goal_cases)
  case (2 out buf n l x ret out')
  then have "0 < unat l" "unat l \<le> unat n"
    by (auto simp: min_def unat_gt_0 word_le_nat_alt word_less_nat_alt not_le)
  then show ?case using 2 by (simp add: unat_sub word_le_nat_alt)
qed simp

declare normal_fill_loop.simps [simp del] callback_skip_loop.simps [simp del]

definition write_normal_fill_chunk :: "'o output_file \<Rightarrow> u32 \<Rightarrow> u32 \<Rightarrow> (int \<times> 'o output_file) res" where
  "write_normal_fill_chunk out n v = normal_fill_loop out (fill_buf (out_block_size out) v) n"

definition write_skip_chunk :: "'o output_file \<Rightarrow> int \<Rightarrow> (int \<times> 'o output_file) res" where
  "write_skip_chunk out n =
     (if out_sparse out then write_sparse_skip_chunk out n else Inr (out_skip out n))"

definition write_data_chunk :: "'o output_file \<Rightarrow> u32 \<Rightarrow> u8 list \<Rightarrow> (int \<times> 'o output_file) res" where
  "write_data_chunk out n data =
     (if out_sparse out then write_sparse_data_chunk out n data else write_normal_data_chunk out n data)"

definition write_fill_chunk :: "'o output_file \<Rightarrow> u32 \<Rightarrow> u32 \<Rightarrow> (int \<times> 'o output_file) res" where
  "write_fill_chunk out n v =
     (if out_sparse out then write_sparse_fill_chunk out n v else write_normal_fill_chunk out n v)"

definition output_file_close :: "'o output_file \<Rightarrow> 'o output_file" where
  "output_file_close out =
     (if out_sparse out then snd (write_sparse_end_chunk out) else snd (out_pad out (out_len out)))"

section \<open>Pieces\<close>

text \<open>The bytes at a data pointer; reading past the buffer is a \<open>Fault\<close>.\<close>

definition read_buf :: "u8 list \<Rightarrow> nat \<Rightarrow> nat \<Rightarrow> u8 list res" where
  "read_buf bs off n =
     (if n = 0 \<or> off + n \<le> length bs then Inr (take n (drop off bs)) else Inl Fault)"

text \<open>
  \<open>mmap\<close> of a part of a file: it refuses an empty or negative length; the page that holds the
  end of the file reads as zeros after it, a page past it cannot be read.
\<close>

definition mapped :: "u8 list \<Rightarrow> u8 list" where
  "mapped bs = bs @ replicate (4096 * ((length bs + 4095) div 4096) - length bs) 0"

definition write_fd_chunk ::
  "'o output_file \<Rightarrow> u32 \<Rightarrow> u8 list \<Rightarrow> u64 \<Rightarrow> (int \<times> 'o output_file) res" where
  "write_fd_chunk out n content off =
     (let aligned_offset = off AND NOT 4095;
          aligned_diff = ucast (off - aligned_offset) :: u32;
          buffer_size = n + aligned_diff in
      if buffer_size = 0 then Inr (- EINVAL, out)
      else if sint buffer_size < 0 then Inr (- ENOMEM, out)
      else rbind (read_buf (mapped content) (unat aligned_offset + unat aligned_diff) (unat n))
             (write_data_chunk out n))"

abbreviation ENOENT :: int where "ENOENT \<equiv> 2"

definition write_file_chunk ::
  "env \<Rightarrow> 'o output_file \<Rightarrow> u32 \<Rightarrow> string \<Rightarrow> u64 \<Rightarrow> (int \<times> 'o output_file) res" where
  "write_file_chunk e out n file off = (case env_file e file of
     None \<Rightarrow> Inr (- ENOENT, out) | Some content \<Rightarrow> write_fd_chunk out n content off)"

definition sparse_file_write_block ::
  "env \<Rightarrow> 'o output_file \<Rightarrow> backed_block \<Rightarrow> (int \<times> 'o output_file) res" where
  "sparse_file_write_block e out bb = (case bb_kind bb of
     BACKED_BLOCK_DATA (b, off) \<Rightarrow>
       rbind (read_buf (env_buf e b) off (unat (bb_len bb))) (write_data_chunk out (bb_len bb))
   | BACKED_BLOCK_FILE _ fn off \<Rightarrow> write_file_chunk e out (bb_len bb) fn off
   | BACKED_BLOCK_FD fd off \<Rightarrow> write_fd_chunk out (bb_len bb) (env_fd e fd) off
   | BACKED_BLOCK_FILL v \<Rightarrow> write_fill_chunk out (bb_len bb) v)"

section \<open>Images\<close>

record sparse_file =
  sf_block_size :: u32
  sf_len :: int
  sf_list :: backed_block_list

fun count_loop :: "nat \<Rightarrow> bb_mem \<Rightarrow> u32 \<Rightarrow> nat option \<Rightarrow> u32 \<Rightarrow> u32 \<Rightarrow> (u32 \<times> u32) res" where
  "count_loop fuel m bs None last_block chunks = Inr (last_block, chunks)"
| "count_loop 0 m bs (Some a) last_block chunks = Inl Diverge"
| "count_loop (Suc fuel) m bs (Some a) last_block chunks = rbind (load m a) (\<lambda>bb.
     rbind (DIV_ROUND_UP (bb_len bb) bs) (\<lambda>n.
     count_loop fuel m bs (bb_next bb) (bb_block bb + n)
       (chunks + (if bb_block bb > last_block then 1 else 0) + 1)))"

definition sparse_count_chunks :: "bb_mem \<Rightarrow> sparse_file \<Rightarrow> u32 res" where
  "sparse_count_chunks m s =
     rbind (count_loop (Suc (brk m)) m (sf_block_size s) (data_blocks (sf_list s)) 0 0)
       (\<lambda>(last_block, chunks).
     if sf_block_size s = 0 then Inl Fault else
     Inr (if uint last_block < (sf_len s + uint (sf_block_size s) - 1) sdiv uint (sf_block_size s)
          then chunks + 1 else chunks))"

text \<open>The loop of \<open>write_all_blocks\<close>; the result of a gap's skip chunk is not looked at.\<close>

fun write_blocks ::
  "nat \<Rightarrow> env \<Rightarrow> bb_mem \<Rightarrow> u32 \<Rightarrow> nat option \<Rightarrow> u32 \<Rightarrow> 'o output_file \<Rightarrow> (int \<times> u32 \<times> 'o output_file) res"
where
  "write_blocks fuel e m bs None last_block out = Inr (0, last_block, out)"
| "write_blocks 0 e m bs (Some a) last_block out = Inl Diverge"
| "write_blocks (Suc fuel) e m bs (Some a) last_block out = rbind (load m a) (\<lambda>bb.
     rbind (if bb_block bb > last_block
            then rbind (write_skip_chunk out (uint (bb_block bb - last_block) * uint bs)) (\<lambda>(_, out). Inr out)
            else Inr out) (\<lambda>out.
     rbind (sparse_file_write_block e out bb) (\<lambda>(ret, out).
     if ret \<noteq> 0 then Inr (ret, last_block, out) else
     rbind (DIV_ROUND_UP (bb_len bb) bs) (\<lambda>n.
     write_blocks fuel e m bs (bb_next bb) (bb_block bb + n) out))))"

definition write_all_blocks ::
  "env \<Rightarrow> bb_mem \<Rightarrow> sparse_file \<Rightarrow> 'o output_file \<Rightarrow> (int \<times> 'o output_file) res" where
  "write_all_blocks e m s out =
     rbind (write_blocks (Suc (brk m)) e m (sf_block_size s) (data_blocks (sf_list s)) 0 out)
       (\<lambda>(ret, last_block, out).
     if ret \<noteq> 0 then Inr (ret, out) else
     let pad = sf_len s - uint last_block * uint (sf_block_size s) in
     if pad < 0 then Inl Assert
     else if pad > 0 then rbind (write_skip_chunk out pad) (\<lambda>(_, out). Inr (0, out))
     else Inr (0, out))"

definition sparse_header :: "'o output_file \<Rightarrow> u32 \<Rightarrow> u32 \<Rightarrow> u8 list" where
  "sparse_header out total_blks chunks =
     le32 SPARSE_HEADER_MAGIC @ le16 1 @ le16 0 @ le16 (ucast SPARSE_HEADER_LEN)
     @ le16 (ucast CHUNK_HEADER_LEN) @ le32 (out_block_size out) @ le32 total_blks
     @ le32 (if use_crc out then chunks + 1 else chunks) @ le32 0"

text \<open>
  \<open>output_file_init\<close>: \<open>block_size\<close> is an \<open>int\<close> there; a negative one makes \<open>calloc (block_size, 1)\<close> fail.
\<close>

definition output_file_init ::
  "'o output_file_ops \<Rightarrow> 'o \<Rightarrow> u32 \<Rightarrow> int \<Rightarrow> bool \<Rightarrow> u32 \<Rightarrow> bool \<Rightarrow> (int \<times> 'o output_file) res" where
  "output_file_init tbl p bs n sparse chunks crc =
     (let out = \<lparr>cur_out_ptr = 0, chunk_cnt = 0, out_crc32 = 0, ops = tbl, out_sparse = sparse,
                 use_crc = crc, out_block_size = bs, out_len = n, priv = p\<rparr> in
      if sint bs < 0 then Inr (- ENOMEM, out) else
      if sparse then
        (if bs = 0 then Inl Fault
         else Inr (out_write out (sparse_header out (word_of_int (n sdiv uint bs)) chunks)))
      else Inr (0, out))"

text \<open>
  \<open>sparse_file_write\<close> to a plain file. The value is that of \<open>write_all_blocks\<close>, or \<open>- ENOMEM\<close> when
  the output cannot be opened.
\<close>

definition sparse_file_write ::
  "env \<Rightarrow> bb_mem \<Rightarrow> sparse_file \<Rightarrow> fd_file \<Rightarrow> bool \<Rightarrow> bool \<Rightarrow> (int \<times> fd_file) res" where
  "sparse_file_write e m s fd sparse crc =
     rbind (sparse_count_chunks m s) (\<lambda>chunks.
     rbind (output_file_init file_ops fd (sf_block_size s) (sf_len s) sparse chunks crc) (\<lambda>(ret, out).
     if ret < 0 then Inr (- ENOMEM, priv out) else
     rbind (write_all_blocks e m s out) (\<lambda>(ret, out).
     Inr (ret, priv (output_file_close out)))))"

definition sparse_file_len :: "env \<Rightarrow> bb_mem \<Rightarrow> sparse_file \<Rightarrow> bool \<Rightarrow> bool \<Rightarrow> int res" where
  "sparse_file_len e m s sparse crc =
     rbind (sparse_count_chunks m s) (\<lambda>chunks.
     rbind (output_file_init (callback_file_ops out_counter_write) 0 (sf_block_size s) (sf_len s)
       sparse chunks crc) (\<lambda>(ret, out).
     if ret < 0 then Inr (-1) else
     rbind (write_all_blocks e m s out) (\<lambda>(ret, out).
     let count = priv (output_file_close out) in
     Inr (if ret < 0 then -1 else count))))"

end
