(* ===== verification/Sparse_Write.thy ===== *)
theory Sparse_Write
  imports Sparse_Output
begin

text \<open>
  What an image file holds after \<open>sparse_file_write\<close>: in plain mode, the bytes of every piece at its
  place and zeros elsewhere; in sparse mode, the header and one chunk per gap and per piece,
  with the chunk count that the header announces.
\<close>

section \<open>Bytes of files and pieces\<close>

text \<open>A file read as the bytes it holds, zero past its end.\<close>

definition file_byte :: "u8 list \<Rightarrow> nat \<Rightarrow> u8" where
  "file_byte bs i = (if i < length bs then bs ! i else 0)"

lemma length_put_bytes:
  "length (put_bytes bs p d) = (if d = [] then length bs else max (length bs) (p + length d))"
  by (auto simp: put_bytes_def max_def)

lemma file_byte_put_bytes:
  "file_byte (put_bytes bs p d) i
     = (if p \<le> i \<and> i < p + length d then d ! (i - p) else file_byte bs i)"
proof -
  have "take p (bs @ replicate (p - length bs) 0) ! j = file_byte bs j" if "j < p" for j
    using that by (auto simp: file_byte_def nth_append)
  moreover have "length (take p (bs @ replicate (p - length bs) 0)) = p" by simp
  ultimately show ?thesis
    unfolding put_bytes_def file_byte_def [of "if d = [] then bs else _"]
    by (auto simp: nth_append file_byte_def)
qed

lemma bytes_eqI:
  "length xs = length ys \<Longrightarrow> (\<And>i. file_byte xs i = file_byte ys i) \<Longrightarrow> xs = ys"
  by (metis file_byte_def nth_equalityI)

lemma put_bytes_append:
  "put_bytes (put_bytes bs p d) (p + length d) d' = put_bytes bs p (d @ d')"
proof (rule bytes_eqI)
  fix i show "file_byte (put_bytes (put_bytes bs p d) (p + length d) d') i
      = file_byte (put_bytes bs p (d @ d')) i"
    by (auto simp: file_byte_put_bytes nth_append)
qed (auto simp: length_put_bytes)

text \<open>A length that an \<open>int\<close> can hold is passed on as it is.\<close>

lemma int_len_small: "length d < 2 ^ 31 \<Longrightarrow> int_len d = int (length d)"
  unfolding int_len_def by (subst sint_small) (simp_all add: unat_of_nat)

lemma file_write_fits:
  assumes "fd_pos f + length d \<le> fd_room f" "length d \<le> MAX_RW_COUNT"
  shows "file_write f d (int_len d)
    = (0, f\<lparr>fd_bytes := put_bytes (fd_bytes f) (fd_pos f) d, fd_pos := fd_pos f + length d\<rparr>)"
  using assms by (simp add: file_write_def write_whole_def int_len_small)

lemma div_round_up_le: "0 < (b :: nat) \<Longrightarrow> n \<le> (n + b - 1) div b * b"
proof -
  assume b: "0 < b"
  have "n + b - 1 < ((n + b - 1) div b + 1) * b" using b by (simp add: dividend_less_div_times)
  then show "n \<le> (n + b - 1) div b * b" using b by simp
qed

lemma div_round_up_exact: "0 < b \<Longrightarrow> (b * k + b - 1) div b = (k :: nat)"
proof -
  assume b: "0 < b"
  then have "b * k + b - 1 = (b - 1) + b * k" by simp
  also have "\<dots> div b = k" using b by (subst div_mult_self2) simp_all
  finally show ?thesis .
qed

text \<open>Rounding a length up to whole blocks.\<close>

lemma EXT4_ALIGN_nat:
  assumes "bs \<noteq> 0" "unat n + unat bs \<le> 2 ^ 32"
  shows "\<exists>r. EXT4_ALIGN n bs = Inr (r :: u32)
     \<and> unat r = unat bs * ((unat n + unat bs - 1) div unat bs)"
proof -
  obtain q where q: "DIV_ROUND_UP n bs = Inr q" "unat q = (unat n + unat bs - 1) div unat bs"
    using DIV_ROUND_UP_nat [OF assms(1), of n] assms(2) by auto
  have "unat bs * ((unat n + unat bs - 1) div unat bs) \<le> unat n + unat bs - 1"
    by (rule times_div_less_eq_dividend)
  moreover have "0 < unat bs" using assms(1) by (simp add: unat_gt_0)
  ultimately have "unat bs * ((unat n + unat bs - 1) div unat bs) < 2 ^ 32" using assms(2) by linarith
  then have "unat (bs * q) = unat bs * unat q"
    by (intro unat_mult_lem [THEN iffD1]) (simp only: q(2), simp)
  then show ?thesis using q by (auto simp: EXT4_ALIGN_def)
qed

text \<open>The bytes of a piece.\<close>

definition file_part :: "u8 list \<Rightarrow> u64 \<Rightarrow> u32 \<Rightarrow> u8 list option" where
  "file_part content off n =
     (if 0 < unat n \<and> unat n < 2147479552 \<and> unat off + unat n \<le> length (mapped content)
      then Some (take (unat n) (drop (unat off) (mapped content))) else None)"

definition piece_bytes :: "env \<Rightarrow> seg \<Rightarrow> u8 list option" where
  "piece_bytes e s = (case s of (_, n, k) \<Rightarrow> (case k of
       BACKED_BLOCK_DATA (b, off) \<Rightarrow>
         if off + unat n \<le> length (env_buf e b) then Some (take (unat n) (drop off (env_buf e b))) else None
     | BACKED_BLOCK_FILE _ fn off \<Rightarrow> Option.bind (env_file e fn) (\<lambda>c. file_part c off n)
     | BACKED_BLOCK_FD fd off \<Rightarrow> file_part (env_fd e fd) off n
     | BACKED_BLOCK_FILL v \<Rightarrow> Some (List.map (\<lambda>i. le32 v ! (i mod 4)) [0..<unat n])))"

lemma length_piece_bytes: "piece_bytes e (b, n, k) = Some d \<Longrightarrow> length d = unat n"
  by (auto simp: piece_bytes_def file_part_def split: bb_kind.splits if_splits bind_splits)

lemma page_offset:
  fixes off :: u64
  shows "unat (off AND NOT 4095) = 4096 * (unat off div 4096)"
    "unat (ucast (off - (off AND NOT 4095)) :: u32) = unat off mod 4096"
proof -
  have "(4095 :: u64) = mask 12" by (simp add: mask_eq_exp_minus_1)
  then show page: "unat (off AND NOT 4095) = 4096 * (unat off div 4096)"
    using unat_and_not_mask [of off 12] by simp
  have "unat (off - (off AND NOT 4095)) = unat off - 4096 * (unat off div 4096)"
    unfolding page [symmetric]
    by (intro unat_sub) (simp only: word_le_nat_alt page times_div_less_eq_dividend)
  also have "\<dots> = unat off mod 4096" by (simp add: minus_mult_div_eq_mod)
  finally have u: "unat (off - (off AND NOT 4095)) = unat off mod 4096" .
  then show "unat (ucast (off - (off AND NOT 4095)) :: u32) = unat off mod 4096"
    by (subst unat_ucast_64_32) (simp_all only:, simp)
qed

lemma write_fd_chunk_part:
  assumes "file_part content off n = Some d"
  shows "write_fd_chunk out n content off = write_data_chunk out n d"
proof -
  have n: "0 < unat n" "unat n < 2147479552" "unat off + unat n \<le> length (mapped content)"
    and d: "d = take (unat n) (drop (unat off) (mapped content))"
    using assms by (auto simp: file_part_def split: if_splits)
  define page where "page = unat (off AND NOT 4095)"
  obtain diff where diff: "(ucast (off - (off AND NOT 4095)) :: u32) = diff" by blast
  have split: "page + unat diff = unat off" "unat diff < 4096"
    unfolding page_def diff [symmetric] page_offset by simp_all
  have size: "unat (n + diff) = unat n + unat diff" using n split(2) by (intro unat_add_small) simp
  then have "sint (n + diff) = int (unat n + unat diff)"
    using n split(2) by (subst sint_small) (simp_all only: size, simp)
  then have "\<not> sint (n + diff) < 0" by linarith
  moreover have "n + diff \<noteq> 0" using size n(1) by (metis add_is_0 less_irrefl unat_0)
  ultimately show ?thesis
    using n d split(1) unfolding write_fd_chunk_def Let_def diff page_def [symmetric]
    by (simp add: read_buf_def)
qed

lemma write_block_piece:
  assumes "piece_bytes e (seg_of bb) = Some d" "\<forall>v. bb_kind bb \<noteq> BACKED_BLOCK_FILL v"
  shows "sparse_file_write_block e out bb = write_data_chunk out (bb_len bb) d"
  using assms
  by (auto simp: sparse_file_write_block_def piece_bytes_def seg_of_def read_buf_def
      write_file_chunk_def write_fd_chunk_part split: bb_kind.splits if_splits bind_splits)


section \<open>Writing to a plain file\<close>

abbreviation blocks_of :: "u32 \<Rightarrow> u32 \<Rightarrow> nat" where
  "blocks_of bs n \<equiv> (unat n + unat bs - 1) div unat bs"

definition plain_out :: "u32 \<Rightarrow> fd_file \<Rightarrow> fd_file output_file \<Rightarrow> bool" where
  "plain_out bs f out \<longleftrightarrow> ops out = file_ops \<and> \<not> out_sparse out \<and> out_block_size out = bs \<and> priv out = f"

lemma plain_out_update: "plain_out bs f out \<Longrightarrow> plain_out bs g (out\<lparr>priv := g\<rparr>)"
  by (simp add: plain_out_def)

lemma out_write_plain:
  assumes "plain_out bs f out" "fd_pos f + length d \<le> fd_room f" "length d \<le> MAX_RW_COUNT"
  shows "out_write out d = (0, out\<lparr>priv := f\<lparr>fd_bytes := put_bytes (fd_bytes f) (fd_pos f) d,
                                          fd_pos := fd_pos f + length d\<rparr>\<rparr>)"
  using assms by (simp add: plain_out_def out_write_def file_ops_def file_write_fits)

lemma out_skip_plain:
  assumes "plain_out bs f out"
  shows "out_skip out (int k) = (0, out\<lparr>priv := f\<lparr>fd_pos := fd_pos f + k\<rparr>\<rparr>)"
  using assms by (simp add: plain_out_def out_skip_def file_ops_def file_skip_def nat_int_add)

lemma write_data_plain:
  assumes out: "plain_out bs f out" and bs: "bs \<noteq> 0" "unat n + unat bs < 2 ^ 32"
    and d: "length d = unat n" "fd_pos f + unat n \<le> fd_room f" "unat n \<le> MAX_RW_COUNT"
  shows "write_data_chunk out n d = Inr (0, out\<lparr>priv := f\<lparr>fd_bytes := put_bytes (fd_bytes f) (fd_pos f) d,
     fd_pos := fd_pos f + blocks_of bs n * unat bs\<rparr>\<rparr>)"
proof -
  obtain r where r: "EXT4_ALIGN n bs = Inr r" "unat r = unat bs * blocks_of bs n"
    using EXT4_ALIGN_nat [OF bs(1), of n] bs(2) by auto
  have "0 < unat bs" using bs(1) by (simp add: unat_gt_0)
  then have ge: "unat n \<le> blocks_of bs n * unat bs" using div_round_up_le by blast
  let ?f = "f\<lparr>fd_bytes := put_bytes (fd_bytes f) (fd_pos f) d, fd_pos := fd_pos f + length d\<rparr>"
  have w: "out_write out d = (0, out\<lparr>priv := ?f\<rparr>)" using out d by (intro out_write_plain) simp_all
  have o2: "plain_out bs ?f (out\<lparr>priv := ?f\<rparr>)" using out by (rule plain_out_update)
  show ?thesis
  proof (cases "n < r")
    case True
    then have "uint (r - n) = int (unat r - unat n)"
      by (metis order_less_imp_le uint_nat unat_sub)
    then show ?thesis
      using out w r d ge True out_skip_plain [OF o2, of "unat r - unat n"]
      by (simp add: plain_out_def write_data_chunk_def write_normal_data_chunk_def Let_def mult.commute)
  next
    case False
    then have "unat r = unat n" using ge r(2) by (simp add: word_less_nat_alt mult.commute)
    then show ?thesis
      using out w r d False
      by (simp add: plain_out_def write_data_chunk_def write_normal_data_chunk_def Let_def mult.commute)
  qed
qed

definition fill_bytes :: "u32 \<Rightarrow> nat \<Rightarrow> u8 list" where
  "fill_bytes v n = List.map (\<lambda>i. le32 v ! (i mod 4)) [0..<n]"

lemma length_fill_bytes [simp]: "length (fill_bytes v n) = n"
  by (simp add: fill_bytes_def)

lemma fill_bytes_append: "4 dvd k \<Longrightarrow> fill_bytes v k @ fill_bytes v n = fill_bytes v (k + n)"
proof (rule nth_equalityI)
  fix i assume k: "4 dvd k" and i: "i < length (fill_bytes v k @ fill_bytes v n)"
  have "(i - k) mod 4 = i mod 4" if "k \<le> i"
    using k that by (metis dvd_imp_mod_0 le_add_diff_inverse mod_add_left_eq add_0)
  with i show "(fill_bytes v k @ fill_bytes v n) ! i = fill_bytes v (k + n) ! i"
    by (auto simp: fill_bytes_def nth_append)
qed simp

lemma fill_buf_bytes:
  assumes "4 dvd unat bs"
  shows "fill_buf bs v = fill_bytes v (unat bs)"
proof -
  have le: "le32 v = fill_bytes v 4"
    by (rule nth_equalityI) (simp_all add: fill_bytes_def, simp_all add: le32_def)
  have "concat (replicate k (le32 v)) = fill_bytes v (4 * k)" for k
  proof (induction k)
    case (Suc k)
    have "4 + 4 * k = 4 * Suc k" by simp
    then show ?case using fill_bytes_append [of 4 v "4 * k"] Suc by (simp only: concat.simps replicate.simps le) simp
  qed (simp add: fill_bytes_def)
  moreover have "4 * (unat bs div 4) = unat bs" using assms by simp
  moreover have "unat (bs mod 4) = 0" using assms by (simp add: unat_mod mod_eq_0_iff_dvd)
  ultimately show ?thesis by (simp add: fill_buf_def unat_div)
qed

lemma normal_fill_plain:
  assumes "plain_out bs f out" "bs \<noteq> 0" "4 dvd unat bs" "unat bs dvd unat n"
    "fd_pos f + unat n \<le> fd_room f" "unat bs \<le> MAX_RW_COUNT"
  shows "normal_fill_loop out (fill_buf bs v) n = Inr (0, out\<lparr>priv := f\<lparr>
     fd_bytes := put_bytes (fd_bytes f) (fd_pos f) (fill_bytes v (unat n)), fd_pos := fd_pos f + unat n\<rparr>\<rparr>)"
  using assms
proof (induction "unat n" arbitrary: n out f rule: less_induct)
  case less
  show ?case
  proof (cases "n = 0")
    case True
    have "put_bytes (fd_bytes f) (fd_pos f) (fill_bytes v 0) = fd_bytes f"
      by (simp add: put_bytes_def fill_bytes_def)
    then show ?thesis using True less.prems(1) by (simp add: plain_out_def normal_fill_loop.simps)
  next
    case False
    have pos: "0 < unat n" "0 < unat bs" using False less.prems(2) by (simp_all add: unat_gt_0)
    with less.prems(4) have le: "unat bs \<le> unat n" by (simp add: dvd_imp_le)
    then have min: "min n bs = bs" by (simp add: min.absorb2 word_le_nat_alt)
    have sub: "unat (n - bs) = unat n - unat bs" using le by (simp add: unat_sub word_le_nat_alt)
    let ?f = "f\<lparr>fd_bytes := put_bytes (fd_bytes f) (fd_pos f) (fill_bytes v (unat bs)),
                fd_pos := fd_pos f + unat bs\<rparr>"
    have w: "out_write out (fill_bytes v (unat bs)) = (0, out\<lparr>priv := ?f\<rparr>)"
      using out_write_plain [OF less.prems(1), of "fill_bytes v (unat bs)"] le less.prems(5,6) by simp
    have ih: "normal_fill_loop (out\<lparr>priv := ?f\<rparr>) (fill_buf bs v) (n - bs)
      = Inr (0, (out\<lparr>priv := ?f\<rparr>)\<lparr>priv := ?f\<lparr>
          fd_bytes := put_bytes (fd_bytes ?f) (fd_pos ?f) (fill_bytes v (unat (n - bs))),
          fd_pos := fd_pos ?f + unat (n - bs)\<rparr>\<rparr>)"
    proof (rule less.hyps)
      show "unat (n - bs) < unat n" using sub pos by simp
      show "plain_out bs ?f (out\<lparr>priv := ?f\<rparr>)" using less.prems(1) by (rule plain_out_update)
      show "unat bs dvd unat (n - bs)" using less.prems(4) sub by (simp add: dvd_diff_nat)
      show "fd_pos ?f + unat (n - bs) \<le> fd_room ?f" using less.prems(5) sub le by simp
    qed (fact less.prems(2,3,6))+
    have "put_bytes (put_bytes (fd_bytes f) (fd_pos f) (fill_bytes v (unat bs)))
        (fd_pos f + unat bs) (fill_bytes v (unat n - unat bs))
      = put_bytes (fd_bytes f) (fd_pos f) (fill_bytes v (unat n))"
      using put_bytes_append [of "fd_bytes f" "fd_pos f" "fill_bytes v (unat bs)"] less.prems(3) le
      by (simp add: fill_bytes_append)
    then show ?thesis
      using False less.prems(1,2) min w ih sub le fill_buf_bytes [OF less.prems(3)]
      by (subst normal_fill_loop.simps) (simp add: plain_out_def Let_def)
  qed
qed

text \<open>
  The pieces that can be written: the source is readable, rounding up stays in 32 bits, and what is
  written in one call (a whole piece of data, a block of padding or of a fill) is not more than
  \<open>write\<close> takes at once, which also keeps the length an \<open>int\<close>.
\<close>

definition writable :: "env \<Rightarrow> u32 \<Rightarrow> seg \<Rightarrow> bool" where
  "writable e bs s \<longleftrightarrow> (case s of (_, n, k) \<Rightarrow> piece_bytes e s \<noteq> None \<and> unat n + unat bs < 2 ^ 32 \<and>
     unat bs \<le> MAX_RW_COUNT \<and>
     (case k of BACKED_BLOCK_FILL _ \<Rightarrow> 4 dvd unat bs \<and> unat bs dvd unat n | _ \<Rightarrow> unat n \<le> MAX_RW_COUNT))"

lemma write_block_plain:
  assumes out: "plain_out bs f out" and bs: "bs \<noteq> 0" and w: "writable e bs (seg_of bb)"
    and d: "piece_bytes e (seg_of bb) = Some d" and room: "fd_pos f + unat (bb_len bb) \<le> fd_room f"
  shows "sparse_file_write_block e out bb = Inr (0, out\<lparr>priv := f\<lparr>
     fd_bytes := put_bytes (fd_bytes f) (fd_pos f) d,
     fd_pos := fd_pos f + blocks_of bs (bb_len bb) * unat bs\<rparr>\<rparr>)"
proof (cases "\<exists>v. bb_kind bb = BACKED_BLOCK_FILL v")
  case False
  have "length d = unat (bb_len bb)" using d length_piece_bytes by (auto simp: seg_of_def)
  moreover have "unat (bb_len bb) + unat bs < 2 ^ 32" using w by (simp add: writable_def seg_of_def)
  moreover have nf: "\<forall>v. bb_kind bb \<noteq> BACKED_BLOCK_FILL v" using False by simp
  moreover have "unat (bb_len bb) \<le> MAX_RW_COUNT"
    using w nf by (simp add: writable_def seg_of_def split: bb_kind.splits)
  ultimately show ?thesis
    unfolding write_block_piece [OF d \<open>\<forall>v. bb_kind bb \<noteq> BACKED_BLOCK_FILL v\<close>]
    using room by (intro write_data_plain [OF out bs])
next
  case True
  then obtain v where v: "bb_kind bb = BACKED_BLOCK_FILL v" by blast
  then have dv: "4 dvd unat bs" "unat bs dvd unat (bb_len bb)" "unat bs \<le> MAX_RW_COUNT" and dd: "d = fill_bytes v (unat (bb_len bb))"
    using w d by (simp_all add: writable_def piece_bytes_def seg_of_def fill_bytes_def)
  have "0 < unat bs" using bs by (simp add: unat_gt_0)
  then have "blocks_of bs (bb_len bb) * unat bs = unat (bb_len bb)"
    using dv(2) div_round_up_exact [of "unat bs"] by (auto elim!: dvdE)
  then show ?thesis
    using normal_fill_plain [OF out bs dv(1,2) room dv(3), of v] out v dd
    by (simp add: sparse_file_write_block_def write_fill_chunk_def write_normal_fill_chunk_def plain_out_def)
qed

text \<open>
  The pieces follow each other from block \<open>last\<close> on, each past the blocks of the one before, and
  end within \<open>N\<close> bytes.
\<close>

fun placed :: "u32 \<Rightarrow> nat \<Rightarrow> seg list \<Rightarrow> nat \<Rightarrow> bool" where
  "placed bs lst [] N = (lst * unat bs \<le> N)"
| "placed bs lst ((b, n, k) # xs) N =
     (lst \<le> unat b \<and> unat b + blocks_of bs n < 2 ^ 32 \<and> placed bs (unat b + blocks_of bs n) xs N)"

fun blit :: "env \<Rightarrow> u32 \<Rightarrow> seg list \<Rightarrow> u8 list \<Rightarrow> u8 list" where
  "blit e bs [] F = F"
| "blit e bs ((b, n, k) # xs) F =
     blit e bs xs (put_bytes F (unat b * unat bs) (the (piece_bytes e (b, n, k))))"

fun end_block :: "u32 \<Rightarrow> u32 \<Rightarrow> seg list \<Rightarrow> u32" where
  "end_block bs lst [] = lst"
| "end_block bs lst ((b, n, k) # xs) = end_block bs (b + of_nat (blocks_of bs n)) xs"

lemma placed_end: "placed bs lst xs N \<Longrightarrow> lst * unat bs \<le> N"
proof (induction bs lst xs N rule: placed.induct)
  case (2 bs lst b n k xs N)
  then have "(unat b + blocks_of bs n) * unat bs \<le> N" "lst \<le> unat b + blocks_of bs n" by auto
  then show ?case by (meson le_trans mult_le_mono1)
qed simp

lemma DIV_ROUND_UP_blocks:
  assumes "bs \<noteq> 0" "unat n + unat bs < 2 ^ 32"
  shows "DIV_ROUND_UP n bs = Inr (of_nat (blocks_of bs n) :: u32)"
proof -
  have "0 < unat bs" using assms(1) by (simp add: unat_gt_0)
  then show ?thesis
    using DIV_ROUND_UP_of_nat [of "unat bs" "unat n" "blocks_of bs n", where 'a = 32] assms(2)
    by (simp add: unsigned_less [where 'b = 32, simplified])
qed

lemma write_blocks_plain:
  assumes "chain bb_next (cells m) p as None" "length as \<le> fuel" "plain_out bs f out"
    "fd_pos f = unat lst * unat bs" "N \<le> fd_room f" "bs \<noteq> 0"
    "\<forall>s \<in> set (List.map (seg_at m) as). writable e bs s"
    "placed bs (unat lst) (List.map (seg_at m) as) N"
  shows "write_blocks fuel e m bs p lst out
    = Inr (0, end_block bs lst (List.map (seg_at m) as), out\<lparr>priv := f\<lparr>
        fd_bytes := blit e bs (List.map (seg_at m) as) (fd_bytes f),
        fd_pos := unat (end_block bs lst (List.map (seg_at m) as)) * unat bs\<rparr>\<rparr>)
    \<and> unat (end_block bs lst (List.map (seg_at m) as)) * unat bs \<le> N"
  using assms
proof (induction as arbitrary: p fuel lst out f)
  case Nil
  then show ?case by (simp add: plain_out_def)
next
  case (Cons a as)
  obtain bb fl where a: "p = Some a" "cells m a = Some bb" "chain bb_next (cells m) (bb_next bb) as None"
      "fuel = Suc fl" "length as \<le> fl"
    using Cons.prems(1,2) by (cases fuel) (auto split: option.splits)
  obtain b n k where seg: "seg_of bb = (b, n, k)" by (cases "seg_of bb")
  then have bb: "bb_block bb = b" "bb_len bb = n" "bb_kind bb = k" by (simp_all add: seg_of_def)
  have w: "writable e bs (seg_of bb)" using Cons.prems(7) a(2) by simp
  then obtain d where d: "piece_bytes e (seg_of bb) = Some d" by (auto simp: writable_def seg)
  have len: "length d = unat n" using d length_piece_bytes seg by auto
  have pl: "unat lst \<le> unat b" "unat b + blocks_of bs n < 2 ^ 32"
      "placed bs (unat b + blocks_of bs n) (List.map (seg_at m) as) N"
    using Cons.prems(8) a(2) seg by simp_all
  have pos: "0 < unat bs" using Cons.prems(6) by (simp add: unat_gt_0)
  have rnd: "unat n + unat bs < 2 ^ 32" using w by (simp add: writable_def seg)
  let ?f1 = "f\<lparr>fd_pos := unat b * unat bs\<rparr>" and ?l = "b + of_nat (blocks_of bs n)"
  let ?out1 = "out\<lparr>priv := ?f1\<rparr>"
  have ul: "unat ?l = unat b + blocks_of bs n"
    using pl(2) by (simp add: unat_of_nat unat_word_ariths)
  have gap: "(if bb_block bb > lst
            then rbind (write_skip_chunk out (uint (bb_block bb - lst) * uint bs)) (\<lambda>(_, out). Inr out)
            else Inr out) = Inr ?out1"
  proof (cases "b > lst")
    case True
    then have "uint (b - lst) * uint bs = int ((unat b - unat lst) * unat bs)"
      by (metis less_imp_le of_nat_mult uint_nat unat_sub)
    moreover have "unat lst * unat bs + (unat b - unat lst) * unat bs = unat b * unat bs"
      using pl(1) by (simp add: add_mult_distrib [symmetric])
    ultimately show ?thesis
      using True bb Cons.prems(3,4) out_skip_plain [OF Cons.prems(3), of "(unat b - unat lst) * unat bs"]
      by (simp add: write_skip_chunk_def plain_out_def del: of_nat_mult)
  next
    case False
    then have "unat b = unat lst" using pl(1) by (simp add: word_less_nat_alt)
    then have "?f1 = f" using Cons.prems(4) by simp
    then show ?thesis using False bb Cons.prems(3) by (simp add: plain_out_def)
  qed
  have room: "fd_pos ?f1 + unat (bb_len bb) \<le> fd_room ?f1"
  proof -
    have "unat n \<le> blocks_of bs n * unat bs" by (rule div_round_up_le [OF pos])
    moreover have "(unat b + blocks_of bs n) * unat bs \<le> N" using pl(3) by (rule placed_end)
    ultimately show ?thesis using Cons.prems(5) bb by (simp add: add_mult_distrib)
  qed
  let ?f2 = "?f1\<lparr>fd_bytes := put_bytes (fd_bytes f) (unat b * unat bs) d, fd_pos := unat ?l * unat bs\<rparr>"
  have blk: "sparse_file_write_block e ?out1 bb = Inr (0, ?out1\<lparr>priv := ?f2\<rparr>)"
    using write_block_plain [OF plain_out_update [OF Cons.prems(3)] Cons.prems(6) w d room] bb ul
    by (simp add: add_mult_distrib)
  have up: "DIV_ROUND_UP n bs = Inr (of_nat (blocks_of bs n))"
    using Cons.prems(6) rnd by (rule DIV_ROUND_UP_blocks)
  have ih: "write_blocks fl e m bs (bb_next bb) ?l (?out1\<lparr>priv := ?f2\<rparr>)
    = Inr (0, end_block bs ?l (List.map (seg_at m) as), (?out1\<lparr>priv := ?f2\<rparr>)\<lparr>priv := ?f2\<lparr>
        fd_bytes := blit e bs (List.map (seg_at m) as) (fd_bytes ?f2),
        fd_pos := unat (end_block bs ?l (List.map (seg_at m) as)) * unat bs\<rparr>\<rparr>)
    \<and> unat (end_block bs ?l (List.map (seg_at m) as)) * unat bs \<le> N"
  proof (rule Cons.IH [OF a(3,5)])
    show "plain_out bs ?f2 (?out1\<lparr>priv := ?f2\<rparr>)"
      using Cons.prems(3) by (simp add: plain_out_def)
    show "placed bs (unat ?l) (List.map (seg_at m) as) N" unfolding ul by (rule pl(3))
  qed (use Cons.prems in simp_all)
  show ?case
    using ih a(1,2,4) gap blk bb up seg d
    by (simp add: DIV_ROUND_UP_def)
qed

text \<open>Byte \<open>i\<close> of the image: from the piece that covers it, zero where none does.\<close>

definition image_byte :: "env \<Rightarrow> u32 \<Rightarrow> seg list \<Rightarrow> nat \<Rightarrow> u8" where
  "image_byte e bs xs i =
     (case List.find (\<lambda>(b, n, k). unat b * unat bs \<le> i \<and> i < unat b * unat bs + unat n) xs of
        None \<Rightarrow> 0
      | Some (b, n, k) \<Rightarrow> the (piece_bytes e (b, n, k)) ! (i - unat b * unat bs))"

lemma placed_before:
  "placed bs lst xs N \<Longrightarrow> i < lst * unat bs \<Longrightarrow>
     List.find (\<lambda>(b, n, k). unat b * unat bs \<le> i \<and> i < unat b * unat bs + unat n) xs = None"
proof (induction bs lst xs N rule: placed.induct)
  case (2 bs lst b n k xs N)
  then have "i < unat b * unat bs" by (meson less_le_trans mult_le_mono1 placed.simps(2))
  moreover have "unat b * unat bs \<le> (unat b + blocks_of bs n) * unat bs" by simp
  ultimately have "i < (unat b + blocks_of bs n) * unat bs" by linarith
  with 2 \<open>i < unat b * unat bs\<close> show ?case by simp
qed simp

lemma blit_bytes:
  assumes "placed bs lst xs N" "bs \<noteq> 0" "\<forall>s \<in> set xs. piece_bytes e s \<noteq> None"
  shows "file_byte (blit e bs xs F) i =
    (if List.find (\<lambda>(b, n, k). unat b * unat bs \<le> i \<and> i < unat b * unat bs + unat n) xs = None
     then file_byte F i else image_byte e bs xs i)"
  using assms
proof (induction bs lst xs N arbitrary: F rule: placed.induct)
  case (2 bs lst b n k xs N)
  obtain d where d: "piece_bytes e (b, n, k) = Some d" using 2(4) by auto
  then have len: "length d = unat n" by (rule length_piece_bytes)
  have pos: "0 < unat bs" using 2(3) by (simp add: unat_gt_0)
  have end_le: "unat b * unat bs + unat n \<le> (unat b + blocks_of bs n) * unat bs"
    using div_round_up_le [OF pos, of "unat n"] by (simp add: add_mult_distrib)
  have ih: "file_byte (blit e bs xs G) i =
    (if List.find (\<lambda>(b, n, k). unat b * unat bs \<le> i \<and> i < unat b * unat bs + unat n) xs = None
     then file_byte G i else image_byte e bs xs i)" for G
    using 2 by simp
  show ?case
  proof (cases "unat b * unat bs \<le> i \<and> i < unat b * unat bs + unat n")
    case True
    then have "List.find (\<lambda>(b, n, k). unat b * unat bs \<le> i \<and> i < unat b * unat bs + unat n) xs = None"
      using 2(2) end_le by (intro placed_before [of bs "unat b + blocks_of bs n" xs N]) auto
    then show ?thesis using True ih d len by (simp add: image_byte_def file_byte_put_bytes)
  next
    case False
    then show ?thesis using ih d len by (auto simp: image_byte_def file_byte_put_bytes)
  qed
qed simp

definition new_file :: "nat \<Rightarrow> fd_file" where
  "new_file room = \<lparr>fd_bytes = [], fd_pos = 0, fd_room = room\<rparr>"

text \<open>The number of chunks that the pieces take, gaps included.\<close>

fun count_segs :: "u32 \<Rightarrow> u32 \<Rightarrow> seg list \<Rightarrow> nat" where
  "count_segs bs lst [] = 0"
| "count_segs bs lst ((b, n, k) # xs) =
     (if b > lst then 2 else 1) + count_segs bs (b + of_nat (blocks_of bs n)) xs"

lemma count_loop_segs:
  assumes "chain bb_next (cells m) p as None" "length as \<le> fuel" "bs \<noteq> 0"
    "\<forall>s \<in> set (List.map (seg_at m) as). writable e bs s"
  shows "count_loop fuel m bs p lst c = Inr (end_block bs lst (List.map (seg_at m) as),
    c + of_nat (count_segs bs lst (List.map (seg_at m) as)))"
  using assms
proof (induction as arbitrary: p fuel lst c)
  case (Cons a as)
  obtain bb fl where a: "p = Some a" "cells m a = Some bb" "chain bb_next (cells m) (bb_next bb) as None"
      "fuel = Suc fl" "length as \<le> fl"
    using Cons.prems(1,2) by (cases fuel) (auto split: option.splits)
  obtain b n k where seg: "seg_of bb = (b, n, k)" by (cases "seg_of bb")
  then have bb: "bb_block bb = b" "bb_len bb = n" by (simp_all add: seg_of_def)
  have "unat n + unat bs < 2 ^ 32" using Cons.prems(4) a(2) seg by (simp add: writable_def)
  then have up: "DIV_ROUND_UP n bs = Inr (of_nat (blocks_of bs n))"
    using Cons.prems(3) by (rule DIV_ROUND_UP_blocks [rotated])
  have ih: "count_loop fl m bs (bb_next bb) l c' = Inr (end_block bs l (List.map (seg_at m) as),
    c' + of_nat (count_segs bs l (List.map (seg_at m) as)))" for l c'
    using Cons.IH [OF a(3,5)] Cons.prems by simp
  show ?case using a(1,2,4) bb seg up ih by (simp add: algebra_simps)
qed simp

text \<open>An output opened for a plain image.\<close>

definition opened :: "'o output_file_ops \<Rightarrow> sparse_file \<Rightarrow> bool \<Rightarrow> 'o \<Rightarrow> 'o output_file" where
  "opened tbl s crc p = \<lparr>cur_out_ptr = 0, chunk_cnt = 0, out_crc32 = 0, ops = tbl, out_sparse = False,
     use_crc = crc, out_block_size = sf_block_size s, out_len = sf_len s, priv = p\<rparr>"

lemma output_file_init_opened:
  assumes "unat (sf_block_size s) < 2 ^ 31"
  shows "output_file_init tbl p (sf_block_size s) (sf_len s) False chunks crc = Inr (0, opened tbl s crc p)"
proof -
  have "sint (sf_block_size s) = int (unat (sf_block_size s))" using assms by (intro sint_small) simp
  then have "\<not> sint (sf_block_size s) < 0" by linarith
  then show ?thesis by (simp add: output_file_init_def opened_def)
qed

lemma write_all_blocks_plain:
  assumes q: "queue_list m (sf_list s) as xs" and bs: "sf_block_size s \<noteq> 0"
    and w: "\<forall>x \<in> set xs. writable e (sf_block_size s) x"
    and p: "placed (sf_block_size s) 0 xs (nat (sf_len s))" and len: "0 \<le> sf_len s"
    and room: "nat (sf_len s) \<le> room"
  shows "\<exists>chunks f. sparse_count_chunks m s = Inr chunks
    \<and> write_all_blocks e m s (opened file_ops s crc (new_file room)) = Inr (0, opened file_ops s crc f)
    \<and> fd_pos f = nat (sf_len s)
    \<and> (\<forall>i. file_byte (fd_bytes f) i = image_byte e (sf_block_size s) xs i)"
proof -
  let ?bs = "sf_block_size s" and ?N = "nat (sf_len s)"
  have ok: "mem_ok m" and ch: "chain bb_next (cells m) (data_blocks (sf_list s)) as None"
    and xs: "xs = List.map (seg_at m) as" using q by (simp_all add: queue_list_def)
  have fuel: "length as \<le> Suc (brk m)" using chain_length [OF ok ch] by simp
  have "\<exists>l c. count_loop (Suc (brk m)) m ?bs (data_blocks (sf_list s)) 0 0 = Inr (l, c)"
    using count_loop_segs [OF ch fuel bs] w xs by blast
  then obtain chunks where chunks: "sparse_count_chunks m s = Inr chunks"
    using bs by (auto simp: sparse_count_chunks_def simp del: count_loop.simps)
  let ?out = "opened file_ops s crc (new_file room)"
  have plain: "plain_out ?bs f (opened file_ops s crc f)" for f by (simp add: plain_out_def opened_def)
  let ?E = "end_block ?bs 0 xs"
  let ?f = "\<lparr>fd_bytes = blit e ?bs xs [], fd_pos = unat ?E * unat ?bs, fd_room = room\<rparr>"
  have loop: "write_blocks (Suc (brk m)) e m ?bs (data_blocks (sf_list s)) 0 ?out
      = Inr (0, ?E, opened file_ops s crc ?f)" "unat ?E * unat ?bs \<le> ?N"
    using write_blocks_plain [OF ch fuel plain [of "new_file room"], of 0 ?N e] bs w p room
    unfolding xs [symmetric] by (simp_all add: new_file_def opened_def)
  define pad where "pad = ?N - unat ?E * unat ?bs"
  have pad: "sf_len s - uint ?E * uint ?bs = int pad"
    using loop(2) len by (simp add: pad_def of_nat_diff)
  let ?g = "?f\<lparr>fd_pos := ?N\<rparr>"
  have all: "write_all_blocks e m s ?out = Inr (0, opened file_ops s crc ?g)"
  proof (cases "pad = 0")
    case True
    then have "?f = ?g" using loop(2) by (simp add: pad_def)
    then show ?thesis using loop(1) pad True
      by (simp add: write_all_blocks_def Let_def del: write_blocks.simps)
  next
    case False
    from out_skip_plain [OF plain, of ?f pad]
    have "write_skip_chunk (opened file_ops s crc ?f) (int pad) = Inr (0, opened file_ops s crc ?g)"
      using loop(2) by (simp add: write_skip_chunk_def pad_def opened_def)
    then show ?thesis using loop(1) pad False
      by (simp add: write_all_blocks_def Let_def del: write_blocks.simps)
  qed
  moreover have "file_byte (blit e ?bs xs []) i = image_byte e ?bs xs i" for i
    using blit_bytes [OF p bs, of e "[]" i] w
    by (auto simp: writable_def file_byte_def image_byte_def)
  ultimately show ?thesis using chunks by (intro exI [of _ chunks] exI [of _ ?g]) simp
qed

lemma sparse_file_write_plain:
  assumes q: "queue_list m (sf_list s) as xs" and bs: "sf_block_size s \<noteq> 0"
    and w: "\<forall>x \<in> set xs. writable e (sf_block_size s) x"
    and p: "placed (sf_block_size s) 0 xs (nat (sf_len s))" and len: "0 \<le> sf_len s"
    and room: "nat (sf_len s) \<le> room" and small: "unat (sf_block_size s) < 2 ^ 31"
  shows "\<exists>f. sparse_file_write e m s (new_file room) False crc = Inr (0, f)
    \<and> fd_bytes f = List.map (image_byte e (sf_block_size s) xs) [0..<nat (sf_len s)]"
proof -
  let ?N = "nat (sf_len s)"
  obtain chunks f where r: "sparse_count_chunks m s = Inr chunks"
    "write_all_blocks e m s (opened file_ops s crc (new_file room)) = Inr (0, opened file_ops s crc f)"
    "\<And>i. file_byte (fd_bytes f) i = image_byte e (sf_block_size s) xs i"
    using write_all_blocks_plain [OF assms(1-6), of crc] by blast
  let ?h = "f\<lparr>fd_bytes := take ?N (fd_bytes f @ replicate (?N - length (fd_bytes f)) 0)\<rparr>"
  have "sparse_file_write e m s (new_file room) False crc = Inr (0, ?h)"
    using len unfolding sparse_file_write_def r rbind_Inr output_file_init_opened [OF small] prod.case less_irrefl if_False
    by (simp add: output_file_close_def out_pad_def file_ops_def file_pad_def opened_def)
  moreover have "fd_bytes ?h = List.map (image_byte e (sf_block_size s) xs) [0..<?N]"
  proof (rule nth_equalityI)
    fix i assume i: "i < length (fd_bytes ?h)"
    then have lt: "i < ?N" by auto
    with i have "fd_bytes ?h ! i = file_byte (fd_bytes f) i" by (simp add: nth_append file_byte_def)
    then show "fd_bytes ?h ! i = List.map (image_byte e (sf_block_size s) xs) [0..<?N] ! i"
      using lt r(3) by simp
  qed simp
  ultimately show ?thesis by blast
qed

section \<open>Writing in sparse format\<close>

datatype chunk = Raw "u8 list" | Fill u32 nat | Skip nat | Crc u32

definition encode :: "u32 \<Rightarrow> chunk \<Rightarrow> u8 list" where
  "encode bs c = (case c of
     Raw d \<Rightarrow> chunk_header CHUNK_TYPE_RAW (of_nat (length d div unat bs)) (CHUNK_HEADER_LEN + of_nat (length d)) @ d
   | Fill v k \<Rightarrow> chunk_header CHUNK_TYPE_FILL (of_nat k) (CHUNK_HEADER_LEN + 4) @ le32 v
   | Skip k \<Rightarrow> chunk_header CHUNK_TYPE_DONT_CARE (of_nat k) CHUNK_HEADER_LEN
   | Crc v \<Rightarrow> chunk_header CHUNK_TYPE_CRC32 0 (CHUNK_HEADER_LEN + 4) @ le32 v)"

definition piece_chunk :: "env \<Rightarrow> u32 \<Rightarrow> seg \<Rightarrow> chunk" where
  "piece_chunk e bs s = (case s of (b, n, k) \<Rightarrow> (case k of
     BACKED_BLOCK_FILL v \<Rightarrow> Fill v (blocks_of bs n)
   | _ \<Rightarrow> Raw (the (piece_bytes e s) @ replicate (blocks_of bs n * unat bs - unat n) 0)))"

fun chunks_of :: "env \<Rightarrow> u32 \<Rightarrow> u32 \<Rightarrow> seg list \<Rightarrow> chunk list" where
  "chunks_of e bs lst [] = []"
| "chunks_of e bs lst ((b, n, k) # xs) =
     (if b > lst then [Skip (unat b - unat lst)] else []) @ piece_chunk e bs (b, n, k)
       # chunks_of e bs (b + of_nat (blocks_of bs n)) xs"

definition image_chunks :: "env \<Rightarrow> u32 \<Rightarrow> seg list \<Rightarrow> nat \<Rightarrow> chunk list" where
  "image_chunks e bs xs N = chunks_of e bs 0 xs @
     (let used = unat (end_block bs 0 xs) * unat bs in
      if used < N then [Skip ((N - used) div unat bs)] else [])"

text \<open>The checksum as the writer keeps it: a gap leaves it alone.\<close>

fun chunks_crc :: "u32 \<Rightarrow> u32 \<Rightarrow> chunk list \<Rightarrow> u32" where
  "chunks_crc bs c [] = c"
| "chunks_crc bs c (Raw d # cs) = chunks_crc bs (sparse_crc32 c d) cs"
| "chunks_crc bs c (Fill v k # cs) = chunks_crc bs (crc_repeat (unat (bs div 4)) c (le32 v)) cs"
| "chunks_crc bs c (_ # cs) = chunks_crc bs c cs"

lemma chunks_crc_append: "chunks_crc bs c (xs @ ys) = chunks_crc bs (chunks_crc bs c xs) ys"
  by (induction bs c xs rule: chunks_crc.induct) auto

definition sparse_out :: "u32 \<Rightarrow> fd_file \<Rightarrow> u32 \<Rightarrow> fd_file output_file \<Rightarrow> bool" where
  "sparse_out bs f c out \<longleftrightarrow> ops out = file_ops \<and> out_sparse out \<and> out_block_size out = bs \<and> priv out = f
     \<and> fd_pos f = length (fd_bytes f) \<and> (use_crc out \<longrightarrow> out_crc32 out = c)"

definition appended :: "fd_file \<Rightarrow> u8 list \<Rightarrow> fd_file" where
  "appended f d = f\<lparr>fd_bytes := fd_bytes f @ d, fd_pos := fd_pos f + length d\<rparr>"

lemma appended_appended [simp]: "appended (appended f d) d' = appended f (d @ d')"
  by (simp add: appended_def)

lemma appended_sels [simp]:
  "fd_bytes (appended f d) = fd_bytes f @ d" "fd_pos (appended f d) = fd_pos f + length d"
  "fd_room (appended f d) = fd_room f" "appended f [] = f"
  by (simp_all add: appended_def)

lemma put_bytes_end: "put_bytes bs (length bs) d = bs @ d"
  by (simp add: put_bytes_def)

lemma out_write_end:
  assumes "ops out = file_ops" "priv out = f" "fd_pos f = length (fd_bytes f)" "fd_pos f + length d \<le> fd_room f"
    "length d \<le> MAX_RW_COUNT"
  shows "out_write out d = (0, out\<lparr>priv := appended f d\<rparr>)"
  using assms file_write_fits [OF assms(4,5)]
  by (simp add: out_write_def file_ops_def appended_def put_bytes_end)

text \<open>Each chunk writer appends the encoding of its chunk.\<close>

lemma write_skip_sparse:
  assumes out: "sparse_out bs f c out" and bs: "bs \<noteq> 0" and room: "fd_pos f + 12 \<le> fd_room f"
  shows "\<exists>out'. write_skip_chunk out (int k * uint bs) = Inr (0, out')
    \<and> sparse_out bs (appended f (encode bs (Skip k))) c out' \<and> use_crc out' = use_crc out
    \<and> out_len out' = out_len out"
proof -
  have nz: "0 < uint bs" using bs uint_pos by blast
  have "int k * uint bs sdiv uint bs = int k" "int k * uint bs smod uint bs = 0"
    using nz by (simp_all add: signed_divide_int_def signed_modulo_int_def sgn_if abs_mult)
  then show ?thesis
    using out bs room out_write_end [of out f "encode bs (Skip k)"]
    by (simp add: sparse_out_def write_skip_chunk_def write_sparse_skip_chunk_def write_or_fail_def
        encode_def chunk_header_def le16_def le32_def Let_def)
qed

lemma length_headers [simp]:
  "length (chunk_header ty a b) = 12" "length (le32 v) = 4" "length (le16 w) = 2"
  by (simp_all add: chunk_header_def le16_def le32_def)

lemma write_data_sparse:
  assumes out: "sparse_out bs f c out" and bs: "bs \<noteq> 0" "unat n + unat bs < 2 ^ 32" and d: "length d = unat n"
    and most: "unat n \<le> MAX_RW_COUNT" "unat bs \<le> MAX_RW_COUNT"
    and room: "fd_pos f + 12 + blocks_of bs n * unat bs \<le> fd_room f"
  defines "raw \<equiv> d @ replicate (blocks_of bs n * unat bs - unat n) 0"
  shows "\<exists>out'. write_data_chunk out n d = Inr (0, out')
    \<and> sparse_out bs (appended f (encode bs (Raw raw))) (sparse_crc32 c raw) out' \<and> use_crc out' = use_crc out
    \<and> out_len out' = out_len out"
proof -
  have pos: "0 < unat bs" using bs(1) by (simp add: unat_gt_0)
  obtain r where r: "EXT4_ALIGN n bs = Inr r" "unat r = unat bs * blocks_of bs n"
    using EXT4_ALIGN_nat [OF bs(1), of n] bs(2) by auto
  have ge: "unat n \<le> unat r" using div_round_up_le [OF pos, of "unat n"] r(2) by (simp add: mult.commute)
  have len: "length raw = unat r" using d ge r(2) by (simp add: raw_def mult.commute)
  have q: "r div bs = of_nat (length raw div unat bs)"
    unfolding len unat_div [symmetric] by simp
  have rr: "r = of_nat (length raw)" by (simp add: len)
  have z: "unat (r - n) = blocks_of bs n * unat bs - unat n"
    using ge r(2) by (simp add: unat_sub word_le_nat_alt mult.commute)
  let ?h = "chunk_header CHUNK_TYPE_RAW (r div bs) (CHUNK_HEADER_LEN + r)"
  let ?z = "replicate (unat (r - n)) 0"
  have raw: "raw = d @ ?z" unfolding raw_def z ..
  have "blocks_of bs n * unat bs \<le> unat n + unat bs - 1" by (rule div_times_less_eq_dividend)
  then have zmax: "length ?z \<le> MAX_RW_COUNT" using most(2) unfolding length_replicate z by linarith
  have enc: "encode bs (Raw raw) = ?h @ d @ ?z"
    unfolding encode_def chunk.case q rr [symmetric] by (simp add: raw)
  have total: "fd_pos f + (12 + (length d + length ?z)) \<le> fd_room f"
    using room len r(2) raw by (simp add: mult.commute)
  have o: "ops out = file_ops" "out_sparse out" "out_block_size out = bs" "priv out = f"
    "fd_pos f = length (fd_bytes f)" "use_crc out \<Longrightarrow> out_crc32 out = c"
    using out by (auto simp: sparse_out_def)
  have w1: "out_write out ?h = (0, out\<lparr>priv := appended f ?h\<rparr>)"
    using o total by (intro out_write_end) auto
  have w2: "out_write (out\<lparr>priv := appended f ?h\<rparr>) d = (0, out\<lparr>priv := appended f (?h @ d)\<rparr>)"
    using out_write_end [of "out\<lparr>priv := appended f ?h\<rparr>" "appended f ?h" d] o total d most(1) by simp
  have w3: "out_write (out\<lparr>priv := appended f (?h @ d)\<rparr>) ?z = (0, out\<lparr>priv := appended f (?h @ d @ ?z)\<rparr>)"
    using out_write_end [of "out\<lparr>priv := appended f (?h @ d)\<rparr>" "appended f (?h @ d)" ?z] o total zmax by simp
  have crc: "sparse_crc32 (sparse_crc32 c d) ?z = sparse_crc32 c raw"
    unfolding raw by (simp only: sparse_crc32_append)
  have div: "udiv r (out_block_size out) = Inr (r div bs)" using bs(1) o(3) by simp
  show ?thesis
  proof (cases "r - n = 0")
    case True
    then have "raw = d" "?z = []" using raw by simp_all
    then show ?thesis using w1 w2 o r(1) div True enc
      by (simp add: write_data_chunk_def write_sparse_data_chunk_def write_or_fail_def Let_def sparse_out_def)
  next
    case False
    then show ?thesis using w1 w2 w3 o r(1) div enc crc
      by (simp add: write_data_chunk_def write_sparse_data_chunk_def write_or_fail_def Let_def sparse_out_def)
  qed
qed

lemma write_fill_sparse:
  assumes out: "sparse_out bs f c out" and bs: "bs \<noteq> 0" "unat n + unat bs < 2 ^ 32"
    and room: "fd_pos f + 16 \<le> fd_room f"
  shows "\<exists>out'. write_fill_chunk out n v = Inr (0, out')
    \<and> sparse_out bs (appended f (encode bs (Fill v (blocks_of bs n))))
        (crc_repeat (unat (bs div 4)) c (le32 v)) out' \<and> use_crc out' = use_crc out
    \<and> out_len out' = out_len out"
proof -
  obtain r where r: "EXT4_ALIGN n bs = Inr r" "unat r = unat bs * blocks_of bs n"
    using EXT4_ALIGN_nat [OF bs(1), of n] bs(2) by auto
  have pos: "0 < unat bs" using bs(1) by (simp add: unat_gt_0)
  have "unat (r div bs) = blocks_of bs n" using pos by (simp add: unat_div r(2))
  then have q: "r div bs = of_nat (blocks_of bs n)" by (metis of_nat_unat ucast_id)
  let ?h = "chunk_header CHUNK_TYPE_FILL (r div bs) (CHUNK_HEADER_LEN + 4)"
  have enc: "encode bs (Fill v (blocks_of bs n)) = ?h @ le32 v"
    unfolding encode_def chunk.case q ..
  have o: "ops out = file_ops" "out_sparse out" "out_block_size out = bs" "priv out = f"
    "fd_pos f = length (fd_bytes f)" "use_crc out \<Longrightarrow> out_crc32 out = c"
    using out by (auto simp: sparse_out_def)
  have w1: "out_write out ?h = (0, out\<lparr>priv := appended f ?h\<rparr>)"
    using o room by (intro out_write_end) auto
  have w2: "out_write (out\<lparr>priv := appended f ?h\<rparr>) (le32 v) = (0, out\<lparr>priv := appended f (?h @ le32 v)\<rparr>)"
    using out_write_end [of "out\<lparr>priv := appended f ?h\<rparr>" "appended f ?h" "le32 v"] o room by simp
  have div: "udiv r (out_block_size out) = Inr (r div bs)" using bs(1) o(3) by simp
  show ?thesis using w1 w2 o r(1) div enc
    by (simp add: write_fill_chunk_def write_sparse_fill_chunk_def write_or_fail_def Let_def sparse_out_def)
qed

lemma write_block_sparse:
  assumes out: "sparse_out bs f c out" and bs: "bs \<noteq> 0" and w: "writable e bs (seg_of bb)"
    and room: "fd_pos f + length (encode bs (piece_chunk e bs (seg_of bb))) \<le> fd_room f"
  shows "\<exists>out'. sparse_file_write_block e out bb = Inr (0, out')
    \<and> sparse_out bs (appended f (encode bs (piece_chunk e bs (seg_of bb))))
        (chunks_crc bs c [piece_chunk e bs (seg_of bb)]) out' \<and> use_crc out' = use_crc out
    \<and> out_len out' = out_len out"
proof -
  obtain b n k where seg: "seg_of bb = (b, n, k)" by (cases "seg_of bb")
  then have bb: "bb_len bb = n" "bb_kind bb = k" by (simp_all add: seg_of_def)
  have n: "unat n + unat bs < 2 ^ 32" using w by (simp add: writable_def seg)
  obtain d where d: "piece_bytes e (b, n, k) = Some d" using w by (auto simp: writable_def seg)
  have len: "length d = unat n" using d by (rule length_piece_bytes)
  show ?thesis
  proof (cases "\<exists>v. k = BACKED_BLOCK_FILL v")
    case True
    then obtain v where v: "k = BACKED_BLOCK_FILL v" by blast
    then have "fd_pos f + 16 \<le> fd_room f"
      using room by (simp add: seg piece_chunk_def encode_def)
    from write_fill_sparse [OF out bs n this, of v] show ?thesis
      using v bb by (simp add: sparse_file_write_block_def seg piece_chunk_def)
  next
    case False
    then have pc: "piece_chunk e bs (b, n, k) = Raw (d @ replicate (blocks_of bs n * unat bs - unat n) 0)"
      using d by (auto simp: piece_chunk_def split: bb_kind.splits)
    have "0 < unat bs" using bs by (simp add: unat_gt_0)
    from div_round_up_le [OF this, of "unat n"]
    have "fd_pos f + 12 + blocks_of bs n * unat bs \<le> fd_room f"
      using room len by (simp add: seg pc encode_def)
    moreover have "unat n \<le> MAX_RW_COUNT" "unat bs \<le> MAX_RW_COUNT"
      using w False by (simp_all add: writable_def seg split: bb_kind.splits)
    ultimately show ?thesis
      using write_data_sparse [OF out bs n len]
        write_block_piece [of e bb d out] d False bb by (simp add: seg pc)
  qed
qed

lemma write_blocks_sparse:
  assumes "chain bb_next (cells m) p as None" "length as \<le> fuel" "sparse_out bs f c out" "bs \<noteq> 0"
    "\<forall>s \<in> set (List.map (seg_at m) as). writable e bs s"
    "placed bs (unat lst) (List.map (seg_at m) as) N"
    "fd_pos f + length (concat (List.map (encode bs) (chunks_of e bs lst (List.map (seg_at m) as)))) \<le> fd_room f"
  shows "\<exists>out'. write_blocks fuel e m bs p lst out = Inr (0, end_block bs lst (List.map (seg_at m) as), out')
    \<and> sparse_out bs (appended f (concat (List.map (encode bs) (chunks_of e bs lst (List.map (seg_at m) as)))))
        (chunks_crc bs c (chunks_of e bs lst (List.map (seg_at m) as))) out' \<and> use_crc out' = use_crc out
    \<and> out_len out' = out_len out \<and> unat (end_block bs lst (List.map (seg_at m) as)) * unat bs \<le> N"
  using assms
proof (induction as arbitrary: p fuel lst out f c)
  case Nil
  then show ?case by simp
next
  case (Cons a as)
  obtain bb fl where a: "p = Some a" "cells m a = Some bb" "chain bb_next (cells m) (bb_next bb) as None"
      "fuel = Suc fl" "length as \<le> fl"
    using Cons.prems(1,2) by (cases fuel) (auto split: option.splits)
  obtain b n k where seg: "seg_of bb = (b, n, k)" by (cases "seg_of bb")
  then have bb: "bb_block bb = b" "bb_len bb = n" by (simp_all add: seg_of_def)
  have w: "writable e bs (seg_of bb)" using Cons.prems(5) a(2) by simp
  then have rnd: "unat n + unat bs < 2 ^ 32" by (simp add: writable_def seg)
  have pl: "unat lst \<le> unat b" "unat b + blocks_of bs n < 2 ^ 32"
      "placed bs (unat b + blocks_of bs n) (List.map (seg_at m) as) N"
    using Cons.prems(6) a(2) seg by simp_all
  let ?l = "b + of_nat (blocks_of bs n)"
  have ul: "unat ?l = unat b + blocks_of bs n"
    using pl(2) by (simp add: unat_of_nat unat_word_ariths)
  let ?gap = "if b > lst then encode bs (Skip (unat b - unat lst)) else []"
  let ?rest = "concat (List.map (encode bs) (chunks_of e bs ?l (List.map (seg_at m) as)))"
  have room: "fd_pos f + length ?gap + length (encode bs (piece_chunk e bs (seg_of bb))) + length ?rest \<le> fd_room f"
    using Cons.prems(7) a(2) seg by (auto split: if_splits)
  obtain out1 where gap: "(if bb_block bb > lst
            then rbind (write_skip_chunk out (uint (bb_block bb - lst) * uint bs)) (\<lambda>(_, out). Inr out)
            else Inr out) = Inr out1"
    and out1: "sparse_out bs (appended f ?gap) c out1" "use_crc out1 = use_crc out" "out_len out1 = out_len out"
  proof (cases "b > lst")
    case True
    then have "uint (b - lst) = int (unat b - unat lst)"
      by (metis less_imp_le uint_nat unat_sub)
    moreover have "fd_pos f + 12 \<le> fd_room f" using room True by (simp add: encode_def)
    ultimately show thesis
      using write_skip_sparse [OF Cons.prems(3,4), of "unat b - unat lst"] True bb that by auto
  qed (use Cons.prems(3) bb that in auto)
  obtain out2 where blk: "sparse_file_write_block e out1 bb = Inr (0, out2)"
    and out2: "sparse_out bs (appended (appended f ?gap) (encode bs (piece_chunk e bs (seg_of bb))))
        (chunks_crc bs c [piece_chunk e bs (seg_of bb)]) out2" "use_crc out2 = use_crc out1" "out_len out2 = out_len out1"
    using write_block_sparse [OF out1(1) Cons.prems(4) w] room by auto
  have up: "DIV_ROUND_UP n bs = Inr (of_nat (blocks_of bs n))"
    using Cons.prems(4) rnd by (rule DIV_ROUND_UP_blocks)
  have room2: "fd_pos (appended (appended f ?gap) (encode bs (piece_chunk e bs (seg_of bb)))) + length ?rest
      \<le> fd_room (appended (appended f ?gap) (encode bs (piece_chunk e bs (seg_of bb))))"
    using room by simp
  obtain out3 where ih: "write_blocks fl e m bs (bb_next bb) ?l out2
      = Inr (0, end_block bs ?l (List.map (seg_at m) as), out3)"
    "sparse_out bs (appended (appended (appended f ?gap) (encode bs (piece_chunk e bs (seg_of bb)))) ?rest)
        (chunks_crc bs (chunks_crc bs c [piece_chunk e bs (seg_of bb)]) (chunks_of e bs ?l (List.map (seg_at m) as))) out3"
    "use_crc out3 = use_crc out2" "out_len out3 = out_len out2"
    "unat (end_block bs ?l (List.map (seg_at m) as)) * unat bs \<le> N"
    using Cons.IH [OF a(3,5) out2(1) Cons.prems(4), of ?l] Cons.prems(5) pl(3) room2 ul by auto
  have crc: "chunks_crc bs (chunks_crc bs c [x]) ys = chunks_crc bs c (x # ys)" for x ys
    by (cases x) simp_all
  show ?case
    using ih gap blk out1 out2 up bb seg a(1,2,4)
    by (intro exI [of _ out3]) (auto simp: crc)
qed

lemma length_chunks_of: "length (chunks_of e bs lst xs) = count_segs bs lst xs"
  by (induction e bs lst xs rule: chunks_of.induct) auto

lemma int_sdiv: "int a sdiv int b = int (a div b)"
  by (simp only: sdiv_nonneg of_nat_0_le_iff zdiv_int)

lemma count_chunks:
  assumes q: "queue_list m (sf_list s) as xs" and bs: "sf_block_size s \<noteq> 0"
    and w: "\<forall>x \<in> set xs. writable e (sf_block_size s) x"
    and len: "0 \<le> sf_len s" "unat (sf_block_size s) dvd nat (sf_len s)"
  shows "sparse_count_chunks m s = Inr (of_nat (length (image_chunks e (sf_block_size s) xs (nat (sf_len s)))))"
proof -
  let ?bs = "sf_block_size s" and ?N = "nat (sf_len s)"
  have ok: "mem_ok m" and ch: "chain bb_next (cells m) (data_blocks (sf_list s)) as None"
    and xs: "xs = List.map (seg_at m) as" using q by (simp_all add: queue_list_def)
  have fuel: "length as \<le> Suc (brk m)" using chain_length [OF ok ch] by simp
  have loop: "count_loop (Suc (brk m)) m ?bs (data_blocks (sf_list s)) 0 0
      = Inr (end_block ?bs 0 xs, of_nat (count_segs ?bs 0 xs))"
    using count_loop_segs [OF ch fuel bs] w unfolding xs by simp
  have pos: "0 < unat ?bs" using bs by (simp add: unat_gt_0)
  obtain K where K: "?N = unat ?bs * K" using len(2) by (auto elim!: dvdE)
  have "sf_len s + uint ?bs - 1 = int (?N + unat ?bs - 1)" using len(1) pos by (simp add: of_nat_diff)
  then have "(sf_len s + uint ?bs - 1) sdiv uint ?bs = int ((?N + unat ?bs - 1) div unat ?bs)"
    using int_sdiv by (simp only: uint_nat)
  also have "(?N + unat ?bs - 1) div unat ?bs = K" unfolding K by (rule div_round_up_exact [OF pos])
  finally have top: "(sf_len s + uint ?bs - 1) sdiv uint ?bs = int K" .
  have "uint (end_block ?bs 0 xs) < int K \<longleftrightarrow> unat (end_block ?bs 0 xs) < K"
    unfolding uint_nat by (rule of_nat_less_iff)
  moreover have "unat (end_block ?bs 0 xs) * unat ?bs < ?N \<longleftrightarrow> unat (end_block ?bs 0 xs) < K"
    using pos unfolding K by (simp add: mult.commute)
  ultimately have "uint (end_block ?bs 0 xs) < int K \<longleftrightarrow> unat (end_block ?bs 0 xs) * unat ?bs < ?N"
    by simp
  then show ?thesis
    unfolding sparse_count_chunks_def loop rbind_Inr prod.case if_not_P [OF bs] top
    by (simp add: image_chunks_def length_chunks_of Let_def)
qed

definition sparse_image :: "u32 \<Rightarrow> nat \<Rightarrow> chunk list \<Rightarrow> u8 list" where
  "sparse_image bs N cs = le32 SPARSE_HEADER_MAGIC @ le16 1 @ le16 0 @ le16 28 @ le16 12 @ le32 bs
     @ le32 (of_nat (N div unat bs)) @ le32 (of_nat (length cs)) @ le32 0 @ concat (List.map (encode bs) cs)"

lemma sparse_file_write_sparse:
  fixes s :: sparse_file and crc :: bool and e :: env and xs :: "seg list"
  assumes q: "queue_list m (sf_list s) as xs" and bs: "sf_block_size s \<noteq> 0"
    and w: "\<forall>x \<in> set xs. writable e (sf_block_size s) x"
    and p: "placed (sf_block_size s) 0 xs (nat (sf_len s))"
    and len: "0 \<le> sf_len s" "unat (sf_block_size s) dvd nat (sf_len s)"
  defines "cs \<equiv> image_chunks e (sf_block_size s) xs (nat (sf_len s))"
  defines "img \<equiv> sparse_image (sf_block_size s) (nat (sf_len s))
     (if crc then cs @ [Crc (chunks_crc (sf_block_size s) 0 cs)] else cs)"
  assumes room: "length img \<le> room" and small: "unat (sf_block_size s) < 2 ^ 31"
  shows "\<exists>f. sparse_file_write e m s (new_file room) True crc = Inr (0, f) \<and> fd_bytes f = img"
proof -
  let ?bs = "sf_block_size s" and ?N = "nat (sf_len s)"
  have ok: "mem_ok m" and ch: "chain bb_next (cells m) (data_blocks (sf_list s)) as None"
    and xs: "xs = List.map (seg_at m) as" using q by (simp_all add: queue_list_def)
  have fuel: "length as \<le> Suc (brk m)" using chain_length [OF ok ch] by simp
  let ?out = "\<lparr>cur_out_ptr = 0, chunk_cnt = 0, out_crc32 = 0, ops = file_ops, out_sparse = True,
                 use_crc = crc, out_block_size = ?bs, out_len = sf_len s, priv = new_file room\<rparr>"
  let ?chunks = "of_nat (length cs) :: u32"
  have chunks: "sparse_count_chunks m s = Inr ?chunks"
    unfolding cs_def by (rule count_chunks [OF q bs w len])
  let ?hdr = "sparse_header ?out (of_nat (?N div unat ?bs)) ?chunks"
  have hdr_len: "length ?hdr = 28" by (simp add: sparse_header_def)
  let ?f0 = "appended (new_file room) ?hdr"
  let ?body = "concat (List.map (encode ?bs) (chunks_of e ?bs 0 xs))"
  define tail where "tail = (let used = unat (end_block ?bs 0 xs) * unat ?bs in
      if used < ?N then [Skip ((?N - used) div unat ?bs)] else [])"
  have cs: "cs = chunks_of e ?bs 0 xs @ tail" by (simp add: cs_def image_chunks_def tail_def)
  let ?tail = "concat (List.map (encode ?bs) tail)"
  let ?crc = "if crc then encode ?bs (Crc (chunks_crc ?bs 0 cs)) else []"
  have img: "img = ?hdr @ ?body @ ?tail @ ?crc"
  proof -
    have n: "(if use_crc ?out then ?chunks + 1 else ?chunks)
        = of_nat (length (if crc then cs @ [Crc (chunks_crc ?bs 0 cs)] else cs))"
      by (cases crc) simp_all
    have b: "out_block_size ?out = ?bs" by simp
    have c: "concat (List.map (encode ?bs) (if crc then cs @ [Crc (chunks_crc ?bs 0 cs)] else cs))
        = ?body @ ?tail @ ?crc"
      unfolding cs by (cases crc) simp_all
    have "(ucast SPARSE_HEADER_LEN :: u16) = 28" "(ucast CHUNK_HEADER_LEN :: u16) = 12" by simp_all
    then show ?thesis
      unfolding img_def sparse_image_def sparse_header_def n b c append_assoc by (simp only:)
  qed
  have total: "28 + length ?body + length ?tail + length ?crc \<le> room"
    using room hdr_len unfolding img by simp
  have out0: "ops ?out = file_ops" "priv ?out = new_file room" by simp_all
  have "out_write ?out ?hdr = (0, ?out\<lparr>priv := ?f0\<rparr>)"
    using total hdr_len by (intro out_write_end) (simp_all add: new_file_def)
  moreover have "sf_len s sdiv uint ?bs = int (?N div unat ?bs)"
    using int_sdiv [of ?N "unat ?bs"] len(1) by simp
  moreover have "\<not> sint ?bs < 0" using small sint_small [of ?bs] by simp
  ultimately have init: "output_file_init file_ops (new_file room) ?bs (sf_len s) True ?chunks crc
      = Inr (0, ?out\<lparr>priv := ?f0\<rparr>)"
    using bs by (simp add: output_file_init_def Let_def)
  have so: "sparse_out ?bs ?f0 0 (?out\<lparr>priv := ?f0\<rparr>)"
    by (simp add: sparse_out_def new_file_def)
  have room1: "fd_pos ?f0 + length ?body \<le> fd_room ?f0" using total hdr_len by (simp add: new_file_def)
  obtain out1 where loop: "write_blocks (Suc (brk m)) e m ?bs (data_blocks (sf_list s)) 0 (?out\<lparr>priv := ?f0\<rparr>)
        = Inr (0, end_block ?bs 0 xs, out1)"
    and out1: "sparse_out ?bs (appended ?f0 ?body) (chunks_crc ?bs 0 (chunks_of e ?bs 0 xs)) out1"
      "use_crc out1 = crc" "out_len out1 = sf_len s" "unat (end_block ?bs 0 xs) * unat ?bs \<le> ?N"
    using write_blocks_sparse [OF ch fuel so bs, of e 0 ?N] w p room1 unfolding xs by auto
  obtain out2 where all: "write_all_blocks e m s (?out\<lparr>priv := ?f0\<rparr>) = Inr (0, out2)"
    and out2: "sparse_out ?bs (appended ?f0 (?body @ ?tail)) (chunks_crc ?bs 0 cs) out2"
      "use_crc out2 = crc"
  proof (cases "unat (end_block ?bs 0 xs) * unat ?bs < ?N")
    case False
    then have "unat (end_block ?bs 0 xs) * unat ?bs = ?N" "tail = []"
      using out1(4) by (simp_all add: tail_def)
    moreover from this(1) have "int (unat (end_block ?bs 0 xs) * unat ?bs) = sf_len s"
      using len(1) by simp
    then have "sf_len s - uint (end_block ?bs 0 xs) * uint ?bs = 0" by simp
    ultimately have "write_all_blocks e m s (?out\<lparr>priv := ?f0\<rparr>) = Inr (0, out1)"
      unfolding write_all_blocks_def loop by simp
    then show thesis using out1 \<open>tail = []\<close> by (intro that) (simp_all add: cs)
  next
    case True
    define k where "k = (?N - unat (end_block ?bs 0 xs) * unat ?bs) div unat ?bs"
    have "unat ?bs dvd ?N - unat (end_block ?bs 0 xs) * unat ?bs" using len(2) by (simp add: dvd_diff_nat)
    then have kb: "k * unat ?bs = ?N - unat (end_block ?bs 0 xs) * unat ?bs" unfolding k_def by simp
    have pad: "sf_len s - uint (end_block ?bs 0 xs) * uint ?bs = int k * uint ?bs"
    proof -
      have "int k * uint ?bs = int (k * unat ?bs)" by simp
      also have "\<dots> = int ?N - int (unat (end_block ?bs 0 xs) * unat ?bs)"
        unfolding kb using True by (simp add: of_nat_diff)
      finally show ?thesis using len(1) by simp
    qed
    have "0 < k * unat ?bs" using kb True by simp
    then have "0 < int (k * unat ?bs)" by (simp only: of_nat_0_less_iff)
    then have kpos: "0 < int k * uint ?bs" by simp
    have tl: "tail = [Skip k]" using True by (simp add: tail_def k_def Let_def)
    have room2: "fd_pos (appended ?f0 ?body) + 12 \<le> fd_room (appended ?f0 ?body)"
      using total hdr_len by (simp add: new_file_def tl encode_def)
    obtain outk where o: "write_skip_chunk out1 (int k * uint ?bs) = Inr (0, outk)"
      "sparse_out ?bs (appended (appended ?f0 ?body) (encode ?bs (Skip k))) (chunks_crc ?bs 0 (chunks_of e ?bs 0 xs)) outk"
      "use_crc outk = use_crc out1"
      using write_skip_sparse [OF out1(1) bs room2] by blast
    have "write_all_blocks e m s (?out\<lparr>priv := ?f0\<rparr>) = Inr (0, outk)"
      unfolding write_all_blocks_def loop rbind_Inr prod.case pad Let_def using kpos o(1) by simp
    then show thesis using o out1(2) by (intro that) (simp_all add: cs tl chunks_crc_append)
  qed
  have "priv (output_file_close out2) = appended ?f0 (?body @ ?tail @ ?crc)"
  proof (cases crc)
    case False
    then show ?thesis using out2 by (simp add: output_file_close_def sparse_out_def write_sparse_end_chunk_def)
  next
    case True
    let ?g = "appended ?f0 (?body @ ?tail)"
    let ?h = "chunk_header CHUNK_TYPE_CRC32 0 (CHUNK_HEADER_LEN + 4)" and ?c = "le32 (chunks_crc ?bs 0 cs)"
    have enc: "?crc = ?h @ ?c" using True by (simp add: encode_def)
    have o: "ops out2 = file_ops" "out_sparse out2" "priv out2 = ?g" "fd_pos ?g = length (fd_bytes ?g)"
      "out_crc32 out2 = chunks_crc ?bs 0 cs" "use_crc out2"
      using out2 True by (auto simp: sparse_out_def)
    have room3: "fd_pos ?g + (12 + 4) \<le> fd_room ?g" using total hdr_len True by (simp add: new_file_def encode_def)
    have w1: "out_write out2 ?h = (0, out2\<lparr>priv := appended ?g ?h\<rparr>)"
      using o room3 by (intro out_write_end) auto
    have w2: "out_write (out2\<lparr>priv := appended ?g ?h\<rparr>) ?c = (0, out2\<lparr>priv := appended (appended ?g ?h) ?c\<rparr>)"
      using o room3 by (subst out_write_end [where f = "appended ?g ?h"]) auto
    show ?thesis
      using o w1 w2 unfolding enc
      by (simp add: output_file_close_def write_sparse_end_chunk_def Let_def)
  qed
  then have "sparse_file_write e m s (new_file room) True crc
      = Inr (0, appended ?f0 (?body @ ?tail @ ?crc))"
    unfolding sparse_file_write_def chunks rbind_Inr init prod.case less_irrefl if_False all by simp
  moreover have "fd_bytes (appended ?f0 (?body @ ?tail @ ?crc)) = img"
    unfolding img by (simp add: new_file_def)
  ultimately show ?thesis by blast
qed

section \<open>Properties\<close>

text \<open>C6: written in plain mode to an empty file with room for it, an image whose pieces are
  readable, ordered and within its length is, byte for byte, the pieces at their blocks and zero
  everywhere else, and exactly as long as the image.\<close>

theorem plain_image_written:
  assumes "queue_list m (sf_list s) as xs" "sf_block_size s \<noteq> 0"
    and "\<forall>x \<in> set xs. writable e (sf_block_size s) x"
    and "placed (sf_block_size s) 0 xs (nat (sf_len s))" "0 \<le> sf_len s" "nat (sf_len s) \<le> room"
    and "unat (sf_block_size s) < 2 ^ 31"
  shows "\<exists>f. sparse_file_write e m s (new_file room) False crc = Inr (0, f)
    \<and> fd_bytes f = List.map (image_byte e (sf_block_size s) xs) [0..<nat (sf_len s)]"
  by (rule sparse_file_write_plain [OF assms])

definition demo_env :: env where
  "demo_env = \<lparr>env_buf = (\<lambda>b. [1, 2, 3, 4, 5]), env_file = (\<lambda>fn. None), env_fd = (\<lambda>fd. [])\<rparr>"

definition demo_mem :: bb_mem where
  "demo_mem = \<lparr>cells = (\<lambda>_. None)(0 := Some \<lparr>bb_block = 1, bb_len = 5,
     bb_kind = BACKED_BLOCK_DATA (Sb, 0), bb_next = None\<rparr>), brk = 1\<rparr>"

definition demo_file :: sparse_file where
  "demo_file = \<lparr>sf_block_size = 8, sf_len = 32,
     sf_list = \<lparr>data_blocks = Some 0, last_used = None, bbl_block_size = 8\<rparr>\<rparr>"

lemma demo_queue: "queue_list demo_mem (sf_list demo_file) [0] [(1, 5, BACKED_BLOCK_DATA (Sb, 0))]"
  by (simp add: queue_list_def demo_mem_def demo_file_def mem_ok_def seg_at_def seg_of_def)

lemma demo_ok:
  "sf_block_size demo_file \<noteq> 0" "placed (sf_block_size demo_file) 0 [(1, 5, BACKED_BLOCK_DATA (Sb, 0))]
     (nat (sf_len demo_file))" "0 \<le> sf_len demo_file" "unat (sf_block_size demo_file) dvd nat (sf_len demo_file)"
  "\<forall>x \<in> set [(1, 5, BACKED_BLOCK_DATA (Sb, 0))]. writable demo_env (sf_block_size demo_file) x"
  "unat (sf_block_size demo_file) < 2 ^ 31"
  by (simp_all add: demo_file_def writable_def piece_bytes_def demo_env_def)

theorem plain_image_written_witness:
  "\<exists>f. sparse_file_write demo_env demo_mem demo_file (new_file 100) False False = Inr (0, f)
    \<and> length (fd_bytes f) = 32"
  using plain_image_written [OF demo_queue demo_ok(1,5,2,3) _ demo_ok(6), of 100 False]
  by (auto simp: demo_file_def)

text \<open>C7: written in sparse format, the file is the header followed by one don't-care chunk per gap
  and one raw or fill chunk per piece, raw data padded with zeros to whole blocks, closed by the
  checksum chunk when one is asked for; the header announces as many chunks as follow.\<close>

theorem sparse_image_written:
  assumes "queue_list m (sf_list s) as xs" "sf_block_size s \<noteq> 0"
    and "\<forall>x \<in> set xs. writable e (sf_block_size s) x"
    and "placed (sf_block_size s) 0 xs (nat (sf_len s))"
    and "0 \<le> sf_len s" "unat (sf_block_size s) dvd nat (sf_len s)"
    and "length (sparse_image (sf_block_size s) (nat (sf_len s))
       (image_chunks e (sf_block_size s) xs (nat (sf_len s)))) + 16 \<le> room"
    and "unat (sf_block_size s) < 2 ^ 31"
  shows "\<exists>f. sparse_file_write e m s (new_file room) True crc = Inr (0, f)
    \<and> fd_bytes f = sparse_image (sf_block_size s) (nat (sf_len s))
        (let cs = image_chunks e (sf_block_size s) xs (nat (sf_len s)) in
         if crc then cs @ [Crc (chunks_crc (sf_block_size s) 0 cs)] else cs)"
  unfolding Let_def
  by (rule sparse_file_write_sparse [OF assms(1-6)])
    (use assms(7,8) in \<open>auto simp: sparse_image_def encode_def\<close>)

theorem sparse_image_written_witness:
  "\<exists>f. sparse_file_write demo_env demo_mem demo_file (new_file 200) True True = Inr (0, f)"
proof -
  have "length (sparse_image (sf_block_size demo_file) (nat (sf_len demo_file))
    (image_chunks demo_env (sf_block_size demo_file) [(1, 5, BACKED_BLOCK_DATA (Sb, 0))]
       (nat (sf_len demo_file)))) + 16 \<le> 200"
    by (simp add: sparse_image_def image_chunks_def piece_chunk_def piece_bytes_def demo_env_def
        demo_file_def encode_def Let_def)
  from sparse_image_written [OF demo_queue demo_ok(1,5,2,3,4) this demo_ok(6), of True] show ?thesis by blast
qed

end
