(* ===== verification/Block_Group.thy ===== *)
theory Block_Group
  imports Bitmap Fs_Geometry Backed_Block
begin

text \<open>
  The block groups of \<^verbatim>\<open>src/allocate.c\<close>: \<open>struct block_group_info\<close>, the reservation and release of
  blocks in the block bitmap of one group, and the reservation of inodes. Both bitmaps of a
  group are one allocation of two blocks; the fields \<open>block_bitmap\<close> and \<open>inode_bitmap\<close> are the
  offsets of the two in it. Inode tables are named by the group that owns them.
\<close>

section \<open>State\<close>

record block_group_info =
  first_block :: u32
  header_blocks :: u32
  data_blocks_used :: u32
  has_superblock :: bool
  bitmaps :: "u8 list"
  block_bitmap :: nat
  inode_bitmap :: nat
  inode_table :: "buffer option"
  free_blocks :: u32
  first_free_block :: u32
  free_inodes :: u32
  first_free_inode :: u32
  bg_flags :: u16
  used_dirs :: u16

record fs_aux_info = fs_geom +
  bgs :: "block_group_info list"

abbreviation EXT4_BG_INODE_UNINIT :: u16 where "EXT4_BG_INODE_UNINIT \<equiv> 0x0001"
abbreviation EXT4_ALLOCATE_FAILED :: u32 where "EXT4_ALLOCATE_FAILED \<equiv> 0xFFFFFFFF"

section \<open>Reserving blocks\<close>

text \<open>
  The three loops of \<open>reserve_blocks\<close>. They return the bitmap and either the counters with which
  the next loop starts or \<open>None\<close> when the function returned -1 after an error that \<open>force\<close> let
  pass.
\<close>

function reserve_head :: "bool \<Rightarrow> u8 list \<Rightarrow> nat \<Rightarrow> u32 \<Rightarrow> u32 \<Rightarrow> u32 \<Rightarrow> (u8 list \<times> (u32 \<times> u32) option) res"
where
  "reserve_head force bm base num i block =
     (if i < num \<and> block mod 8 \<noteq> 0 then
        rbind (bitmap_set_bit bm base block) (\<lambda>(was_set, bm).
        if was_set then error_then force (Inr (bm, None))
        else reserve_head force bm base num (i + 1) (block + 1))
      else Inr (bm, Some (i, block)))"
  by pat_completeness auto
termination
proof (relation "measure (\<lambda>(force, bm, base, num, i, block). unat num - unat i)", goal_cases)
  case (2 force bm base num i block)
  then have "unat (i + 1) = Suc (unat i)" "unat i < unat num"
    by (auto simp: unat_Suc_less word_less_nat_alt)
  then show ?case by simp
qed simp

text \<open>
  The loop over whole bytes may only go on while it finds zero bytes, and it leaves none behind:
  their number bounds it even where \<open>i + 8\<close> wraps around.
\<close>

definition zero_bytes :: "u8 list \<Rightarrow> nat" where
  "zero_bytes bm = length (filter (\<lambda>v. v = 0) bm)"

lemma zero_bytes_update:
  assumes "i < length bm" "bm ! i = 0" "v \<noteq> 0"
  shows "zero_bytes (bm[i := v]) < zero_bytes bm"
proof -
  have e: "bm = take i bm @ bm ! i # drop (Suc i) bm" using assms(1) by (rule id_take_nth_drop)
  have u: "bm[i := v] = take i bm @ v # drop (Suc i) bm" using assms(1) by (rule upd_conv_take_nth_drop)
  have "zero_bytes bm = zero_bytes (take i bm @ bm ! i # drop (Suc i) bm)" using e by simp
  then show ?thesis unfolding u by (simp add: zero_bytes_def assms)
qed

function reserve_bytes :: "bool \<Rightarrow> u8 list \<Rightarrow> nat \<Rightarrow> u32 \<Rightarrow> u32 \<Rightarrow> u32 \<Rightarrow> (u8 list \<times> (u32 \<times> u32) option) res"
where
  "reserve_bytes force bm base num i block =
     (if i + 8 \<le> num AND NOT 7 then
        rbind (bitmap_set_8_bits bm base block) (\<lambda>(byte, bm).
        if byte \<noteq> 0 then error_then force (Inr (bm, None))
        else reserve_bytes force bm base num (i + 8) (block + 8))
      else Inr (bm, Some (i, block)))"
  by pat_completeness auto
termination
proof (relation "measure (\<lambda>(force, bm, base, num, i, block). zero_bytes bm)", goal_cases)
  case (2 force bm base num i block x byte bm')
  then show ?case
    by (auto simp: bitmap_set_8_bits_def rd_eq_Inr wr_eq_Inr zero_bytes_update)
qed simp

function reserve_tail :: "bool \<Rightarrow> u8 list \<Rightarrow> nat \<Rightarrow> u32 \<Rightarrow> u32 \<Rightarrow> u32 \<Rightarrow> (u8 list \<times> bool) res"
where
  "reserve_tail force bm base num i block =
     (if i < num then
        rbind (bitmap_set_bit bm base block) (\<lambda>(was_set, bm).
        if was_set then error_then force (Inr (bm, False))
        else reserve_tail force bm base num (i + 1) (block + 1))
      else Inr (bm, True))"
  by pat_completeness auto
termination
proof (relation "measure (\<lambda>(force, bm, base, num, i, block). unat num - unat i)", goal_cases)
  case (2 force bm base num i block)
  then have "unat (i + 1) = Suc (unat i)" "unat i < unat num"
    by (auto simp: unat_Suc_less word_less_nat_alt)
  then show ?case by simp
qed simp

declare reserve_head.simps [simp del] reserve_bytes.simps [simp del] reserve_tail.simps [simp del]

text \<open>The three loops in a row: the bitmap and whether all went through.\<close>

definition reserve_bits :: "bool \<Rightarrow> u8 list \<Rightarrow> nat \<Rightarrow> u32 \<Rightarrow> u32 \<Rightarrow> (u8 list \<times> bool) res" where
  "reserve_bits force bm base start num =
     rbind (reserve_head force bm base num 0 start) (\<lambda>(bm, r).
     case r of None \<Rightarrow> Inr (bm, False) | Some (i, block) \<Rightarrow>
     rbind (reserve_bytes force bm base num i block) (\<lambda>(bm, r).
     case r of None \<Rightarrow> Inr (bm, False) | Some (i, block) \<Rightarrow>
     reserve_tail force bm base num i block))"

definition reserve_blocks :: "bool \<Rightarrow> block_group_info \<Rightarrow> u32 \<Rightarrow> u32 \<Rightarrow> (int \<times> block_group_info) res" where
  "reserve_blocks force bg start num =
     (if num > free_blocks bg then Inr (-1, bg) else
      rbind (reserve_bits force (bitmaps bg) (block_bitmap bg) start num) (\<lambda>(bm, done).
      if \<not> done then Inr (-1, bg\<lparr>bitmaps := bm\<rparr>) else
      Inr (0, bg\<lparr>bitmaps := bm, free_blocks := free_blocks bg - num,
             first_free_block := (if start = first_free_block bg then start + num
                                  else first_free_block bg)\<rparr>)))"

text \<open>\<open>free_blocks\<close> of the code; the field of that name keeps it here.\<close>

fun free_bits :: "u8 list \<Rightarrow> nat \<Rightarrow> nat \<Rightarrow> u32 \<Rightarrow> u8 list res" where
  "free_bits bm base 0 block = Inr bm"
| "free_bits bm base (Suc n) block =
     rbind (bitmap_clear_bit bm base block) (\<lambda>bm. free_bits bm base n (block - 1))"

definition release_blocks :: "block_group_info \<Rightarrow> u32 \<Rightarrow> block_group_info res" where
  "release_blocks bg num_blocks =
     rbind (free_bits (bitmaps bg) (block_bitmap bg) (unat num_blocks) (first_free_block bg - 1)) (\<lambda>bm.
     Inr (bg\<lparr>bitmaps := bm, free_blocks := free_blocks bg + num_blocks,
            first_free_block := first_free_block bg - num_blocks\<rparr>))"

section \<open>Setting up a group\<close>

type_synonym image = "bb_mem \<times> backed_block_list"

definition sparse_file_add_data :: "image \<Rightarrow> ptr \<Rightarrow> u32 \<Rightarrow> u32 \<Rightarrow> (int \<times> image) res" where
  "sparse_file_add_data q data n block =
     (case q of (m, bbl) \<Rightarrow> rbind (backed_block_add_data m bbl data n block) (\<lambda>(ret, m, bbl).
      Inr (ret, (m, bbl))))"

definition zero_bg :: block_group_info where
  "zero_bg = \<lparr>first_block = 0, header_blocks = 0, data_blocks_used = 0, has_superblock = False,
     bitmaps = [], block_bitmap = 0, inode_bitmap = 0, inode_table = None, free_blocks = 0,
     first_free_block = 0, free_inodes = 0, first_free_inode = 0, bg_flags = 0, used_dirs = 0\<rparr>"

definition set_bg :: "fs_aux_info \<Rightarrow> nat \<Rightarrow> block_group_info \<Rightarrow> fs_aux_info" where
  "set_bg aux i bg = aux\<lparr>bgs := (bgs aux)[i := bg]\<rparr>"

text \<open>\<open>init_bg\<close>; the value of the second \<open>reserve_blocks\<close> is not looked at.\<close>

definition init_bg :: "fs_info \<Rightarrow> fs_aux_info \<Rightarrow> image \<Rightarrow> bool \<Rightarrow> nat \<Rightarrow> (fs_aux_info \<times> image) res" where
  "init_bg info aux img force i =
     rbind (rd (bgs aux) i) (\<lambda>bg.
     rbind (ext4_bg_has_super_block info (of_nat i)) (\<lambda>has.
     let sb_blocks = 1 + bg_desc_blocks aux + bg_desc_reserve_blocks info;
         header = 2 + inode_table_blocks aux + (if has then sb_blocks else 0);
         first = first_data_block aux + of_nat i * blocks_per_group info in
     rbind (sparse_file_add_data img (Bitmaps i, 0) (2 * block_size info)
              (first + (if has then sb_blocks else 0))) (\<lambda>(_, img).
     let bg = bg\<lparr>has_superblock := has, bitmaps := replicate (unat (block_size info) * 2) 0,
           block_bitmap := 0, inode_bitmap := unat (block_size info), header_blocks := header,
           first_block := first, data_blocks_used := 0, free_blocks := blocks_per_group info,
           first_free_block := 0, free_inodes := inodes_per_group info, first_free_inode := 1,
           bg_flags := EXT4_BG_INODE_UNINIT\<rparr> in
     rbind (reserve_blocks force bg (first_free_block bg) (header_blocks bg)) (\<lambda>(ret, bg).
     (if ret < 0 then error_then force else (\<lambda>k. k)) (
     rbind (if ucast (first_block bg + blocks_per_group info) > len_blocks aux
            then let overrun = ucast (ucast (first_block bg + blocks_per_group info) - len_blocks aux) in
                 rbind (reserve_blocks force bg (blocks_per_group info - overrun) overrun)
                   (\<lambda>(_, bg). Inr bg)
            else Inr bg) (\<lambda>bg.
     Inr (set_bg aux i bg, img)))))))"

fun init_bgs :: "fs_info \<Rightarrow> bool \<Rightarrow> nat list \<Rightarrow> fs_aux_info \<Rightarrow> image \<Rightarrow> (fs_aux_info \<times> image) res" where
  "init_bgs info force [] aux img = Inr (aux, img)"
| "init_bgs info force (i # is) aux img =
     rbind (init_bg info aux img force i) (\<lambda>(aux, img). init_bgs info force is aux img)"

definition block_allocator_init ::
  "fs_info \<Rightarrow> fs_aux_info \<Rightarrow> image \<Rightarrow> bool \<Rightarrow> (fs_aux_info \<times> image) res" where
  "block_allocator_init info aux img force =
     init_bgs info force [0..<unat (groups aux)]
       (aux\<lparr>bgs := replicate (unat (groups aux)) zero_bg\<rparr>) img"

section \<open>Inodes\<close>

definition get_free_blocks :: "fs_aux_info \<Rightarrow> nat \<Rightarrow> u32 res" where
  "get_free_blocks aux i = rbind (rd (bgs aux) i) (\<lambda>bg. Inr (free_blocks bg))"

definition get_free_inodes :: "fs_aux_info \<Rightarrow> nat \<Rightarrow> u32 res" where
  "get_free_inodes aux i = rbind (rd (bgs aux) i) (\<lambda>bg. Inr (free_inodes bg))"

fun inode_bits :: "u8 list \<Rightarrow> nat \<Rightarrow> nat \<Rightarrow> u32 \<Rightarrow> u8 list res" where
  "inode_bits bm base 0 inode = Inr bm"
| "inode_bits bm base (Suc n) inode =
     rbind (rd bm (byte_index base inode)) (\<lambda>v.
     rbind (wr bm (byte_index base inode) (v OR bit_mask inode)) (\<lambda>bm.
     inode_bits bm base n (inode + 1)))"

definition reserve_inodes :: "fs_aux_info \<Rightarrow> nat \<Rightarrow> u32 \<Rightarrow> (u32 \<times> fs_aux_info) res" where
  "reserve_inodes aux i num =
     rbind (get_free_inodes aux i) (\<lambda>free.
     if free < num then Inr (EXT4_ALLOCATE_FAILED, aux) else
     rbind (rd (bgs aux) i) (\<lambda>bg.
     rbind (inode_bits (bitmaps bg) (inode_bitmap bg) (unat num) (first_free_inode bg - 1)) (\<lambda>bm.
     Inr (first_free_inode bg, set_bg aux i (bg\<lparr>bitmaps := bm,
       first_free_inode := first_free_inode bg + num, free_inodes := free_inodes bg - num\<rparr>)))))"

fun allocate_inode_from :: "fs_info \<Rightarrow> fs_aux_info \<Rightarrow> nat list \<Rightarrow> (u32 \<times> fs_aux_info) res" where
  "allocate_inode_from info aux [] = Inr (EXT4_ALLOCATE_FAILED, aux)"
| "allocate_inode_from info aux (i # is) =
     rbind (reserve_inodes aux i 1) (\<lambda>(inode, aux).
     if inode \<noteq> EXT4_ALLOCATE_FAILED then Inr (of_nat i * inodes_per_group info + inode, aux)
     else allocate_inode_from info aux is)"

definition allocate_inode :: "fs_info \<Rightarrow> fs_aux_info \<Rightarrow> (u32 \<times> fs_aux_info) res" where
  "allocate_inode info aux = allocate_inode_from info aux [0..<unat (groups aux)]"

definition add_directory :: "fs_info \<Rightarrow> fs_aux_info \<Rightarrow> u32 \<Rightarrow> fs_aux_info res" where
  "add_directory info aux inode =
     rbind (udiv (inode - 1) (inodes_per_group info)) (\<lambda>i.
     rbind (rd (bgs aux) (unat i)) (\<lambda>bg.
     Inr (set_bg aux (unat i) (bg\<lparr>used_dirs := used_dirs bg + 1\<rparr>))))"

text \<open>
  \<open>get_inode\<close> creates the inode table of the group on the first use and returns the address of
  the inode: the table of the group and the offset in it.
\<close>

definition allocate_bg_inode_table ::
  "fs_info \<Rightarrow> fs_aux_info \<Rightarrow> image \<Rightarrow> nat \<Rightarrow> (fs_aux_info \<times> image) res" where
  "allocate_bg_inode_table info aux img i =
     rbind (rd (bgs aux) i) (\<lambda>bg.
     if inode_table bg \<noteq> None then Inr (aux, img) else
     let block = first_block bg + 2 + (if has_superblock bg
           then bg_desc_blocks aux + bg_desc_reserve_blocks info + 1 else 0) in
     rbind (sparse_file_add_data img (Inode_Table i, 0) (inode_table_blocks aux * block_size info) block)
       (\<lambda>(_, img).
     Inr (set_bg aux i (bg\<lparr>inode_table := Some (Inode_Table i),
       bg_flags := bg_flags bg AND NOT EXT4_BG_INODE_UNINIT\<rparr>), img)))"

definition get_inode ::
  "fs_info \<Rightarrow> fs_aux_info \<Rightarrow> image \<Rightarrow> u32 \<Rightarrow> (ptr \<times> fs_aux_info \<times> image) res" where
  "get_inode info aux img inode =
     rbind (udiv (inode - 1) (inodes_per_group info)) (\<lambda>i.
     rbind (umod (inode - 1) (inodes_per_group info)) (\<lambda>k.
     rbind (allocate_bg_inode_table info aux img (unat i)) (\<lambda>(aux, img).
     rbind (rd (bgs aux) (unat i)) (\<lambda>bg.
     case inode_table bg of None \<Rightarrow> Inl Fault
     | Some t \<Rightarrow> Inr ((t, unat (k * inode_size info)), aux, img)))))"

section \<open>Reservation\<close>

text \<open>
  The outcome of one loop over the bits \<open>[B, B + n)\<close>: all were clear and are set now, or one of
  them was set and the error was raised.
\<close>

definition reserves :: "bool \<Rightarrow> u8 list \<Rightarrow> nat \<Rightarrow> nat \<Rightarrow> (u8 list \<times> 'a) res \<Rightarrow> 'a \<Rightarrow> 'a \<Rightarrow> bool" where
  "reserves force bm B n res good bad \<longleftrightarrow>
     (if \<forall>k \<in> {B..<B + n}. \<not> bm_bit bm k
      then \<exists>bm'. res = Inr (bm', good) \<and> length bm' = length bm
             \<and> bm_bit bm' = (\<lambda>k. bm_bit bm k \<or> k \<in> {B..<B + n})
      else \<exists>bm'. res = error_then force (Inr (bm', bad)) \<and> length bm' = length bm)"

lemma reserves_nothing: "reserves force bm B 0 (Inr (bm, good)) good bad"
  by (simp add: reserves_def)

text \<open>Some bits are done first, the rest by what follows.\<close>

lemma reserves_step:
  assumes "\<And>k. k \<in> {B..<B + j} \<Longrightarrow> \<not> bm_bit bm k" "length bm' = length bm"
    "bm_bit bm' = (\<lambda>k. bm_bit bm k \<or> k \<in> {B..<B + j})"
    "reserves force bm' (B + j) n res good bad"
  shows "reserves force bm B (j + n) res good bad"
proof -
  have rest: "(\<forall>k \<in> {B + j..<B + j + n}. \<not> bm_bit bm' k) \<longleftrightarrow> (\<forall>k \<in> {B..<B + (j + n)}. \<not> bm_bit bm k)"
  proof -
    have "{B..<B + (j + n)} = {B..<B + j} \<union> {B + j..<B + j + n}" by auto
    then show ?thesis using assms(1,3) by (auto simp: ball_Un)
  qed
  have "(\<lambda>k. bm_bit bm' k \<or> k \<in> {B + j..<B + j + n}) = (\<lambda>k. bm_bit bm k \<or> k \<in> {B..<B + (j + n)})"
    unfolding assms(3) by (rule ext) auto
  then show ?thesis using assms(2,4) rest by (auto simp: reserves_def split: if_splits)
qed

lemma unat_add_nat: "unat (w :: u32) + n < 2 ^ 32 \<Longrightarrow> unat (w + of_nat n) = unat w + n"
  by (simp add: unat_word_ariths unat_of_nat)

lemma reserve_head_reserves:
  assumes "8 * base + unat block + (unat num - unat i) \<le> 8 * length bm"
    "unat block + (unat num - unat i) < 2 ^ 32" "i \<le> num"
  shows "\<exists>j. j \<le> unat num - unat i \<and> (j = unat num - unat i \<or> (unat block + j) mod 8 = 0)
    \<and> reserves force bm (8 * base + unat block) j (reserve_head force bm base num i block)
        (Some (i + of_nat j, block + of_nat j)) None"
  using assms
proof (induction "unat num - unat i" arbitrary: i block bm)
  case 0
  then have "\<not> i < num" by (simp add: word_less_nat_alt)
  then show ?case using 0 by (intro exI [of _ 0]) (simp add: reserve_head.simps reserves_nothing)
next
  case (Suc n)
  have lt: "i < num" using Suc.hyps(2) by (simp add: word_less_nat_alt)
  show ?case
  proof (cases "block mod 8 = 0")
    case True
    then have "unat block mod 8 = 0" by (simp add: unat_mod flip: unat_0_iff)
    with True lt show ?thesis
      by (intro exI [of _ 0]) (simp add: reserve_head.simps reserves_nothing)
  next
    case False
    let ?B = "8 * base + unat block"
    obtain bm' where bm': "bitmap_set_bit bm base block = Inr (bm_bit bm ?B, bm')" "length bm' = length bm"
        "bm_bit bm' = (bm_bit bm)(?B := True)"
      using bitmap_set_bit_spec [of base block bm] Suc.hyps(2) Suc.prems(1) by auto
    show ?thesis
    proof (cases "bm_bit bm ?B")
      case True
      then have "reserve_head force bm base num i block = error_then force (Inr (bm', None))"
        using lt False bm' by (subst reserve_head.simps) simp
      moreover have "?B \<in> {?B..<?B + Suc n}" by simp
      ultimately show ?thesis using True bm'(2) unfolding Suc.hyps(2) [symmetric]
        by (intro exI [of _ "Suc n"]) (auto simp: reserves_def)
    next
      case clear: False
      have i1: "unat (i + 1) = Suc (unat i)" using lt by (rule unat_Suc_less)
      have b1: "unat (block + 1) = Suc (unat block)" using unat_add_nat [of block 1] Suc.hyps(2) Suc.prems(2) by simp
      have hyps: "n = unat num - unat (i + 1)"
        "8 * base + unat (block + 1) + (unat num - unat (i + 1)) \<le> 8 * length bm'"
        "unat (block + 1) + (unat num - unat (i + 1)) < 2 ^ 32" "i + 1 \<le> num"
        using Suc.hyps(2) Suc.prems i1 b1 bm'(2) lt by (auto simp: word_le_nat_alt word_less_nat_alt)
      obtain j where j: "j \<le> unat num - unat (i + 1)"
          "j = unat num - unat (i + 1) \<or> (unat (block + 1) + j) mod 8 = 0"
          "reserves force bm' (8 * base + unat (block + 1)) j (reserve_head force bm' base num (i + 1) (block + 1))
            (Some (i + 1 + of_nat j, block + 1 + of_nat j)) None"
        using Suc.hyps(1) [OF hyps] by (elim exE conjE) (rule that)
      show ?thesis
      proof (intro exI [of _ "Suc j"] conjI)
        have e: "reserve_head force bm base num i block = reserve_head force bm' base num (i + 1) (block + 1)"
          using lt False bm' clear by (subst reserve_head.simps) simp
        have "reserves force bm ?B (1 + j) (reserve_head force bm base num i block)
            (Some (i + 1 + of_nat j, block + 1 + of_nat j)) None"
          using j(3) clear bm' b1 unfolding e by (intro reserves_step [of ?B 1 bm bm']) auto
        then show "reserves force bm ?B (Suc j) (reserve_head force bm base num i block)
            (Some (i + of_nat (Suc j), block + of_nat (Suc j))) None"
          by (simp add: add.assoc)
      qed (use j(1,2) lt i1 b1 in \<open>auto simp: word_less_nat_alt\<close>)
    qed
  qed
qed

lemma and_not_7: "unat (num AND NOT 7 :: u32) = 8 * (unat num div 8)"
proof -
  have "(7 :: u32) = mask 3" by (simp add: mask_eq_exp_minus_1)
  then show ?thesis using unat_and_not_mask [of num 3] by simp
qed

lemma reserve_bytes_reserves:
  assumes "8 * base + unat block + (unat num - unat i) \<le> 8 * length bm"
    "unat block + (unat num - unat i) < 2 ^ 32" "unat i \<le> unat num" "unat num + 8 < 2 ^ 32"
    "i = num \<or> unat block mod 8 = 0"
  shows "\<exists>j. j \<le> unat num - unat i
    \<and> reserves force bm (8 * base + unat block) j (reserve_bytes force bm base num i block)
        (Some (i + of_nat j, block + of_nat j)) None"
  using assms
proof (induction "unat num - unat i" arbitrary: i block bm rule: less_induct)
  case less
  have i8: "unat (i + 8) = unat i + 8" using unat_add_nat [of i 8] less.prems(3,4) by simp
  let ?B = "8 * base + unat block"
  show ?case
  proof (cases "i + 8 \<le> num AND NOT 7")
    case False
    then show ?thesis by (intro exI [of _ 0]) (simp add: reserve_bytes.simps reserves_nothing)
  next
    case True
    then have "unat (i + 8) \<le> unat (num AND NOT 7)" by (simp only: word_le_nat_alt)
    then have le: "unat i + 8 \<le> 8 * (unat num div 8)" by (simp only: i8 and_not_7)
    then have num: "unat i + 8 \<le> unat num" by linarith
    then have al: "unat block mod 8 = 0" using less.prems(5) by auto
    have "8 * base + unat block + 8 \<le> 8 * length bm" using less.prems(1) num by linarith
    from bitmap_set_8_bits_spec [OF this al] obtain v bm' where bm':
        "bitmap_set_8_bits bm base block = Inr (v, bm')" "length bm' = length bm"
        "v = 0 \<longleftrightarrow> (\<forall>j < 8. \<not> bm_bit bm (?B + j))"
        "bm_bit bm' = (\<lambda>k. if ?B \<le> k \<and> k < ?B + 8 then True else bm_bit bm k)"
      by blast
    show ?thesis
    proof (cases "v = 0")
      case v: False
      then obtain d where "d < 8" "bm_bit bm (?B + d)" using bm'(3) by blast
      then have "\<not> (\<forall>k \<in> {?B..<?B + 8}. \<not> bm_bit bm k)" by (auto intro!: bexI [of _ "?B + d"])
      moreover have "reserve_bytes force bm base num i block = error_then force (Inr (bm', None))"
        using True v bm'(1) by (subst reserve_bytes.simps) simp
      ultimately show ?thesis using bm'(2) num
        by (intro exI [of _ 8]) (auto simp: reserves_def)
    next
      case v: True
      have b8: "unat (block + 8) = unat block + 8" using unat_add_nat [of block 8] less.prems(2) num by simp
      have e: "reserve_bytes force bm base num i block = reserve_bytes force bm' base num (i + 8) (block + 8)"
        using True v bm'(1) by (subst reserve_bytes.simps) simp
      have hyps: "unat num - unat (i + 8) < unat num - unat i"
        "8 * base + unat (block + 8) + (unat num - unat (i + 8)) \<le> 8 * length bm'"
        "unat (block + 8) + (unat num - unat (i + 8)) < 2 ^ 32" "unat (i + 8) \<le> unat num"
        "i + 8 = num \<or> unat (block + 8) mod 8 = 0"
        unfolding i8 b8 bm'(2) using less.prems(1,2) num al by simp_all
      have "\<exists>j. j \<le> unat num - unat (i + 8)
        \<and> reserves force bm' (8 * base + unat (block + 8)) j (reserve_bytes force bm' base num (i + 8) (block + 8))
            (Some (i + 8 + of_nat j, block + 8 + of_nat j)) None"
        by (rule less.hyps [OF hyps(1-4) less.prems(4) hyps(5)])
      then obtain j where j: "j \<le> unat num - unat (i + 8)"
        "reserves force bm' (?B + 8) j (reserve_bytes force bm base num i block)
            (Some (i + 8 + of_nat j, block + 8 + of_nat j)) None"
        unfolding e b8 by (elim exE conjE) (simp add: add.assoc)
      have clear: "\<not> bm_bit bm k" if "k \<in> {?B..<?B + 8}" for k
      proof -
        have "k - ?B < 8" "?B + (k - ?B) = k" using that by auto
        then show ?thesis using v bm'(3) by metis
      qed
      have bits: "bm_bit bm' = (\<lambda>k. bm_bit bm k \<or> k \<in> {?B..<?B + 8})"
        unfolding bm'(4) by auto
      have "reserves force bm ?B (8 + j) (reserve_bytes force bm base num i block)
          (Some (i + 8 + of_nat j, block + 8 + of_nat j)) None"
        by (rule reserves_step [OF clear bm'(2) bits j(2)])
      then show ?thesis using j(1) i8 num
        by (intro exI [of _ "8 + j"]) (simp add: add.assoc)
    qed
  qed
qed

lemma reserve_tail_reserves:
  assumes "8 * base + unat block + (unat num - unat i) \<le> 8 * length bm"
    "unat block + (unat num - unat i) < 2 ^ 32"
  shows "reserves force bm (8 * base + unat block) (unat num - unat i)
        (reserve_tail force bm base num i block) True False"
  using assms
proof (induction "unat num - unat i" arbitrary: i block bm)
  case 0
  then have "\<not> i < num" by (simp add: word_less_nat_alt)
  moreover have "unat num - unat i = 0" using 0 by simp
  ultimately show ?case by (simp add: reserve_tail.simps reserves_nothing)
next
  case (Suc n)
  have lt: "i < num" using Suc.hyps(2) by (simp add: word_less_nat_alt)
  let ?B = "8 * base + unat block"
  obtain bm' where bm': "bitmap_set_bit bm base block = Inr (bm_bit bm ?B, bm')" "length bm' = length bm"
      "bm_bit bm' = (bm_bit bm)(?B := True)"
    using bitmap_set_bit_spec [of base block bm] Suc.hyps(2) Suc.prems(1) by auto
  show ?case
  proof (cases "bm_bit bm ?B")
    case True
    then have "reserve_tail force bm base num i block = error_then force (Inr (bm', False))"
      using lt bm' by (subst reserve_tail.simps) simp
    moreover have "?B \<in> {?B..<?B + Suc n}" by simp
    ultimately show ?thesis using True bm'(2) unfolding Suc.hyps(2) [symmetric]
      by (auto simp: reserves_def)
  next
    case clear: False
    have i1: "unat (i + 1) = Suc (unat i)" using lt by (rule unat_Suc_less)
    have b1: "unat (block + 1) = Suc (unat block)" using unat_add_nat [of block 1] Suc.hyps(2) Suc.prems(2) by simp
    have hyps: "n = unat num - unat (i + 1)"
      "8 * base + unat (block + 1) + (unat num - unat (i + 1)) \<le> 8 * length bm'"
      "unat (block + 1) + (unat num - unat (i + 1)) < 2 ^ 32"
      using Suc.hyps(2) Suc.prems i1 b1 bm'(2) lt by (auto simp: word_less_nat_alt)
    have e: "reserve_tail force bm base num i block = reserve_tail force bm' base num (i + 1) (block + 1)"
      using lt bm' clear by (subst reserve_tail.simps) simp
    have r: "reserves force bm' (?B + 1) n (reserve_tail force bm base num i block) True False"
      using Suc.hyps(1) [OF hyps] unfolding e hyps(1) b1 by simp
    have "reserves force bm ?B (1 + n) (reserve_tail force bm base num i block) True False"
      using clear by (intro reserves_step [OF _ bm'(2) _ r]) (auto simp: bm'(3))
    then show ?thesis unfolding Suc.hyps(2) [symmetric] by simp
  qed
qed

text \<open>One loop after the other.\<close>

lemma reserves_bind:
  assumes r: "reserves force bm B j r (Some x) None"
    and f: "\<And>bm'. length bm' = length bm \<Longrightarrow> reserves force bm' (B + j) n (f bm' x) True False"
  shows "reserves force bm B (j + n)
    (rbind r (\<lambda>(bm, y). case y of None \<Rightarrow> Inr (bm, False) | Some x \<Rightarrow> f bm x)) True False"
proof (cases "\<forall>k \<in> {B..<B + j}. \<not> bm_bit bm k")
  case True
  then obtain bm' where bm': "r = Inr (bm', Some x)" "length bm' = length bm"
      "bm_bit bm' = (\<lambda>k. bm_bit bm k \<or> k \<in> {B..<B + j})"
    using r unfolding reserves_def by auto
  have "reserves force bm B (j + n) (f bm' x) True False"
    using True by (intro reserves_step [OF _ bm'(2,3) f [OF bm'(2)]]) blast
  then show ?thesis using bm'(1) by simp
next
  case False
  then obtain bm' where bm': "r = error_then force (Inr (bm', None))" "length bm' = length bm"
    using r unfolding reserves_def by (auto simp only: if_False)
  have "\<not> (\<forall>k \<in> {B..<B + (j + n)}. \<not> bm_bit bm k)" using False by auto
  then show ?thesis using bm' unfolding reserves_def by (cases force) auto
qed

lemma reserve_bits_reserves:
  assumes room: "8 * base + unat start + unat num \<le> 8 * length bm"
    and small: "unat start + unat num + 8 < 2 ^ 32"
  shows "reserves force bm (8 * base + unat start) (unat num) (reserve_bits force bm base start num) True False"
proof -
  let ?B = "8 * base + unat start"
  obtain j1 where j1: "j1 \<le> unat num" "j1 = unat num \<or> (unat start + j1) mod 8 = 0"
    "reserves force bm ?B j1 (reserve_head force bm base num 0 start) (Some (of_nat j1, start + of_nat j1)) None"
    using reserve_head_reserves [of base start num 0 bm force] room small by auto
  let ?i1 = "of_nat j1 :: u32" and ?s1 = "start + of_nat j1"
  have u1: "unat ?i1 = j1" "unat ?s1 = unat start + j1"
    using j1(1) small unat_add_nat [of start j1] by (simp_all add: unat_of_nat)
  have pos1: "8 * base + unat ?s1 = ?B + j1" by (simp add: u1)
  have eq1: "?i1 = num \<or> unat ?s1 mod 8 = 0" using j1(2) u1 by (metis word_unat_eq_iff)
  have "reserves force bm1 (?B + j1) (unat num - j1)
      (rbind (reserve_bytes force bm1 base num ?i1 ?s1) (\<lambda>(bm, r). case r of None \<Rightarrow> Inr (bm, False)
         | Some x \<Rightarrow> (case x of (i, block) \<Rightarrow> reserve_tail force bm base num i block))) True False"
    if l1: "length bm1 = length bm" for bm1
  proof -
    obtain j2 where j2: "j2 \<le> unat num - j1"
      "reserves force bm1 (?B + j1) j2 (reserve_bytes force bm1 base num ?i1 ?s1)
        (Some (?i1 + of_nat j2, ?s1 + of_nat j2)) None"
      using reserve_bytes_reserves [of base ?s1 num ?i1 bm1 force] room small j1(1) eq1
      unfolding pos1 unfolding u1 l1 by auto
    let ?i2 = "?i1 + of_nat j2" and ?s2 = "?s1 + of_nat j2"
    have u2: "unat ?i2 = j1 + j2" "unat ?s2 = unat start + j1 + j2"
      using u1 j1(1) j2(1) small unat_add_nat [of ?i1 j2] unat_add_nat [of ?s1 j2] by simp_all
    have pos2: "8 * base + unat ?s2 = ?B + j1 + j2" by (simp add: u2)
    have "reserves force bm2 (?B + j1 + j2) (unat num - (j1 + j2))
        (reserve_tail force bm2 base num ?i2 ?s2) True False" if "length bm2 = length bm1" for bm2
      using reserve_tail_reserves [of base ?s2 num ?i2 bm2 force] room small j1(1) j2(1) that
      unfolding pos2 unfolding u2 l1 by auto
    then have "reserves force bm1 (?B + j1) (j2 + (unat num - (j1 + j2)))
      (rbind (reserve_bytes force bm1 base num ?i1 ?s1) (\<lambda>(bm, r). case r of None \<Rightarrow> Inr (bm, False)
         | Some x \<Rightarrow> (case x of (i, block) \<Rightarrow> reserve_tail force bm base num i block))) True False"
      by (intro reserves_bind [OF j2(2)]) simp
    moreover have "j2 + (unat num - (j1 + j2)) = unat num - j1" using j2(1) by linarith
    ultimately show ?thesis by (simp only:)
  qed
  then have "reserves force bm ?B (j1 + (unat num - j1))
      (rbind (reserve_head force bm base num 0 start) (\<lambda>(bm, r). case r of None \<Rightarrow> Inr (bm, False)
         | Some x \<Rightarrow> (case x of (i, block) \<Rightarrow> rbind (reserve_bytes force bm base num i block)
            (\<lambda>(bm, r). case r of None \<Rightarrow> Inr (bm, False)
               | Some x \<Rightarrow> (case x of (i, block) \<Rightarrow> reserve_tail force bm base num i block))))) True False"
    by (intro reserves_bind [OF j1(3)]) simp
  moreover have "j1 + (unat num - j1) = unat num" using j1(1) by linarith
  ultimately show ?thesis unfolding reserve_bits_def by (simp only:)
qed

text \<open>What \<open>reserve_blocks\<close> does, on every branch.\<close>

lemma reserve_blocks_spec:
  assumes free: "num \<le> free_blocks bg"
    and room: "8 * block_bitmap bg + unat start + unat num \<le> 8 * length (bitmaps bg)"
    and small: "unat start + unat num + 8 < 2 ^ 32"
  defines "B \<equiv> 8 * block_bitmap bg + unat start"
  shows "if \<forall>k \<in> {B..<B + unat num}. \<not> bm_bit (bitmaps bg) k
    then \<exists>bm'. reserve_blocks force bg start num = Inr (0, bg\<lparr>bitmaps := bm',
           free_blocks := free_blocks bg - num,
           first_free_block := (if start = first_free_block bg then start + num else first_free_block bg)\<rparr>)
         \<and> length bm' = length (bitmaps bg)
         \<and> bm_bit bm' = (\<lambda>k. bm_bit (bitmaps bg) k \<or> k \<in> {B..<B + unat num})
    else \<exists>bm'. reserve_blocks force bg start num = error_then force (Inr (-1, bg\<lparr>bitmaps := bm'\<rparr>))
         \<and> length bm' = length (bitmaps bg)"
proof -
  have nle: "\<not> num > free_blocks bg" using free by simp
  note r = reserve_bits_reserves [OF room small, of force, folded B_def]
  show ?thesis
  proof (cases "\<forall>k \<in> {B..<B + unat num}. \<not> bm_bit (bitmaps bg) k")
    case True
    with r nle show ?thesis unfolding reserves_def reserve_blocks_def by auto
  next
    case False
    with r obtain bm' where "reserve_bits force (bitmaps bg) (block_bitmap bg) start num
        = error_then force (Inr (bm', False))" "length bm' = length (bitmaps bg)"
      unfolding reserves_def by (auto simp only: if_False)
    with False nle show ?thesis by (cases force) (auto simp: reserve_blocks_def)
  qed
qed

section \<open>A group as a stretch of free blocks\<close>

text \<open>
  \<open>reserve_blocks\<close> is only ever asked for the first free block of a group, so the free blocks of a
  group are one stretch \<open>[first_free_block, first_free_block + free_blocks)\<close>.
\<close>

definition blocks_ok :: "nat \<Rightarrow> block_group_info \<Rightarrow> bool" where
  "blocks_ok bs bg \<longleftrightarrow> length (bitmaps bg) = 2 * bs \<and> block_bitmap bg = 0 \<and> 16 * bs + 8 < 2 ^ 32
     \<and> unat (first_free_block bg) + unat (free_blocks bg) \<le> 8 * bs
     \<and> (\<forall>k < unat (first_free_block bg). bm_bit (bitmaps bg) k)
     \<and> (\<forall>k \<in> {unat (first_free_block bg)..<unat (first_free_block bg) + unat (free_blocks bg)}.
          \<not> bm_bit (bitmaps bg) k)"

lemma bitmap_ext: "length xs = length ys \<Longrightarrow> bm_bit xs = bm_bit ys \<Longrightarrow> xs = ys"
proof (rule nth_equalityI)
  fix i assume len: "length xs = length ys" and eq: "bm_bit xs = bm_bit ys" and i: "i < length xs"
  show "xs ! i = ys ! i"
  proof (rule bit_word_eqI)
    fix n assume "n < LENGTH(8)"
    then show "bit (xs ! i) n = bit (ys ! i) n"
      using bm_bit_byte [OF i, of n] bm_bit_byte [of i ys n] i len eq by simp
  qed
qed

lemma reserve_first_free:
  assumes ok: "blocks_ok bs bg" and num: "num \<le> free_blocks bg"
  obtains bm' where "reserve_blocks force bg (first_free_block bg) num = Inr (0, bg\<lparr>bitmaps := bm',
      free_blocks := free_blocks bg - num, first_free_block := first_free_block bg + num\<rparr>)"
    "length bm' = length (bitmaps bg)"
    "bm_bit bm' = (\<lambda>k. bm_bit (bitmaps bg) k
       \<or> k \<in> {unat (first_free_block bg)..<unat (first_free_block bg) + unat num})"
    "blocks_ok bs (bg\<lparr>bitmaps := bm', free_blocks := free_blocks bg - num,
       first_free_block := first_free_block bg + num\<rparr>)"
proof -
  let ?ff = "unat (first_free_block bg)"
  have n: "unat num \<le> unat (free_blocks bg)" using num by (simp add: word_le_nat_alt)
  have lim: "length (bitmaps bg) = 2 * bs" "block_bitmap bg = 0" "16 * bs + 8 < 4294967296"
      "?ff + unat (free_blocks bg) \<le> 8 * bs"
    using ok by (simp_all add: blocks_ok_def)
  have "\<forall>k \<in> {?ff..<?ff + unat num}. \<not> bm_bit (bitmaps bg) k"
    using ok n by (simp add: blocks_ok_def)
  with reserve_blocks_spec [OF num, of "first_free_block bg" force] lim n
  obtain bm' where r: "reserve_blocks force bg (first_free_block bg) num = Inr (0, bg\<lparr>bitmaps := bm',
      free_blocks := free_blocks bg - num, first_free_block := first_free_block bg + num\<rparr>)"
    "length bm' = length (bitmaps bg)"
    "bm_bit bm' = (\<lambda>k. bm_bit (bitmaps bg) k \<or> k \<in> {?ff..<?ff + unat num})"
    by auto
  have u: "unat (first_free_block bg + num) = ?ff + unat num"
    "unat (free_blocks bg - num) = unat (free_blocks bg) - unat num"
    using lim n num by (auto intro!: unat_add_small simp: unat_sub)
  have "blocks_ok bs (bg\<lparr>bitmaps := bm', free_blocks := free_blocks bg - num,
       first_free_block := first_free_block bg + num\<rparr>)"
    using ok n lim r(2) unfolding blocks_ok_def by (auto simp: u r(3))
  then show thesis using r that by blast
qed

lemma free_bits_spec:
  assumes "8 * base + unat block < 8 * length bm" "n \<le> unat block + 1"
  shows "\<exists>bm'. free_bits bm base n block = Inr bm' \<and> length bm' = length bm
    \<and> bm_bit bm' = (\<lambda>k. bm_bit bm k \<and> k \<notin> {8 * base + unat block + 1 - n..<8 * base + unat block + 1})"
  using assms
proof (induction n arbitrary: bm block)
  case (Suc n)
  obtain bm1 where bm1: "bitmap_clear_bit bm base block = Inr bm1" "length bm1 = length bm"
      "bm_bit bm1 = (bm_bit bm)(8 * base + unat block := False)"
    using bitmap_clear_bit_spec [OF Suc.prems(1)] by blast
  show ?case
  proof (cases n)
    case 0
    then show ?thesis using bm1 by (auto simp: fun_eq_iff)
  next
    case (Suc j)
    then have pos: "0 < unat block" using Suc.prems(2) by simp
    then have u: "unat (block - 1) = unat block - 1"
      by (subst unat_sub) (auto simp: word_le_nat_alt)
    have hyps: "8 * base + unat (block - 1) < 8 * length bm1" "n \<le> unat (block - 1) + 1"
      unfolding u bm1(2) using Suc.prems pos by simp_all
    obtain bm2 where bm2: "free_bits bm1 base n (block - 1) = Inr bm2" "length bm2 = length bm1"
      "bm_bit bm2 = (\<lambda>k. bm_bit bm1 k
         \<and> k \<notin> {8 * base + unat (block - 1) + 1 - n..<8 * base + unat (block - 1) + 1})"
      using Suc.IH [OF hyps] by (elim exE conjE) (rule that)
    have "bm_bit bm2 = (\<lambda>k. bm_bit bm k
         \<and> k \<notin> {8 * base + unat block + 1 - Suc n..<8 * base + unat block + 1})"
      unfolding bm2(3) bm1(3) u using pos by (intro ext) auto
    then show ?thesis using bm1 bm2 by auto
  qed
qed simp

text \<open>C28: releasing the blocks reserved last restores the group, bit for bit.\<close>

theorem release_after_reserve:
  assumes ok: "blocks_ok bs bg" and num: "num \<le> free_blocks bg"
  shows "\<exists>bg'. reserve_blocks force bg (first_free_block bg) num = Inr (0, bg') \<and> blocks_ok bs bg'
    \<and> release_blocks bg' num = Inr bg"
proof -
  obtain bm' where r: "reserve_blocks force bg (first_free_block bg) num = Inr (0, bg\<lparr>bitmaps := bm',
      free_blocks := free_blocks bg - num, first_free_block := first_free_block bg + num\<rparr>)"
    "length bm' = length (bitmaps bg)"
    "bm_bit bm' = (\<lambda>k. bm_bit (bitmaps bg) k
       \<or> k \<in> {unat (first_free_block bg)..<unat (first_free_block bg) + unat num})"
    "blocks_ok bs (bg\<lparr>bitmaps := bm', free_blocks := free_blocks bg - num,
       first_free_block := first_free_block bg + num\<rparr>)"
    by (rule reserve_first_free [OF ok num])
  let ?ff = "unat (first_free_block bg)"
  have n: "unat num \<le> unat (free_blocks bg)" using num by (simp add: word_le_nat_alt)
  have lim: "length (bitmaps bg) = 2 * bs" "block_bitmap bg = 0" "16 * bs + 8 < 4294967296"
      "?ff + unat (free_blocks bg) \<le> 8 * bs"
    using ok by (simp_all add: blocks_ok_def)
  have u: "unat (first_free_block bg + num) = ?ff + unat num"
    using lim n by (auto intro!: unat_add_small)
  have "free_bits bm' 0 (unat num) (first_free_block bg + num - 1) = Inr (bitmaps bg)"
  proof (cases "num = 0")
    case True
    then have "bm' = bitmaps bg" using r(2,3) by (intro bitmap_ext) auto
    then show ?thesis using True by simp
  next
    case False
    then have pos: "0 < unat num" by (simp add: unat_gt_0)
    have u1: "unat (first_free_block bg + num - 1) = ?ff + unat num - 1"
      using pos u by (subst unat_sub) (auto simp: word_le_nat_alt)
    have hyps: "8 * 0 + unat (first_free_block bg + num - 1) < 8 * length bm'"
      "unat num \<le> unat (first_free_block bg + num - 1) + 1"
      unfolding u1 r(2) lim(1) using lim(4) n pos by linarith+
    obtain bm2 where bm2: "free_bits bm' 0 (unat num) (first_free_block bg + num - 1) = Inr bm2"
      "length bm2 = length bm'"
      "bm_bit bm2 = (\<lambda>k. bm_bit bm' k \<and> k \<notin> {8 * 0 + (?ff + unat num - 1) + 1 - unat num..<8 * 0 + (?ff + unat num - 1) + 1})"
      using free_bits_spec [OF hyps] unfolding u1 by (elim exE conjE) (rule that)
    have "bm_bit bm2 = bm_bit (bitmaps bg)"
      unfolding bm2(3) r(3) using ok n pos by (intro ext) (auto simp: blocks_ok_def)
    then show ?thesis using bm2 r(2) by (auto intro: bitmap_ext)
  qed
  then show ?thesis using r(1,4) lim(2) by (simp add: release_blocks_def)
qed

lemma release_after_reserve_witness:
  "\<exists>bg'. reserve_blocks False (zero_bg\<lparr>bitmaps := [0, 0], free_blocks := 8\<rparr>) 0 5 = Inr (0, bg')
    \<and> release_blocks bg' 5 = Inr (zero_bg\<lparr>bitmaps := [0, 0], free_blocks := 8\<rparr>)"
proof -
  have "blocks_ok 1 (zero_bg\<lparr>bitmaps := [0, 0], free_blocks := 8\<rparr>)"
    by (auto simp: blocks_ok_def zero_bg_def bm_bit_def nth_Cons split: nat.splits)
  from release_after_reserve [OF this, of 5 False] show ?thesis by (auto simp: zero_bg_def)
qed

section \<open>A group after its set-up\<close>

definition header_size :: "fs_info \<Rightarrow> fs_aux_info \<Rightarrow> bool \<Rightarrow> nat" where
  "header_size info aux has = 2 + unat (inode_table_blocks aux)
     + (if has then 1 + unat (bg_desc_blocks aux) + unat (bg_desc_reserve_blocks info) else 0)"

lemma blocks_ok_fresh:
  assumes "length bm = 2 * bs" "\<forall>v \<in> set bm. v = 0" "16 * bs + 8 < 2 ^ 32" "unat n \<le> 8 * bs"
  shows "blocks_ok bs (bg\<lparr>bitmaps := bm, block_bitmap := 0, first_free_block := 0, free_blocks := n\<rparr>)"
    "bm_bit bm = (\<lambda>k. False)"
proof -
  have "bm ! k = 0" if "k < length bm" for k using assms(2) that by simp
  then show bits: "bm_bit bm = (\<lambda>k. False)" by (auto simp: bm_bit_def fun_eq_iff)
  show "blocks_ok bs (bg\<lparr>bitmaps := bm, block_bitmap := 0, first_free_block := 0, free_blocks := n\<rparr>)"
    using assms by (simp add: blocks_ok_def bits)
qed

lemma header_word:
  assumes "header_size info aux has \<le> unat (n :: u32)"
  shows "unat (2 + inode_table_blocks aux
     + (if has then 1 + bg_desc_blocks aux + bg_desc_reserve_blocks info else 0)) = header_size info aux has"
proof -
  have lim: "header_size info aux has < 4294967296" using assms unat_less_32 [of n] by simp
  have "2 + inode_table_blocks aux + (if has then 1 + bg_desc_blocks aux + bg_desc_reserve_blocks info else 0)
    = of_nat (header_size info aux has)"
    by (simp add: header_size_def)
  then show ?thesis using lim by (simp add: unat_of_nat)
qed

text \<open>The blocks past the end of the image, the last ones of the group, are taken out.\<close>

lemma reserve_last_blocks:
  assumes ok: "blocks_ok bs bg" and n: "unat (first_free_block bg) + unat (free_blocks bg) = unat bpg"
    and over: "unat over < unat (free_blocks bg)"
  obtains bm' where "reserve_blocks force bg (bpg - over) over
      = Inr (0, bg\<lparr>bitmaps := bm', free_blocks := free_blocks bg - over\<rparr>)"
    "blocks_ok bs (bg\<lparr>bitmaps := bm', free_blocks := free_blocks bg - over\<rparr>)"
    "bm_bit bm' = (\<lambda>k. bm_bit (bitmaps bg) k \<or> k \<in> {unat bpg - unat over..<unat bpg})"
proof -
  let ?ff = "unat (first_free_block bg)"
  have lim: "length (bitmaps bg) = 2 * bs" "block_bitmap bg = 0" "16 * bs + 8 < 4294967296"
      "?ff + unat (free_blocks bg) \<le> 8 * bs"
    using ok by (simp_all add: blocks_ok_def)
  have u: "unat (bpg - over) = unat bpg - unat over" "unat (free_blocks bg - over) = unat (free_blocks bg) - unat over"
    using n over by (auto simp: unat_sub word_le_nat_alt)
  have "unat (bpg - over) \<noteq> ?ff" unfolding u(1) using n over by linarith
  then have ne: "bpg - over \<noteq> first_free_block bg" by auto
  have le: "over \<le> free_blocks bg" using over by (simp add: word_le_nat_alt)
  have clear: "\<forall>k \<in> {unat (bpg - over)..<unat (bpg - over) + unat over}. \<not> bm_bit (bitmaps bg) k"
    using ok over n unfolding u blocks_ok_def by auto
  have room: "8 * block_bitmap bg + unat (bpg - over) + unat over \<le> 8 * length (bitmaps bg)"
    "unat (bpg - over) + unat over + 8 < 2 ^ 32"
    unfolding u lim(1,2) using lim(3,4) n over by simp_all
  obtain bm' where r: "reserve_blocks force bg (bpg - over) over = Inr (0, bg\<lparr>bitmaps := bm',
      free_blocks := free_blocks bg - over, first_free_block := first_free_block bg\<rparr>)"
    "length bm' = length (bitmaps bg)"
    "bm_bit bm' = (\<lambda>k. bm_bit (bitmaps bg) k \<or> k \<in> {unat (bpg - over)..<unat (bpg - over) + unat over})"
    using reserve_blocks_spec [OF le room, of force] clear ne lim(2) by auto
  have e: "unat (bpg - over) + unat over = unat bpg" using u n over by simp
  show thesis
  proof (rule that)
    show "reserve_blocks force bg (bpg - over) over
      = Inr (0, bg\<lparr>bitmaps := bm', free_blocks := free_blocks bg - over\<rparr>)" using r(1) by simp
    show bits: "bm_bit bm' = (\<lambda>k. bm_bit (bitmaps bg) k \<or> k \<in> {unat bpg - unat over..<unat bpg})"
      using r(3) unfolding e unfolding u(1) .
    show "blocks_ok bs (bg\<lparr>bitmaps := bm', free_blocks := free_blocks bg - over\<rparr>)"
      using ok r(2) lim over n unfolding blocks_ok_def by (auto simp: bits u)
  qed
qed

text \<open>
  \<open>init_bg\<close> on a group that is larger than its header, when its bitmaps can be queued: its free blocks
  are one stretch, from the end of the header to the end of the group or of the image, and exactly
  the blocks outside it are marked in its bitmap.
\<close>

lemma init_bg_group:
  assumes i: "i < length (bgs aux)"
    and has: "ext4_bg_has_super_block info (of_nat i) = Inr has"
    and data: "sparse_file_add_data img (Bitmaps i, 0) (2 * block_size info)
      (first_data_block aux + of_nat i * blocks_per_group info
        + (if has then 1 + bg_desc_blocks aux + bg_desc_reserve_blocks info else 0)) = Inr (ret, img')"
    and small: "16 * unat (block_size info) + 8 < 2 ^ 32"
    and bpg: "unat (blocks_per_group info) \<le> 8 * unat (block_size info)"
    and nowrap: "unat (first_data_block aux) + (i + 1) * unat (blocks_per_group info) < 2 ^ 32"
    and first: "first = unat (first_data_block aux) + i * unat (blocks_per_group info)"
    and blocks: "blocks = min (unat (blocks_per_group info)) (unat (len_blocks aux) - first)"
    and room: "header_size info aux has < blocks"
  shows "\<exists>bg. init_bg info aux img force i = Inr (set_bg aux i bg, img')
    \<and> blocks_ok (unat (block_size info)) bg
    \<and> unat (first_block bg) = first
    \<and> unat (first_free_block bg) = header_size info aux has
    \<and> unat (free_blocks bg) = blocks - header_size info aux has
    \<and> bm_bit (bitmaps bg) = (\<lambda>k. k < header_size info aux has \<or> blocks \<le> k \<and> k < unat (blocks_per_group info))
    \<and> has_superblock bg = has \<and> free_inodes bg = inodes_per_group info \<and> first_free_inode bg = 1
    \<and> inode_bitmap bg = unat (block_size info) \<and> inode_table bg = inode_table (bgs aux ! i)"
proof -
  let ?bs = "unat (block_size info)" and ?n = "blocks_per_group info" and ?h = "header_size info aux has"
  obtain hw where hw: "hw = 2 + inode_table_blocks aux
     + (if has then 1 + bg_desc_blocks aux + bg_desc_reserve_blocks info else 0)" by simp
  have h: "?h \<le> unat ?n" "?h < blocks" using room blocks by auto
  have uh: "unat hw = ?h" unfolding hw by (rule header_word [OF h(1)])
  have hle: "hw \<le> ?n" using h uh by (simp add: word_le_nat_alt)
  obtain f where f: "f = first_data_block aux + of_nat i * ?n" by simp
  have "f = of_nat first" unfolding f first by simp
  moreover have "first < 4294967296" using nowrap first by simp
  ultimately have uf: "unat f = first" by (simp add: unat_of_nat)
  have e1: "unat (f + ?n) = first + unat ?n"
    using nowrap uf first by (intro unat_add_small [THEN trans]) (simp_all add: uf)
  define bg0 where "bg0 = (bgs aux ! i)\<lparr>has_superblock := has, header_blocks := hw, inode_bitmap := ?bs,
      first_block := f, data_blocks_used := 0, free_inodes := inodes_per_group info,
      first_free_inode := 1, bg_flags := EXT4_BG_INODE_UNINIT, bitmaps := replicate (?bs * 2) 0,
      block_bitmap := 0, first_free_block := 0, free_blocks := ?n\<rparr>"
  note fresh = blocks_ok_fresh [of "replicate (?bs * 2) 0" ?bs ?n]
  have ok0: "blocks_ok ?bs bg0" unfolding bg0_def using small bpg by (intro fresh) auto
  have bits0: "bm_bit (bitmaps bg0) = (\<lambda>k. False)" unfolding bg0_def using small bpg by (simp add: fresh)
  obtain bm1 where r1: "reserve_blocks force bg0 (first_free_block bg0) hw = Inr (0, bg0\<lparr>bitmaps := bm1,
      free_blocks := free_blocks bg0 - hw, first_free_block := first_free_block bg0 + hw\<rparr>)"
    "bm_bit bm1 = (\<lambda>k. bm_bit (bitmaps bg0) k
       \<or> k \<in> {unat (first_free_block bg0)..<unat (first_free_block bg0) + unat hw})"
    "blocks_ok ?bs (bg0\<lparr>bitmaps := bm1, free_blocks := free_blocks bg0 - hw,
       first_free_block := first_free_block bg0 + hw\<rparr>)"
    using reserve_first_free [OF ok0, of hw force] hle unfolding bg0_def by auto
  define bg1 where "bg1 = bg0\<lparr>bitmaps := bm1, free_blocks := ?n - hw, first_free_block := hw\<rparr>"
  have r: "reserve_blocks force bg0 0 hw = Inr (0, bg1)" "blocks_ok ?bs bg1"
    using r1 by (simp_all add: bg1_def bg0_def)
  have bits1: "bm_bit (bitmaps bg1) = (\<lambda>k. k < ?h)" using r1(2) bits0 by (simp add: bg1_def bg0_def uh)
  have ufree: "unat (?n - hw) = unat ?n - ?h" using hle uh by (simp add: unat_sub)
  have e2: "(ucast (f + ?n) :: u64) > len_blocks aux \<longleftrightarrow> first + unat ?n > unat (len_blocks aux)"
    by (simp only: word_less_nat_alt unat_ucast_32_64 e1)
  have step: "init_bg info aux img force i = rbind (if ucast (f + ?n) > len_blocks aux
            then let overrun = ucast (ucast (f + ?n) - len_blocks aux) in
                 rbind (reserve_blocks force bg1 (?n - overrun) overrun) (\<lambda>(_, bg). Inr bg)
            else Inr bg1) (\<lambda>bg. Inr (set_bg aux i bg, img'))"
  proof -
    have bg: "(bgs aux ! i)\<lparr>has_superblock := has, bitmaps := replicate (?bs * 2) 0,
        block_bitmap := 0, inode_bitmap := ?bs, header_blocks := hw, first_block := f,
        data_blocks_used := 0, free_blocks := ?n, first_free_block := 0,
        free_inodes := inodes_per_group info, first_free_inode := 1,
        bg_flags := EXT4_BG_INODE_UNINIT\<rparr> = bg0"
      by (simp add: bg0_def)
    have sel: "first_free_block bg0 = 0" "header_blocks bg0 = hw" "first_block bg1 = f"
      by (simp_all add: bg0_def bg1_def)
    show ?thesis
      by (simp only: init_bg_def rd_in [OF i] rbind_Inr has Let_def hw [symmetric] f [symmetric]
        data [folded f] prod.case bg sel r(1) if_False less_irrefl)
  qed
  show ?thesis
  proof (cases "first + unat ?n > unat (len_blocks aux)")
    case False
    then have "init_bg info aux img force i = Inr (set_bg aux i bg1, img')" using step e2 by simp
    moreover have "blocks = unat ?n" using False blocks by simp
    ultimately show ?thesis using r(2) h bits1 ufree uf uh
      by (intro exI [of _ bg1]) (auto simp: bg1_def bg0_def)
  next
    case True
    define over :: u32 where "over = ucast (ucast (f + ?n) - len_blocks aux)"
    have sz: "blocks = unat (len_blocks aux) - first" "unat (len_blocks aux) = first + blocks" using True blocks h by auto
    have "unat (ucast (f + ?n) - len_blocks aux) = first + unat ?n - unat (len_blocks aux)"
      using True e1 by (subst unat_sub) (simp_all add: word_le_nat_alt)
    then have "unat (ucast (f + ?n) - len_blocks aux) = unat ?n - blocks" using sz(2) by linarith
    then have uo: "unat over = unat ?n - blocks" unfolding over_def
      by (subst unat_ucast_64_32) (use unat_less_32 [of ?n] in simp_all)
    have sz': "blocks < unat ?n" using True sz(2) by linarith
    obtain bm' where r': "reserve_blocks force bg1 (?n - over) over
      = Inr (0, bg1\<lparr>bitmaps := bm', free_blocks := free_blocks bg1 - over\<rparr>)"
      "blocks_ok ?bs (bg1\<lparr>bitmaps := bm', free_blocks := free_blocks bg1 - over\<rparr>)"
      "bm_bit bm' = (\<lambda>k. bm_bit (bitmaps bg1) k \<or> k \<in> {unat ?n - unat over..<unat ?n})"
    proof (rule reserve_last_blocks [OF r(2)])
      show "unat (first_free_block bg1) + unat (free_blocks bg1) = unat ?n"
        using uh ufree h by (simp add: bg1_def)
      show "unat over < unat (free_blocks bg1)" using uo ufree h sz' by (simp add: bg1_def)
    qed
    have "init_bg info aux img force i
      = Inr (set_bg aux i (bg1\<lparr>bitmaps := bm', free_blocks := free_blocks bg1 - over\<rparr>), img')"
      using step e2 True r'(1) by (simp add: Let_def over_def [symmetric])
    moreover have "unat (?n - hw - over) = blocks - ?h"
      using uo ufree h sz' by (subst unat_sub) (auto simp: word_le_nat_alt)
    moreover have "bm_bit bm' = (\<lambda>k. k < ?h \<or> blocks \<le> k \<and> k < unat ?n)"
      unfolding r'(3) bits1 uo using sz' by auto
    ultimately show ?thesis using r'(2) uf uh
      by (intro exI [of _ "bg1\<lparr>bitmaps := bm', free_blocks := free_blocks bg1 - over\<rparr>"])
        (simp add: bg1_def bg0_def)
  qed
qed

text \<open>A small image of 1 KiB blocks for the concrete checks.\<close>

definition demo_info :: fs_info where
  "demo_info = \<lparr>len = 1048576, block_size = 1024, blocks_per_group = 8192, inodes_per_group = 16,
     inode_size = 256, inodes = 16, journal_blocks = 0, feat_ro_compat = 1, feat_compat = 0,
     feat_incompat = 0x42, bg_desc_reserve_blocks = 3, reserve_pcnt = 0, label = None, no_journal = 1,
     uuid = []\<rparr>"

definition demo_aux :: fs_aux_info where
  "demo_aux = \<lparr>first_data_block = 1, len_blocks = 1024, inode_table_blocks = 4, groups = 1,
     bg_desc_blocks = 1, default_i_flags = 0, blocks_per_ind = 256, blocks_per_dind = 65536,
     blocks_per_tind = 16777216, bgs = [zero_bg]\<rparr>"

definition empty_image :: "u32 \<Rightarrow> image" where
  "empty_image bs = (\<lparr>cells = (\<lambda>_. None), brk = 0\<rparr>, backed_block_list_new bs)"

end
