(* ===== verification/Group_Alloc.thy ===== *)
theory Group_Alloc
  imports Block_Group
begin

text \<open>
  The allocation of data blocks in \<^verbatim>\<open>src/allocate.c\<close>: from one group
  (\<open>ext4_allocate_blocks_from_block_group\<close>), a single block from the first group that has one
  (\<open>allocate_block\<close>), and the choice of a group by best fit. The invariant \<open>groups_ok\<close> says that
  the free blocks of every group are one stretch; the locale \<open>block_source\<close> is what the rest
  of the program relies on when it takes blocks, and the groups are shown to provide it.
\<close>

section \<open>The code\<close>

definition ext4_allocate_blocks_from_block_group ::
  "bool \<Rightarrow> fs_aux_info \<Rightarrow> u32 \<Rightarrow> nat \<Rightarrow> (u32 \<times> fs_aux_info) res" where
  "ext4_allocate_blocks_from_block_group force aux n i =
     rbind (get_free_blocks aux i) (\<lambda>free.
     if free < n then Inr (EXT4_ALLOCATE_FAILED, aux) else
     rbind (rd (bgs aux) i) (\<lambda>bg.
     let block = first_free_block bg in
     rbind (reserve_blocks force bg (first_free_block bg) n) (\<lambda>(ret, bg).
     if ret < 0 then error_then force (Inr (EXT4_ALLOCATE_FAILED, set_bg aux i bg)) else
     let bg = bg\<lparr>data_blocks_used := data_blocks_used bg + n\<rparr> in
     Inr (first_block bg + block, set_bg aux i bg))))"

fun allocate_block_from :: "bool \<Rightarrow> fs_aux_info \<Rightarrow> nat list \<Rightarrow> (u32 \<times> fs_aux_info) res" where
  "allocate_block_from force aux [] = Inr (EXT4_ALLOCATE_FAILED, aux)"
| "allocate_block_from force aux (i # is) =
     rbind (ext4_allocate_blocks_from_block_group force aux 1 i) (\<lambda>(block, aux).
     if block \<noteq> EXT4_ALLOCATE_FAILED then Inr (block, aux) else allocate_block_from force aux is)"

definition allocate_block :: "bool \<Rightarrow> fs_aux_info \<Rightarrow> (u32 \<times> fs_aux_info) res" where
  "allocate_block force aux = allocate_block_from force aux [0..<unat (groups aux)]"

text \<open>The search loop of \<open>ext4_allocate_best_fit_partial\<close>: the group found so far and its free blocks.\<close>

fun best_fit_search :: "fs_aux_info \<Rightarrow> u32 \<Rightarrow> nat list \<Rightarrow> nat \<times> u32 \<Rightarrow> (nat \<times> u32) res" where
  "best_fit_search aux n [] found = Inr found"
| "best_fit_search aux n (i # is) (found_bg, found_bg_len) =
     rbind (rd (bgs aux) i) (\<lambda>bg.
     let bg_len = free_blocks bg in
     best_fit_search aux n is
       (if n \<le> bg_len \<and> (found_bg_len = 0 \<or> bg_len < found_bg_len)
           \<or> n > found_bg_len \<and> bg_len > found_bg_len
        then (i, bg_len) else (found_bg, found_bg_len)))"

definition get_directories :: "fs_aux_info \<Rightarrow> nat \<Rightarrow> u16 res" where
  "get_directories aux i = rbind (rd (bgs aux) i) (\<lambda>bg. Inr (used_dirs bg))"

definition get_bg_flags :: "fs_aux_info \<Rightarrow> nat \<Rightarrow> u16 res" where
  "get_bg_flags aux i = rbind (rd (bgs aux) i) (\<lambda>bg. Inr (bg_flags bg))"

section \<open>Best fit\<close>

text \<open>
  Among the free counts \<open>fs\<close> of the groups looked at, the search holds the smallest one that is
  at least \<open>n\<close>, or the largest one when all are smaller; 0 when all are 0.
\<close>

definition best_of :: "u32 \<Rightarrow> u32 list \<Rightarrow> u32 \<Rightarrow> bool" where
  "best_of n fs b \<longleftrightarrow> (if \<exists>f \<in> set fs. n \<le> f then b \<in> set fs \<and> n \<le> b \<and> (\<forall>f \<in> set fs. n \<le> f \<longrightarrow> b \<le> f)
     else (b \<in> set fs \<or> b = 0) \<and> (\<forall>f \<in> set fs. f \<le> b))"

lemma best_of_Nil: "0 < n \<Longrightarrow> best_of n [] 0"
  by (simp add: best_of_def)

lemma best_of_step:
  assumes "best_of n fs b" "0 < n"
  shows "best_of n (fs @ [f]) (if n \<le> f \<and> (b = 0 \<or> f < b) \<or> n > b \<and> f > b then f else b)"
proof (cases "\<exists>g \<in> set fs. n \<le> g")
  case True
  then have b: "b \<in> set fs" "n \<le> b" "\<forall>g \<in> set fs. n \<le> g \<longrightarrow> b \<le> g"
    using assms(1) unfolding best_of_def if_P [OF True] by blast+
  have c: "n \<le> f \<and> (b = 0 \<or> f < b) \<or> n > b \<and> f > b \<longleftrightarrow> n \<le> f \<and> f < b"
    using b(2) assms(2) by auto
  have ex: "\<exists>g \<in> set (fs @ [f]). n \<le> g" using True by simp
  show ?thesis unfolding best_of_def if_P [OF ex] c using b by (auto simp: not_less)
next
  case False
  then have b: "b \<in> set fs \<or> b = 0" "\<forall>g \<in> set fs. g \<le> b"
    using assms(1) unfolding best_of_def if_not_P [OF False] by blast+
  then have lt: "b < n" using False assms(2) by (auto simp: not_le)
  show ?thesis
  proof (cases "n \<le> f")
    case True
    then have c: "n \<le> f \<and> (b = 0 \<or> f < b) \<or> n > b \<and> f > b" using lt by auto
    have ex: "\<exists>g \<in> set (fs @ [f]). n \<le> g" using True by simp
    show ?thesis unfolding best_of_def if_P [OF ex] if_P [OF c] using True False by auto
  next
    case f: False
    have c: "n \<le> f \<and> (b = 0 \<or> f < b) \<or> n > b \<and> f > b \<longleftrightarrow> b < f" using f lt by auto
    have ex: "\<not> (\<exists>g \<in> set (fs @ [f]). n \<le> g)" using False f by simp
    show ?thesis unfolding best_of_def if_not_P [OF ex] c
    proof (cases "b < f")
      case True
      then have "g \<le> f" if "g \<in> set fs" for g using b(2) that by (meson le_less_trans less_imp_le)
      then show "((if b < f then f else b) \<in> set (fs @ [f]) \<or> (if b < f then f else b) = 0)
          \<and> (\<forall>fa \<in> set (fs @ [f]). fa \<le> (if b < f then f else b))" using True by simp
    qed (use b in \<open>auto simp: not_less\<close>)
  qed
qed

lemma best_fit_search_spec:
  assumes "\<forall>i \<in> set is. i < length (bgs aux)" "best_of n fs b" "0 < n"
    "b \<noteq> 0 \<longrightarrow> g < length (bgs aux) \<and> free_blocks (bgs aux ! g) = b"
  shows "\<exists>g' b'. best_fit_search aux n is (g, b) = Inr (g', b')
    \<and> best_of n (fs @ List.map (\<lambda>i. free_blocks (bgs aux ! i)) is) b'
    \<and> (b' \<noteq> 0 \<longrightarrow> g' < length (bgs aux) \<and> free_blocks (bgs aux ! g') = b')"
  using assms
proof (induction "is" arbitrary: g b fs)
  case (Cons i "is")
  let ?f = "free_blocks (bgs aux ! i)"
  let ?c = "n \<le> ?f \<and> (b = 0 \<or> ?f < b) \<or> n > b \<and> ?f > b"
  have i: "i < length (bgs aux)" using Cons.prems(1) by simp
  note step = best_of_step [OF Cons.prems(2,3), of ?f]
  show ?case
  proof (cases ?c)
    case True
    then have "best_of n (fs @ [?f]) ?f" using step by (simp only: if_True)
    moreover have "best_fit_search aux n (i # is) (g, b) = best_fit_search aux n is (i, ?f)"
      using i True by (simp only: best_fit_search.simps rd_in rbind_Inr Let_def if_True)
    ultimately show ?thesis using Cons.IH [of "fs @ [?f]" ?f i] Cons.prems(1,3) i by simp
  next
    case False
    then have "best_of n (fs @ [?f]) b" using step by (simp only: if_False)
    moreover have "best_fit_search aux n (i # is) (g, b) = best_fit_search aux n is (g, b)"
      using i False by (simp only: best_fit_search.simps rd_in rbind_Inr Let_def if_False)
    ultimately show ?thesis using Cons.IH [of "fs @ [?f]" b g] Cons.prems(1,3,4) by simp
  qed
qed auto

section \<open>Taking blocks\<close>

text \<open>
  What a source of blocks promises: a successful request takes a range out of the free blocks,
  a failed one changes nothing.
\<close>

locale block_source =
  fixes take_blocks :: "'s \<Rightarrow> u32 \<Rightarrow> 'k \<Rightarrow> (u32 \<times> 's) res"
    and inv :: "'s \<Rightarrow> bool"
    and free_set :: "'s \<Rightarrow> nat set"
  assumes take_ok: "inv s \<Longrightarrow> take_blocks s n k = Inr (b, s') \<Longrightarrow> b \<noteq> EXT4_ALLOCATE_FAILED \<Longrightarrow>
      inv s' \<and> {unat b..<unat b + unat n} \<subseteq> free_set s
      \<and> free_set s' = free_set s - {unat b..<unat b + unat n}"
    and take_failed: "inv s \<Longrightarrow> take_blocks s n k = Inr (EXT4_ALLOCATE_FAILED, s') \<Longrightarrow> s' = s"

text \<open>The ranges \<open>rs\<close> were taken one after the other.\<close>

inductive taken ::
  "('s \<Rightarrow> u32 \<Rightarrow> 'k \<Rightarrow> (u32 \<times> 's) res) \<Rightarrow> 's \<Rightarrow> (u32 \<times> u32) list \<Rightarrow> 's \<Rightarrow> bool" for f where
  nothing: "taken f s [] s"
| more: "f s n k = Inr (b, s') \<Longrightarrow> b \<noteq> EXT4_ALLOCATE_FAILED \<Longrightarrow> taken f s' rs s'' \<Longrightarrow>
    taken f s ((b, n) # rs) s''"

definition range_of :: "u32 \<times> u32 \<Rightarrow> nat set" where
  "range_of r = {unat (fst r)..<unat (fst r) + unat (snd r)}"

fun disjoint_ranges :: "(u32 \<times> u32) list \<Rightarrow> bool" where
  "disjoint_ranges [] = True"
| "disjoint_ranges (r # rs) = (range_of r \<inter> (\<Union>q \<in> set rs. range_of q) = {} \<and> disjoint_ranges rs)"

context block_source
begin

lemma taken_ranges:
  assumes "taken take_blocks s rs s'" "inv s"
  shows "inv s' \<and> disjoint_ranges rs \<and> (\<Union>r \<in> set rs. range_of r) \<subseteq> free_set s
    \<and> free_set s' = free_set s - (\<Union>r \<in> set rs. range_of r)"
  using assms
proof (induction rule: taken.induct)
  case (more s n k b s' rs s'')
  from take_ok [OF more.prems more.hyps(1,2)]
  have t: "inv s'" "range_of (b, n) \<subseteq> free_set s" "free_set s' = free_set s - range_of (b, n)"
    by (simp_all add: range_of_def)
  from more.IH [OF t(1)] t(2,3) show ?case by auto
qed simp

end

section \<open>The groups as a source of blocks\<close>

definition group_free :: "block_group_info \<Rightarrow> nat set" where
  "group_free bg = {unat (first_block bg) + unat (first_free_block bg)
     ..<unat (first_block bg) + unat (first_free_block bg) + unat (free_blocks bg)}"

definition blocks_free :: "fs_aux_info \<Rightarrow> nat set" where
  "blocks_free aux = (\<Union>i < length (bgs aux). group_free (bgs aux ! i))"

definition group_end :: "block_group_info \<Rightarrow> nat" where
  "group_end bg = unat (first_block bg) + unat (first_free_block bg) + unat (free_blocks bg)"

definition groups_ok :: "nat \<Rightarrow> fs_aux_info \<Rightarrow> bool" where
  "groups_ok bs aux \<longleftrightarrow> length (bgs aux) = unat (groups aux)
     \<and> (\<forall>i < length (bgs aux). blocks_ok bs (bgs aux ! i) \<and> group_end (bgs aux ! i) < 4294967295)
     \<and> (\<forall>j < length (bgs aux). \<forall>i < j. group_end (bgs aux ! i) \<le> unat (first_block (bgs aux ! j)))"

lemma groups_ok_bg:
  "groups_ok bs aux \<Longrightarrow> i < length (bgs aux) \<Longrightarrow>
    blocks_ok bs (bgs aux ! i) \<and> group_end (bgs aux ! i) < 4294967295"
  by (simp add: groups_ok_def)

lemma group_free_disjoint:
  assumes "groups_ok bs aux" "i < length (bgs aux)" "j < length (bgs aux)" "i \<noteq> j"
  shows "group_free (bgs aux ! i) \<inter> group_free (bgs aux ! j) = {}"
proof -
  have "i < j \<Longrightarrow> ?thesis" and "j < i \<Longrightarrow> ?thesis"
    using assms by (auto simp: groups_ok_def group_free_def group_end_def) fastforce+
  then show ?thesis using assms(4) by linarith
qed

lemma set_bg_sel [simp]: "bgs (set_bg aux i bg) = (bgs aux)[i := bg]" "groups (set_bg aux i bg) = groups aux"
  by (simp_all add: set_bg_def)

lemma take_from_group:
  assumes ok: "groups_ok bs aux" and i: "i < length (bgs aux)" and n: "n \<le> free_blocks (bgs aux ! i)"
  obtains bg' where "ext4_allocate_blocks_from_block_group force aux n i
      = Inr (first_block (bgs aux ! i) + first_free_block (bgs aux ! i), set_bg aux i bg')"
    "blocks_ok bs bg'" "first_block bg' = first_block (bgs aux ! i)"
    "unat (first_free_block bg') = unat (first_free_block (bgs aux ! i)) + unat n"
    "unat (free_blocks bg') = unat (free_blocks (bgs aux ! i)) - unat n"
proof -
  define bg where "bg = bgs aux ! i"
  have bg: "blocks_ok bs bg" and n': "n \<le> free_blocks bg"
    using groups_ok_bg [OF ok i] n by (simp_all add: bg_def)
  from reserve_first_free [OF bg n', of force] obtain bm' where
    r: "reserve_blocks force bg (first_free_block bg) n = Inr (0, bg\<lparr>bitmaps := bm',
      free_blocks := free_blocks bg - n, first_free_block := first_free_block bg + n\<rparr>)"
    "blocks_ok bs (bg\<lparr>bitmaps := bm', free_blocks := free_blocks bg - n,
       first_free_block := first_free_block bg + n\<rparr>)"
    by blast
  have lim: "unat (first_free_block bg) + unat (free_blocks bg) \<le> 8 * bs" "16 * bs + 8 < 4294967296"
    "unat n \<le> unat (free_blocks bg)"
    using bg n' by (simp_all add: blocks_ok_def word_le_nat_alt)
  have u: "unat (first_free_block bg + n) = unat (first_free_block bg) + unat n"
    "unat (free_blocks bg - n) = unat (free_blocks bg) - unat n"
    using lim n' by (auto intro!: unat_add_small simp: unat_sub)
  have "\<not> free_blocks bg < n" using n' by simp
  then have "ext4_allocate_blocks_from_block_group force aux n i
      = Inr (first_block bg + first_free_block bg, set_bg aux i (bg\<lparr>bitmaps := bm',
      free_blocks := free_blocks bg - n, first_free_block := first_free_block bg + n,
      data_blocks_used := data_blocks_used bg + n\<rparr>))"
    using i r(1) by (simp add: ext4_allocate_blocks_from_block_group_def get_free_blocks_def
        bg_def [symmetric] Let_def)
  moreover have "blocks_ok bs (bg\<lparr>bitmaps := bm', free_blocks := free_blocks bg - n,
      first_free_block := first_free_block bg + n, data_blocks_used := data_blocks_used bg + n\<rparr>)"
    using r(2) by (simp add: blocks_ok_def)
  ultimately show thesis
    by (rule that [folded bg_def]) (simp_all add: u)
qed

lemma groups_ok_set_bg:
  assumes ok: "groups_ok bs aux" and i: "i < length (bgs aux)" and bg: "blocks_ok bs bg'"
    "first_block bg' = first_block (bgs aux ! i)" "group_end bg' = group_end (bgs aux ! i)"
  shows "groups_ok bs (set_bg aux i bg')"
  using ok i bg unfolding groups_ok_def by (auto simp: nth_list_update)

lemma blocks_free_set_bg:
  assumes ok: "groups_ok bs aux" and i: "i < length (bgs aux)"
    and sub: "group_free bg' = group_free (bgs aux ! i) - R" "R \<subseteq> group_free (bgs aux ! i)"
  shows "blocks_free (set_bg aux i bg') = blocks_free aux - R"
proof -
  have "group_free (bgs aux ! j) \<inter> R = {}" if "j < length (bgs aux)" "j \<noteq> i" for j
    using group_free_disjoint [OF ok that(1) i that(2)] sub(2) by blast
  then have "group_free ((bgs aux)[i := bg'] ! j) = group_free (bgs aux ! j) - R"
    if "j < length (bgs aux)" for j
    using that i sub(1) by (cases "j = i") auto
  then show ?thesis unfolding blocks_free_def by auto
qed

lemma group_source:
  assumes ok: "groups_ok bs aux"
    and take: "ext4_allocate_blocks_from_block_group force aux n i = Inr (b, aux')"
  shows "if b = EXT4_ALLOCATE_FAILED then aux' = aux \<and> free_blocks (bgs aux ! i) < n
    else i < length (bgs aux) \<and> groups_ok bs aux' \<and> n \<le> free_blocks (bgs aux ! i)
      \<and> unat b = unat (first_block (bgs aux ! i)) + unat (first_free_block (bgs aux ! i))
      \<and> {unat b..<unat b + unat n} \<subseteq> blocks_free aux
      \<and> blocks_free aux' = blocks_free aux - {unat b..<unat b + unat n}"
proof -
  have i: "i < length (bgs aux)"
    using take by (auto simp: ext4_allocate_blocks_from_block_group_def get_free_blocks_def rd_def split: if_splits)
  let ?bg = "bgs aux ! i"
  show ?thesis
  proof (cases "n \<le> free_blocks ?bg")
    case False
    then show ?thesis using take i
      by (auto simp: ext4_allocate_blocks_from_block_group_def get_free_blocks_def not_le)
  next
    case True
    obtain bg' where r: "ext4_allocate_blocks_from_block_group force aux n i
        = Inr (first_block ?bg + first_free_block ?bg, set_bg aux i bg')"
      "blocks_ok bs bg'" "first_block bg' = first_block ?bg"
      "unat (first_free_block bg') = unat (first_free_block ?bg) + unat n"
      "unat (free_blocks bg') = unat (free_blocks ?bg) - unat n"
      by (rule take_from_group [OF ok i True])
    have le: "unat n \<le> unat (free_blocks ?bg)" using True by (simp add: word_le_nat_alt)
    have ge: "group_end ?bg < 4294967295" using groups_ok_bg [OF ok i] by simp
    have b: "b = first_block ?bg + first_free_block ?bg" "aux' = set_bg aux i bg'" using take r(1) by auto
    have ub: "unat b = unat (first_block ?bg) + unat (first_free_block ?bg)"
      unfolding b using ge by (intro unat_add_small) (simp add: group_end_def)
    then have "unat b < 4294967295" using ge by (simp add: group_end_def)
    then have nf: "b \<noteq> EXT4_ALLOCATE_FAILED" by auto
    have R: "{unat b..<unat b + unat n} \<subseteq> group_free ?bg"
      "group_free bg' = group_free ?bg - {unat b..<unat b + unat n}"
      using le unfolding group_free_def ub r(3,4,5) by auto
    have "group_end bg' = group_end ?bg" using le by (simp add: group_end_def r)
    then have "groups_ok bs aux'" unfolding b by (intro groups_ok_set_bg [OF ok i r(2,3)])
    moreover have "blocks_free aux' = blocks_free aux - {unat b..<unat b + unat n}"
      unfolding b(2) by (rule blocks_free_set_bg [OF ok i R(2,1)])
    moreover have "group_free ?bg \<subseteq> blocks_free aux" using i by (auto simp: blocks_free_def)
    ultimately show ?thesis using nf i True ub R(1) by auto
  qed
qed

interpretation group_blocks: block_source "ext4_allocate_blocks_from_block_group force" "groups_ok bs" blocks_free
  for force bs
proof (unfold_locales, goal_cases)
  case (1 s n k b s')
  show ?case using group_source [OF 1(1,2), unfolded if_not_P [OF 1(3)]]
    by (elim conjE) (intro conjI)
next
  case (2 s n k s')
  show ?case using group_source [OF 2, unfolded if_P [OF refl]] by (elim conjE)
qed

section \<open>A single block\<close>

lemma no_free_blocks:
  assumes "groups_ok bs aux"
  shows "blocks_free aux = {} \<longleftrightarrow> (\<forall>i < length (bgs aux). free_blocks (bgs aux ! i) = 0)"
  by (auto simp: blocks_free_def group_free_def unat_eq_0 Suc_le_eq unat_gt_0)

lemma allocate_block_from_spec:
  assumes ok: "groups_ok bs aux" and none: "\<forall>i < k. free_blocks (bgs aux ! i) = 0"
    and k: "k \<le> length (bgs aux)"
  shows "\<exists>b aux'. allocate_block_from force aux [k..<length (bgs aux)] = Inr (b, aux')
    \<and> (if \<forall>i < length (bgs aux). free_blocks (bgs aux ! i) = 0 then b = EXT4_ALLOCATE_FAILED \<and> aux' = aux
       else groups_ok bs aux' \<and> unat b \<in> blocks_free aux \<and> (\<forall>x \<in> blocks_free aux. unat b \<le> x)
         \<and> blocks_free aux' = blocks_free aux - {unat b})"
  using none k
proof (induction "length (bgs aux) - k" arbitrary: k)
  case 0
  then have "k = length (bgs aux)" by simp
  then show ?case using 0 by auto
next
  case (Suc n)
  then have lt: "k < length (bgs aux)" by simp
  have u: "[k..<length (bgs aux)] = k # [Suc k..<length (bgs aux)]" using lt by (rule upt_conv_Cons)
  let ?bg = "bgs aux ! k"
  show ?case
  proof (cases "free_blocks ?bg = 0")
    case True
    have "ext4_allocate_blocks_from_block_group force aux 1 k = Inr (EXT4_ALLOCATE_FAILED, aux)"
      using lt True by (simp add: ext4_allocate_blocks_from_block_group_def get_free_blocks_def)
    then have e: "allocate_block_from force aux [k..<length (bgs aux)]
        = allocate_block_from force aux [Suc k..<length (bgs aux)]"
      unfolding u by simp
    have "n = length (bgs aux) - Suc k" "\<forall>i < Suc k. free_blocks (bgs aux ! i) = 0"
      using Suc.hyps(2) Suc.prems(1) True by (auto simp: less_Suc_eq)
    from Suc.hyps(1) [OF this] lt show ?thesis unfolding e by simp
  next
    case False
    then have one: "1 \<le> free_blocks ?bg" by (simp add: word_le_nat_alt Suc_le_eq unat_gt_0)
    obtain bg' where "ext4_allocate_blocks_from_block_group force aux 1 k
        = Inr (first_block ?bg + first_free_block ?bg, set_bg aux k bg')"
      by (rule take_from_group [OF ok lt one])
    then obtain b aux' where r: "ext4_allocate_blocks_from_block_group force aux 1 k = Inr (b, aux')"
      by blast
    have nf: "b \<noteq> EXT4_ALLOCATE_FAILED"
    proof
      assume "b = EXT4_ALLOCATE_FAILED"
      with group_source [OF ok r] have "free_blocks ?bg < 1" by simp
      with one show False by simp
    qed
    note g = group_source [OF ok r, unfolded if_not_P [OF nf]]
    have "allocate_block_from force aux [k..<length (bgs aux)] = Inr (b, aux')"
      unfolding u using r nf by simp
    moreover have "unat b \<le> x" if x: "x \<in> blocks_free aux" for x
    proof -
      obtain j where j: "j < length (bgs aux)" "x \<in> group_free (bgs aux ! j)"
        using x unfolding blocks_free_def by blast
      have "\<not> j < k"
      proof
        assume "j < k"
        then have "free_blocks (bgs aux ! j) = 0" using Suc.prems(1) by simp
        then show False using j(2) by (simp add: group_free_def)
      qed
      then consider "j = k" | "k < j" by linarith
      then show ?thesis
      proof cases
        case 1
        then show ?thesis using j(2) g by (simp add: group_free_def)
      next
        case 2
        then have "group_end ?bg \<le> unat (first_block (bgs aux ! j))" using ok j(1) by (simp add: groups_ok_def)
        then show ?thesis using j(2) g by (simp add: group_free_def group_end_def)
      qed
    qed
    moreover have "{unat b..<unat b + unat (1 :: u32)} = {unat b}" by auto
    ultimately show ?thesis using g False lt by auto
  qed
qed

text \<open>C27: \<open>allocate_block\<close> returns the lowest free block of the file system and takes it out; when no
  block is free it reports the failure and changes nothing.\<close>

theorem allocate_block_lowest:
  assumes "groups_ok bs aux"
  shows "\<exists>b aux'. allocate_block force aux = Inr (b, aux') \<and> groups_ok bs aux'
    \<and> (if blocks_free aux = {} then b = EXT4_ALLOCATE_FAILED \<and> aux' = aux
       else unat b \<in> blocks_free aux \<and> (\<forall>x \<in> blocks_free aux. unat b \<le> x)
         \<and> blocks_free aux' = blocks_free aux - {unat b})"
proof -
  have "unat (groups aux) = length (bgs aux)" using assms by (simp add: groups_ok_def)
  moreover obtain b aux' where "allocate_block_from force aux [0..<length (bgs aux)] = Inr (b, aux')"
    "if blocks_free aux = {} then b = EXT4_ALLOCATE_FAILED \<and> aux' = aux
       else groups_ok bs aux' \<and> unat b \<in> blocks_free aux \<and> (\<forall>x \<in> blocks_free aux. unat b \<le> x)
         \<and> blocks_free aux' = blocks_free aux - {unat b}"
    using allocate_block_from_spec [OF assms, of 0 force] unfolding no_free_blocks [OF assms] by auto
  ultimately show ?thesis
    using assms unfolding allocate_block_def by (cases "blocks_free aux = {}") auto
qed

definition demo_group :: "u32 \<Rightarrow> u32 \<Rightarrow> block_group_info" where
  "demo_group first n = zero_bg\<lparr>first_block := first, bitmaps := [0, 0], free_blocks := n\<rparr>"

definition demo_groups :: fs_aux_info where
  "demo_groups = demo_aux\<lparr>groups := 3, bgs := [demo_group 8 0, demo_group 16 5, demo_group 24 8]\<rparr>"

lemma demo_group_ok: "n \<le> 8 \<Longrightarrow> blocks_ok (Suc 0) (demo_group f n)"
proof -
  assume "n \<le> 8"
  then have "unat n \<le> 8" by (simp add: word_le_nat_alt)
  moreover have "bm_bit [0, 0] k = False" for k by (simp add: bm_bit_def nth_Cons split: nat.splits)
  ultimately show ?thesis by (simp add: blocks_ok_def demo_group_def zero_bg_def)
qed

lemma demo_groups_ok: "groups_ok 1 demo_groups"
proof -
  have g: "group_end (demo_group 8 0) = 8" "group_end (demo_group 16 5) = 21" "group_end (demo_group 24 8) = 32"
    "first_block (demo_group 16 5) = 16" "first_block (demo_group 24 8) = 24"
    by (simp_all add: group_end_def demo_group_def zero_bg_def)
  have n: "i < 3 \<longleftrightarrow> i = 0 \<or> i = 1 \<or> i = 2" "i < 2 \<longleftrightarrow> i = 0 \<or> i = 1" for i :: nat by auto
  have l: "bgs demo_groups = [demo_group 8 0, demo_group 16 5, demo_group 24 8]" "groups demo_groups = 3"
    by (simp_all add: demo_groups_def)
  show ?thesis
    unfolding groups_ok_def l by (auto simp: n g demo_group_ok nth_Cons' less_Suc_eq)
qed

lemma allocate_block_lowest_witness:
  "\<exists>b aux'. allocate_block False demo_groups = Inr (b, aux') \<and> groups_ok 1 aux'
    \<and> unat b \<in> blocks_free demo_groups"
proof -
  have "16 \<in> blocks_free demo_groups"
    by (auto simp: blocks_free_def demo_groups_def group_free_def demo_group_def zero_bg_def
        intro!: bexI [of _ 1])
  then have "blocks_free demo_groups \<noteq> {}" by blast
  with allocate_block_lowest [OF demo_groups_ok, of False] show ?thesis by auto
qed

end
