(* ===== verification/C_Text.thy ===== *)
theory C_Text
  imports Ext4_Prelude
begin

text \<open>
  The part of the C library that the text handling of the program uses: character classes in
  the C locale, decimal output (\<open>%d\<close>, \<open>%u\<close>) and \<open>strtoull\<close> in base 10. A string is the list of
  its characters without the terminating zero.
\<close>

section \<open>Character classes\<close>

abbreviation code :: "char \<Rightarrow> nat" where "code c \<equiv> of_char c"

definition isdigit :: "char \<Rightarrow> bool" where
  "isdigit c \<longleftrightarrow> 48 \<le> code c \<and> code c \<le> 57"

definition isxdigit :: "char \<Rightarrow> bool" where
  "isxdigit c \<longleftrightarrow> isdigit c \<or> 97 \<le> code c \<and> code c \<le> 102 \<or> 65 \<le> code c \<and> code c \<le> 70"

definition isspace :: "char \<Rightarrow> bool" where
  "isspace c \<longleftrightarrow> code c = 32 \<or> 9 \<le> code c \<and> code c \<le> 13"

definition isalpha :: "char \<Rightarrow> bool" where
  "isalpha c \<longleftrightarrow> 97 \<le> code c \<and> code c \<le> 122 \<or> 65 \<le> code c \<and> code c \<le> 90"

definition ispunct :: "char \<Rightarrow> bool" where
  "ispunct c \<longleftrightarrow> 33 \<le> code c \<and> code c \<le> 126 \<and> \<not> isdigit c \<and> \<not> isalpha c"

section \<open>Decimal numbers\<close>

fun dec_nat :: "nat \<Rightarrow> string" where
  "dec_nat n = (if n < 10 then [] else dec_nat (n div 10)) @ [char_of (48 + n mod 10)]"

declare dec_nat.simps [simp del]

definition dec_int :: "int \<Rightarrow> string" where
  "dec_int i = (if i < 0 then ''-'' @ dec_nat (nat (- i)) else dec_nat (nat i))"

text \<open>The value of a run of digits, and the run at the start of a string.\<close>

definition digits_val :: "string \<Rightarrow> nat" where
  "digits_val ds = foldl (\<lambda>n d. 10 * n + (code d - 48)) 0 ds"

text \<open>
  \<open>strtoull(s, &end, 10)\<close>: white space, a sign, digits. Without digits the result is 0 and \<open>end\<close> is
  the string itself; a value too large is \<open>ULLONG_MAX\<close>; a minus sign negates modulo \<open>2 ^ 64\<close>.
\<close>

definition strtoull10 :: "string \<Rightarrow> u64 \<times> string" where
  "strtoull10 s =
     (let t = dropWhile isspace s;
          neg = (t \<noteq> [] \<and> hd t = CHR ''-'');
          u = (if t \<noteq> [] \<and> (hd t = CHR ''-'' \<or> hd t = CHR ''+'') then tl t else t);
          ds = takeWhile isdigit u; n = digits_val ds in
      if ds = [] then (0, s)
      else ((if n \<ge> 2 ^ 64 then - 1 else if neg then - of_nat n else of_nat n), dropWhile isdigit u))"

text \<open>A printed number reads back as itself.\<close>

lemma digits_val_snoc: "digits_val (ds @ [d]) = 10 * digits_val ds + (code d - 48)"
  by (simp add: digits_val_def)

lemma code_digit: "d < 10 \<Longrightarrow> code (char_of (48 + d) :: char) = (48 + d :: nat)"
  by simp

lemma dec_nat_val: "digits_val (dec_nat n) = n"
proof (induction n rule: dec_nat.induct)
  case (1 n)
  have d: "code (char_of (48 + n mod 10) :: char) = (48 + n mod 10 :: nat)" by (rule code_digit) simp
  show ?case
  proof (cases "n < 10")
    case True
    then show ?thesis using d by (subst dec_nat.simps) (simp add: digits_val_def)
  next
    case False
    then show ?thesis using 1 d by (subst dec_nat.simps) (simp add: digits_val_snoc)
  qed
qed

lemma dec_nat_digits: "\<forall>c \<in> set (dec_nat n). isdigit c"
proof (induction n rule: dec_nat.induct)
  case (1 n)
  have "isdigit (char_of (48 + n mod 10))" using code_digit [of "n mod 10"] by (simp add: isdigit_def)
  then show ?case using 1 by (subst dec_nat.simps) auto
qed

lemma dec_nat_nonempty [simp]: "dec_nat n \<noteq> []"
  by (subst dec_nat.simps) simp

lemma strtoull10_dec_nat:
  assumes "n < 2 ^ 64" "r = [] \<or> \<not> isdigit (hd r)"
  shows "strtoull10 (dec_nat n @ r) = (of_nat n, r)"
proof -
  have h: "isdigit (hd (dec_nat n))" using dec_nat_digits [of n] hd_in_set [OF dec_nat_nonempty, of n] by blast
  then have ns: "\<not> isspace (hd (dec_nat n))" "hd (dec_nat n) \<noteq> CHR ''-''" "hd (dec_nat n) \<noteq> CHR ''+''"
    by (auto simp: isdigit_def isspace_def)
  obtain c s where cs: "dec_nat n = c # s" by (cases "dec_nat n") auto
  have "dropWhile isspace (dec_nat n @ r) = dec_nat n @ r" using ns(1) by (simp add: cs)
  moreover have "takeWhile isdigit (dec_nat n @ r) = dec_nat n" "dropWhile isdigit (dec_nat n @ r) = r"
    using dec_nat_digits [of n] assms(2)
    by (cases r; simp add: takeWhile_append dropWhile_append takeWhile_eq_all_conv dropWhile_eq_Nil_conv)+
  ultimately show ?thesis
    using ns(2,3) assms(1) dec_nat_val [of n] by (simp add: strtoull10_def Let_def cs)
qed

end
