(* ===== verification/Regions.thy ===== *)
theory Regions
  imports Heap_Lists Group_Alloc C_Text
begin

text \<open>
  \<^verbatim>\<open>struct block_allocation\<close> of \<^verbatim>\<open>src/allocate.h\<close>: the regions that hold the blocks of a file, a doubly
  linked list on the heap with its own read position, and a second list for the blocks
  that hold the block map itself (out of band). All the list operations of \<^verbatim>\<open>src/allocate.c\<close> are
  here as they are written, including the fields they leave stale; the position of a list
  and the pointers to its ends are the code's. A loop along \<open>next\<close> has the number of cells
  that ever existed as fuel.
\<close>

section \<open>State\<close>

record region =
  reg_block :: u32
  reg_len :: u32
  reg_bg :: nat
  reg_next :: "nat option"
  reg_prev :: "nat option"

type_synonym reg_mem = "region mem"

record region_list =
  rl_first :: "nat option"
  rl_last :: "nat option"
  rl_iter :: "nat option"
  partial_iter :: u32

record block_allocation =
  main_list :: region_list
  oob_list :: region_list
  alloc_filename :: "string option"
  alloc_next :: "nat option"

definition empty_region_list :: region_list where
  "empty_region_list = \<lparr>rl_first = None, rl_last = None, rl_iter = None, partial_iter = 0\<rparr>"

definition create_allocation :: block_allocation where
  "create_allocation = \<lparr>main_list = empty_region_list, oob_list = empty_region_list,
     alloc_filename = None, alloc_next = None\<rparr>"

section \<open>List primitives\<close>

definition region_list_remove :: "reg_mem \<Rightarrow> region_list \<Rightarrow> nat \<Rightarrow> (reg_mem \<times> region_list) res" where
  "region_list_remove m rl reg =
     rbind (load m reg) (\<lambda>r.
     rbind (case reg_prev r of None \<Rightarrow> Inr m
            | Some p \<Rightarrow> rbind (load m p) (\<lambda>c. store m p (c\<lparr>reg_next := reg_next r\<rparr>))) (\<lambda>m.
     rbind (load m reg) (\<lambda>r.
     rbind (case reg_next r of None \<Rightarrow> Inr m
            | Some n \<Rightarrow> rbind (load m n) (\<lambda>c. store m n (c\<lparr>reg_prev := reg_prev r\<rparr>))) (\<lambda>m.
     rbind (load m reg) (\<lambda>r.
     let rl = (if rl_first rl = Some reg then rl\<lparr>rl_first := reg_next r\<rparr> else rl);
         rl = (if rl_last rl = Some reg then rl\<lparr>rl_last := reg_prev r\<rparr> else rl) in
     rbind (store m reg (r\<lparr>reg_next := None, reg_prev := None\<rparr>)) (\<lambda>m. Inr (m, rl)))))))"

definition region_list_append :: "reg_mem \<Rightarrow> region_list \<Rightarrow> nat \<Rightarrow> (reg_mem \<times> region_list) res" where
  "region_list_append m rl reg =
     rbind (if rl_first rl = None then
              rbind (load m reg) (\<lambda>r. rbind (store m reg (r\<lparr>reg_prev := None\<rparr>)) (\<lambda>m.
              Inr (m, rl\<lparr>rl_first := Some reg, rl_last := Some reg, rl_iter := Some reg, partial_iter := 0\<rparr>)))
            else
              rbind (deref (rl_last rl)) (\<lambda>l. rbind (load m l) (\<lambda>c.
              rbind (store m l (c\<lparr>reg_next := Some reg\<rparr>)) (\<lambda>m.
              rbind (load m reg) (\<lambda>r. rbind (store m reg (r\<lparr>reg_prev := rl_last rl\<rparr>)) (\<lambda>m.
              Inr (m, rl\<lparr>rl_last := Some reg\<rparr>))))))) (\<lambda>(m, rl).
     rbind (load m reg) (\<lambda>r. rbind (store m reg (r\<lparr>reg_next := None\<rparr>)) (\<lambda>m. Inr (m, rl))))"

text \<open>\<open>reg->prev\<close> is set by \<open>region_list_append\<close>; \<open>malloc\<close> leaves it undefined until then.\<close>

definition append_region ::
  "reg_mem \<Rightarrow> block_allocation \<Rightarrow> u32 \<Rightarrow> u32 \<Rightarrow> nat \<Rightarrow> (reg_mem \<times> block_allocation) res" where
  "append_region m alloc block n bg =
     (let (reg, m) = malloc_cell m
        \<lparr>reg_block = block, reg_len = n, reg_bg = bg, reg_next = None, reg_prev = None\<rparr> in
      rbind (region_list_append m (main_list alloc) reg) (\<lambda>(m, rl). Inr (m, alloc\<lparr>main_list := rl\<rparr>)))"

section \<open>Walks\<close>

fun regions_count :: "nat \<Rightarrow> reg_mem \<Rightarrow> nat option \<Rightarrow> u32 \<Rightarrow> u32 res" where
  "regions_count fuel m None i = Inr i"
| "regions_count 0 m (Some reg) i = Inl Diverge"
| "regions_count (Suc fuel) m (Some reg) i =
     rbind (load m reg) (\<lambda>r. regions_count fuel m (reg_next r) (i + 1))"

definition block_allocation_num_regions :: "reg_mem \<Rightarrow> block_allocation \<Rightarrow> u32 res" where
  "block_allocation_num_regions m alloc = regions_count (brk m) m (rl_first (main_list alloc)) 0"

fun regions_len :: "nat \<Rightarrow> reg_mem \<Rightarrow> nat option \<Rightarrow> u32 \<Rightarrow> u32 res" where
  "regions_len fuel m None i = Inr i"
| "regions_len 0 m (Some reg) i = Inl Diverge"
| "regions_len (Suc fuel) m (Some reg) i =
     rbind (load m reg) (\<lambda>r. regions_len fuel m (reg_next r) (i + reg_len r))"

definition block_allocation_len :: "reg_mem \<Rightarrow> block_allocation \<Rightarrow> u32 res" where
  "block_allocation_len m alloc = regions_len (brk m) m (rl_first (main_list alloc)) 0"

fun regions_find :: "nat \<Rightarrow> reg_mem \<Rightarrow> nat option \<Rightarrow> u32 \<Rightarrow> u32 res" where
  "regions_find fuel m None block = Inr EXT4_ALLOCATE_FAILED"
| "regions_find 0 m (Some reg) block = Inl Diverge"
| "regions_find (Suc fuel) m (Some reg) block =
     rbind (load m reg) (\<lambda>r.
     if block < reg_len r then Inr (reg_block r + block)
     else regions_find fuel m (reg_next r) (block - reg_len r))"

definition get_block :: "reg_mem \<Rightarrow> block_allocation \<Rightarrow> u32 \<Rightarrow> u32 res" where
  "get_block m alloc block =
     regions_find (brk m) m (rl_iter (main_list alloc)) (block + partial_iter (main_list alloc))"

definition get_oob_block :: "reg_mem \<Rightarrow> block_allocation \<Rightarrow> u32 \<Rightarrow> u32 res" where
  "get_oob_block m alloc block =
     regions_find (brk m) m (rl_iter (oob_list alloc)) (block + partial_iter (oob_list alloc))"

definition get_region :: "reg_mem \<Rightarrow> block_allocation \<Rightarrow> (u32 \<times> u32) res" where
  "get_region m alloc =
     rbind (deref (rl_iter (main_list alloc))) (\<lambda>i. rbind (load m i) (\<lambda>r.
     Inr (reg_block r, reg_len r - partial_iter (main_list alloc))))"

definition get_next_region :: "reg_mem \<Rightarrow> block_allocation \<Rightarrow> block_allocation res" where
  "get_next_region m alloc =
     rbind (deref (rl_iter (main_list alloc))) (\<lambda>i. rbind (load m i) (\<lambda>r.
     Inr (alloc\<lparr>main_list := (main_list alloc)\<lparr>rl_iter := reg_next r, partial_iter := 0\<rparr>\<rparr>)))"

definition last_region :: "block_allocation \<Rightarrow> bool" where
  "last_region alloc \<longleftrightarrow> rl_iter (main_list alloc) = None"

definition rewind_alloc :: "block_allocation \<Rightarrow> block_allocation" where
  "rewind_alloc alloc = alloc\<lparr>main_list := (main_list alloc)\<lparr>rl_iter := rl_first (main_list alloc),
     partial_iter := 0\<rparr>\<rparr>"

text \<open>The line printed for a file of the block list; \<open>%d\<close> reads the numbers as signed.\<close>

fun print_regions :: "nat \<Rightarrow> reg_mem \<Rightarrow> nat option \<Rightarrow> string res" where
  "print_regions fuel m None = Inr [CHR 0x0A]"
| "print_regions 0 m (Some reg) = Inl Diverge"
| "print_regions (Suc fuel) m (Some reg) =
     rbind (load m reg) (\<lambda>r.
     rbind (print_regions fuel m (reg_next r)) (\<lambda>s.
     Inr ((if reg_len r = 1 then '' '' @ dec_int (sint (reg_block r))
           else '' '' @ dec_int (sint (reg_block r)) @ ''-''
                @ dec_int (sint (reg_block r + reg_len r - 1))) @ s)))"

definition print_blocks :: "reg_mem \<Rightarrow> block_allocation \<Rightarrow> string res" where
  "print_blocks m alloc = print_regions (brk m) m (rl_first (main_list alloc))"

section \<open>Allocating\<close>

text \<open>
  \<open>ext4_allocate_best_fit_partial\<close> returns the new region or \<open>None\<close>. With \<open>force\<close> the errors fall
  through to \<open>return NULL\<close>.
\<close>

definition ext4_allocate_best_fit_partial ::
  "bool \<Rightarrow> fs_aux_info \<Rightarrow> reg_mem \<Rightarrow> u32 \<Rightarrow> (nat option \<times> reg_mem \<times> fs_aux_info) res" where
  "ext4_allocate_best_fit_partial force aux m n =
     rbind (best_fit_search aux n [0..<unat (groups aux)] (0, 0)) (\<lambda>(found_bg, found_bg_len).
     if found_bg_len \<noteq> 0 then
       let allocate_len = min n found_bg_len in
       rbind (ext4_allocate_blocks_from_block_group force aux allocate_len found_bg) (\<lambda>(block, aux).
       if block = EXT4_ALLOCATE_FAILED then error_then force (Inr (None, m, aux)) else
       let (reg, m) = malloc_cell m \<lparr>reg_block = block, reg_len = allocate_len, reg_bg = found_bg,
             reg_next = None, reg_prev = None\<rparr> in
       Inr (Some reg, m, aux))
     else error_then force (Inr (None, m, aux)))"

text \<open>
  The loop of \<open>ext4_allocate_best_fit\<close>. Every round but the last empties a group that had a
  free block, so the number of groups bounds it.
\<close>

definition link_region :: "reg_mem \<Rightarrow> nat option \<Rightarrow> nat \<Rightarrow> reg_mem res" where
  "link_region m prev_reg reg =
     (case prev_reg of None \<Rightarrow> Inr m
      | Some p \<Rightarrow> rbind (load m p) (\<lambda>c. rbind (store m p (c\<lparr>reg_next := Some reg\<rparr>)) (\<lambda>m.
          rbind (load m reg) (\<lambda>r. store m reg (r\<lparr>reg_prev := Some p\<rparr>)))))"

fun best_fit_loop :: "nat \<Rightarrow> bool \<Rightarrow> fs_aux_info \<Rightarrow> reg_mem \<Rightarrow> u32 \<Rightarrow> nat option \<Rightarrow> nat option \<Rightarrow>
    (nat option \<times> reg_mem \<times> fs_aux_info) res" where
  "best_fit_loop 0 force aux m n first_reg prev_reg = Inl Diverge"
| "best_fit_loop (Suc fuel) force aux m n first_reg prev_reg =
     (if n > 0 then
        rbind (ext4_allocate_best_fit_partial force aux m n) (\<lambda>(reg, m, aux).
        case reg of None \<Rightarrow> Inr (None, m, aux)
        | Some reg \<Rightarrow>
          let first_reg = (if first_reg = None then Some reg else first_reg) in
          rbind (link_region m prev_reg reg) (\<lambda>m.
          rbind (load m reg) (\<lambda>r.
          best_fit_loop fuel force aux m (n - reg_len r) first_reg (Some reg))))
      else Inr (first_reg, m, aux))"

definition ext4_allocate_best_fit ::
  "bool \<Rightarrow> fs_aux_info \<Rightarrow> reg_mem \<Rightarrow> u32 \<Rightarrow> (nat option \<times> reg_mem \<times> fs_aux_info) res" where
  "ext4_allocate_best_fit force aux m n =
     best_fit_loop (Suc (Suc (length (bgs aux)))) force aux m n None None"

text \<open>\<open>list.last\<close> is set to the first region, whatever the number of regions.\<close>

definition allocate_blocks ::
  "bool \<Rightarrow> fs_aux_info \<Rightarrow> reg_mem \<Rightarrow> u32 \<Rightarrow> (block_allocation option \<times> reg_mem \<times> fs_aux_info) res" where
  "allocate_blocks force aux m n =
     rbind (ext4_allocate_best_fit force aux m n) (\<lambda>(reg, m, aux).
     case reg of None \<Rightarrow> Inr (None, m, aux)
     | Some reg \<Rightarrow> Inr (Some (create_allocation\<lparr>main_list := \<lparr>rl_first = Some reg, rl_last = Some reg,
         rl_iter = Some reg, partial_iter = 0\<rparr>\<rparr>), m, aux))"

section \<open>Giving blocks back\<close>

text \<open>Every round but the last frees a cell.\<close>

fun reduce_loop :: "nat \<Rightarrow> fs_aux_info \<Rightarrow> reg_mem \<Rightarrow> block_allocation \<Rightarrow> u32 \<Rightarrow>
    (fs_aux_info \<times> reg_mem \<times> block_allocation) res" where
  "reduce_loop 0 aux m alloc n = Inl Diverge"
| "reduce_loop (Suc fuel) aux m alloc n =
     (if n = 0 then Inr (aux, m, alloc) else
      rbind (deref (rl_last (main_list alloc))) (\<lambda>last_reg.
      rbind (load m last_reg) (\<lambda>l.
      if reg_len l > n then
        rbind (rd (bgs aux) (reg_bg l)) (\<lambda>bg. rbind (release_blocks bg n) (\<lambda>bg.
        rbind (store m last_reg (l\<lparr>reg_len := reg_len l - n\<rparr>)) (\<lambda>m.
        reduce_loop fuel (set_bg aux (reg_bg l) bg) m alloc 0)))
      else
        rbind (rd (bgs aux) (reg_bg l)) (\<lambda>bg. rbind (release_blocks bg (reg_len l)) (\<lambda>bg.
        rbind (case reg_prev l of
                 Some reg \<Rightarrow> rbind (load m reg) (\<lambda>c. rbind (store m reg (c\<lparr>reg_next := None\<rparr>)) (\<lambda>m.
                   Inr (m, alloc)))
               | None \<Rightarrow> Inr (m, alloc\<lparr>main_list := empty_region_list\<rparr>)) (\<lambda>(m, alloc).
        rbind (release m last_reg) (\<lambda>m.
        reduce_loop fuel (set_bg aux (reg_bg l) bg) m alloc (n - reg_len l))))))))"

definition reduce_allocation ::
  "fs_aux_info \<Rightarrow> reg_mem \<Rightarrow> block_allocation \<Rightarrow> u32 \<Rightarrow> (fs_aux_info \<times> reg_mem \<times> block_allocation) res" where
  "reduce_allocation aux m alloc n = reduce_loop (Suc (Suc (brk m))) aux m alloc n"

fun free_regions :: "nat \<Rightarrow> reg_mem \<Rightarrow> nat option \<Rightarrow> reg_mem res" where
  "free_regions fuel m None = Inr m"
| "free_regions 0 m (Some reg) = Inl Diverge"
| "free_regions (Suc fuel) m (Some reg) =
     rbind (load m reg) (\<lambda>r. rbind (release m reg) (\<lambda>m. free_regions fuel m (reg_next r)))"

definition free_alloc :: "reg_mem \<Rightarrow> block_allocation \<Rightarrow> reg_mem res" where
  "free_alloc m alloc =
     rbind (free_regions (brk m) m (rl_first (main_list alloc))) (\<lambda>m.
     free_regions (brk m) m (rl_first (oob_list alloc)))"

section \<open>Splitting\<close>

text \<open>The loop of \<open>do_split_allocation\<close>: the region the split falls in, and the offset in it.\<close>

fun split_seek :: "nat \<Rightarrow> reg_mem \<Rightarrow> nat option \<Rightarrow> u32 \<Rightarrow> (nat option \<times> u32) res" where
  "split_seek fuel m None n = Inr (None, n)"
| "split_seek 0 m (Some reg) n = Inl Diverge"
| "split_seek (Suc fuel) m (Some reg) n =
     rbind (load m reg) (\<lambda>r.
     if n \<ge> reg_len r then split_seek fuel m (reg_next r) (n - reg_len r) else Inr (Some reg, n))"

definition do_split_allocation ::
  "reg_mem \<Rightarrow> block_allocation \<Rightarrow> u32 \<Rightarrow> (nat option \<times> reg_mem \<times> block_allocation) res" where
  "do_split_allocation m alloc n =
     rbind (split_seek (brk m) m (rl_iter (main_list alloc)) n) (\<lambda>(reg, n).
     if n > 0 then
       case reg of None \<Rightarrow> Inr (None, m, alloc)
       | Some reg \<Rightarrow>
         rbind (load m reg) (\<lambda>r.
         let (new, m) = malloc_cell m \<lparr>reg_block = reg_block r + n, reg_len = reg_len r - n,
               reg_bg = reg_bg r, reg_next = reg_next r, reg_prev = Some reg\<rparr> in
         rbind (store m reg (r\<lparr>reg_next := Some new, reg_len := n\<rparr>)) (\<lambda>m.
         let tmp = rl_iter (main_list alloc) in
         Inr (tmp, m, alloc\<lparr>main_list := (main_list alloc)\<lparr>rl_iter := Some new\<rparr>\<rparr>)))
     else Inr (reg, m, alloc))"

definition split_allocation ::
  "reg_mem \<Rightarrow> block_allocation \<Rightarrow> u32 \<Rightarrow> (nat option \<times> reg_mem \<times> block_allocation) res" where
  "split_allocation m alloc n =
     rbind (do_split_allocation m alloc (partial_iter (main_list alloc))) (\<lambda>(_, m, alloc).
     rbind (do_split_allocation m alloc n) (\<lambda>(middle, m, alloc).
     Inr (middle, m, alloc\<lparr>main_list := (main_list alloc)\<lparr>partial_iter := 0\<rparr>\<rparr>)))"

text \<open>The loop of \<open>reserve_oob_blocks\<close> that moves regions to the other list.\<close>

fun move_oob :: "nat \<Rightarrow> reg_mem \<Rightarrow> block_allocation \<Rightarrow> nat option \<Rightarrow> (reg_mem \<times> block_allocation) res" where
  "move_oob fuel m alloc None = Inr (m, alloc)"
| "move_oob 0 m alloc (Some r) = (if rl_iter (main_list alloc) = Some r then Inr (m, alloc) else Inl Diverge)"
| "move_oob (Suc fuel) m alloc (Some r) =
     (if rl_iter (main_list alloc) = Some r then Inr (m, alloc) else
      rbind (load m r) (\<lambda>c.
      rbind (region_list_remove m (main_list alloc) r) (\<lambda>(m, rl).
      let alloc = alloc\<lparr>main_list := rl\<rparr> in
      rbind (region_list_append m (oob_list alloc) r) (\<lambda>(m, rl).
      move_oob fuel m (alloc\<lparr>oob_list := rl\<rparr>) (reg_next c)))))"

definition reserve_oob_blocks ::
  "reg_mem \<Rightarrow> block_allocation \<Rightarrow> u32 \<Rightarrow> (int \<times> reg_mem \<times> block_allocation) res" where
  "reserve_oob_blocks m alloc blocks =
     rbind (split_allocation m alloc blocks) (\<lambda>(oob, m, alloc).
     if oob = None then Inr (-1, m, alloc) else
     rbind (move_oob (brk m) m alloc oob) (\<lambda>(m, alloc). Inr (0, m, alloc)))"

section \<open>Moving the position\<close>

text \<open>\<open>blocks\<close> is an \<open>int\<close>: compared as signed, added to \<open>partial_iter\<close> as unsigned.\<close>

fun advance_loop :: "nat \<Rightarrow> reg_mem \<Rightarrow> region_list \<Rightarrow> nat option \<Rightarrow> u32 \<Rightarrow> (int \<times> region_list) res" where
  "advance_loop fuel m rl None blocks = Inr (if 0 <s blocks then -1 else 0, rl)"
| "advance_loop 0 m rl (Some reg) blocks = (if 0 <s blocks then Inl Diverge else Inr (0, rl))"
| "advance_loop (Suc fuel) m rl (Some reg) blocks =
     (if 0 <s blocks then
        rbind (load m reg) (\<lambda>r.
        if reg_len r > partial_iter rl + blocks
        then Inr (0, rl\<lparr>partial_iter := partial_iter rl + blocks\<rparr>)
        else advance_loop fuel m (rl\<lparr>partial_iter := 0\<rparr>) (reg_next r)
               (blocks - (reg_len r - partial_iter rl)))
      else Inr (0, rl))"

definition advance_list_ptr :: "reg_mem \<Rightarrow> region_list \<Rightarrow> u32 \<Rightarrow> (int \<times> region_list) res" where
  "advance_list_ptr m rl blocks = advance_loop (brk m) m rl (rl_iter rl) blocks"

definition advance_blocks :: "reg_mem \<Rightarrow> block_allocation \<Rightarrow> u32 \<Rightarrow> (int \<times> block_allocation) res" where
  "advance_blocks m alloc blocks =
     rbind (advance_list_ptr m (main_list alloc) blocks) (\<lambda>(ret, rl). Inr (ret, alloc\<lparr>main_list := rl\<rparr>))"

definition advance_oob_blocks :: "reg_mem \<Rightarrow> block_allocation \<Rightarrow> u32 \<Rightarrow> (int \<times> block_allocation) res" where
  "advance_oob_blocks m alloc blocks =
     rbind (advance_list_ptr m (oob_list alloc) blocks) (\<lambda>(ret, rl). Inr (ret, alloc\<lparr>oob_list := rl\<rparr>))"

text \<open>\<open>reg->next\<close> is read after \<open>region_list_append\<close> has cleared it.\<close>

fun append_all_oob :: "nat \<Rightarrow> reg_mem \<Rightarrow> block_allocation \<Rightarrow> nat option \<Rightarrow> (reg_mem \<times> block_allocation) res" where
  "append_all_oob fuel m alloc None = Inr (m, alloc)"
| "append_all_oob 0 m alloc (Some reg) = Inl Diverge"
| "append_all_oob (Suc fuel) m alloc (Some reg) =
     rbind (region_list_append m (oob_list alloc) reg) (\<lambda>(m, rl).
     rbind (load m reg) (\<lambda>r. append_all_oob fuel m (alloc\<lparr>oob_list := rl\<rparr>) (reg_next r)))"

definition append_oob_allocation ::
  "bool \<Rightarrow> fs_aux_info \<Rightarrow> reg_mem \<Rightarrow> block_allocation \<Rightarrow> u32 \<Rightarrow>
    (int \<times> reg_mem \<times> block_allocation \<times> fs_aux_info) res" where
  "append_oob_allocation force aux m alloc n =
     rbind (ext4_allocate_best_fit force aux m n) (\<lambda>(reg, m, aux).
     if reg = None then error_then force (Inr (-1, m, alloc, aux)) else
     rbind (append_all_oob (brk m) m alloc reg) (\<lambda>(m, alloc). Inr (0, m, alloc, aux)))"

section \<open>The list off the heap\<close>

type_synonym region_data = "u32 \<times> u32 \<times> nat"

definition hd_opt :: "'a list \<Rightarrow> 'a option" where
  "hd_opt xs = (case xs of [] \<Rightarrow> None | x # _ \<Rightarrow> Some x)"

lemma hd_opt_simps [simp]: "hd_opt [] = None" "hd_opt (x # xs) = Some x"
  by (simp_all add: hd_opt_def)

lemma hd_opt_append: "hd_opt (xs @ ys) = (if xs = [] then hd_opt ys else hd_opt xs)"
  by (cases xs) auto

text \<open>The cells at \<open>as\<close> are a doubly linked list that holds the regions \<open>rs\<close>; \<open>pr\<close> comes before it.\<close>

fun rlist :: "(nat \<Rightarrow> region option) \<Rightarrow> nat option \<Rightarrow> nat list \<Rightarrow> region_data list \<Rightarrow> bool" where
  "rlist h pr [] rs = (rs = [])"
| "rlist h pr (a # as) rs = (case rs of [] \<Rightarrow> False | (b, n, g) # rs \<Rightarrow>
     h a = Some \<lparr>reg_block = b, reg_len = n, reg_bg = g, reg_next = hd_opt as, reg_prev = pr\<rparr>
     \<and> rlist h (Some a) as rs)"

lemma rlist_cong: "(\<And>a. a \<in> set as \<Longrightarrow> h' a = h a) \<Longrightarrow> rlist h' pr as rs = rlist h pr as rs"
  by (induction as arbitrary: pr rs) (auto split: list.splits)

lemma rlist_update [simp]: "x \<notin> set as \<Longrightarrow> rlist (h(x := v)) pr as rs = rlist h pr as rs"
  by (rule rlist_cong) auto

lemma rlist_length: "rlist h pr as rs \<Longrightarrow> length rs = length as"
  by (induction as arbitrary: pr rs) (auto split: list.splits)

lemma rlist_mapped: "rlist h pr as rs \<Longrightarrow> a \<in> set as \<Longrightarrow> \<exists>r. h a = Some r"
  by (induction as arbitrary: pr rs) (auto split: list.splits)

lemma rlist_below: "rlist (cells m) pr as rs \<Longrightarrow> mem_ok m \<Longrightarrow> a \<in> set as \<Longrightarrow> a < brk m"
  by (meson rlist_mapped mem_ok_below)

lemma rlist_last:
  assumes "rlist h pr (as @ [a]) (rs @ [(b, n, g)])"
  shows "h a = Some \<lparr>reg_block = b, reg_len = n, reg_bg = g, reg_next = None,
     reg_prev = (if as = [] then pr else Some (List.last as))\<rparr>"
proof -
  have "length as = length rs" using rlist_length [OF assms] by simp
  then show ?thesis using assms
  proof (induction as rs arbitrary: pr rule: list_induct2)
    case (Cons x xs y ys)
    have "rlist h (Some x) (xs @ [a]) (ys @ [(b, n, g)])" using Cons.prems by (cases y) simp
    from Cons.IH [OF this] show ?case by simp
  qed simp
qed

text \<open>A new cell is hung behind the last one.\<close>

lemma rlist_snoc:
  assumes "rlist h pr (as @ [a]) (rs @ [(b, n, g)])" "x \<notin> set (as @ [a])" "distinct (as @ [a])"
    and "h' a = Some \<lparr>reg_block = b, reg_len = n, reg_bg = g, reg_next = Some x,
     reg_prev = (if as = [] then pr else Some (List.last as))\<rparr>"
    and "h' x = Some \<lparr>reg_block = b', reg_len = n', reg_bg = g', reg_next = None, reg_prev = Some a\<rparr>"
    and "\<And>y. y \<in> set as \<Longrightarrow> h' y = h y"
  shows "rlist h' pr (as @ [a, x]) (rs @ [(b, n, g), (b', n', g')])"
proof -
  have "length as = length rs" using rlist_length [OF assms(1)] by simp
  then show ?thesis using assms
  proof (induction as rs arbitrary: pr rule: list_induct2)
    case (Cons y ys z zs)
    obtain zb zn zg where z: "z = (zb, zn, zg)" by (cases z)
    have "rlist h (Some y) (ys @ [a]) (zs @ [(b, n, g)])" using Cons.prems(1) z by simp
    from Cons.IH [OF this] Cons.prems(2-6)
    have "rlist h' (Some y) (ys @ [a, x]) (zs @ [(b, n, g), (b', n', g')])" by simp
    moreover have "h' y = h y" using Cons.prems(6) by simp
    ultimately show ?case using Cons.prems(1) z by (simp add: hd_opt_append split: if_splits)
  qed simp
qed

definition total_free :: "fs_aux_info \<Rightarrow> nat" where
  "total_free aux = (\<Sum>bg \<leftarrow> bgs aux. unat (free_blocks bg))"

definition busy_groups :: "fs_aux_info \<Rightarrow> nat" where
  "busy_groups aux = length (List.filter (\<lambda>bg. free_blocks bg \<noteq> 0) (bgs aux))"

lemma card_blocks_free:
  assumes "groups_ok bs aux"
  shows "card (blocks_free aux) = total_free aux"
proof -
  have "card (blocks_free aux) = (\<Sum>i < length (bgs aux). card (group_free (bgs aux ! i)))"
    unfolding blocks_free_def
  proof (rule card_UN_disjoint)
    show "\<forall>i\<in>{..<length (bgs aux)}. \<forall>j\<in>{..<length (bgs aux)}. i \<noteq> j \<longrightarrow>
        group_free (bgs aux ! i) \<inter> group_free (bgs aux ! j) = {}"
      using group_free_disjoint [OF assms] by auto
  qed (auto simp: group_free_def)
  also have "\<dots> = total_free aux"
    by (simp add: total_free_def group_free_def sum_list_sum_nth atLeast0LessThan)
  finally show ?thesis .
qed

lemma total_free_0: "total_free aux = 0 \<longleftrightarrow> (\<forall>bg \<in> set (bgs aux). free_blocks bg = 0)"
  by (auto simp: total_free_def sum_list_eq_0_iff unat_eq_0)

lemma total_free_set_bg:
  assumes "i < length (bgs aux)" "unat (free_blocks bg) = unat (free_blocks (bgs aux ! i)) - k"
    "k \<le> unat (free_blocks (bgs aux ! i))"
  shows "total_free (set_bg aux i bg) + k = total_free aux"
proof -
  let ?f = "\<lambda>bg. unat (free_blocks bg)"
  have e: "bgs aux = take i (bgs aux) @ bgs aux ! i # drop (Suc i) (bgs aux)" using assms(1) by (rule id_take_nth_drop)
  have u: "(bgs aux)[i := bg] = take i (bgs aux) @ bg # drop (Suc i) (bgs aux)" using assms(1) by (rule upd_conv_take_nth_drop)
  have "total_free aux = (\<Sum>bg \<leftarrow> take i (bgs aux) @ bgs aux ! i # drop (Suc i) (bgs aux). ?f bg)"
    unfolding total_free_def by (subst e) simp
  then show ?thesis using assms(2,3) by (simp add: total_free_def u)
qed

lemma total_free_give_bg:
  assumes "i < length (bgs aux)" "unat (free_blocks bg) = unat (free_blocks (bgs aux ! i)) + k"
  shows "total_free (set_bg aux i bg) = total_free aux + k"
proof -
  have "total_free (set_bg (set_bg aux i bg) i (bgs aux ! i)) + k = total_free (set_bg aux i bg)"
    by (rule total_free_set_bg) (use assms in simp_all)
  then show ?thesis using assms(1) by (simp add: total_free_def set_bg_def)
qed

lemma busy_groups_set_bg:
  assumes "i < length (bgs aux)" "free_blocks bg = 0" "free_blocks (bgs aux ! i) \<noteq> 0"
  shows "busy_groups (set_bg aux i bg) < busy_groups aux"
proof -
  have e: "bgs aux = take i (bgs aux) @ bgs aux ! i # drop (Suc i) (bgs aux)" using assms(1) by (rule id_take_nth_drop)
  have u: "(bgs aux)[i := bg] = take i (bgs aux) @ bg # drop (Suc i) (bgs aux)" using assms(1) by (rule upd_conv_take_nth_drop)
  have "busy_groups aux = length (List.filter (\<lambda>bg. free_blocks bg \<noteq> 0)
      (take i (bgs aux) @ bgs aux ! i # drop (Suc i) (bgs aux)))"
    unfolding busy_groups_def by (subst e) simp
  then show ?thesis using assms(2,3) by (simp add: busy_groups_def u)
qed

lemma best_of_free:
  assumes "best_of n (List.map free_blocks (bgs aux)) b" "0 < n"
  shows "b = 0 \<longleftrightarrow> total_free aux = 0"
proof
  assume b: "b = 0"
  have nex: "\<not> (\<exists>f \<in> set (List.map free_blocks (bgs aux)). n \<le> f)"
  proof
    assume ex: "\<exists>f \<in> set (List.map free_blocks (bgs aux)). n \<le> f"
    have "n \<le> b" using assms(1) unfolding best_of_def if_P [OF ex] by blast
    then show False using b assms(2) by simp
  qed
  then have "\<forall>f \<in> set (List.map free_blocks (bgs aux)). f \<le> 0"
    using assms(1) unfolding best_of_def if_not_P [OF nex] b by blast
  then show "total_free aux = 0" by (auto simp: total_free_0)
next
  assume "total_free aux = 0"
  then have z: "\<forall>f \<in> set (List.map free_blocks (bgs aux)). f = 0" by (auto simp: total_free_0)
  have nex: "\<not> (\<exists>f \<in> set (List.map free_blocks (bgs aux)). n \<le> f)"
    using assms(2) z by (auto simp: word_gt_0)
  show "b = 0" using assms(1) z unfolding best_of_def if_not_P [OF nex] by blast
qed

lemma best_fit_partial_spec:
  assumes ok: "groups_ok bs aux" and n: "0 < n"
  shows "if total_free aux = 0
    then ext4_allocate_best_fit_partial force aux m n = error_then force (Inr (None, m, aux))
    else \<exists>g b k aux'. ext4_allocate_best_fit_partial force aux m n = Inr (Some (brk m),
          snd (malloc_cell m \<lparr>reg_block = b, reg_len = k, reg_bg = g, reg_next = None, reg_prev = None\<rparr>), aux')
      \<and> ext4_allocate_blocks_from_block_group force aux k g = Inr (b, aux')
      \<and> b \<noteq> EXT4_ALLOCATE_FAILED \<and> k \<le> n \<and> 0 < k \<and> total_free aux' + unat k = total_free aux
      \<and> (k < n \<longrightarrow> busy_groups aux' < busy_groups aux)"
proof -
  have len: "unat (groups aux) = length (bgs aux)" using ok by (simp add: groups_ok_def)
  have mp: "List.map (\<lambda>i. free_blocks (bgs aux ! i)) [0..<length (bgs aux)] = List.map free_blocks (bgs aux)"
    using map_nth [of "bgs aux"] by (metis (no_types, lifting) List.map.compositionality comp_apply map_eq_conv)
  obtain g f where s: "best_fit_search aux n [0..<unat (groups aux)] (0, 0) = Inr (g, f)"
    "best_of n (List.map free_blocks (bgs aux)) f"
    "f \<noteq> 0 \<longrightarrow> g < length (bgs aux) \<and> free_blocks (bgs aux ! g) = f"
    using best_fit_search_spec [OF _ best_of_Nil [OF n] n, of "[0..<length (bgs aux)]" aux 0]
    unfolding len append_Nil mp by auto
  note z = best_of_free [OF s(2) n]
  show ?thesis
  proof (cases "total_free aux = 0")
    case True
    then show ?thesis using s(1) z by (simp add: ext4_allocate_best_fit_partial_def)
  next
    case False
    then have f: "f \<noteq> 0" "g < length (bgs aux)" "free_blocks (bgs aux ! g) = f" using z s(3) by auto
    let ?k = "min n f"
    have k: "?k \<le> free_blocks (bgs aux ! g)" "?k \<le> n" "0 < ?k" using f n by (auto simp: word_gt_0)
    obtain bg' where t: "ext4_allocate_blocks_from_block_group force aux ?k g
      = Inr (first_block (bgs aux ! g) + first_free_block (bgs aux ! g), set_bg aux g bg')"
      "unat (free_blocks bg') = unat (free_blocks (bgs aux ! g)) - unat ?k"
      by (rule take_from_group [OF ok f(2) k(1)])
    let ?b = "first_block (bgs aux ! g) + first_free_block (bgs aux ! g)"
    have nf: "?b \<noteq> EXT4_ALLOCATE_FAILED"
    proof
      assume "?b = EXT4_ALLOCATE_FAILED"
      with group_source [OF ok t(1)] have "free_blocks (bgs aux ! g) < ?k" by (simp only: if_P)
      with k(1) show False by (metis not_le)
    qed
    have uk: "unat ?k \<le> unat (free_blocks (bgs aux ! g))" using k(1) by (simp only: word_le_nat_alt)
    have "busy_groups (set_bg aux g bg') < busy_groups aux" if "?k < n"
    proof (rule busy_groups_set_bg [OF f(2)])
      have "?k = f" using that by (auto simp: min_def split: if_splits)
      then show "free_blocks bg' = 0" using t(2) f(3) by (simp add: unat_eq_0 [symmetric])
    qed (use f in simp)
    moreover have "total_free (set_bg aux g bg') + unat ?k = total_free aux"
      by (rule total_free_set_bg [OF f(2) t(2) uk])
    moreover have "ext4_allocate_best_fit_partial force aux m n = Inr (Some (brk m),
        snd (malloc_cell m \<lparr>reg_block = ?b, reg_len = ?k, reg_bg = g, reg_next = None, reg_prev = None\<rparr>),
        set_bg aux g bg')"
      using s(1) f(1) t(1) nf
      by (simp add: ext4_allocate_best_fit_partial_def malloc_cell_def Let_def)
    ultimately show ?thesis unfolding if_not_P [OF False]
      using t(1) nf k(2,3) by (intro exI conjI impI) assumption+
  qed
qed

text \<open>The regions \<open>rs\<close> are what was taken from the groups.\<close>

abbreviation region_range :: "region_data \<Rightarrow> u32 \<times> u32" where
  "region_range r \<equiv> (fst r, fst (snd r))"

definition blocks_of :: "region_data list \<Rightarrow> nat" where
  "blocks_of rs = (\<Sum>(b, n, g) \<leftarrow> rs. unat n)"

lemma blocks_of_simps [simp]:
  "blocks_of [] = 0" "blocks_of ((b, n, g) # rs) = unat n + blocks_of rs"
  "blocks_of (rs @ qs) = blocks_of rs + blocks_of qs"
  by (simp_all add: blocks_of_def)

lemma link_region_spec:
  assumes ok: "mem_ok m" "rlist (cells m) None as rs" "distinct as"
    and m0: "m0 = snd (malloc_cell m \<lparr>reg_block = b, reg_len = k, reg_bg = g, reg_next = None, reg_prev = None\<rparr>)"
  obtains m1 where "link_region m0 (if as = [] then None else Some (List.last as)) (brk m) = Inr m1"
    "mem_ok m1" "brk m1 = Suc (brk m)" "distinct (as @ [brk m])"
    "rlist (cells m1) None (as @ [brk m]) (rs @ [(b, k, g)])"
    "\<exists>p. cells m1 (brk m) = Some \<lparr>reg_block = b, reg_len = k, reg_bg = g, reg_next = None, reg_prev = p\<rparr>"
proof -
  let ?x = "brk m"
  let ?c0 = "\<lparr>reg_block = b, reg_len = k, reg_bg = g, reg_next = None, reg_prev = None\<rparr>"
  have m0': "m0 = m\<lparr>cells := (cells m)(?x := Some ?c0), brk := Suc ?x\<rparr>" using m0 by (simp add: malloc_cell_def)
  have fresh: "?x \<notin> set as" using rlist_below [OF ok(2,1)] by blast
  show thesis
  proof (cases as rule: rev_cases)
    case Nil
    then have "rs = []" using ok(2) by simp
    then show thesis using Nil ok(1)
      by (intro that [of m0]) (simp_all add: link_region_def m0')
  next
    case (snoc as1 a)
    obtain rs1 q where rs: "rs = rs1 @ [q]"
      using rlist_length [OF ok(2)] snoc by (cases rs rule: rev_cases) auto
    obtain ab an ag where q: "q = (ab, an, ag)" by (cases q)
    let ?p = "if as1 = [] then None else Some (List.last as1)"
    let ?ca = "\<lparr>reg_block = ab, reg_len = an, reg_bg = ag, reg_next = None, reg_prev = ?p\<rparr>"
    have l: "rlist (cells m) None (as1 @ [a]) (rs1 @ [(ab, an, ag)])" using ok(2) snoc rs q by simp
    have a: "cells m a = Some ?ca" using rlist_last [OF l] by simp
    have ne: "a \<noteq> ?x" and below: "a < ?x" using fresh snoc mem_ok_below [OF ok(1) a] by auto
    define m1 where "m1 = m\<lparr>cells := (cells m)(?x := Some (?c0\<lparr>reg_prev := Some a\<rparr>),
        a := Some (?ca\<lparr>reg_next := Some ?x\<rparr>)), brk := Suc ?x\<rparr>"
    have "link_region m0 (Some a) ?x = Inr m1"
      using a ne by (simp add: link_region_def m0' m1_def fun_upd_twist)
    moreover have "mem_ok m1" using ok(1) below by (auto simp: mem_ok_def m1_def)
    moreover have "rlist (cells m1) None (as1 @ [a, ?x]) (rs1 @ [(ab, an, ag), (b, k, g)])"
    proof (rule rlist_snoc [OF l])
      show "?x \<notin> set (as1 @ [a])" "distinct (as1 @ [a])" using fresh ok(3) snoc by simp_all
      show "cells m1 y = cells m y" if "y \<in> set as1" for y
        using that fresh ok(3) snoc by (auto simp: m1_def)
    qed (use ne in \<open>simp_all add: m1_def\<close>)
    ultimately show thesis using snoc rs q fresh ok(3) ne
      by (intro that [of m1]) (simp_all add: m1_def)
  qed
qed

text \<open>Taking blocks only moves the first free block of a group up; what a region holds lies below it.\<close>

definition used_le :: "fs_aux_info \<Rightarrow> fs_aux_info \<Rightarrow> bool" where
  "used_le aux aux' \<longleftrightarrow> length (bgs aux') = length (bgs aux)
     \<and> (\<forall>i < length (bgs aux). unat (first_free_block (bgs aux ! i)) \<le> unat (first_free_block (bgs aux' ! i)))"

definition region_used :: "fs_aux_info \<Rightarrow> region_data \<Rightarrow> bool" where
  "region_used aux = (\<lambda>(b, k, g). 0 < k \<and> g < length (bgs aux)
     \<and> unat k \<le> unat (first_free_block (bgs aux ! g)))"

lemma used_le_refl [simp]: "used_le aux aux"
  by (simp add: used_le_def)

lemma used_le_trans: "used_le a b \<Longrightarrow> used_le b c \<Longrightarrow> used_le a c"
  by (force simp: used_le_def)

lemma region_used_mono: "region_used aux r \<Longrightarrow> used_le aux aux' \<Longrightarrow> region_used aux' r"
  by (force simp: region_used_def used_le_def split: prod.splits)

lemma group_take_used:
  assumes ok: "groups_ok bs aux" and k: "0 < k"
    and take: "ext4_allocate_blocks_from_block_group force aux k g = Inr (b, aux1)"
    and nf: "b \<noteq> EXT4_ALLOCATE_FAILED"
  shows "used_le aux aux1" "region_used aux1 (b, k, g)"
proof -
  have g: "g < length (bgs aux)" "k \<le> free_blocks (bgs aux ! g)"
    using group_source [OF ok take] nf by simp_all
  obtain bg' where r: "ext4_allocate_blocks_from_block_group force aux k g
      = Inr (first_block (bgs aux ! g) + first_free_block (bgs aux ! g), set_bg aux g bg')"
    "unat (first_free_block bg') = unat (first_free_block (bgs aux ! g)) + unat k"
    by (rule take_from_group [OF ok g])
  then have aux1: "aux1 = set_bg aux g bg'" using take by simp
  show "used_le aux aux1" using r(2) g(1) by (simp add: used_le_def aux1 nth_list_update)
  show "region_used aux1 (b, k, g)" using r(2) g(1) k by (simp add: region_used_def aux1)
qed

lemma best_fit_loop_enough:
  assumes "groups_ok bs aux" "mem_ok m" "rlist (cells m) None as rs" "distinct as"
    "unat n \<le> total_free aux" "busy_groups aux + 1 < fuel \<or> n = 0 \<and> 0 < fuel"
  shows "\<exists>m' aux' as' rs'. best_fit_loop fuel force aux m n (hd_opt as)
        (if as = [] then None else Some (List.last as)) = Inr (hd_opt (as @ as'), m', aux')
    \<and> mem_ok m' \<and> rlist (cells m') None (as @ as') (rs @ rs') \<and> distinct (as @ as')
    \<and> taken (ext4_allocate_blocks_from_block_group force) aux (List.map region_range rs') aux'
    \<and> blocks_of rs' = unat n \<and> (\<forall>r \<in> set rs'. region_used aux' r) \<and> used_le aux aux'
    \<and> total_free aux' + unat n = total_free aux"
  using assms
proof (induction fuel arbitrary: aux m n as rs)
  case (Suc fuel)
  show ?case
  proof (cases "n = 0")
    case True
    then show ?thesis using Suc.prems
      by (intro exI [of _ m] exI [of _ aux] exI [of _ "[]"]) (simp add: taken.nothing)
  next
    case False
    then have n: "0 < n" by (simp add: word_gt_0)
    have tf: "total_free aux \<noteq> 0" using Suc.prems(5) False by (auto simp: unat_eq_0 [symmetric])
    let ?m0 = "\<lambda>b k g. snd (malloc_cell m
        \<lparr>reg_block = b, reg_len = k, reg_bg = g, reg_next = None, reg_prev = None\<rparr>)"
    obtain g b k aux1 where p: "ext4_allocate_best_fit_partial force aux m n = Inr (Some (brk m), ?m0 b k g, aux1)"
      "ext4_allocate_blocks_from_block_group force aux k g = Inr (b, aux1)"
      "b \<noteq> EXT4_ALLOCATE_FAILED" "k \<le> n" "0 < k" "total_free aux1 + unat k = total_free aux"
      "k < n \<longrightarrow> busy_groups aux1 < busy_groups aux"
      using best_fit_partial_spec [OF Suc.prems(1) n, of force m] unfolding if_not_P [OF tf] by blast
    obtain m1 where m1: "link_region (?m0 b k g) (if as = [] then None else Some (List.last as)) (brk m) = Inr m1"
      "mem_ok m1" "brk m1 = Suc (brk m)" "distinct (as @ [brk m])"
      "rlist (cells m1) None (as @ [brk m]) (rs @ [(b, k, g)])"
      "\<exists>p. cells m1 (brk m) = Some \<lparr>reg_block = b, reg_len = k, reg_bg = g, reg_next = None, reg_prev = p\<rparr>"
      by (rule link_region_spec [OF Suc.prems(2-4) refl])
    have ok1: "groups_ok bs aux1" using group_source [OF Suc.prems(1) p(2)] p(3) by simp
    have uk: "unat (n - k) = unat n - unat k" "unat k \<le> unat n"
      using p(4) by (simp_all add: unat_sub word_le_nat_alt)
    have le: "unat (n - k) \<le> total_free aux1" using uk p(6) Suc.prems(5) by linarith
    have fuel: "busy_groups aux1 + 1 < fuel \<or> n - k = 0 \<and> 0 < fuel"
    proof (cases "k = n")
      case True
      then show ?thesis using Suc.prems(6) False by auto
    next
      case ne: False
      then have "busy_groups aux1 < busy_groups aux" using p(4,7) by simp
      then show ?thesis using Suc.prems(6) False by linarith
    qed
    have step: "best_fit_loop (Suc fuel) force aux m n (hd_opt as)
        (if as = [] then None else Some (List.last as))
      = best_fit_loop fuel force aux1 m1 (n - k) (hd_opt (as @ [brk m]))
        (if as @ [brk m] = [] then None else Some (List.last (as @ [brk m])))"
      using n p(1) m1(1,6) by (cases as) (auto simp: Let_def)
    obtain m' aux' as' rs' where r: "best_fit_loop (Suc fuel) force aux m n (hd_opt as)
        (if as = [] then None else Some (List.last as)) = Inr (hd_opt ((as @ [brk m]) @ as'), m', aux')"
      "mem_ok m'" "rlist (cells m') None ((as @ [brk m]) @ as') ((rs @ [(b, k, g)]) @ rs')"
      "distinct ((as @ [brk m]) @ as')"
      "taken (ext4_allocate_blocks_from_block_group force) aux1 (List.map region_range rs') aux'"
      "blocks_of rs' = unat (n - k)" "\<forall>r \<in> set rs'. region_used aux' r" "used_le aux1 aux'"
      "total_free aux' + unat (n - k) = total_free aux1"
      using Suc.IH [OF ok1 m1(2,5,4) le fuel] unfolding step [symmetric]
      by (elim exE conjE) (rule that)
    have "taken (ext4_allocate_blocks_from_block_group force) aux (List.map region_range ((b, k, g) # rs')) aux'"
      using taken.more [OF p(2,3) r(5)] by simp
    moreover have "used_le aux aux'" "region_used aux' (b, k, g)"
      using group_take_used [OF Suc.prems(1) p(5,2,3)] r(8) by (blast intro: used_le_trans region_used_mono)+
    moreover have "total_free aux' + unat n = total_free aux" using r(9) uk p(6) by linarith
    ultimately show ?thesis using r(1-4,6,7) uk
      by (intro exI [of _ m'] exI [of _ aux'] exI [of _ "brk m # as'"] exI [of _ "(b, k, g) # rs'"]) simp
  qed
qed simp

text \<open>When fewer blocks are free, the groups run empty and the error is raised.\<close>

lemma best_fit_loop_short:
  assumes "groups_ok bs aux" "mem_ok m" "rlist (cells m) None as rs" "distinct as"
    "total_free aux < unat n" "busy_groups aux < fuel"
  shows "best_fit_loop fuel False aux m n (hd_opt as)
        (if as = [] then None else Some (List.last as)) = Inl Error"
  using assms
proof (induction fuel arbitrary: aux m n as rs)
  case (Suc fuel)
  have n: "0 < n" using Suc.prems(5) by (cases "n = 0") (auto simp: word_gt_0)
  show ?case
  proof (cases "total_free aux = 0")
    case True
    then show ?thesis using best_fit_partial_spec [OF Suc.prems(1) n, of False m] n by simp
  next
    case tf: False
    let ?m0 = "\<lambda>b k g. snd (malloc_cell m
        \<lparr>reg_block = b, reg_len = k, reg_bg = g, reg_next = None, reg_prev = None\<rparr>)"
    obtain g b k aux1 where p: "ext4_allocate_best_fit_partial False aux m n = Inr (Some (brk m), ?m0 b k g, aux1)"
      "ext4_allocate_blocks_from_block_group False aux k g = Inr (b, aux1)"
      "b \<noteq> EXT4_ALLOCATE_FAILED" "k \<le> n" "0 < k" "total_free aux1 + unat k = total_free aux"
      "k < n \<longrightarrow> busy_groups aux1 < busy_groups aux"
      using best_fit_partial_spec [OF Suc.prems(1) n, of False m] unfolding if_not_P [OF tf] by blast
    obtain m1 where m1: "link_region (?m0 b k g) (if as = [] then None else Some (List.last as)) (brk m) = Inr m1"
      "mem_ok m1" "brk m1 = Suc (brk m)" "distinct (as @ [brk m])"
      "rlist (cells m1) None (as @ [brk m]) (rs @ [(b, k, g)])"
      "\<exists>p. cells m1 (brk m) = Some \<lparr>reg_block = b, reg_len = k, reg_bg = g, reg_next = None, reg_prev = p\<rparr>"
      by (rule link_region_spec [OF Suc.prems(2-4) refl])
    have ok1: "groups_ok bs aux1" using group_source [OF Suc.prems(1) p(2)] p(3) by simp
    have "unat k \<le> unat n" using p(4) by (simp add: word_le_nat_alt)
    then have lt: "total_free aux1 < unat (n - k)"
      using p(4,6) Suc.prems(5) by (simp add: unat_sub)
    have "k \<noteq> n" using p(6) Suc.prems(5) by auto
    then have "k < n" using p(4) by (simp add: order_less_le)
    then have fuel: "busy_groups aux1 < fuel" using p(7) Suc.prems(6) by simp
    have step: "best_fit_loop (Suc fuel) False aux m n (hd_opt as)
        (if as = [] then None else Some (List.last as))
      = best_fit_loop fuel False aux1 m1 (n - k) (hd_opt (as @ [brk m]))
        (if as @ [brk m] = [] then None else Some (List.last (as @ [brk m])))"
      using n p(1) m1(1,6) by (cases as) (auto simp: Let_def)
    show ?thesis unfolding step by (rule Suc.IH [OF ok1 m1(2,5,4) lt fuel])
  qed
qed simp

text \<open>C26: when enough blocks are free, \<open>allocate_blocks\<close> returns a list of regions that hold
  exactly the number of blocks asked for, do not overlap and were all free; they are no longer free
  afterwards and nothing else changed. When too few are free it raises an error.\<close>

theorem allocate_blocks_regions:
  assumes "groups_ok bs aux" "mem_ok m" "0 < n"
  shows "if unat n \<le> card (blocks_free aux) then
      \<exists>alloc m' aux' as rs. allocate_blocks force aux m n = Inr (Some alloc, m', aux')
      \<and> rl_first (main_list alloc) = hd_opt as \<and> rlist (cells m') None as rs \<and> mem_ok m'
      \<and> blocks_of rs = unat n \<and> disjoint_ranges (List.map region_range rs)
      \<and> (\<Union>r \<in> set rs. range_of (region_range r)) \<subseteq> blocks_free aux
      \<and> blocks_free aux' = blocks_free aux - (\<Union>r \<in> set rs. range_of (region_range r))
      \<and> groups_ok bs aux'
    else allocate_blocks False aux m n = Inl Error"
proof -
  have busy: "busy_groups aux \<le> length (bgs aux)" by (simp add: busy_groups_def)
  note card = card_blocks_free [OF assms(1)]
  show ?thesis
  proof (cases "unat n \<le> card (blocks_free aux)")
    case True
    obtain m' aux' as rs where r: "ext4_allocate_best_fit force aux m n = Inr (hd_opt as, m', aux')"
      "mem_ok m'" "rlist (cells m') None as rs"
      "taken (ext4_allocate_blocks_from_block_group force) aux (List.map region_range rs) aux'"
      "blocks_of rs = unat n"
      using best_fit_loop_enough [OF assms(1,2), of "[]" "[]" n "Suc (Suc (length (bgs aux)))" force] busy True
      unfolding ext4_allocate_best_fit_def card by auto
    obtain a as' where as: "as = a # as'"
      using r(3,5) assms(3) by (cases as) (auto simp: word_gt_0 unat_eq_0)
    note t = group_blocks.taken_ranges [OF r(4) assms(1)]
    define al where "al = create_allocation\<lparr>main_list := \<lparr>rl_first = Some a, rl_last = Some a,
         rl_iter = Some a, partial_iter = 0\<rparr>\<rparr>"
    have "allocate_blocks force aux m n = Inr (Some al, m', aux')"
      using r(1) as by (simp add: allocate_blocks_def al_def)
    moreover have "rl_first (main_list al) = hd_opt as" by (simp add: al_def as)
    ultimately show ?thesis unfolding if_P [OF True] using r(2,3,5) t
      by (intro exI [of _ al] exI [of _ m'] exI [of _ aux'] exI [of _ as] exI [of _ rs]) simp
  next
    case False
    then have "ext4_allocate_best_fit False aux m n = Inl Error"
      using best_fit_loop_short [OF assms(1,2), of "[]" "[]" n "Suc (Suc (length (bgs aux)))"] busy
      unfolding ext4_allocate_best_fit_def card by simp
    then show ?thesis using False by (simp add: allocate_blocks_def)
  qed
qed

lemma allocate_blocks_regions_witness:
  "\<exists>alloc m' aux'. allocate_blocks False demo_groups \<lparr>cells = (\<lambda>_. None), brk = 0\<rparr> 10 = Inr (Some alloc, m', aux')
    \<and> card (blocks_free demo_groups) = 13"
proof -
  have c: "card (blocks_free demo_groups) = 13"
    unfolding card_blocks_free [OF demo_groups_ok]
    by (simp add: total_free_def demo_groups_def demo_group_def zero_bg_def)
  have "mem_ok (\<lparr>cells = (\<lambda>_. None), brk = 0\<rparr> :: reg_mem)" by (simp add: mem_ok_def)
  from allocate_blocks_regions [OF demo_groups_ok this, of 10 False] c show ?thesis by auto
qed

section \<open>Looking blocks up\<close>

text \<open>The blocks of a list of regions, in the order of the file.\<close>

definition expand :: "region_data list \<Rightarrow> u32 list" where
  "expand rs = concat (List.map (\<lambda>(b, n, g). List.map (\<lambda>i. b + of_nat i) [0..<unat n]) rs)"

lemma expand_simps [simp]:
  "expand [] = []" "expand ((b, n, g) # rs) = List.map (\<lambda>i. b + of_nat i) [0..<unat n] @ expand rs"
  by (simp_all add: expand_def)

lemma length_expand: "length (expand rs) = blocks_of rs"
  by (induction rs) auto

lemma regions_find_spec:
  assumes "rlist (cells m) pr as rs" "length as \<le> fuel"
  shows "regions_find fuel m (hd_opt as) k
    = Inr (if unat k < blocks_of rs then expand rs ! unat k else EXT4_ALLOCATE_FAILED)"
  using assms
proof (induction as arbitrary: pr rs fuel k)
  case (Cons a as)
  obtain b n g rs' where rs: "rs = (b, n, g) # rs'"
    "cells m a = Some \<lparr>reg_block = b, reg_len = n, reg_bg = g, reg_next = hd_opt as, reg_prev = pr\<rparr>"
    "rlist (cells m) (Some a) as rs'"
    using Cons.prems(1) by (auto split: list.splits)
  obtain fuel' where fuel: "fuel = Suc fuel'" "length as \<le> fuel'" using Cons.prems(2) by (cases fuel) auto
  show ?case
  proof (cases "k < n")
    case True
    then have "unat k < unat n" by (simp add: word_less_nat_alt)
    then show ?thesis using True rs fuel by (simp add: nth_append)
  next
    case False
    then have le: "unat n \<le> unat k" by (simp add: not_less word_le_nat_alt)
    have "unat (k - n) = unat k - unat n" using False by (simp add: not_less unat_sub)
    with Cons.IH [OF rs(3) fuel(2), of "k - n"] False le rs(1,2) fuel(1) show ?thesis
      by (auto simp: nth_append)
  qed
qed simp

text \<open>C29: \<open>get_block\<close> on an allocation at its start returns the blocks of the file in order and
  reports the failure past the last one.\<close>

theorem get_block_nth:
  assumes "rlist (cells m) None as rs" "mem_ok m" "distinct as"
    "rl_iter (main_list alloc) = hd_opt as" "partial_iter (main_list alloc) = 0"
  shows "get_block m alloc k
    = Inr (if unat k < blocks_of rs then expand rs ! unat k else EXT4_ALLOCATE_FAILED)"
proof -
  have "set as \<subseteq> {..<brk m}" using rlist_below [OF assms(1,2)] by auto
  then have "card (set as) \<le> brk m" using card_mono [of "{..<brk m}"] by fastforce
  then have "length as \<le> brk m" using assms(3) by (simp add: distinct_card)
  from regions_find_spec [OF assms(1) this, of k] show ?thesis
    by (simp add: get_block_def assms(4,5))
qed

definition demo_regions :: reg_mem where
  "demo_regions = \<lparr>cells = (\<lambda>_. None)
     (0 := Some \<lparr>reg_block = 100, reg_len = 3, reg_bg = 0, reg_next = Some 1, reg_prev = None\<rparr>,
      1 := Some \<lparr>reg_block = 20, reg_len = 2, reg_bg = 1, reg_next = None, reg_prev = Some 0\<rparr>), brk = 2\<rparr>"

definition demo_alloc :: block_allocation where
  "demo_alloc = create_allocation\<lparr>main_list := \<lparr>rl_first = Some 0, rl_last = Some 0, rl_iter = Some 0,
     partial_iter = 0\<rparr>\<rparr>"

lemma get_block_nth_witness: "get_block demo_regions demo_alloc 4 = Inr 21"
proof -
  have "rlist (cells demo_regions) None [0, 1] [(100, 3, 0), (20, 2, 1)]" by (simp add: demo_regions_def)
  moreover have "mem_ok demo_regions" by (simp add: mem_ok_def demo_regions_def)
  ultimately show ?thesis
    using get_block_nth [of demo_regions "[0, 1]" "[(100, 3, 0), (20, 2, 1)]" demo_alloc 4]
    by (simp add: demo_alloc_def nth_append)
qed

section \<open>The stale end of an allocation\<close>

text \<open>Giving back blocks below the first free one of a group.\<close>

lemma release_used:
  assumes ok: "blocks_ok bs bg" and n: "0 < n" "unat n \<le> unat (first_free_block bg)"
  shows "\<exists>bg'. release_blocks bg n = Inr bg' \<and> unat (free_blocks bg') = unat (free_blocks bg) + unat n"
proof -
  have pos: "0 < unat n" using n(1) by (simp add: unat_gt_0 word_gt_0)
  have lim: "length (bitmaps bg) = 2 * bs" "block_bitmap bg = 0" "16 * bs + 8 < 4294967296"
    "unat (first_free_block bg) + unat (free_blocks bg) \<le> 8 * bs"
    using ok by (simp_all add: blocks_ok_def)
  have u: "unat (first_free_block bg - 1) = unat (first_free_block bg) - 1"
    using n pos by (subst unat_sub) (simp_all add: word_le_nat_alt)
  have hyps: "8 * 0 + unat (first_free_block bg - 1) < 8 * length (bitmaps bg)"
    "unat n \<le> unat (first_free_block bg - 1) + 1"
    unfolding u lim(1) using n pos lim(3,4) by linarith+
  obtain bm where "free_bits (bitmaps bg) 0 (unat n) (first_free_block bg - 1) = Inr bm"
    using free_bits_spec [OF hyps] by blast
  moreover have "unat (free_blocks bg + n) = unat (free_blocks bg) + unat n"
    using n(2) lim by (intro unat_add_small) simp
  ultimately show ?thesis using lim(2) by (simp add: release_blocks_def)
qed

text \<open>C30: whatever the groups and whatever the number of blocks asked for, giving back as many blocks as
  the first region of the allocation holds empties the whole list, because \<open>list.last\<close> was
  left at the first region. Only the blocks of the first region become free again; those of the
  other regions \<open>rs\<close> stay reserved although the allocation no longer names them.\<close>

theorem reduce_drops_all_regions:
  assumes "groups_ok bs aux" "mem_ok m" "0 < n" "unat n \<le> card (blocks_free aux)"
  shows "\<exists>alloc m1 aux1 as b k g rs aux2 m2 alloc2. allocate_blocks force aux m n = Inr (Some alloc, m1, aux1)
    \<and> rl_first (main_list alloc) = hd_opt as \<and> rlist (cells m1) None as ((b, k, g) # rs)
    \<and> unat k + blocks_of rs = unat n \<and> total_free aux1 + unat n = total_free aux
    \<and> reduce_allocation aux1 m1 alloc k = Inr (aux2, m2, alloc2)
    \<and> block_allocation_len m2 alloc2 = Inr 0 \<and> total_free aux2 = total_free aux1 + unat k"
proof -
  have busy: "busy_groups aux \<le> length (bgs aux)" by (simp add: busy_groups_def)
  obtain m1 aux1 as rs0 where r: "ext4_allocate_best_fit force aux m n = Inr (hd_opt as, m1, aux1)"
    "rlist (cells m1) None as rs0" "blocks_of rs0 = unat n" "\<forall>r \<in> set rs0. region_used aux1 r"
    "total_free aux1 + unat n = total_free aux"
    "taken (ext4_allocate_blocks_from_block_group force) aux (List.map region_range rs0) aux1"
    using best_fit_loop_enough [OF assms(1,2), of "[]" "[]" n "Suc (Suc (length (bgs aux)))" force] busy
      assms(4) unfolding ext4_allocate_best_fit_def card_blocks_free [OF assms(1)] by auto
  have ok1: "groups_ok bs aux1" using group_blocks.taken_ranges [OF r(6) assms(1)] by blast
  obtain a as' b k g rs where as: "as = a # as'" "rs0 = (b, k, g) # rs"
    using r(2,3) assms(3) by (cases as; cases rs0) (auto simp: word_gt_0 unat_eq_0)
  have a: "cells m1 a = Some \<lparr>reg_block = b, reg_len = k, reg_bg = g, reg_next = hd_opt as', reg_prev = None\<rparr>"
    using r(2) as by simp
  have used: "0 < k" "g < length (bgs aux1)" "unat k \<le> unat (first_free_block (bgs aux1 ! g))"
    using r(4) as(2) by (simp_all add: region_used_def)
  obtain bg where bg: "release_blocks (bgs aux1 ! g) k = Inr bg"
    "unat (free_blocks bg) = unat (free_blocks (bgs aux1 ! g)) + unat k"
    using release_used [OF conjunct1 [OF groups_ok_bg [OF ok1 used(2)]] used(1,3)] by blast
  define al where "al = create_allocation\<lparr>main_list := \<lparr>rl_first = Some a, rl_last = Some a,
       rl_iter = Some a, partial_iter = 0\<rparr>\<rparr>"
  have "allocate_blocks force aux m n = Inr (Some al, m1, aux1)"
    using r(1) as by (simp add: allocate_blocks_def al_def)
  moreover have "reduce_allocation aux1 m1 al k = Inr (set_bg aux1 g bg,
      m1\<lparr>cells := (cells m1)(a := None)\<rparr>, al\<lparr>main_list := empty_region_list\<rparr>)"
    using a used(1,2) bg(1)
    by (simp add: reduce_allocation_def al_def deref_def numeral_2_eq_2 word_gt_0)
  moreover have "block_allocation_len m' (al\<lparr>main_list := empty_region_list\<rparr>) = Inr 0" for m'
    by (simp add: block_allocation_len_def empty_region_list_def)
  moreover have "total_free (set_bg aux1 g bg) = total_free aux1 + unat k"
    by (rule total_free_give_bg [OF used(2) bg(2)])
  moreover have "rl_first (main_list al) = hd_opt as" by (simp add: al_def as)
  ultimately show ?thesis using r(2,3,5) unfolding as
    by (intro exI conjI) (assumption | simp)+
qed

definition two_groups :: fs_aux_info where
  "two_groups = demo_aux\<lparr>groups := 2, bgs := [demo_group 8 1, demo_group 16 1]\<rparr>"

lemma two_groups_ok: "groups_ok 1 two_groups"
proof -
  have g: "group_end (demo_group 8 1) = 9" "group_end (demo_group 16 1) = 17"
    "first_block (demo_group 16 1) = 16"
    by (simp_all add: group_end_def demo_group_def zero_bg_def)
  have n: "i < 2 \<longleftrightarrow> i = 0 \<or> i = 1" for i :: nat by auto
  have l: "bgs two_groups = [demo_group 8 1, demo_group 16 1]" "groups two_groups = 2"
    by (simp_all add: two_groups_def)
  show ?thesis
    unfolding groups_ok_def l by (auto simp: n g demo_group_ok nth_Cons' less_Suc_eq)
qed

text \<open>Two groups with one free block each serve a request for two blocks.\<close>

lemma two_groups_first_region:
  "case allocate_blocks False two_groups \<lparr>cells = (\<lambda>_. None), brk = 0\<rparr> 2 of
     Inr (Some alloc, m, aux) \<Rightarrow> map_option reg_len (cells m (the (rl_first (main_list alloc)))) = Some 1
   | _ \<Rightarrow> False"
  by code_simp

lemma reduce_drops_all_regions_witness:
  "\<exists>alloc m1 aux1 aux2 m2 alloc2. allocate_blocks False two_groups \<lparr>cells = (\<lambda>_. None), brk = 0\<rparr> 2
      = Inr (Some alloc, m1, aux1) \<and> total_free aux1 = 0
    \<and> reduce_allocation aux1 m1 alloc 1 = Inr (aux2, m2, alloc2)
    \<and> block_allocation_len m2 alloc2 = Inr 0 \<and> total_free aux2 = 1"
proof -
  have t: "total_free two_groups = 2"
    by (simp add: total_free_def two_groups_def demo_group_def zero_bg_def)
  have "mem_ok (\<lparr>cells = (\<lambda>_. None), brk = 0\<rparr> :: reg_mem)" by (simp add: mem_ok_def)
  from reduce_drops_all_regions [OF two_groups_ok this, of 2 False]
  obtain alloc m1 aux1 as b k g rs aux2 m2 alloc2 where
    w: "allocate_blocks False two_groups \<lparr>cells = (\<lambda>_. None), brk = 0\<rparr> 2 = Inr (Some alloc, m1, aux1)"
    "rl_first (main_list alloc) = hd_opt as" "rlist (cells m1) None as ((b, k, g) # rs)"
    "total_free aux1 + unat (2 :: u32) = total_free two_groups"
    "reduce_allocation aux1 m1 alloc k = Inr (aux2, m2, alloc2)"
    "block_allocation_len m2 alloc2 = Inr 0" "total_free aux2 = total_free aux1 + unat k"
    unfolding card_blocks_free [OF two_groups_ok] t by auto
  have "k = 1" using two_groups_first_region w(2,3) unfolding w(1) by (cases as) auto
  then show ?thesis using w t by simp
qed

end
