(* ===== verification/Sha1.thy ===== *)
theory Sha1
  imports Ext4_Prelude
begin

text \<open>
  \<^verbatim>\<open>src/sha1.c\<close>: the transformation of one block, kept unrolled as the source has it, the context
  with its buffered rest, and the padding. \<open>sha1_spec\<close> is the hash function of FIPS 180; the theory
  shows that any sequence of \<open>SHA1Update\<close> calls followed by \<open>SHA1Final\<close> computes it. The
  little-endian branch of \<open>blk0\<close> is modelled.
\<close>

section \<open>The transformation\<close>

definition rol :: "u32 \<Rightarrow> nat \<Rightarrow> u32" where
  "rol value bits = push_bit bits value OR drop_bit (32 - bits) value"

text \<open>The working variables and the block; the union is read as 16 words.\<close>

record workspace =
  wa :: u32
  wb :: u32
  wc :: u32
  wd :: u32
  we :: u32
  wl :: "u32 list"

datatype var = A | B | C | D | E

fun var_get :: "var \<Rightarrow> workspace \<Rightarrow> u32" where
  "var_get A s = wa s"
| "var_get B s = wb s"
| "var_get C s = wc s"
| "var_get D s = wd s"
| "var_get E s = we s"

fun var_set :: "var \<Rightarrow> u32 \<Rightarrow> workspace \<Rightarrow> workspace" where
  "var_set A v s = s\<lparr>wa := v\<rparr>"
| "var_set B v s = s\<lparr>wb := v\<rparr>"
| "var_set C v s = s\<lparr>wc := v\<rparr>"
| "var_set D v s = s\<lparr>wd := v\<rparr>"
| "var_set E v s = s\<lparr>we := v\<rparr>"

definition blk0 :: "workspace \<Rightarrow> nat \<Rightarrow> u32 \<times> workspace" where
  "blk0 s i = (let v = rol (wl s ! i) 24 AND 0xFF00FF00 OR rol (wl s ! i) 8 AND 0x00FF00FF in
     (v, s\<lparr>wl := (wl s)[i := v]\<rparr>))"

definition blk :: "workspace \<Rightarrow> nat \<Rightarrow> u32 \<times> workspace" where
  "blk s i = (let v = rol (wl s ! ((i + 13) mod 16) XOR wl s ! ((i + 8) mod 16)
         XOR wl s ! ((i + 2) mod 16) XOR wl s ! (i mod 16)) 1 in
     (v, s\<lparr>wl := (wl s)[i mod 16 := v]\<rparr>))"

text \<open>The five round macros: the variables they are called with, and the round.\<close>

datatype round_macro =
    R0 var var var var var nat
  | R1 var var var var var nat
  | R2 var var var var var nat
  | R3 var var var var var nat
  | R4 var var var var var nat

definition round_end :: "var \<Rightarrow> var \<Rightarrow> var \<Rightarrow> u32 \<Rightarrow> u32 \<times> workspace \<Rightarrow> u32 \<Rightarrow> workspace" where
  "round_end v w z f vs k = (case vs of (val, s) \<Rightarrow>
     let s = var_set z (var_get z s + (f + val + k + rol (var_get v s) 5)) s in
     var_set w (rol (var_get w s) 30) s)"

fun run_round :: "round_macro \<Rightarrow> workspace \<Rightarrow> workspace" where
  "run_round (R0 v w x y z i) s = round_end v w z
     ((var_get w s AND (var_get x s XOR var_get y s)) XOR var_get y s) (blk0 s i) 0x5A827999 "
| "run_round (R1 v w x y z i) s = round_end v w z
     ((var_get w s AND (var_get x s XOR var_get y s)) XOR var_get y s) (blk s i) 0x5A827999"
| "run_round (R2 v w x y z i) s = round_end v w z
     (var_get w s XOR var_get x s XOR var_get y s) (blk s i) 0x6ED9EBA1"
| "run_round (R3 v w x y z i) s = round_end v w z
     (((var_get w s OR var_get x s) AND var_get y s) OR (var_get w s AND var_get x s)) (blk s i) 0x8F1BBCDC"
| "run_round (R4 v w x y z i) s = round_end v w z
     (var_get w s XOR var_get x s XOR var_get y s) (blk s i) 0xCA62C1D6"

definition sha1_rounds :: "round_macro list" where
  "sha1_rounds =
    [R0 A B C D E 0, R0 E A B C D 1, R0 D E A B C 2, R0 C D E A B 3,
     R0 B C D E A 4, R0 A B C D E 5, R0 E A B C D 6, R0 D E A B C 7,
     R0 C D E A B 8, R0 B C D E A 9, R0 A B C D E 10, R0 E A B C D 11,
     R0 D E A B C 12, R0 C D E A B 13, R0 B C D E A 14, R0 A B C D E 15,
     R1 E A B C D 16, R1 D E A B C 17, R1 C D E A B 18, R1 B C D E A 19,
     R2 A B C D E 20, R2 E A B C D 21, R2 D E A B C 22, R2 C D E A B 23,
     R2 B C D E A 24, R2 A B C D E 25, R2 E A B C D 26, R2 D E A B C 27,
     R2 C D E A B 28, R2 B C D E A 29, R2 A B C D E 30, R2 E A B C D 31,
     R2 D E A B C 32, R2 C D E A B 33, R2 B C D E A 34, R2 A B C D E 35,
     R2 E A B C D 36, R2 D E A B C 37, R2 C D E A B 38, R2 B C D E A 39,
     R3 A B C D E 40, R3 E A B C D 41, R3 D E A B C 42, R3 C D E A B 43,
     R3 B C D E A 44, R3 A B C D E 45, R3 E A B C D 46, R3 D E A B C 47,
     R3 C D E A B 48, R3 B C D E A 49, R3 A B C D E 50, R3 E A B C D 51,
     R3 D E A B C 52, R3 C D E A B 53, R3 B C D E A 54, R3 A B C D E 55,
     R3 E A B C D 56, R3 D E A B C 57, R3 C D E A B 58, R3 B C D E A 59,
     R4 A B C D E 60, R4 E A B C D 61, R4 D E A B C 62, R4 C D E A B 63,
     R4 B C D E A 64, R4 A B C D E 65, R4 E A B C D 66, R4 D E A B C 67,
     R4 C D E A B 68, R4 B C D E A 69, R4 A B C D E 70, R4 E A B C D 71,
     R4 D E A B C 72, R4 C D E A B 73, R4 B C D E A 74, R4 A B C D E 75,
     R4 E A B C D 76, R4 D E A B C 77, R4 C D E A B 78, R4 B C D E A 79]"

text \<open>The block is copied into the union and read there as little-endian words.\<close>

definition le_word :: "u8 \<Rightarrow> u8 \<Rightarrow> u8 \<Rightarrow> u8 \<Rightarrow> u32" where
  "le_word b0 b1 b2 b3 = ucast b0 OR push_bit 8 (ucast b1) OR push_bit 16 (ucast b2) OR push_bit 24 (ucast b3)"

definition le_words :: "u8 list \<Rightarrow> u32 list" where
  "le_words buf = List.map (\<lambda>i. le_word (buf ! (4 * i)) (buf ! (4 * i + 1)) (buf ! (4 * i + 2)) (buf ! (4 * i + 3)))
     [0..<16]"

definition SHA1Transform :: "u32 list \<Rightarrow> u8 list \<Rightarrow> u32 list" where
  "SHA1Transform state buffer =
     (let s = fold run_round sha1_rounds \<lparr>wa = state ! 0, wb = state ! 1, wc = state ! 2, wd = state ! 3,
            we = state ! 4, wl = le_words buffer\<rparr> in
      [state ! 0 + wa s, state ! 1 + wb s, state ! 2 + wc s, state ! 3 + wd s, state ! 4 + we s])"

section \<open>The context\<close>

record SHA1_CTX =
  state :: "u32 list"
  count0 :: u32
  count1 :: u32
  buffer :: "u8 list"

definition SHA1Init :: "SHA1_CTX \<Rightarrow> SHA1_CTX" where
  "SHA1Init context = context\<lparr>
     state := [0x67452301, 0xEFCDAB89, 0x98BADCFE, 0x10325476, 0xC3D2E1F0], count0 := 0, count1 := 0\<rparr>"

text \<open>\<open>memcpy(&buf[j], &data[i], n)\<close>; past the end of either array it is a \<open>Fault\<close>.\<close>

definition memcpy :: "u8 list \<Rightarrow> nat \<Rightarrow> u8 list \<Rightarrow> nat \<Rightarrow> nat \<Rightarrow> u8 list res" where
  "memcpy buf j data i n =
     (if j + n \<le> length buf \<and> i + n \<le> length data
      then Inr (take j buf @ take n (drop i data) @ drop (j + n) buf) else Inl Fault)"

text \<open>
  The loop over the whole blocks of the data; a block past the end is a \<open>Fault\<close>. \<open>fuel\<close> is one more
  than the number of blocks in \<open>n\<close> bytes: a loop that goes on has wrapped around and never ends.
\<close>

fun update_loop :: "nat \<Rightarrow> u32 list \<Rightarrow> u8 list \<Rightarrow> u32 \<Rightarrow> u32 \<Rightarrow> (u32 list \<times> u32) res" where
  "update_loop fuel st data n i =
     (if i + 63 < n then
        (if unat i + 64 \<le> length data then
           (case fuel of 0 \<Rightarrow> Inl Diverge
            | Suc fuel \<Rightarrow> update_loop fuel (SHA1Transform st (take 64 (drop (unat i) data))) data n (i + 64))
         else Inl Fault)
      else Inr (st, i))"

declare update_loop.simps [simp del]

definition SHA1Update :: "SHA1_CTX \<Rightarrow> u8 list \<Rightarrow> u32 \<Rightarrow> SHA1_CTX res" where
  "SHA1Update ctx data n =
     (let j = count0 ctx;
          ctx = ctx\<lparr>count0 := count0 ctx + push_bit 3 n\<rparr>;
          ctx = (if count0 ctx < j then ctx\<lparr>count1 := count1 ctx + (drop_bit 29 n + 1)\<rparr> else ctx);
          j = drop_bit 3 j AND 63 in
      rbind (if j + n > 63 then
               let i = 64 - j in
               rbind (memcpy (buffer ctx) (unat j) data 0 (unat i)) (\<lambda>buf.
               rbind (update_loop (Suc (unat n div 64)) (SHA1Transform (state ctx) buf) data n i) (\<lambda>(st, i).
               Inr (ctx\<lparr>state := st, buffer := buf\<rparr>, 0, i)))
             else Inr (ctx, j, 0)) (\<lambda>(ctx, j, i).
      rbind (memcpy (buffer ctx) (unat j) data (unat i) (unat (n - i))) (\<lambda>buf.
      Inr (ctx\<lparr>buffer := buf\<rparr>))))"

text \<open>
  The padding loop of \<open>SHA1Final\<close>. Every round adds one byte, so that one of 64 rounds ends it.
\<close>

fun pad_loop :: "nat \<Rightarrow> SHA1_CTX \<Rightarrow> SHA1_CTX res" where
  "pad_loop fuel ctx =
     (if count0 ctx AND 504 \<noteq> 448 then
        (case fuel of 0 \<Rightarrow> Inl Diverge
         | Suc fuel \<Rightarrow> rbind (SHA1Update ctx [0] 1) (pad_loop fuel))
      else Inr ctx)"

declare pad_loop.simps [simp del]

definition SHA1Final :: "SHA1_CTX \<Rightarrow> u8 list res" where
  "SHA1Final ctx =
     (let finalcount = List.map (\<lambda>i. ucast (drop_bit ((3 - i mod 4) * 8)
            (if i \<ge> 4 then count0 ctx else count1 ctx) AND 255)) [0..<8] in
      rbind (SHA1Update ctx [0x80] 1) (\<lambda>ctx.
      rbind (pad_loop 64 ctx) (\<lambda>ctx.
      rbind (SHA1Update ctx finalcount 8) (\<lambda>ctx.
      Inr (List.map (\<lambda>i. ucast (drop_bit ((3 - i mod 4) * 8) (state ctx ! (i div 4)) AND 255)) [0..<20])))))"

section \<open>The hash function\<close>

definition be_word :: "u8 \<Rightarrow> u8 \<Rightarrow> u8 \<Rightarrow> u8 \<Rightarrow> u32" where
  "be_word b0 b1 b2 b3 = push_bit 24 (ucast b0) OR push_bit 16 (ucast b1) OR push_bit 8 (ucast b2) OR ucast b3"

text \<open>The message schedule of a block of 64 bytes.\<close>

fun sched :: "u8 list \<Rightarrow> nat \<Rightarrow> u32" where
  "sched M t = (if t < 16
     then be_word (M ! (4 * t)) (M ! (4 * t + 1)) (M ! (4 * t + 2)) (M ! (4 * t + 3))
     else rol (sched M (t - 3) XOR sched M (t - 8) XOR sched M (t - 14) XOR sched M (t - 16)) 1)"

declare sched.simps [simp del]

definition ft :: "nat \<Rightarrow> u32 \<Rightarrow> u32 \<Rightarrow> u32 \<Rightarrow> u32" where
  "ft t x y z = (if t < 20 then (x AND y) XOR (NOT x AND z)
     else if t < 40 then x XOR y XOR z
     else if t < 60 then (x AND y) XOR (x AND z) XOR (y AND z)
     else x XOR y XOR z)"

definition kt :: "nat \<Rightarrow> u32" where
  "kt t = (if t < 20 then 0x5A827999 else if t < 40 then 0x6ED9EBA1
     else if t < 60 then 0x8F1BBCDC else 0xCA62C1D6)"

type_synonym digest = "u32 \<times> u32 \<times> u32 \<times> u32 \<times> u32"

definition fips_step :: "u8 list \<Rightarrow> nat \<Rightarrow> digest \<Rightarrow> digest" where
  "fips_step M t = (\<lambda>(a, b, c, d, e).
     (rol a 5 + ft t b c d + e + kt t + sched M t, a, rol b 30, c, d))"

definition compress :: "digest \<Rightarrow> u8 list \<Rightarrow> digest" where
  "compress h M = (case h of (h0, h1, h2, h3, h4) \<Rightarrow>
     case fold (fips_step M) [0..<80] h of (a, b, c, d, e) \<Rightarrow> (h0 + a, h1 + b, h2 + c, h3 + d, h4 + e))"

lemma ft_Ch: "((x AND (y XOR z)) XOR z) = ((x AND y) XOR (NOT x AND (z :: u32)))"
  by (intro bit_word_eqI) (auto simp: bit_simps)

lemma ft_Maj: "(((x OR y) AND z) OR (x AND y)) = ((x AND y) XOR (x AND z) XOR (y AND (z :: u32)))"
  by (intro bit_word_eqI) (auto simp: bit_simps)

lemma blk0_be:
  "rol (le_word b0 b1 b2 b3) 24 AND 0xFF00FF00 OR rol (le_word b0 b1 b2 b3) 8 AND 0x00FF00FF
    = be_word b0 b1 b2 b3"
proof (rule bit_word_eqI)
  fix n assume "n < LENGTH(32)"
  then have n: "n < 32" by simp
  have m: "(0xFF00FF00 :: u32) = push_bit 24 (mask 8) OR push_bit 8 (mask 8)"
    "(0x00FF00FF :: u32) = push_bit 16 (mask 8) OR mask 8"
    by (simp_all add: mask_eq_exp_minus_1)
  have hi: "\<not> bit v k" if "8 \<le> k" for v :: u8 and k using that bit_imp_le_length [of v k] by auto
  obtain j k where nk: "n = 8 * j + k" "k < 8" by (metis div_mult_mod_eq mod_less_divisor mult.commute zero_less_numeral)
  then consider "j = 0" | "j = 1" | "j = 2" | "j = 3" using n by linarith
  then show "bit (rol (le_word b0 b1 b2 b3) 24 AND 0xFF00FF00 OR rol (le_word b0 b1 b2 b3) 8 AND 0x00FF00FF) n
      = bit (be_word b0 b1 b2 b3) n"
    using nk(2) unfolding m nk(1) by cases (simp_all add: rol_def le_word_def be_word_def bit_simps hi)
qed

text \<open>Which variable plays the part of which in round \<open>t\<close>.\<close>

definition place :: "nat \<Rightarrow> nat \<Rightarrow> var" where
  "place t j = [A, B, C, D, E] ! ((j + 4 * t) mod 5)"

definition macro_of :: "nat \<Rightarrow> round_macro" where
  "macro_of t = (let v = place t 0; w = place t 1; x = place t 2; y = place t 3; z = place t 4 in
     if t < 16 then R0 v w x y z t else if t < 20 then R1 v w x y z t else if t < 40 then R2 v w x y z t
     else if t < 60 then R3 v w x y z t else R4 v w x y z t)"

lemma rounds_regular: "sha1_rounds = List.map macro_of [0..<80]"
  by code_simp


section \<open>One block\<close>

text \<open>The working variables as seen from round \<open>t\<close>.\<close>

definition seen :: "nat \<Rightarrow> workspace \<Rightarrow> digest" where
  "seen t s = (var_get (place t 0) s, var_get (place t 1) s, var_get (place t 2) s, var_get (place t 3) s,
     var_get (place t 4) s)"

text \<open>The words of the schedule that are still in the block before round \<open>t\<close>.\<close>

definition sched_ok :: "u8 list \<Rightarrow> nat \<Rightarrow> u32 list \<Rightarrow> bool" where
  "sched_ok M t l \<longleftrightarrow> length l = 16 \<and> (\<forall>s < t. t \<le> s + 16 \<longrightarrow> l ! (s mod 16) = sched M s)
     \<and> (\<forall>s. t \<le> s \<and> s < 16 \<longrightarrow> l ! s = le_words M ! s)"

lemma place_mod: "place t j = [A, B, C, D, E] ! ((j + 4 * (t mod 5)) mod 5)"
  unfolding place_def by (metis mod_add_right_eq mod_mult_right_eq)

lemma round_end_seen:
  assumes "seen t s = (va, vb, vc, vd, ve)" "s' = s\<lparr>wl := l\<rparr>"
  shows "seen (Suc t) (round_end (place t 0) (place t 1) (place t 4) f (v, s') k)
      = (rol va 5 + f + ve + k + v, va, rol vb 30, vc, vd)
    \<and> wl (round_end (place t 0) (place t 1) (place t 4) f (v, s') k) = l"
proof -
  have "t mod 5 < 5" by simp
  then consider "t mod 5 = 0" | "t mod 5 = 1" | "t mod 5 = 2" | "t mod 5 = 3" | "t mod 5 = 4" by linarith
  then show ?thesis
    using assms(1) unfolding assms(2) seen_def place_mod
    by cases (simp_all add: mod_Suc round_end_def Let_def algebra_simps)
qed

lemma sched_ok_first:
  assumes "sched_ok M t l" "t < 16"
  shows "sched_ok M (Suc t) (l[t := sched M t])" "l ! t = le_words M ! t"
  using assms by (auto simp: sched_ok_def nth_list_update less_Suc_eq)

lemma sched_ok_later:
  assumes ok: "sched_ok M t l" and t: "16 \<le> t"
  shows "sched_ok M (Suc t) (l[t mod 16 := sched M t])"
    and "rol (l ! ((t + 13) mod 16) XOR l ! ((t + 8) mod 16) XOR l ! ((t + 2) mod 16) XOR l ! (t mod 16)) 1
      = sched M t"
proof -
  have l: "l ! (s mod 16) = sched M s" if "s < t" "t \<le> s + 16" for s using ok that by (simp add: sched_ok_def)
  have e: "(t + 13) mod 16 = (t - 3) mod 16" "(t + 8) mod 16 = (t - 8) mod 16" "(t + 2) mod 16 = (t - 14) mod 16"
    "t mod 16 = (t - 16) mod 16"
    using mod_add_self2 [of "t - 3" 16] mod_add_self2 [of "t - 8" 16] mod_add_self2 [of "t - 14" 16]
      mod_add_self2 [of "t - 16" 16] t by (simp_all add: add.commute)
  show "rol (l ! ((t + 13) mod 16) XOR l ! ((t + 8) mod 16) XOR l ! ((t + 2) mod 16) XOR l ! (t mod 16)) 1
      = sched M t"
    unfolding e using t l [of "t - 3"] l [of "t - 8"] l [of "t - 14"] l [of "t - 16"]
    by (subst sched.simps) simp
  show "sched_ok M (Suc t) (l[t mod 16 := sched M t])"
    unfolding sched_ok_def
  proof (intro conjI allI impI)
    fix s assume "s < Suc t" "Suc t \<le> s + 16"
    show "l[t mod 16 := sched M t] ! (s mod 16) = sched M s"
    proof (cases "s = t")
      case True
      then show ?thesis using ok by (simp add: sched_ok_def)
    next
      case False
      then have s: "s < t" "t < s + 16" using \<open>s < Suc t\<close> \<open>Suc t \<le> s + 16\<close> by auto
      have "s mod 16 \<noteq> t mod 16"
      proof
        assume "s mod 16 = t mod 16"
        then have "16 dvd t - s" using s(1) mod_eq_dvd_iff_nat [of s t 16] by simp
        then show False using s dvd_imp_le [of 16 "t - s"] by simp
      qed
      then show ?thesis using l [of s] s by simp
    qed
  qed (use ok t in \<open>auto simp: sched_ok_def\<close>)
qed

lemma macro_round:
  assumes "t < 80" "seen t s = (va, vb, vc, vd, ve)"
  shows "run_round (macro_of t) s = round_end (place t 0) (place t 1) (place t 4) (ft t vb vc vd)
    (if t < 16 then blk0 s t else blk s t) (kt t)"
  using assms by (auto simp: macro_of_def Let_def seen_def ft_def kt_def ft_Ch ft_Maj)

lemma run_round_step:
  assumes ok: "sched_ok M t (wl s)" and t: "t < 80"
  shows "seen (Suc t) (run_round (macro_of t) s) = fips_step M t (seen t s)
    \<and> sched_ok M (Suc t) (wl (run_round (macro_of t) s))"
proof -
  obtain va vb vc vd ve where s: "seen t s = (va, vb, vc, vd, ve)" by (cases "seen t s") auto
  obtain l where b: "(if t < 16 then blk0 s t else blk s t) = (sched M t, s\<lparr>wl := l\<rparr>)" "sched_ok M (Suc t) l"
  proof (cases "t < 16")
    case True
    have "le_words M ! t = le_word (M ! (4 * t)) (M ! (4 * t + 1)) (M ! (4 * t + 2)) (M ! (4 * t + 3))"
      using True by (simp add: le_words_def)
    then have "blk0 s t = (sched M t, s\<lparr>wl := (wl s)[t := sched M t]\<rparr>)"
      using sched_ok_first [OF ok True] True by (simp add: blk0_def Let_def blk0_be sched.simps)
    then show thesis using sched_ok_first [OF ok True] True by (intro that) auto
  next
    case False
    then have "blk s t = (sched M t, s\<lparr>wl := (wl s)[t mod 16 := sched M t]\<rparr>)"
      using sched_ok_later [OF ok] by (simp add: blk_def Let_def)
    then show thesis using sched_ok_later [OF ok] False by (intro that) auto
  qed
  show ?thesis
    using round_end_seen [OF s refl, of "ft t vb vc vd" "sched M t" l "kt t"] b(2)
    unfolding macro_round [OF t s] b(1) s by (simp add: fips_step_def algebra_simps)
qed

text \<open>The unrolled rounds are the 80 steps of the standard.\<close>

definition digest_of :: "u32 list \<Rightarrow> digest" where
  "digest_of st = (st ! 0, st ! 1, st ! 2, st ! 3, st ! 4)"

lemma rounds_steps:
  assumes "n \<le> 80" "sched_ok M 0 (wl s)"
  shows "seen n (fold run_round (List.map macro_of [0..<n]) s) = fold (fips_step M) [0..<n] (seen 0 s)
    \<and> sched_ok M n (wl (fold run_round (List.map macro_of [0..<n]) s))"
  using assms(1)
proof (induction n)
  case (Suc n)
  then show ?case
    using run_round_step [of M n "fold run_round (List.map macro_of [0..<n]) s"] by simp
qed (simp add: assms(2))

lemma SHA1Transform_compress:
  "digest_of (SHA1Transform st M) = compress (digest_of st) M" "length (SHA1Transform st M) = 5"
proof -
  let ?s = "\<lparr>wa = st ! 0, wb = st ! 1, wc = st ! 2, wd = st ! 3, we = st ! 4, wl = le_words M\<rparr>"
  have "sched_ok M 0 (wl ?s)" by (simp add: sched_ok_def le_words_def)
  from rounds_steps [OF order_refl this]
  have "seen 80 (fold run_round sha1_rounds ?s) = fold (fips_step M) [0..<80] (seen 0 ?s)"
    unfolding rounds_regular by blast
  moreover have "seen 0 ?s = digest_of st" by (simp add: seen_def place_def digest_of_def)
  moreover have "seen 80 s = (wa s, wb s, wc s, wd s, we s)" for s by (simp add: seen_def place_def)
  moreover define r where "r = fold run_round sha1_rounds ?s"
  ultimately have f: "fold (fips_step M) [0..<80] (digest_of st) = (wa r, wb r, wc r, wd r, we r)"
    by metis
  have "compress (digest_of st) M = (st ! 0 + wa r, st ! 1 + wb r, st ! 2 + wc r, st ! 3 + wd r, st ! 4 + we r)"
    unfolding compress_def f by (simp add: digest_of_def)
  then show "digest_of (SHA1Transform st M) = compress (digest_of st) M"
    unfolding SHA1Transform_def r_def [symmetric] by (simp add: digest_of_def)
  show "length (SHA1Transform st M) = 5" by (simp add: SHA1Transform_def Let_def)
qed

section \<open>The context\<close>

function hash_blocks :: "digest \<Rightarrow> u8 list \<Rightarrow> digest" where
  "hash_blocks h m = (if length m < 64 then h else hash_blocks (compress h (take 64 m)) (drop 64 m))"
  by pat_completeness auto
termination by (relation "measure (\<lambda>(h, m). length m)") auto

declare hash_blocks.simps [simp del]

definition rest :: "u8 list \<Rightarrow> u8 list" where
  "rest m = drop (64 * (length m div 64)) m"

lemma hash_blocks_short [simp]: "length m < 64 \<Longrightarrow> hash_blocks h m = h"
  by (simp add: hash_blocks.simps)

lemma hash_blocks_append:
  assumes "length x = 64 * k"
  shows "hash_blocks h (x @ y) = hash_blocks (hash_blocks h x) y"
  using assms
proof (induction k arbitrary: x h)
  case (Suc k)
  have "hash_blocks h (x @ y) = hash_blocks (compress h (take 64 x)) (drop 64 x @ y)"
    using Suc.prems by (subst hash_blocks.simps) simp
  moreover have "hash_blocks h x = hash_blocks (compress h (take 64 x)) (drop 64 x)"
    using Suc.prems by (subst hash_blocks.simps) simp
  ultimately show ?case using Suc.IH [of "drop 64 x"] Suc.prems by simp
qed simp

lemma length_rest: "length (rest m) = length m mod 64"
  by (simp add: rest_def minus_mult_div_eq_mod)

lemma whole_rest: "m = take (64 * (length m div 64)) m @ rest m" "length (take (64 * (length m div 64)) m) = 64 * (length m div 64)"
  by (simp_all add: rest_def)

lemma hash_blocks_more: "hash_blocks h (m @ x) = hash_blocks (hash_blocks h m) (rest m @ x)"
proof -
  let ?w = "take (64 * (length m div 64)) m"
  have "hash_blocks h m = hash_blocks (hash_blocks h ?w) (rest m)"
    using hash_blocks_append [OF whole_rest(2) [of m], of h "rest m"] whole_rest(1) [of m] by simp
  then have "hash_blocks h m = hash_blocks h ?w" by (simp add: length_rest)
  moreover have "m @ x = ?w @ rest m @ x" using whole_rest(1) [of m] by (metis append.assoc)
  ultimately show ?thesis using hash_blocks_append [OF whole_rest(2) [of m], of h "rest m @ x"] by metis
qed

lemma rest_more: "rest (m @ x) = rest (rest m @ x)"
proof -
  let ?q = "length m div 64"
  let ?p = "(length (rest m) + length x) div 64"
  have l: "length m + length x = 64 * ?q + (length (rest m) + length x)" by (simp add: length_rest)
  have d: "(length m + length x) div 64 = ?q + ?p" unfolding l by simp
  have "drop (64 * ?q) (m @ x) = rest m @ x" by (simp add: rest_def)
  then have "drop (64 * ?p) (drop (64 * ?q) (m @ x)) = drop (64 * ?p) (rest m @ x)" by simp
  moreover have "64 * ?p + 64 * ?q = 64 * (?q + ?p)" by simp
  ultimately have "drop (64 * (?q + ?p)) (m @ x) = drop (64 * ?p) (rest m @ x)" by (simp only: drop_drop)
  then show ?thesis unfolding rest_def [of "m @ x"] rest_def [of "rest m @ x"] length_append d .
qed

definition init_digest :: digest where
  "init_digest = (0x67452301, 0xEFCDAB89, 0x98BADCFE, 0x10325476, 0xC3D2E1F0)"

text \<open>The context after the message \<open>m\<close>.\<close>

definition ctx_ok :: "SHA1_CTX \<Rightarrow> u8 list \<Rightarrow> bool" where
  "ctx_ok ctx m \<longleftrightarrow> digest_of (state ctx) = hash_blocks init_digest m \<and> length (buffer ctx) = 64
     \<and> take (length m mod 64) (buffer ctx) = rest m
     \<and> count0 ctx = of_nat (8 * length m) \<and> count1 ctx = of_nat (8 * length m div 2 ^ 32)"

lemma SHA1Init_ok: "length (buffer ctx) = 64 \<Longrightarrow> ctx_ok (SHA1Init ctx) []"
  by (simp add: ctx_ok_def SHA1Init_def digest_of_def init_digest_def rest_def)

lemma update_loop_spec:
  assumes small: "length data < 2 ^ 29" and n: "n = of_nat (length data)"
    and "unat i \<le> length data" "length data < unat i + 64 * Suc fuel"
  shows "\<exists>st' i'. update_loop fuel st data n i = Inr (st', i')
    \<and> digest_of st' = hash_blocks (digest_of st) (drop (unat i) data)
    \<and> drop (unat i') data = rest (drop (unat i) data) \<and> unat i' \<le> length data"
  using assms(3,4)
proof (induction fuel arbitrary: st i)
  have un: "unat n = length data" using small n by (simp add: unat_of_nat)
  have add: "unat (i + k) = unat i + unat k" if "unat i \<le> length data" "unat k \<le> 64" for i k :: u32
    using small that by (intro unat_add_small) simp
  have c: "i + 63 < n \<longleftrightarrow> unat i + 63 < length data" if "unat i \<le> length data" for i
    using add [OF that, of 63] un by (simp add: word_less_nat_alt)
  have stop: "update_loop fuel st data n i = Inr (st, i) \<and> rest (drop (unat i) data) = drop (unat i) data"
    if "unat i \<le> length data" "\<not> unat i + 63 < length data" for i fuel st
  proof -
    have "length (drop (unat i) data) < 64" using that(2) by simp
    then have "length (drop (unat i) data) div 64 = 0" by (simp only: div_less)
    then show ?thesis using that c [OF that(1)] by (simp add: update_loop.simps rest_def)
  qed
  {
    case 0
    then have "\<not> unat i + 63 < length data" by simp
    from stop [OF 0(1) this] this 0 show ?case by simp
  next
    case (Suc fuel)
    let ?d = "drop (unat i) data"
    show ?case
    proof (cases "unat i + 63 < length data")
      case False
      from stop [OF Suc.prems(1) this] False Suc.prems(1) show ?thesis by simp
    next
      case True
      have i: "unat (i + 64) = unat i + 64" using add [OF Suc.prems(1), of 64] by simp
      have h: "unat (i + 64) \<le> length data" "length data < unat (i + 64) + 64 * Suc fuel"
        unfolding i using True Suc.prems(2) by simp_all
      obtain st' i' where r: "update_loop fuel (SHA1Transform st (take 64 ?d)) data n (i + 64) = Inr (st', i')"
        "digest_of st' = hash_blocks (digest_of (SHA1Transform st (take 64 ?d))) (drop (unat (i + 64)) data)"
        "drop (unat i') data = rest (drop (unat (i + 64)) data)" "unat i' \<le> length data"
        using Suc.IH [OF h, of "SHA1Transform st (take 64 ?d)"] by (elim exE conjE) (rule that)
      have nl: "\<not> length ?d < 64" using True by (simp add: not_less)
      have d: "drop (unat (i + 64)) data = drop 64 ?d" unfolding i by (simp add: add.commute)
      have "update_loop (Suc fuel) st data n i = Inr (st', i')"
        using r(1) True c [OF Suc.prems(1)] by (subst update_loop.simps) simp
      moreover have "digest_of st' = hash_blocks (digest_of st) ?d"
        unfolding r(2) d SHA1Transform_compress 
        by (subst hash_blocks.simps [of "digest_of st" ?d]) (simp only: nl if_False)
      moreover have "rest ?d = rest (drop 64 ?d)"
      proof -
        have "length (take 64 ?d) = 64" using True by simp
        then have "rest (take 64 ?d) = []" by (simp add: rest_def)
        then show ?thesis
          using rest_more [of "take 64 ?d" "drop 64 ?d"] by (simp only: append_take_drop_id append_Nil)
      qed
      ultimately show ?thesis using r(3,4) unfolding d by (intro exI [of _ st'] exI [of _ i']) simp
    qed
  }
qed

lemma carry_nat:
  assumes "x < 2 ^ 32"
  shows "(a + x) div 2 ^ 32 = a div 2 ^ 32 + (if (a + x) mod 2 ^ 32 < a mod 2 ^ 32 then 1 else 0 :: nat)"
proof -
  define c where "c = a mod 2 ^ 32"
  have a: "a = 2 ^ 32 * (a div 2 ^ 32) + c" "c < 2 ^ 32" by (simp_all add: c_def)
  have "(a + x) div 2 ^ 32 = a div 2 ^ 32 + (c + x) div 2 ^ 32" "(a + x) mod 2 ^ 32 = (c + x) mod 2 ^ 32"
    by (subst a(1), simp add: add.assoc del: mult_div_mod_eq)+
  moreover have "(c + x) div 2 ^ 32 = (if (c + x) mod 2 ^ 32 < c then 1 else 0)"
  proof (cases "c + x < 2 ^ 32")
    case False
    then have "c + x = 2 ^ 32 + (c + x - 2 ^ 32)" "c + x - 2 ^ 32 < 2 ^ 32" using a(2) assms by simp_all
    then have "(c + x) div 2 ^ 32 = 1" "(c + x) mod 2 ^ 32 = c + x - 2 ^ 32"
      by (metis add_0_right add.commute div_add_self1 div_less mod_add_self1 mod_less plus_1_eq_Suc One_nat_def zero_neq_numeral power_eq_0_iff)+
    then show ?thesis using assms by simp
  qed simp
  ultimately show ?thesis by (simp add: c_def)
qed

lemma unat_drop_bit: "unat (drop_bit k x :: 'a::len word) = unat x div 2 ^ k"
  by (simp only: unsigned_drop_bit_eq) (simp add: drop_bit_eq_div take_bit_nat_eq_self)

lemma unat_take_bit: "unat (take_bit k x :: 'a::len word) = unat x mod 2 ^ k"
  by (simp only: unsigned_take_bit_eq) (simp only: take_bit_eq_mod)

lemma count_more:
  assumes "n < 2 ^ 29"
  shows "(of_nat (8 * k) :: u32) + push_bit 3 (of_nat n) = of_nat (8 * (k + n))"
    and "(if (of_nat (8 * k) :: u32) + push_bit 3 (of_nat n) < of_nat (8 * k)
      then of_nat (8 * k div 2 ^ 32) + (drop_bit 29 (of_nat n) + 1) else of_nat (8 * k div 2 ^ 32))
    = (of_nat (8 * (k + n) div 2 ^ 32) :: u32)"
proof -
  show e: "(of_nat (8 * k) :: u32) + push_bit 3 (of_nat n) = of_nat (8 * (k + n))"
    by (simp add: push_bit_eq_mult algebra_simps)
  have d: "drop_bit 29 (of_nat n :: u32) = 0"
    using assms unfolding word_unat_eq_iff unat_drop_bit by (simp add: unat_of_nat)
  have lt: "of_nat (8 * (k + n)) < (of_nat (8 * k) :: u32) \<longleftrightarrow> (8 * k + 8 * n) mod 2 ^ 32 < 8 * k mod 2 ^ 32"
    by (simp only: word_less_nat_alt unat_of_nat distrib_left) simp
  show "(if (of_nat (8 * k) :: u32) + push_bit 3 (of_nat n) < of_nat (8 * k)
      then of_nat (8 * k div 2 ^ 32) + (drop_bit 29 (of_nat n) + 1) else of_nat (8 * k div 2 ^ 32))
    = (of_nat (8 * (k + n) div 2 ^ 32) :: u32)"
    unfolding e lt d using carry_nat [of "8 * n" "8 * k"] assms
    by (simp only: distrib_left) simp
qed

lemma count_index:
  "unat (drop_bit 3 (of_nat (8 * k) :: u32) AND 63) = k mod 64"
proof -
  have m: "(63 :: u32) = mask 6" by (simp add: mask_eq_exp_minus_1)
  have "unat (drop_bit 3 (of_nat (8 * k) :: u32) AND 63) = (8 * k mod 2 ^ 32) div 8 mod 64"
    unfolding m take_bit_eq_mask [symmetric] unat_take_bit unat_drop_bit unat_of_nat by simp
  also have "\<dots> = k mod 64"
  proof -
    have "8 * k mod 2 ^ 32 = 8 * (k mod 2 ^ 29)" using mult_mod_right [of 8 k "2 ^ 29"] by simp
    then show ?thesis by (simp add: mod_mod_cancel)
  qed
  finally show ?thesis .
qed

text \<open>One call of \<open>SHA1Update\<close>.\<close>

lemma SHA1Update_spec:
  assumes ok: "ctx_ok ctx m" and small: "length data < 2 ^ 29" and n: "n = of_nat (length data)"
  shows "\<exists>ctx'. SHA1Update ctx data n = Inr ctx' \<and> ctx_ok ctx' (m @ data)"
proof -
  let ?r = "length m mod 64" and ?N = "length data"
  define j where "j = drop_bit 3 (count0 ctx) AND 63"
  have uj: "unat j = ?r" using ok unfolding j_def ctx_ok_def by (simp only: count_index)
  have r: "?r < 64" by simp
  have un: "unat n = ?N" using small n by (simp add: unat_of_nat)
  define ctx1 where "ctx1 = ctx\<lparr>count0 := of_nat (8 * length (m @ data)),
    count1 := of_nat (8 * length (m @ data) div 2 ^ 32)\<rparr>"
  have e1: "(let c = ctx\<lparr>count0 := count0 ctx + push_bit 3 n\<rparr> in
      if count0 c < count0 ctx then c\<lparr>count1 := count1 c + (drop_bit 29 n + 1)\<rparr> else c) = ctx1"
  proof -
    define q where "q = push_bit 3 n"
    have a: "count0 ctx + q = of_nat (8 * length (m @ data))"
      using count_more(1) [OF small] ok unfolding q_def n ctx_ok_def by (simp only: length_append)
    have b: "(if count0 ctx + q < count0 ctx then count1 ctx + (drop_bit 29 n + 1) else count1 ctx)
        = of_nat (8 * length (m @ data) div 2 ^ 32)"
      using count_more(2) [OF small] ok unfolding q_def n ctx_ok_def by (simp only: length_append)
    have "ctx1 = ctx\<lparr>count0 := count0 ctx + q,
        count1 := (if count0 ctx + q < count0 ctx then count1 ctx + (drop_bit 29 n + 1) else count1 ctx)\<rparr>"
      unfolding ctx1_def a [symmetric] b [symmetric] by (simp only:)
    then show ?thesis unfolding q_def [symmetric] by (simp add: Let_def)
  qed
  have ujn: "unat (j + n) = ?r + ?N" using small r uj un by (intro unat_add_small [THEN trans]) simp_all
  have big: "j + n > 63 \<longleftrightarrow> 64 \<le> ?r + ?N" by (auto simp: word_less_nat_alt ujn)
  have upd: "SHA1Update ctx data n = rbind (if j + n > 63 then
               let i = 64 - j in
               rbind (memcpy (buffer ctx1) (unat j) data 0 (unat i)) (\<lambda>buf.
               rbind (update_loop (Suc (unat n div 64)) (SHA1Transform (state ctx1) buf) data n i) (\<lambda>(st, i).
               Inr (ctx1\<lparr>state := st, buffer := buf\<rparr>, 0, i)))
             else Inr (ctx1, j, 0)) (\<lambda>(ctx, j, i).
      rbind (memcpy (buffer ctx) (unat j) data (unat i) (unat (n - i))) (\<lambda>buf.
      Inr (ctx\<lparr>buffer := buf\<rparr>)))"
    using e1 unfolding SHA1Update_def j_def Let_def by (simp only:)
  have sel: "buffer ctx1 = buffer ctx" "state ctx1 = state ctx" by (simp_all add: ctx1_def)
  have ok': "length (buffer ctx) = 64" "take ?r (buffer ctx) = rest m"
    "digest_of (state ctx) = hash_blocks init_digest m"
    using ok by (simp_all add: ctx_ok_def)
  show ?thesis
  proof (cases "64 \<le> ?r + ?N")
    case False
    have "memcpy (buffer ctx) ?r data 0 ?N = Inr (rest m @ data @ drop (?r + ?N) (buffer ctx))"
      using False ok' by (simp add: memcpy_def)
    then have "SHA1Update ctx data n = Inr (ctx1\<lparr>buffer := rest m @ data @ drop (?r + ?N) (buffer ctx)\<rparr>)"
      unfolding upd using False big by (simp add: sel uj un)
    moreover have "ctx_ok (ctx1\<lparr>buffer := rest m @ data @ drop (?r + ?N) (buffer ctx)\<rparr>) (m @ data)"
    proof -
      have l: "length (rest m @ data) < 64" using False by (simp add: length_rest)
      have "rest (rest m @ data) = rest m @ data" using l by (simp add: rest_def [of "rest m @ data"])
      then have "rest (m @ data) = rest m @ data" by (simp add: rest_more [of m])
      moreover from this have "length (m @ data) mod 64 = ?r + ?N"
        using length_rest [of "m @ data"] length_rest [of m] by simp
      moreover have "hash_blocks init_digest (m @ data) = hash_blocks init_digest m"
        using l by (simp add: hash_blocks_more [of _ m])
      ultimately show ?thesis using ok' False
        by (simp add: ctx_ok_def ctx1_def length_rest)
    qed
    ultimately show ?thesis by blast
  next
    case True
    have ui: "unat (64 - j) = 64 - ?r" using uj r by (subst unat_sub) (simp_all add: word_le_nat_alt)
    define buf where "buf = rest m @ take (64 - ?r) data"
    have cp: "memcpy (buffer ctx) ?r data 0 (64 - ?r) = Inr buf"
      using True ok' r by (simp add: memcpy_def buf_def)
    have lb: "length buf = 64" using True r by (simp add: buf_def length_rest)
    obtain st' i' where u: "update_loop (Suc (unat n div 64)) (SHA1Transform (state ctx) buf) data n (64 - j) = Inr (st', i')"
      "digest_of st' = hash_blocks (digest_of (SHA1Transform (state ctx) buf)) (drop (64 - ?r) data)"
      "drop (unat i') data = rest (drop (64 - ?r) data)" "unat i' \<le> ?N"
    proof -
      have a: "unat (64 - j) \<le> ?N" using True ui by simp
      have "?N < 64 * Suc (?N div 64)" by (metis dividend_less_times_div mult_Suc_right zero_less_numeral)
      then have b: "?N < unat (64 - j) + 64 * Suc (Suc (unat n div 64))" unfolding un by simp
      show thesis
        using update_loop_spec [OF small n a b, of "SHA1Transform (state ctx) buf"] unfolding ui
        by (elim exE conjE) (rule that)
    qed
    have uni: "unat (n - i') = ?N - unat i'" using u(4) un by (simp add: unat_sub word_le_nat_alt)
    let ?x = "drop (unat i') data"
    have lx: "length ?x < 64" unfolding u(3) by (simp add: length_rest)
    have cp2: "memcpy buf 0 data (unat i') (?N - unat i') = Inr (?x @ drop (?N - unat i') buf)"
      using lx lb u(4) by (simp add: memcpy_def)
    have "SHA1Update ctx data n = Inr (ctx1\<lparr>state := st', buffer := ?x @ drop (?N - unat i') buf\<rparr>)"
      unfolding upd using True big cp u(1) cp2 by (simp add: sel uj ui uni Let_def)
    moreover have "ctx_ok (ctx1\<lparr>state := st', buffer := ?x @ drop (?N - unat i') buf\<rparr>) (m @ data)"
    proof -
      have s: "rest m @ data = buf @ drop (64 - ?r) data" by (simp add: buf_def)
      have lb1: "length buf = 64 * 1" using lb by simp
      have "rest (m @ data) = rest (buf @ drop (64 - ?r) data)" by (simp only: rest_more [of m] s)
      also have "\<dots> = rest (drop (64 - ?r) data)"
        using rest_more [of buf] lb by (simp add: rest_def [of buf])
      finally have x: "rest (m @ data) = ?x" by (simp add: u(3))
      have "hash_blocks init_digest (m @ data)
          = hash_blocks (hash_blocks (hash_blocks init_digest m) buf) (drop (64 - ?r) data)"
        by (simp only: hash_blocks_more [of _ m] s hash_blocks_append [OF lb1])
      also have "hash_blocks (hash_blocks init_digest m) buf = compress (hash_blocks init_digest m) buf"
        using lb by (subst hash_blocks.simps) simp
      finally have h: "digest_of st' = hash_blocks init_digest (m @ data)"
        unfolding u(2) SHA1Transform_compress ok'(3) by simp
      have "length (m @ data) mod 64 = length ?x" using length_rest [of "m @ data"] x by simp
      then show ?thesis unfolding ctx_ok_def x h [symmetric] using lb lx u(4) by (simp add: ctx1_def)
    qed
    ultimately show ?thesis by blast
  qed
qed

section \<open>The digest\<close>

definition be_bytes :: "nat \<Rightarrow> nat \<Rightarrow> u8 list" where
  "be_bytes n x = List.map (\<lambda>i. of_nat (x div 256 ^ (n - 1 - i))) [0..<n]"

text \<open>The padded message: a one bit, zeros up to 8 bytes before a block ends, the length in bits.\<close>

definition pad_zeros :: "nat \<Rightarrow> nat" where
  "pad_zeros n = (119 - n mod 64) mod 64"

definition sha1_pad :: "u8 list \<Rightarrow> u8 list" where
  "sha1_pad m = m @ [0x80] @ replicate (pad_zeros (length m)) 0 @ be_bytes 8 (8 * length m)"

definition sha1_spec :: "u8 list \<Rightarrow> u8 list" where
  "sha1_spec m = (case hash_blocks init_digest (sha1_pad m) of (h0, h1, h2, h3, h4) \<Rightarrow>
     concat (List.map (\<lambda>h. be_bytes 4 (unat h)) [h0, h1, h2, h3, h4]))"

lemma pad_count:
  assumes "(r :: nat) < 64"
  shows "(120 - r) mod 64 = (if r \<le> 56 then 56 - r else 120 - r)" "(119 - r) mod 64 = (if r \<le> 55 then 55 - r else 119 - r)"
  using assms by (auto simp: mod_if)

lemma length_sha1_pad: "length (sha1_pad m) mod 64 = 0"
proof -
  have "(length m + 9 + pad_zeros (length m)) mod 64 = (length m mod 64 + 9 + pad_zeros (length m)) mod 64"
    by (metis (no_types, lifting) add.assoc mod_add_left_eq)
  also have "\<dots> = 0"
  proof (cases "length m mod 64 \<le> 55")
    case True
    then have "pad_zeros (length m) = 55 - length m mod 64"
      by (simp add: pad_zeros_def pad_count)
    then show ?thesis using True by simp
  next
    case False
    moreover have "length m mod 64 < 64" by simp
    ultimately have "pad_zeros (length m) = 119 - length m mod 64" by (simp add: pad_zeros_def)
    then show ?thesis using False \<open>length m mod 64 < 64\<close> by simp
  qed
  finally show ?thesis by (simp add: sha1_pad_def be_bytes_def add_ac)
qed

lemma pad_done:
  assumes "ctx_ok ctx m"
  shows "count0 ctx AND 504 = 448 \<longleftrightarrow> length m mod 64 = 56"
proof -
  have "(504 :: u32) = mask 9 AND NOT (mask 3)" by (simp add: mask_eq_exp_minus_1)
  then have "count0 ctx AND 504 = take_bit 9 (count0 ctx) AND NOT (mask 3)"
    by (simp add: take_bit_eq_mask and.assoc)
  then have "unat (count0 ctx AND 504) = 8 * (unat (count0 ctx) mod 512 div 8)"
    by (simp only: unat_and_not_mask unat_take_bit) simp
  moreover have "unat (count0 ctx) = 8 * length m mod 2 ^ 32"
    using assms unfolding ctx_ok_def by (simp only: unat_of_nat) simp
  moreover have "8 * length m mod 2 ^ 32 mod 512 div 8 = length m mod 64"
  proof -
    have "8 * length m mod 2 ^ 32 mod 512 = 8 * length m mod 512" by (simp add: mod_mod_cancel)
    also have "\<dots> = 8 * (length m mod 64)" using mult_mod_right [of 8 "length m" 64] by simp
    finally show ?thesis by simp
  qed
  ultimately have "unat (count0 ctx AND 504) = 8 * (length m mod 64)" by simp
  then show ?thesis by (auto simp: word_unat_eq_iff)
qed

lemma pad_loop_spec:
  assumes "ctx_ok ctx m" "(120 - length m mod 64) mod 64 \<le> fuel"
  shows "\<exists>ctx'. pad_loop fuel ctx = Inr ctx' \<and> ctx_ok ctx' (m @ replicate ((120 - length m mod 64) mod 64) 0)"
  using assms
proof (induction fuel arbitrary: ctx m)
  case 0
  have l: "length m mod 64 < 64" by simp
  have "length m mod 64 = 56" using 0(2) l by (simp add: pad_count split: if_splits)
  then show ?case using 0 pad_done [OF 0(1)] by (simp add: pad_loop.simps)
next
  case (Suc fuel)
  show ?case
  proof (cases "length m mod 64 = 56")
    case True
    then show ?thesis using Suc.prems pad_done [OF Suc.prems(1)] by (simp add: pad_loop.simps)
  next
    case False
    let ?k = "(120 - length m mod 64) mod 64"
    have l: "length m mod 64 < 64" by simp
    have "length (m @ [0]) mod 64 = (if length m mod 64 = 63 then 0 else Suc (length m mod 64))"
      by (simp add: mod_Suc)
    then have k: "?k = Suc ((120 - length (m @ [0]) mod 64) mod 64)"
      using False l by (auto simp: pad_count)
    obtain ctx1 where u: "SHA1Update ctx [0] 1 = Inr ctx1" "ctx_ok ctx1 (m @ [0])"
      using SHA1Update_spec [OF Suc.prems(1), of "[0]" 1] by auto
    have "(120 - length (m @ [0]) mod 64) mod 64 \<le> fuel" using Suc.prems(2) k by simp
    from Suc.IH [OF u(2) this] obtain ctx' where
      "pad_loop fuel ctx1 = Inr ctx'"
      "ctx_ok ctx' ((m @ [0]) @ replicate ((120 - length (m @ [0]) mod 64) mod 64) 0)" by blast
    then show ?thesis using u(1) False pad_done [OF Suc.prems(1)] unfolding k
      by (subst pad_loop.simps) simp
  qed
qed

lemma byte_of: "(ucast (drop_bit (8 * k) (x :: u32) AND 255) :: u8) = of_nat (unat x div 256 ^ k)"
proof -
  have "ucast (drop_bit (8 * k) x AND 255) = (of_nat (unat (drop_bit (8 * k) x AND 255)) :: u8)"
    by simp
  moreover have "unat (drop_bit (8 * k) x AND 255) = unat x div 256 ^ k mod 256"
  proof -
    have "(255 :: u32) = mask 8" by (simp add: mask_eq_exp_minus_1)
    then show ?thesis
      by (simp only: take_bit_eq_mask [symmetric] unat_take_bit unat_drop_bit power_mult) simp
  qed
  moreover have "(of_nat (y mod 256) :: u8) = of_nat y" for y by (simp add: word_unat_eq_iff unat_of_nat)
  ultimately show ?thesis by simp
qed

lemma byte_mod: "k \<le> 3 \<Longrightarrow> (of_nat (y mod 2 ^ 32 div 256 ^ k) :: u8) = of_nat (y div 256 ^ k)"
proof -
  assume "k \<le> 3"
  then have "take_bit 8 (drop_bit (8 * k) (take_bit 32 y)) = take_bit 8 (drop_bit (8 * k) y)"
    by (simp add: drop_bit_take_bit min.absorb1)
  then have "y mod 2 ^ 32 div 2 ^ (8 * k) mod 2 ^ 8 = y div 2 ^ (8 * k) mod 2 ^ 8"
    by (simp only: take_bit_eq_mod drop_bit_eq_div)
  then have "y mod 2 ^ 32 div 256 ^ k mod 256 = y div 256 ^ k mod 256"
    by (simp only: power_mult) simp
  then show ?thesis by (simp add: word_unat_eq_iff unat_of_nat)
qed

lemma final_count:
  assumes "ctx_ok ctx m"
  shows "List.map (\<lambda>i. ucast (drop_bit ((3 - i mod 4) * 8)
            (if i \<ge> 4 then count0 ctx else count1 ctx) AND 255)) [0..<8] = be_bytes 8 (8 * length m)"
  unfolding be_bytes_def
proof (rule map_cong [OF refl])
  fix i assume "i \<in> set [0..<8 :: nat]"
  then have i: "i < 8" by simp
  have c: "unat (count0 ctx) = 8 * length m mod 2 ^ 32" "unat (count1 ctx) = 8 * length m div 2 ^ 32 mod 2 ^ 32"
    using assms unfolding ctx_ok_def by (simp_all only: unat_of_nat) simp_all
  show "ucast (drop_bit ((3 - i mod 4) * 8) (if i \<ge> 4 then count0 ctx else count1 ctx) AND 255)
      = (of_nat (8 * length m div 256 ^ (8 - 1 - i)) :: u8)"
  proof (cases "i \<ge> 4")
    case True
    then have k: "3 - i mod 4 = 8 - 1 - i" "8 - 1 - i \<le> 3" using i by presburger+
    show ?thesis using byte_of [of "8 - 1 - i" "count0 ctx"] byte_mod [OF k(2), of "8 * length m"] True
      unfolding k(1) c by (simp only: if_True mult.commute)
  next
    case False
    then have k: "3 - i mod 4 = 3 - i" "8 - 1 - i = 4 + (3 - i)" by simp_all
    have "8 * length m div 2 ^ 32 div 256 ^ (3 - i) = 8 * length m div 256 ^ (4 + (3 - i))"
      unfolding power_add div_mult2_eq [symmetric] by simp
    then show ?thesis using byte_of [of "3 - i" "count1 ctx"] byte_mod [of "3 - i" "8 * length m div 2 ^ 32"] False
      unfolding k c by (simp only: if_False mult.commute)
  qed
qed

lemma SHA1Final_spec:
  assumes ok: "ctx_ok ctx m"
  shows "SHA1Final ctx = Inr (sha1_spec m)"
proof -
  obtain ctx1 where u1: "SHA1Update ctx [0x80] 1 = Inr ctx1" "ctx_ok ctx1 (m @ [0x80])"
    using SHA1Update_spec [OF ok, of "[0x80]" 1] by auto
  have l: "length m mod 64 < 64" by simp
  have "length (m @ [0x80]) mod 64 = (if length m mod 64 = 63 then 0 else Suc (length m mod 64))"
    by (simp add: mod_Suc)
  then have z: "(120 - length (m @ [0x80]) mod 64) mod 64 = pad_zeros (length m)"
    using l by (auto simp: pad_zeros_def pad_count)
  have "pad_zeros (length m) \<le> 64" by (simp add: pad_zeros_def less_imp_le)
  then obtain ctx2 where u2: "pad_loop 64 ctx1 = Inr ctx2"
    "ctx_ok ctx2 ((m @ [0x80]) @ replicate (pad_zeros (length m)) 0)"
    using pad_loop_spec [OF u1(2), of 64] unfolding z by blast
  have "length (be_bytes 8 (8 * length m)) = 8" by (simp add: be_bytes_def)
  then obtain ctx3 where u3: "SHA1Update ctx2 (be_bytes 8 (8 * length m)) 8 = Inr ctx3"
    "ctx_ok ctx3 (sha1_pad m)"
    using SHA1Update_spec [OF u2(2), of "be_bytes 8 (8 * length m)" 8] by (auto simp: sha1_pad_def)
  have "SHA1Final ctx = Inr (List.map (\<lambda>i. ucast (drop_bit ((3 - i mod 4) * 8) (state ctx3 ! (i div 4)) AND 255)) [0..<20])"
    unfolding SHA1Final_def final_count [OF ok] Let_def using u1(1) u2(1) u3(1) by simp
  also have "List.map (\<lambda>i. ucast (drop_bit ((3 - i mod 4) * 8) (state ctx3 ! (i div 4)) AND 255)) [0..<20]
      = List.map (\<lambda>i. of_nat (unat (state ctx3 ! (i div 4)) div 256 ^ (3 - i mod 4)) :: u8) [0..<20]"
    by (simp only: mult.commute [of _ 8] byte_of)
  also have "\<dots> = sha1_spec m"
  proof -
    have "hash_blocks init_digest (sha1_pad m) = digest_of (state ctx3)" using u3(2) by (simp add: ctx_ok_def)
    moreover have "[0..<20] = [0, 1, 2, 3, 4, 5, 6, 7, 8, 9, 10, 11, 12, 13, 14, 15, 16, 17, 18, 19 :: nat]"
      "[0..<4] = [0, 1, 2, 3 :: nat]"
      by (simp_all add: upt_conv_Cons)
    ultimately show ?thesis
      by (simp add: sha1_spec_def digest_of_def be_bytes_def)
  qed
  finally show ?thesis .
qed

lemma sha1_two_updates:
  assumes "ctx_ok ctx []" "length x < 2 ^ 29" "length y < 2 ^ 29"
  shows "rbind (SHA1Update ctx x (of_nat (length x))) (\<lambda>ctx.
    rbind (SHA1Update ctx y (of_nat (length y))) SHA1Final) = Inr (sha1_spec (x @ y))"
proof -
  obtain ctx1 where u1: "SHA1Update ctx x (of_nat (length x)) = Inr ctx1" "ctx_ok ctx1 x"
    using SHA1Update_spec [OF assms(1,2) refl] by auto
  obtain ctx2 where u2: "SHA1Update ctx1 y (of_nat (length y)) = Inr ctx2" "ctx_ok ctx2 (x @ y)"
    using SHA1Update_spec [OF u1(2) assms(3) refl] by auto
  show ?thesis using u1(1) u2(1) SHA1Final_spec [OF u2(2)] by simp
qed

lemma length_sha1_spec: "length (sha1_spec m) = 20"
  by (simp add: sha1_spec_def be_bytes_def split: prod.split)

text \<open>C31: initialising a context, feeding it a message in two parts and finishing it yields the
  FIPS 180 hash of the whole message.\<close>

theorem sha1_correct:
  assumes "length (buffer ctx) = 64" "length x < 2 ^ 29" "length y < 2 ^ 29"
  shows "rbind (SHA1Update (SHA1Init ctx) x (of_nat (length x))) (\<lambda>ctx.
    rbind (SHA1Update ctx y (of_nat (length y))) SHA1Final) = Inr (sha1_spec (x @ y))"
  by (rule sha1_two_updates [OF SHA1Init_ok [OF assms(1)] assms(2,3)])

definition fresh_ctx :: SHA1_CTX where
  "fresh_ctx = \<lparr>state = [], count0 = 0, count1 = 0, buffer = replicate 64 0\<rparr>"

lemma sha1_correct_witness:
  "rbind (SHA1Update (SHA1Init fresh_ctx) [97, 98] 2) (\<lambda>ctx. rbind (SHA1Update ctx [99] 1) SHA1Final)
    = Inr (sha1_spec [97, 98, 99])"
  using sha1_correct [of fresh_ctx "[97, 98]" "[99]"] by (simp add: fresh_ctx_def)

end
