(* ===== verification/Uuid.thy ===== *)
theory Uuid
  imports Sha1 C_Text
begin

text \<open>
  The UUID of a file system: generated from names (\<^verbatim>\<open>src/uuid5.c\<close>), parsed from the command line and
  printed (\<^verbatim>\<open>src/ext4_utils.c\<close>), and the numbers with a unit of the command line (\<open>parse_num\<close>).
\<close>

section \<open>Generation\<close>

text \<open>\<open>ctx\<close> is the uninitialised context on the stack; strings are byte lists without the zero.\<close>

definition sha1_hash :: "SHA1_CTX \<Rightarrow> u8 list \<Rightarrow> u8 list \<Rightarrow> u8 list res" where
  "sha1_hash ctx namespace name =
     (let ctx = SHA1Init ctx in
      rbind (SHA1Update ctx namespace (of_nat (length namespace))) (\<lambda>ctx.
      rbind (SHA1Update ctx name (of_nat (length name))) (\<lambda>ctx.
      SHA1Final ctx)))"

definition uuid5_generate :: "SHA1_CTX \<Rightarrow> u8 list \<Rightarrow> u8 list \<Rightarrow> u8 list res" where
  "uuid5_generate ctx namespace name =
     rbind (sha1_hash ctx namespace name) (\<lambda>sha1.
     let dest = take 16 sha1;
         dest = dest[6 := dest ! 6 AND 0x0F];
         dest = dest[6 := dest ! 6 OR ucast (push_bit 12 5 :: u32)];
         dest = dest[8 := dest ! 8 AND 0x3F];
         dest = dest[8 := dest ! 8 OR ucast (push_bit 6 2 :: u32)] in
     Inr dest)"

section \<open>Text\<close>

definition nibble_to_hex_char :: "u8 \<Rightarrow> char res" where
  "nibble_to_hex_char nibble =
     (if \<not> nibble < 16 then Inl Assert else rd ''0123456789abcdef'' (unat nibble))"

definition hex_char_to_nibble :: "char \<Rightarrow> u8 res" where
  "hex_char_to_nibble c =
     (if \<not> isxdigit c then Inl Assert
      else if code CHR ''0'' \<le> code c \<and> code c \<le> code CHR ''9'' then Inr (of_nat (code c - 48))
      else if code CHR ''a'' \<le> code c \<and> code c \<le> code CHR ''f'' then Inr (of_nat (10 + code c - 97))
      else if \<not> (code CHR ''A'' \<le> code c \<and> code c \<le> code CHR ''F'') then Inl Assert
      else Inr (of_nat (10 + code c - 65)))"

text \<open>The inner loop of \<open>parse_uuid\<close>, over the characters that separate.\<close>

function skip_separators :: "string \<Rightarrow> nat \<Rightarrow> nat \<Rightarrow> nat res" where
  "skip_separators str n pos =
     (if pos < n then
        rbind (rd str pos) (\<lambda>c.
        if ispunct c \<or> isspace c then skip_separators str n (pos + 1) else Inr pos)
      else Inr pos)"
  by pat_completeness auto
termination by (relation "measure (\<lambda>(str, n, pos). n - pos)") auto

declare skip_separators.simps [simp del]

text \<open>One hexadecimal digit; \<open>None\<close> is the \<open>return NULL\<close>.\<close>

definition parse_nibble :: "string \<Rightarrow> nat \<Rightarrow> nat \<Rightarrow> u8 option res" where
  "parse_nibble str n pos =
     (if pos \<ge> n then Inr None else
      rbind (rd str pos) (\<lambda>c. if \<not> isxdigit c then Inr None
      else rbind (hex_char_to_nibble c) (\<lambda>v. Inr (Some v))))"

text \<open>The bytes already parsed stay in the buffer when the parse fails.\<close>

fun parse_bytes :: "nat list \<Rightarrow> nat \<Rightarrow> u8 list \<Rightarrow> string \<Rightarrow> nat \<Rightarrow> (bool \<times> u8 list) res" where
  "parse_bytes [] pos bytes str n = Inr (True, bytes)"
| "parse_bytes (i # is) pos bytes str n =
     rbind (skip_separators str n pos) (\<lambda>pos.
     rbind (parse_nibble str n pos) (\<lambda>hi.
     case hi of None \<Rightarrow> Inr (False, bytes) | Some hi_nibble \<Rightarrow>
     rbind (parse_nibble str n (pos + 1)) (\<lambda>lo.
     case lo of None \<Rightarrow> Inr (False, bytes) | Some lo_nibble \<Rightarrow>
     rbind (wr bytes i (push_bit 4 hi_nibble OR lo_nibble)) (\<lambda>bytes.
     parse_bytes is (pos + 2) bytes str n))))"

definition parse_uuid :: "u8 list \<Rightarrow> string \<Rightarrow> nat \<Rightarrow> (bool \<times> u8 list) res" where
  "parse_uuid bytes str n = parse_bytes [0..<16] 0 bytes str n"

fun print_bytes :: "nat list \<Rightarrow> nat \<Rightarrow> string \<Rightarrow> u8 list \<Rightarrow> string res" where
  "print_bytes [] pos buf bytes = Inr buf"
| "print_bytes (i # is) pos buf bytes =
     rbind (rd bytes i) (\<lambda>byte.
     rbind (nibble_to_hex_char (drop_bit 4 (byte AND 0xF0))) (\<lambda>hi.
     rbind (wr buf pos hi) (\<lambda>buf.
     rbind (nibble_to_hex_char (byte AND 0x0F)) (\<lambda>lo.
     rbind (wr buf (pos + 1) lo) (\<lambda>buf.
     if i = 3 \<or> i = 5 \<or> i = 7 \<or> i = 9
     then rbind (wr buf (pos + 2) (CHR ''-'')) (\<lambda>buf. print_bytes is (pos + 3) buf bytes)
     else print_bytes is (pos + 2) buf bytes)))))"

definition uuid_bin_to_str :: "nat \<Rightarrow> u8 list \<Rightarrow> string res" where
  "uuid_bin_to_str buf_size bytes =
     (if buf_size < (16 * 2 + 4) + 1 then Inl Assert
      else print_bytes [0..<16] 0 (replicate buf_size (CHR 0x00)) bytes)"

definition parse_num :: "string \<Rightarrow> u64" where
  "parse_num arg =
     (let (num, end) = strtoull10 arg;
          c = (case end of [] \<Rightarrow> CHR 0x00 | x # _ \<Rightarrow> x) in
      if c = CHR ''k'' \<or> c = CHR ''K'' then num * 1024
      else if c = CHR ''m'' \<or> c = CHR ''M'' then num * (1024 * 1024)
      else if c = CHR ''g'' \<or> c = CHR ''G'' then num * (1024 * 1024 * 1024)
      else num)"

section \<open>The version of a generated UUID\<close>

text \<open>C33: \<open>uuid5_generate\<close> returns the first 16 bytes of the SHA-1 hash of the two names with the
  variant bits set to binary 10, but the version nibble comes out as 0: \<open>5 << 12\<close> does not fit
  the byte it is stored to.\<close>

theorem uuid5_generate_result:
  assumes "length (buffer ctx) = 64" "length ns < 2 ^ 29" "length name < 2 ^ 29"
  defines "h \<equiv> sha1_spec (ns @ name)"
  shows "\<exists>d. uuid5_generate ctx ns name = Inr d \<and> length d = 16
    \<and> (\<forall>i < 16. i \<noteq> 6 \<and> i \<noteq> 8 \<longrightarrow> d ! i = h ! i)
    \<and> d ! 6 = h ! 6 AND 0x0F \<and> d ! 8 = (h ! 8 AND 0x3F) OR 0x80"
proof -
  have u: "uuid5_generate ctx ns name = Inr ((take 16 h)[6 := h ! 6 AND 0x0F, 8 := (h ! 8 AND 0x3F) OR 0x80])"
  proof -
    have "sha1_hash ctx ns name = Inr h"
      using SHA1Init_ok [OF assms(1)] assms(2,3) unfolding h_def sha1_hash_def Let_def
      by (rule sha1_two_updates)
    moreover have "ucast (push_bit 12 5 :: u32) = (0 :: u8)" "ucast (push_bit 6 2 :: u32) = (0x80 :: u8)"
      by (simp_all add: push_bit_eq_mult)
    moreover have "length h = 20" by (simp add: h_def length_sha1_spec)
    ultimately show ?thesis unfolding uuid5_generate_def Let_def
      by (simp only: rbind_Inr) (simp add: list_update_swap)
  qed
  have "length h = 20" by (simp add: h_def length_sha1_spec)
  then show ?thesis using u by (auto simp: nth_list_update)
qed

lemma uuid5_generate_result_witness:
  "\<exists>d. uuid5_generate fresh_ctx [101, 120] [48] = Inr d \<and> d ! 6 AND 0xF0 = 0"
proof -
  obtain d where "uuid5_generate fresh_ctx [101, 120] [48] = Inr d" "d ! 6 = sha1_spec ([101, 120] @ [48]) ! 6 AND 0x0F"
    using uuid5_generate_result [of fresh_ctx "[101, 120]" "[48]"] by (auto simp: fresh_ctx_def)
  then show ?thesis by (simp add: and.assoc)
qed

section \<open>Printing and parsing\<close>

definition hex_char :: "u8 \<Rightarrow> char" where
  "hex_char v = ''0123456789abcdef'' ! unat v"

lemma hex_digit:
  assumes "v < (16 :: u8)"
  shows "nibble_to_hex_char v = Inr (hex_char v)"
    "isxdigit (hex_char v) \<and> \<not> ispunct (hex_char v) \<and> \<not> isspace (hex_char v)
      \<and> hex_char_to_nibble (hex_char v) = Inr v"
proof -
  let ?ok = "\<lambda>v. isxdigit (hex_char v) \<and> \<not> ispunct (hex_char v) \<and> \<not> isspace (hex_char v)
      \<and> hex_char_to_nibble (hex_char v) = Inr v"
  have v: "unat v < 16" using assms by (simp add: word_less_nat_alt)
  then show "nibble_to_hex_char v = Inr (hex_char v)" using assms by (simp add: nibble_to_hex_char_def hex_char_def)
  have "\<forall>k \<in> set [0..<16]. ?ok (of_nat k)" by code_simp
  moreover have "unat v \<in> set [0..<16]" using v by simp
  ultimately have "?ok (of_nat (unat v))" by (rule bspec)
  then show "?ok v" by simp
qed

lemma byte_split: "push_bit 4 (drop_bit 4 (v AND 0xF0)) OR (v AND 0x0F) = (v :: u8)"
  "drop_bit 4 (v AND 0xF0) < (16 :: u8)" "v AND 0x0F < (16 :: u8)"
proof -
  have m: "(0xF0 :: u8) = push_bit 4 (mask 4)" "(0x0F :: u8) = mask 4"
    by (simp_all add: mask_eq_exp_minus_1)
  show "push_bit 4 (drop_bit 4 (v AND 0xF0)) OR (v AND 0x0F) = v"
  proof (rule bit_word_eqI)
    fix k assume k: "k < LENGTH(8)"
    show "bit (push_bit 4 (drop_bit 4 (v AND 0xF0)) OR (v AND 0x0F)) k = bit v k"
    proof (cases "k < 4")
      case False
      then obtain j where j: "k = 4 + j" by (metis le_Suc_ex not_less)
      then show ?thesis using k unfolding m by (auto simp: bit_simps)
    qed (unfold m, simp add: bit_simps)
  qed
  have "unat (v AND 0x0F) = unat v mod 16" unfolding m take_bit_eq_mask [symmetric] unat_take_bit by simp
  then show "v AND 0x0F < 16" by (simp add: word_less_nat_alt)
  have "unat (drop_bit 4 (v AND 0xF0)) = unat (v AND 0xF0) div 16" by (simp only: unat_drop_bit) simp
  moreover have "unat (v AND 0xF0) < 2 ^ LENGTH(8)" by (rule unsigned_less)
  ultimately have "unat (drop_bit 4 (v AND 0xF0)) < 16" by (simp only:) simp
  then show "drop_bit 4 (v AND 0xF0) < 16" by (simp only: word_less_nat_alt) simp
qed

text \<open>The text of the bytes at \<open>is\<close>.\<close>

definition hex_text :: "u8 list \<Rightarrow> nat list \<Rightarrow> string" where
  "hex_text bytes is = concat (List.map (\<lambda>i. [hex_char (drop_bit 4 (bytes ! i AND 0xF0)), hex_char (bytes ! i AND 0x0F)]
     @ (if i = 3 \<or> i = 5 \<or> i = 7 \<or> i = 9 then ''-'' else [])) is)"

lemma print_bytes_text:
  assumes "\<forall>i \<in> set is. i < length bytes" "pos + length (hex_text bytes is) \<le> length buf"
  shows "print_bytes is pos buf bytes
    = Inr (take pos buf @ hex_text bytes is @ drop (pos + length (hex_text bytes is)) buf)"
  using assms
proof (induction "is" arbitrary: pos buf)
  case (Cons i "is")
  define h l where "h = hex_char (drop_bit 4 (bytes ! i AND 0xF0))" and "l = hex_char (bytes ! i AND 0x0F)"
  have hl: "nibble_to_hex_char (drop_bit 4 (bytes ! i AND 0xF0)) = Inr h" "nibble_to_hex_char (bytes ! i AND 0x0F) = Inr l"
    unfolding h_def l_def by (rule hex_digit(1) [OF byte_split(2)], rule hex_digit(1) [OF byte_split(3)])
  have two: "(buf[pos := x, Suc pos := y]) = take pos buf @ [x, y] @ drop (pos + 2) buf"
    if "pos + 2 \<le> length buf" for x y and buf :: string
  proof -
    have "buf = take pos buf @ buf ! pos # buf ! Suc pos # drop (pos + 2) buf"
      using that append_take_drop_id [of pos buf] by (simp add: Cons_nth_drop_Suc)
    moreover have "(take pos buf @ u # v # r)[pos := x, Suc pos := y] = take pos buf @ x # y # r" for u v r
      using that by (simp add: list_update_append)
    ultimately show ?thesis by (metis append_Cons append_Nil)
  qed
  have three: "(buf[pos := x, Suc pos := y, Suc (Suc pos) := z]) = take pos buf @ [x, y, z] @ drop (pos + 3) buf"
    if "pos + 3 \<le> length buf" for x y z and buf :: string
  proof -
    have "buf = take pos buf @ buf ! pos # buf ! Suc pos # buf ! Suc (Suc pos) # drop (pos + 3) buf"
      using that append_take_drop_id [of pos buf] by (simp add: Cons_nth_drop_Suc numeral_3_eq_3)
    moreover have "(take pos buf @ u # v # w # r)[pos := x, Suc pos := y, Suc (Suc pos) := z]
        = take pos buf @ x # y # z # r" for u v w r
      using that by (simp add: list_update_append)
    ultimately show ?thesis by (metis append_Cons append_Nil)
  qed
  show ?case
  proof (cases "i = 3 \<or> i = 5 \<or> i = 7 \<or> i = 9")
    case True
    have t: "hex_text bytes (i # is) = [h, l, CHR ''-''] @ hex_text bytes is" using True by (auto simp: hex_text_def h_def l_def)
    then have le: "pos + 3 + length (hex_text bytes is) \<le> length buf" using Cons.prems(2) by simp
    have "print_bytes (i # is) pos buf bytes
        = print_bytes is (pos + 3) (buf[pos := h, Suc pos := l, Suc (Suc pos) := CHR ''-'']) bytes"
      using True le Cons.prems(1) by (simp only: print_bytes.simps rd_in hl rbind_Inr wr_in list.set_intros length_list_update) simp
    also have "\<dots> = Inr (take pos buf @ hex_text bytes (i # is) @ drop (pos + length (hex_text bytes (i # is))) buf)"
      using Cons.IH [of "pos + 3" "buf[pos := h, Suc pos := l, Suc (Suc pos) := CHR ''-'']"] Cons.prems(1) le
      unfolding t by (simp add: three add_ac numeral_3_eq_3)
    finally show ?thesis .
  next
    case False
    have t: "hex_text bytes (i # is) = [h, l] @ hex_text bytes is" using False by (auto simp: hex_text_def h_def l_def)
    then have le: "pos + 2 + length (hex_text bytes is) \<le> length buf" using Cons.prems(2) by simp
    have "print_bytes (i # is) pos buf bytes = print_bytes is (pos + 2) (buf[pos := h, Suc pos := l]) bytes"
      using False le Cons.prems(1) by (simp only: print_bytes.simps rd_in hl rbind_Inr wr_in list.set_intros length_list_update) simp
    also have "\<dots> = Inr (take pos buf @ hex_text bytes (i # is) @ drop (pos + length (hex_text bytes (i # is))) buf)"
      using Cons.IH [of "pos + 2" "buf[pos := h, Suc pos := l]"] Cons.prems(1) le
      unfolding t by (simp add: two add_ac numeral_2_eq_2)
    finally show ?thesis .
  qed
qed (simp add: hex_text_def)

lemma parse_bytes_text:
  assumes n: "n \<le> length str"
    and "drop pos (take n str) = sep @ hex_text bytes is" "sep = [] \<or> sep = ''-''"
    "\<forall>i \<in> set is. i < length old"
  shows "parse_bytes is pos old str n = Inr (True, fold (\<lambda>i b. b[i := bytes ! i]) is old)"
  using assms(2-4)
proof (induction "is" arbitrary: pos old sep)
  case (Cons i "is")
  let ?h = "drop_bit 4 (bytes ! i AND 0xF0)" and ?l = "bytes ! i AND 0x0F"
  note hx = hex_digit(2) [OF byte_split(2) [of "bytes ! i"]] hex_digit(2) [OF byte_split(3) [of "bytes ! i"]]
  have step: "p < n \<and> rd str p = Inr c \<and> drop (Suc p) (take n str) = r" if "drop p (take n str) = c # r" for p c r
  proof -
    have p: "p < length (take n str)" using that by (metis drop_all list.distinct(1) not_le)
    then have "drop p (take n str) = take n str ! p # drop (Suc p) (take n str)" by (rule Cons_nth_drop_Suc [symmetric])
    then show ?thesis using that p n by simp
  qed
  define sep' where "sep' = (if i = 3 \<or> i = 5 \<or> i = 7 \<or> i = 9 then ''-'' else [])"
  have t: "hex_text bytes (i # is) = hex_char ?h # hex_char ?l # sep' @ hex_text bytes is"
    by (simp add: hex_text_def sep'_def)
  obtain p where p: "skip_separators str n pos = Inr p" "drop p (take n str) = hex_text bytes (i # is)"
  proof (cases "sep = []")
    case True
    then have d: "drop pos (take n str) = hex_char ?h # hex_char ?l # sep' @ hex_text bytes is" using Cons.prems(1) t by simp
    from step [OF d] hx(1) have "skip_separators str n pos = Inr pos" by (subst skip_separators.simps) simp
    then show thesis using that d t by simp
  next
    case False
    then have d: "drop pos (take n str) = CHR ''-'' # hex_text bytes (i # is)" using Cons.prems(1,2) by simp
    have d': "drop (Suc pos) (take n str) = hex_char ?h # hex_char ?l # sep' @ hex_text bytes is"
      using step [OF d] t by simp
    have "ispunct CHR ''-''" by (simp add: ispunct_def isdigit_def isalpha_def)
    then have "skip_separators str n pos = skip_separators str n (Suc pos)"
      using step [OF d] by (subst skip_separators.simps) simp
    also have "\<dots> = Inr (Suc pos)" using step [OF d'] hx(1) by (subst skip_separators.simps) simp
    finally show thesis using that d' t by simp
  qed
  have d: "drop p (take n str) = hex_char ?h # hex_char ?l # sep' @ hex_text bytes is" using p(2) t by simp
  note s1 = step [OF d]
  then have d1: "drop (Suc p) (take n str) = hex_char ?l # sep' @ hex_text bytes is" by simp
  note s2 = step [OF d1]
  have n: "parse_nibble str n p = Inr (Some ?h)" "parse_nibble str n (Suc p) = Inr (Some ?l)"
    using s1 s2 hx by (simp_all add: parse_nibble_def)
  have "parse_bytes is (p + 2) (old[i := bytes ! i]) str n
      = Inr (True, fold (\<lambda>i b. b[i := bytes ! i]) is (old[i := bytes ! i]))"
    using Cons.IH [of "p + 2" sep' "old[i := bytes ! i]"] s2 Cons.prems(3) by (simp add: sep'_def)
  then show ?case using p(1) n Cons.prems(3) byte_split(1) [of "bytes ! i"] by simp
qed simp

lemma fold_update_all:
  assumes "k \<le> length bytes" "length old = length bytes"
  shows "fold (\<lambda>i b. b[i := bytes ! i]) [0..<k] old = take k bytes @ drop k old"
  using assms(1)
proof (induction k)
  case (Suc k)
  then have "drop k old = old ! k # drop (Suc k) old" using assms(2) by (intro Cons_nth_drop_Suc [symmetric]) simp
  then show ?case using Suc by (simp add: take_Suc_conv_app_nth list_update_append)
qed simp

text \<open>C32: a printed UUID parses back to the same 16 bytes.\<close>

theorem uuid_print_parse:
  assumes "length bytes = 16" "length old = 16" "37 \<le> n"
  shows "\<exists>s. uuid_bin_to_str n bytes = Inr s \<and> length s = n \<and> parse_uuid old s 36 = Inr (True, bytes)"
proof -
  let ?t = "hex_text bytes [0..<16]"
  have l: "length ?t = 36" by (simp add: hex_text_def upt_rec)
  have "uuid_bin_to_str n bytes = Inr (?t @ drop 36 (replicate n (CHR 0x00)))"
    using print_bytes_text [of "[0..<16]" bytes 0 "replicate n (CHR 0x00)"] assms l
    by (simp add: uuid_bin_to_str_def)
  moreover have "parse_uuid old (?t @ drop 36 (replicate n (CHR 0x00))) 36 = Inr (True, bytes)"
    using parse_bytes_text [of 36 "?t @ drop 36 (replicate n (CHR 0x00))" 0 "[]" bytes "[0..<16]" old] assms l
      fold_update_all [of 16 bytes old]
    by (simp add: parse_uuid_def)
  ultimately show ?thesis using l assms(3) by simp
qed

lemma uuid_print_parse_witness:
  "\<exists>s. uuid_bin_to_str 40 [0, 1, 2, 3, 4, 5, 6, 7, 8, 9, 10, 11, 12, 13, 14, 255] = Inr s
    \<and> parse_uuid (replicate 16 0) s 36 = Inr (True, [0, 1, 2, 3, 4, 5, 6, 7, 8, 9, 10, 11, 12, 13, 14, 255])"
  using uuid_print_parse [of "[0, 1, 2, 3, 4, 5, 6, 7, 8, 9, 10, 11, 12, 13, 14, 255]" "replicate 16 0" 40] by auto

text \<open>C34: a decimal number below \<open>2 ^ 64\<close> reads as itself; followed by one of the unit letters k, M, g or
  their other case (and anything after it) it reads as the number times 2 to the 10, 20 or 30, modulo
  \<open>2 ^ 64\<close>; any other text after it is ignored.\<close>

theorem parse_num_unit:
  assumes "n < 2 ^ 64"
  shows "parse_num (dec_nat n) = of_nat n
    \<and> (c = CHR ''k'' \<or> c = CHR ''K'' \<longrightarrow> parse_num (dec_nat n @ c # r) = of_nat (n * 2 ^ 10))
    \<and> (c = CHR ''m'' \<or> c = CHR ''M'' \<longrightarrow> parse_num (dec_nat n @ c # r) = of_nat (n * 2 ^ 20))
    \<and> (c = CHR ''g'' \<or> c = CHR ''G'' \<longrightarrow> parse_num (dec_nat n @ c # r) = of_nat (n * 2 ^ 30))
    \<and> (c \<notin> set ''kKmMgG'' \<and> \<not> isdigit c \<longrightarrow> parse_num (dec_nat n @ c # r) = of_nat n)"
  using strtoull10_dec_nat [OF assms, of "[]"] strtoull10_dec_nat [OF assms, of "c # r"]
  by (auto simp: parse_num_def isdigit_def)

lemma parse_num_unit_witness:
  "parse_num (dec_nat 512 @ ''K'') = 524288 \<and> parse_num (dec_nat 512 @ ''m'') = 536870912
    \<and> parse_num (dec_nat 8 @ ''Gi'') = 8589934592 \<and> parse_num (dec_nat 8 @ '' k'') = 8"
  using parse_num_unit [of 512 "CHR ''K''" "[]"] parse_num_unit [of 512 "CHR ''m''" "[]"]
    parse_num_unit [of 8 "CHR ''G''" "''i''"] parse_num_unit [of 8 "CHR '' ''" "''k''"]
  by (simp add: isdigit_def)

end
