(* ===== verification/Sparse_Read.thy ===== *)
theory Sparse_Read
  imports Sparse_Output
begin

text \<open>
  \<^verbatim>\<open>src/libsparse/sparse_read.c\<close> and \<open>read_all\<close>: reading an image in sparse format or as plain
  bytes back into a queue of pieces. The state of a read is the heap of the queue, the sparse
  file, the descriptor it reads from and the copy buffer. The CRC pointer is \<open>None\<close> when the
  caller asks for no check. A copy buffer of 2 GiB or more is a \<open>Fault\<close>: its size does not fit the
  \<open>int\<close> the chunks are counted in. What \<open>verbose_error\<close> prints is not part of the model.
\<close>

section \<open>State\<close>

record read_state =
  rs_mem :: bb_mem
  rs_file :: sparse_file
  rs_fd :: fd_file
  copybuf :: "u8 list"

text \<open>\<open>read_all\<close> into the start of a buffer; at the end of the file it fails and leaves what it read.\<close>

definition read_all :: "fd_file \<Rightarrow> nat \<Rightarrow> int \<times> u8 list \<times> fd_file" where
  "read_all fd n =
     (let got = take n (drop (fd_pos fd) (fd_bytes fd)) in
      (if length got < n then - EINVAL else 0, got, fd\<lparr>fd_pos := fd_pos fd + length got\<rparr>))"

definition lseek_cur :: "fd_file \<Rightarrow> nat \<Rightarrow> fd_file" where
  "lseek_cur fd n = fd\<lparr>fd_pos := fd_pos fd + n\<rparr>"

text \<open>\<open>sparse_file_add_fd\<close> and \<open>sparse_file_add_fill\<close> on the state; \<open>fdn\<close> is the descriptor.\<close>

definition sparse_file_add_fd ::
  "read_state \<Rightarrow> u32 \<Rightarrow> u64 \<Rightarrow> u32 \<Rightarrow> u32 \<Rightarrow> (int \<times> read_state) res" where
  "sparse_file_add_fd r fdn off n block =
     rbind (backed_block_add_fd (rs_mem r) (sf_list (rs_file r)) fdn off n block) (\<lambda>(ret, m, bbl).
     Inr (ret, r\<lparr>rs_mem := m, rs_file := (rs_file r)\<lparr>sf_list := bbl\<rparr>\<rparr>))"

definition sparse_file_add_fill ::
  "read_state \<Rightarrow> u32 \<Rightarrow> u32 \<Rightarrow> u32 \<Rightarrow> (int \<times> read_state) res" where
  "sparse_file_add_fill r v n block =
     rbind (backed_block_add_fill (rs_mem r) (sf_list (rs_file r)) v n block) (\<lambda>(ret, m, bbl).
     Inr (ret, r\<lparr>rs_mem := m, rs_file := (rs_file r)\<lparr>sf_list := bbl\<rparr>\<rparr>))"

section \<open>Chunks\<close>

text \<open>The loop of \<open>process_raw_chunk\<close> that reads the data for the checksum.\<close>

function raw_crc_loop :: "read_state \<Rightarrow> u32 \<Rightarrow> nat \<Rightarrow> (int \<times> u32 \<times> read_state) res" where
  "raw_crc_loop r crc n =
     (if n = 0 then Inr (0, crc, r)
      else if length (copybuf r) = 0 then Inl Diverge
      else let chunk = min n (length (copybuf r)) in
        if chunk \<ge> 2 ^ 31 then Inl Fault else
        let (ret, got, fd) = read_all (rs_fd r) chunk;
            r = r\<lparr>rs_fd := fd, copybuf := got @ drop (length got) (copybuf r)\<rparr> in
        if ret < 0 then Inr (ret, crc, r)
        else raw_crc_loop r (sparse_crc32 crc (take chunk (copybuf r))) (n - chunk))"
  by pat_completeness auto
termination by (relation "measure (\<lambda>(r, crc, n). n)") (auto simp: min_def)

text \<open>The loops of the fill and skip chunks over a buffer that is already filled.\<close>

function buf_crc_loop :: "u8 list \<Rightarrow> u32 \<Rightarrow> nat \<Rightarrow> u32 res" where
  "buf_crc_loop buf crc n =
     (if n = 0 then Inr crc
      else if length buf = 0 then Inl Diverge
      else let chunk = min n (length buf) in
        if chunk \<ge> 2 ^ 31 then Inl Fault
        else buf_crc_loop buf (sparse_crc32 crc (take chunk buf)) (n - chunk))"
  by pat_completeness auto
termination by (relation "measure (\<lambda>(buf, crc, n). n)") (auto simp: min_def)

declare raw_crc_loop.simps [simp del] buf_crc_loop.simps [simp del]

definition process_raw_chunk ::
  "read_state \<Rightarrow> u32 \<Rightarrow> u32 \<Rightarrow> u64 \<Rightarrow> u32 \<Rightarrow> u32 \<Rightarrow> u32 option \<Rightarrow> (int \<times> u32 option \<times> read_state) res" where
  "process_raw_chunk r chunk_size fdn offset blocks block crc =
     (let bs = sf_block_size (rs_file r); n = blocks * bs in
      rbind (umod chunk_size bs) (\<lambda>md.
      if md \<noteq> 0 then Inr (- EINVAL, crc, r) else
      rbind (udiv chunk_size bs) (\<lambda>q.
      if q \<noteq> blocks then Inr (- EINVAL, crc, r) else
      rbind (sparse_file_add_fd r fdn offset n block) (\<lambda>(ret, r).
      if ret < 0 then Inr (ret, crc, r) else
      case crc of
        Some c \<Rightarrow> rbind (raw_crc_loop r c (unat n)) (\<lambda>(ret, c, r). Inr (if ret < 0 then ret else 0, Some c, r))
      | None \<Rightarrow> Inr (0, None, r\<lparr>rs_fd := lseek_cur (rs_fd r) (unat n)\<rparr>)))))"

text \<open>A 32-bit value read from the file into a variable (little-endian hosts).\<close>

definition get32 :: "u8 list \<Rightarrow> nat \<Rightarrow> u32" where
  "get32 bs i = ucast (bs ! i) OR push_bit 8 (ucast (bs ! (i + 1))) OR push_bit 16 (ucast (bs ! (i + 2)))
     OR push_bit 24 (ucast (bs ! (i + 3)))"

definition get16 :: "u8 list \<Rightarrow> nat \<Rightarrow> u16" where
  "get16 bs i = ucast (bs ! i) OR push_bit 8 (ucast (bs ! (i + 1)))"

definition process_fill_chunk ::
  "read_state \<Rightarrow> u32 \<Rightarrow> u32 \<Rightarrow> u32 \<Rightarrow> u32 option \<Rightarrow> (int \<times> u32 option \<times> read_state) res" where
  "process_fill_chunk r chunk_size blocks block crc =
     (let n = blocks * sf_block_size (rs_file r) in
      if chunk_size \<noteq> 4 then Inr (- EINVAL, crc, r) else
      let (ret, got, fd) = read_all (rs_fd r) 4; r = r\<lparr>rs_fd := fd\<rparr> in
      if ret < 0 then Inr (ret, crc, r) else
      let fill_val = get32 got 0 in
      rbind (sparse_file_add_fill r fill_val n block) (\<lambda>(ret, r).
      if ret < 0 then Inr (ret, crc, r) else
      case crc of None \<Rightarrow> Inr (0, None, r)
      | Some c \<Rightarrow>
          let words = length (copybuf r) div 4;
              r = r\<lparr>copybuf := concat (replicate words (le32 fill_val)) @ drop (4 * words) (copybuf r)\<rparr> in
          rbind (buf_crc_loop (copybuf r) c (unat n)) (\<lambda>c. Inr (0, Some c, r))))"

definition process_skip_chunk ::
  "read_state \<Rightarrow> u32 \<Rightarrow> u32 \<Rightarrow> u32 option \<Rightarrow> (int \<times> u32 option \<times> read_state) res" where
  "process_skip_chunk r chunk_size blocks crc =
     (if chunk_size \<noteq> 0 then Inr (- EINVAL, crc, r) else
      case crc of None \<Rightarrow> Inr (0, None, r)
      | Some c \<Rightarrow>
          let n = blocks * sf_block_size (rs_file r);
              r = r\<lparr>copybuf := replicate (length (copybuf r)) 0\<rparr> in
          rbind (buf_crc_loop (copybuf r) c (unat n)) (\<lambda>c. Inr (0, Some c, r)))"

definition process_crc32_chunk :: "fd_file \<Rightarrow> u32 \<Rightarrow> u32 \<Rightarrow> int \<times> fd_file" where
  "process_crc32_chunk fd chunk_size crc32 =
     (if chunk_size \<noteq> 4 then (- EINVAL, fd) else
      let (ret, got, fd) = read_all fd 4 in
      if ret < 0 then (ret, fd) else
      if get32 got 0 \<noteq> crc32 then (- EINVAL, fd) else (0, fd))"

text \<open>
  \<open>process_chunk\<close>: the value is a negative error or the number of blocks as an \<open>int\<close>. The checksum
  chunk dereferences \<open>crc_ptr\<close> even when it is null.
\<close>

definition process_chunk ::
  "read_state \<Rightarrow> u32 \<Rightarrow> u64 \<Rightarrow> u16 \<Rightarrow> u8 list \<Rightarrow> u32 \<Rightarrow> u32 option \<Rightarrow> (int \<times> u32 option \<times> read_state) res" where
  "process_chunk r fdn offset chunk_hdr_sz hdr cur_block crc =
     (let chunk_type = get16 hdr 0; chunk_sz = get32 hdr 4;
          chunk_data_size = get32 hdr 8 - ucast chunk_hdr_sz in
      if chunk_type = CHUNK_TYPE_RAW then
        rbind (process_raw_chunk r chunk_data_size fdn offset chunk_sz cur_block crc) (\<lambda>(ret, crc, r).
        Inr (if ret < 0 then ret else sint chunk_sz, crc, r))
      else if chunk_type = CHUNK_TYPE_FILL then
        rbind (process_fill_chunk r chunk_data_size chunk_sz cur_block crc) (\<lambda>(ret, crc, r).
        Inr (if ret < 0 then ret else sint chunk_sz, crc, r))
      else if chunk_type = CHUNK_TYPE_DONT_CARE then
        rbind (process_skip_chunk r chunk_data_size chunk_sz crc) (\<lambda>(ret, crc, r).
        Inr (if chunk_data_size \<noteq> 0 \<and> ret < 0 then ret else sint chunk_sz, crc, r))
      else if chunk_type = CHUNK_TYPE_CRC32 then
        (case crc of None \<Rightarrow> Inl Fault
         | Some c \<Rightarrow> let (ret, fd) = process_crc32_chunk (rs_fd r) chunk_data_size c in
             Inr (if ret < 0 then ret else 0, crc, r\<lparr>rs_fd := fd\<rparr>))
      else Inr (0, crc, r))"

section \<open>Files\<close>

text \<open>The loop over the chunks; \<open>n\<close> of them are left.\<close>

fun chunk_loop :: "nat \<Rightarrow> read_state \<Rightarrow> u32 \<Rightarrow> u16 \<Rightarrow> u32 \<Rightarrow> u32 option \<Rightarrow> (int \<times> u32 \<times> read_state) res" where
  "chunk_loop 0 r fdn chunk_hdr_sz cur_block crc = Inr (0, cur_block, r)"
| "chunk_loop (Suc n) r fdn chunk_hdr_sz cur_block crc =
     (let (ret, hdr, fd) = read_all (rs_fd r) 12; r = r\<lparr>rs_fd := fd\<rparr> in
      if ret < 0 then Inr (ret, cur_block, r) else
      let r = (if chunk_hdr_sz > 12 then r\<lparr>rs_fd := lseek_cur (rs_fd r) (unat chunk_hdr_sz - 12)\<rparr> else r) in
      rbind (process_chunk r fdn (of_nat (fd_pos (rs_fd r))) chunk_hdr_sz hdr cur_block crc) (\<lambda>(ret, crc, r).
      if ret < 0 then Inr (ret, cur_block, r)
      else chunk_loop n r fdn chunk_hdr_sz (cur_block + word_of_int ret) crc))"

definition sparse_file_read_sparse :: "read_state \<Rightarrow> u32 \<Rightarrow> bool \<Rightarrow> (int \<times> read_state) res" where
  "sparse_file_read_sparse r fdn crc =
     (let (ret, hdr, fd) = read_all (rs_fd r) 28; r = r\<lparr>rs_fd := fd\<rparr> in
      if ret < 0 then Inr (ret, r) else
      let file_hdr_sz = get16 hdr 8; chunk_hdr_sz = get16 hdr 10 in
      if get32 hdr 0 \<noteq> SPARSE_HEADER_MAGIC then Inr (- EINVAL, r) else
      if get16 hdr 4 \<noteq> 1 then Inr (- EINVAL, r) else
      if file_hdr_sz < 28 then Inr (- EINVAL, r) else
      if chunk_hdr_sz < 12 then Inr (- EINVAL, r) else
      let r = (if file_hdr_sz > 28 then r\<lparr>rs_fd := lseek_cur (rs_fd r) (unat file_hdr_sz - 28)\<rparr> else r) in
      rbind (chunk_loop (unat (get32 hdr 20)) r fdn chunk_hdr_sz 0 (if crc then Some 0 else None))
        (\<lambda>(ret, cur_block, r).
      if ret < 0 then Inr (ret, r)
      else if get32 hdr 16 \<noteq> cur_block then Inr (- EINVAL, r) else Inr (0, r)))"

text \<open>
  \<open>sparse_file_read_normal\<close>. The block just read is compared word by word with its first word; a
  whole block of one word becomes a fill piece; a block shorter than a word is read past its end.
  A read error leaves the pieces queued so far.
\<close>

definition same_words :: "u8 list \<Rightarrow> u32 \<Rightarrow> bool" where
  "same_words buf bs \<longleftrightarrow> (\<forall>i \<in> set [1..<unat bs div 4]. get32 buf 0 = get32 buf (4 * i))"

function normal_loop :: "read_state \<Rightarrow> u32 \<Rightarrow> int \<Rightarrow> u64 \<Rightarrow> u32 \<Rightarrow> (int \<times> read_state) res" where
  "normal_loop r fdn remain offset block =
     (let bs = sf_block_size (rs_file r) in
      if remain > 0 then
        (if bs = 0 then Inl Diverge else
         let to_read = min remain (uint bs); (ret, got, fd) = read_all (rs_fd r) (nat to_read);
             r = r\<lparr>rs_fd := fd\<rparr> in
         if ret < 0 then Inr (ret, r)
         else if to_read = uint bs \<and> unat bs < 4 then Inl Fault
         else
           rbind (if to_read = uint bs \<and> same_words got bs
                  then sparse_file_add_fill r (get32 got 0) (word_of_int to_read) block
                  else sparse_file_add_fd r fdn offset (word_of_int to_read) block) (\<lambda>(_, r').
           normal_loop r' fdn (remain - to_read) (offset + word_of_int to_read) (block + 1)))
      else Inr (0, r))"
  by pat_completeness auto
termination
proof (relation "measure (\<lambda>(r, fdn, remain, offset, block). nat remain)", goal_cases)
  case (2 r fdn remain offset block bs to_read x ret y got fd ra xa xb r')
  then have "0 < to_read" by (simp add: min_def uint_pos)
  then show ?case using 2 by simp
qed simp

declare normal_loop.simps [simp del]

definition sparse_file_read_normal :: "read_state \<Rightarrow> u32 \<Rightarrow> (int \<times> read_state) res" where
  "sparse_file_read_normal r fdn = normal_loop r fdn (sf_len (rs_file r)) 0 0"

definition sparse_file_read :: "read_state \<Rightarrow> u32 \<Rightarrow> bool \<Rightarrow> bool \<Rightarrow> (int \<times> read_state) res" where
  "sparse_file_read r fdn sparse crc =
     (if crc \<and> \<not> sparse then Inr (- EINVAL, r)
      else if sparse then sparse_file_read_sparse r fdn crc
      else sparse_file_read_normal r fdn)"

definition sparse_file_new :: "u32 \<Rightarrow> int \<Rightarrow> sparse_file" where
  "sparse_file_new bs n = \<lparr>sf_block_size = bs, sf_len = n, sf_list = backed_block_list_new bs\<rparr>"

text \<open>
  \<open>sparse_file_import\<close>: the new file, or \<open>None\<close>; the state carries on where the read stopped.
\<close>

definition sparse_file_import :: "read_state \<Rightarrow> u32 \<Rightarrow> bool \<Rightarrow> (bool \<times> read_state) res" where
  "sparse_file_import r fdn crc =
     (let (ret, hdr, fd) = read_all (rs_fd r) 28; r = r\<lparr>rs_fd := fd\<rparr> in
      if ret < 0 then Inr (False, r) else
      if get32 hdr 0 \<noteq> SPARSE_HEADER_MAGIC then Inr (False, r) else
      if get16 hdr 4 \<noteq> 1 then Inr (False, r) else
      if get16 hdr 8 < 28 then Inr (False, r) else
      if get16 hdr 10 < 12 then Inr (False, r) else
      let n = uint (get32 hdr 16) * uint (get32 hdr 12);
          s = sparse_file_new (get32 hdr 12) n;
          r = r\<lparr>rs_file := s, rs_fd := (rs_fd r)\<lparr>fd_pos := 0\<rparr>\<rparr> in
      if n \<ge> 2 ^ 63 then Inl Fault else
      rbind (sparse_file_read r fdn True crc) (\<lambda>(ret, r). Inr (\<not> ret < 0, r)))"

definition sparse_file_import_auto :: "read_state \<Rightarrow> u32 \<Rightarrow> bool \<Rightarrow> (bool \<times> read_state) res" where
  "sparse_file_import_auto r fdn crc =
     rbind (sparse_file_import r fdn crc) (\<lambda>(found, r).
     if found then Inr (True, r) else
     let n = int (length (fd_bytes (rs_fd r)));
         r = r\<lparr>rs_file := sparse_file_new 4096 n, rs_fd := (rs_fd r)\<lparr>fd_pos := 0\<rparr>\<rparr> in
     rbind (sparse_file_read_normal r fdn) (\<lambda>(ret, r). Inr (\<not> ret < 0, r)))"

end
