(* ===== verification/Disk_Format.thy ===== *)
theory Disk_Format
  imports Sparse_Read
begin

text \<open>
  The on-disk structures the program fills in: the superblock and the inode of \<^verbatim>\<open>src/ext4.h\<close>
  and the group descriptor of \<^verbatim>\<open>src/ext4_utils.h\<close>, each a record with the fields of the C
  structure in its order, together with the bytes it occupies on a little-endian host and the way
  back. The unions of the inode are read through their \<open>linux1\<close> and \<open>linux2\<close> members.
\<close>

section \<open>Fields as bytes\<close>

definition le64 :: "u64 \<Rightarrow> u8 list" where
  "le64 w = le32 (ucast w) @ le32 (ucast (drop_bit 32 w))"

definition le32s :: "u32 list \<Rightarrow> u8 list" where
  "le32s ws = concat (map le32 ws)"

definition take8 :: "u8 list \<Rightarrow> u8 \<times> u8 list" where
  "take8 bs = (bs ! 0, drop 1 bs)"

definition take16 :: "u8 list \<Rightarrow> u16 \<times> u8 list" where
  "take16 bs = (get16 bs 0, drop 2 bs)"

definition take32 :: "u8 list \<Rightarrow> u32 \<times> u8 list" where
  "take32 bs = (get32 bs 0, drop 4 bs)"

definition take64 :: "u8 list \<Rightarrow> u64 \<times> u8 list" where
  "take64 bs = (ucast (get32 bs 0) OR push_bit 32 (ucast (get32 bs 4)), drop 8 bs)"

definition take_bytes :: "nat \<Rightarrow> u8 list \<Rightarrow> u8 list \<times> u8 list" where
  "take_bytes n bs = (take n bs, drop n bs)"

fun take_words :: "nat \<Rightarrow> u8 list \<Rightarrow> u32 list \<times> u8 list" where
  "take_words 0 bs = ([], bs)"
| "take_words (Suc n) bs = (let (w, bs) = take32 bs; (ws, bs) = take_words n bs in (w # ws, bs))"

lemma length_le [simp]:
  "length (le16 h) = 2" "length (le32 w) = 4" "length (le64 x) = 8" "length (le32s ws) = 4 * length ws"
  by (induction ws) (simp_all add: le16_def le32_def le64_def le32s_def)

lemma get32_le32 [simp]: "get32 (le32 w @ bs) 0 = w"
proof (rule bit_word_eqI)
  fix n assume "n < LENGTH(32)"
  then consider "n < 8" | "8 \<le> n" "n < 16" | "16 \<le> n" "n < 24" | "24 \<le> n" "n < 32"
    by fastforce
  then show "bit (get32 (le32 w @ bs) 0) n \<longleftrightarrow> bit w n"
    by cases (auto simp: get32_def le32_def bit_simps)
qed

lemma get16_le16 [simp]: "get16 (le16 w @ bs) 0 = w"
  by (rule bit_word_eqI) (auto simp: get16_def le16_def bit_simps)

lemma take8_Cons [simp]: "take8 (b # bs) = (b, bs)"
  by (simp add: take8_def)

lemma take16_le16 [simp]: "take16 (le16 w @ bs) = (w, bs)"
  by (simp add: take16_def)

lemma take32_le32 [simp]: "take32 (le32 w @ bs) = (w, bs)"
  by (simp add: take32_def)

lemma get32_append: "length xs = n \<Longrightarrow> get32 (xs @ ys) n = get32 ys 0"
  by (simp add: get32_def nth_append eval_nat_numeral)

lemma take64_le64 [simp]: "take64 (le64 w @ bs) = (w, bs)"
proof -
  have "get32 (le64 w @ bs) 4 = ucast (drop_bit 32 w)"
    by (simp add: le64_def get32_append)
  moreover have "get32 (le64 w @ bs) 0 = ucast w" by (simp add: le64_def)
  moreover have "ucast (ucast w :: u32) OR push_bit 32 (ucast (ucast (drop_bit 32 w) :: u32)) = w"
    by (rule bit_word_eqI) (auto simp: bit_simps)
  ultimately show ?thesis by (simp add: take64_def)
qed

lemma take_bytes_append [simp]: "length xs = n \<Longrightarrow> take_bytes n (xs @ bs) = (xs, bs)"
  by (simp add: take_bytes_def)

lemma take_words_le32s [simp]: "length ws = n \<Longrightarrow> take_words n (le32s ws @ bs) = (ws, bs)"
  by (induction ws arbitrary: n) (auto simp: le32s_def)

section \<open>Structures\<close>

record ext4_super_block =
  s_inodes_count :: u32
  s_blocks_count_lo :: u32
  s_r_blocks_count_lo :: u32
  s_free_blocks_count_lo :: u32
  s_free_inodes_count :: u32
  s_first_data_block :: u32
  s_log_block_size :: u32
  s_obso_log_frag_size :: u32
  s_blocks_per_group :: u32
  s_obso_frags_per_group :: u32
  s_inodes_per_group :: u32
  s_mtime :: u32
  s_wtime :: u32
  s_mnt_count :: u16
  s_max_mnt_count :: u16
  s_magic :: u16
  s_state :: u16
  s_errors :: u16
  s_minor_rev_level :: u16
  s_lastcheck :: u32
  s_checkinterval :: u32
  s_creator_os :: u32
  s_rev_level :: u32
  s_def_resuid :: u16
  s_def_resgid :: u16
  s_first_ino :: u32
  s_inode_size :: u16
  s_block_group_nr :: u16
  s_feature_compat :: u32
  s_feature_incompat :: u32
  s_feature_ro_compat :: u32
  s_uuid :: "u8 list"
  s_volume_name :: "u8 list"
  s_last_mounted :: "u8 list"
  s_algorithm_usage_bitmap :: u32
  s_prealloc_blocks :: u8
  s_prealloc_dir_blocks :: u8
  s_reserved_gdt_blocks :: u16
  s_journal_uuid :: "u8 list"
  s_journal_inum :: u32
  s_journal_dev :: u32
  s_last_orphan :: u32
  s_hash_seed :: "u32 list"
  s_def_hash_version :: u8
  s_reserved_char_pad :: u8
  s_desc_size :: u16
  s_default_mount_opts :: u32
  s_first_meta_bg :: u32
  s_mkfs_time :: u32
  s_jnl_blocks :: "u32 list"
  s_blocks_count_hi :: u32
  s_r_blocks_count_hi :: u32
  s_free_blocks_count_hi :: u32
  s_min_extra_isize :: u16
  s_want_extra_isize :: u16
  s_flags :: u32
  s_raid_stride :: u16
  s_mmp_interval :: u16
  s_mmp_block :: u64
  s_raid_stripe_width :: u32
  s_log_groups_per_flex :: u8
  s_reserved_char_pad2 :: u8
  s_reserved_pad :: u16
  s_kbytes_written :: u64
  s_reserved :: "u32 list"

record ext2_group_desc =
  bg_block_bitmap :: u32
  bg_inode_bitmap :: u32
  bg_inode_table :: u32
  bg_free_blocks_count :: u16
  bg_free_inodes_count :: u16
  bg_used_dirs_count :: u16
  desc_flags :: u16
  bg_reserved :: "u32 list"
  bg_reserved16 :: u16
  bg_checksum :: u16

record ext4_inode =
  i_mode :: u16
  i_uid :: u16
  i_size_lo :: u32
  i_atime :: u32
  i_ctime :: u32
  i_mtime :: u32
  i_dtime :: u32
  i_gid :: u16
  i_links_count :: u16
  i_blocks_lo :: u32
  i_flags :: u32
  l_i_version :: u32
  i_block :: "u32 list"
  i_generation :: u32
  i_file_acl_lo :: u32
  i_size_high :: u32
  i_obso_faddr :: u32
  l_i_blocks_high :: u16
  l_i_file_acl_high :: u16
  l_i_uid_high :: u16
  l_i_gid_high :: u16
  l_i_reserved2 :: u32
  i_extra_isize :: u16
  i_pad1 :: u16
  i_ctime_extra :: u32
  i_mtime_extra :: u32
  i_atime_extra :: u32
  i_crtime :: u32
  i_crtime_extra :: u32
  i_version_hi :: u32

text \<open>What \<open>calloc\<close> returns.\<close>

definition zero_sb :: ext4_super_block where
  "zero_sb = \<lparr>s_inodes_count = 0, s_blocks_count_lo = 0, s_r_blocks_count_lo = 0, s_free_blocks_count_lo = 0,
     s_free_inodes_count = 0, s_first_data_block = 0, s_log_block_size = 0, s_obso_log_frag_size = 0,
     s_blocks_per_group = 0, s_obso_frags_per_group = 0, s_inodes_per_group = 0, s_mtime = 0,
     s_wtime = 0, s_mnt_count = 0, s_max_mnt_count = 0, s_magic = 0, s_state = 0, s_errors = 0,
     s_minor_rev_level = 0, s_lastcheck = 0, s_checkinterval = 0, s_creator_os = 0, s_rev_level = 0,
     s_def_resuid = 0, s_def_resgid = 0, s_first_ino = 0, s_inode_size = 0, s_block_group_nr = 0,
     s_feature_compat = 0, s_feature_incompat = 0, s_feature_ro_compat = 0, s_uuid = replicate 16 0,
     s_volume_name = replicate 16 0, s_last_mounted = replicate 64 0, s_algorithm_usage_bitmap = 0,
     s_prealloc_blocks = 0, s_prealloc_dir_blocks = 0, s_reserved_gdt_blocks = 0,
     s_journal_uuid = replicate 16 0, s_journal_inum = 0, s_journal_dev = 0, s_last_orphan = 0,
     s_hash_seed = replicate 4 0, s_def_hash_version = 0, s_reserved_char_pad = 0, s_desc_size = 0,
     s_default_mount_opts = 0, s_first_meta_bg = 0, s_mkfs_time = 0, s_jnl_blocks = replicate 17 0,
     s_blocks_count_hi = 0, s_r_blocks_count_hi = 0, s_free_blocks_count_hi = 0,
     s_min_extra_isize = 0, s_want_extra_isize = 0, s_flags = 0, s_raid_stride = 0,
     s_mmp_interval = 0, s_mmp_block = 0, s_raid_stripe_width = 0, s_log_groups_per_flex = 0,
     s_reserved_char_pad2 = 0, s_reserved_pad = 0, s_kbytes_written = 0, s_reserved = replicate 160 0\<rparr>"

definition zero_desc :: ext2_group_desc where
  "zero_desc = \<lparr>bg_block_bitmap = 0, bg_inode_bitmap = 0, bg_inode_table = 0, bg_free_blocks_count = 0,
     bg_free_inodes_count = 0, bg_used_dirs_count = 0, desc_flags = 0, bg_reserved = replicate 2 0,
     bg_reserved16 = 0, bg_checksum = 0\<rparr>"

definition zero_inode :: ext4_inode where
  "zero_inode = \<lparr>i_mode = 0, i_uid = 0, i_size_lo = 0, i_atime = 0, i_ctime = 0, i_mtime = 0, i_dtime = 0,
     i_gid = 0, i_links_count = 0, i_blocks_lo = 0, i_flags = 0, l_i_version = 0,
     i_block = replicate 15 0, i_generation = 0, i_file_acl_lo = 0, i_size_high = 0, i_obso_faddr = 0,
     l_i_blocks_high = 0, l_i_file_acl_high = 0, l_i_uid_high = 0, l_i_gid_high = 0,
     l_i_reserved2 = 0, i_extra_isize = 0, i_pad1 = 0, i_ctime_extra = 0, i_mtime_extra = 0,
     i_atime_extra = 0, i_crtime = 0, i_crtime_extra = 0, i_version_hi = 0\<rparr>"

text \<open>The arrays of a structure have the lengths declared for them.\<close>

definition sb_ok :: "ext4_super_block \<Rightarrow> bool" where
  "sb_ok s \<longleftrightarrow> length (s_uuid s) = 16 \<and> length (s_volume_name s) = 16 \<and>
     length (s_last_mounted s) = 64 \<and> length (s_journal_uuid s) = 16 \<and>
     length (s_hash_seed s) = 4 \<and> length (s_jnl_blocks s) = 17 \<and> length (s_reserved s) = 160"

definition desc_ok :: "ext2_group_desc \<Rightarrow> bool" where
  "desc_ok d \<longleftrightarrow> length (bg_reserved d) = 2"

definition inode_ok :: "ext4_inode \<Rightarrow> bool" where
  "inode_ok n \<longleftrightarrow> length (i_block n) = 15"

section \<open>Structures as bytes\<close>

definition sb_bytes :: "ext4_super_block \<Rightarrow> u8 list" where
  "sb_bytes s =
     le32 (s_inodes_count s) @ le32 (s_blocks_count_lo s) @ le32 (s_r_blocks_count_lo s) @
     le32 (s_free_blocks_count_lo s) @ le32 (s_free_inodes_count s) @ le32 (s_first_data_block s) @
     le32 (s_log_block_size s) @ le32 (s_obso_log_frag_size s) @ le32 (s_blocks_per_group s) @
     le32 (s_obso_frags_per_group s) @ le32 (s_inodes_per_group s) @ le32 (s_mtime s) @
     le32 (s_wtime s) @ le16 (s_mnt_count s) @ le16 (s_max_mnt_count s) @ le16 (s_magic s) @
     le16 (s_state s) @ le16 (s_errors s) @ le16 (s_minor_rev_level s) @ le32 (s_lastcheck s) @
     le32 (s_checkinterval s) @ le32 (s_creator_os s) @ le32 (s_rev_level s) @ le16 (s_def_resuid s) @
     le16 (s_def_resgid s) @ le32 (s_first_ino s) @ le16 (s_inode_size s) @
     le16 (s_block_group_nr s) @ le32 (s_feature_compat s) @ le32 (s_feature_incompat s) @
     le32 (s_feature_ro_compat s) @ s_uuid s @ s_volume_name s @ s_last_mounted s @
     le32 (s_algorithm_usage_bitmap s) @ [s_prealloc_blocks s] @ [s_prealloc_dir_blocks s] @
     le16 (s_reserved_gdt_blocks s) @ s_journal_uuid s @ le32 (s_journal_inum s) @
     le32 (s_journal_dev s) @ le32 (s_last_orphan s) @ le32s (s_hash_seed s) @
     [s_def_hash_version s] @ [s_reserved_char_pad s] @ le16 (s_desc_size s) @
     le32 (s_default_mount_opts s) @ le32 (s_first_meta_bg s) @ le32 (s_mkfs_time s) @
     le32s (s_jnl_blocks s) @ le32 (s_blocks_count_hi s) @ le32 (s_r_blocks_count_hi s) @
     le32 (s_free_blocks_count_hi s) @ le16 (s_min_extra_isize s) @ le16 (s_want_extra_isize s) @
     le32 (s_flags s) @ le16 (s_raid_stride s) @ le16 (s_mmp_interval s) @ le64 (s_mmp_block s) @
     le32 (s_raid_stripe_width s) @ [s_log_groups_per_flex s] @ [s_reserved_char_pad2 s] @
     le16 (s_reserved_pad s) @ le64 (s_kbytes_written s) @ le32s (s_reserved s)"

definition desc_bytes :: "ext2_group_desc \<Rightarrow> u8 list" where
  "desc_bytes d =
     le32 (bg_block_bitmap d) @ le32 (bg_inode_bitmap d) @ le32 (bg_inode_table d) @
     le16 (bg_free_blocks_count d) @ le16 (bg_free_inodes_count d) @ le16 (bg_used_dirs_count d) @
     le16 (desc_flags d) @ le32s (bg_reserved d) @ le16 (bg_reserved16 d) @ le16 (bg_checksum d)"

definition inode_bytes :: "ext4_inode \<Rightarrow> u8 list" where
  "inode_bytes n =
     le16 (i_mode n) @ le16 (i_uid n) @ le32 (i_size_lo n) @ le32 (i_atime n) @ le32 (i_ctime n) @
     le32 (i_mtime n) @ le32 (i_dtime n) @ le16 (i_gid n) @ le16 (i_links_count n) @
     le32 (i_blocks_lo n) @ le32 (i_flags n) @ le32 (l_i_version n) @ le32s (i_block n) @
     le32 (i_generation n) @ le32 (i_file_acl_lo n) @ le32 (i_size_high n) @ le32 (i_obso_faddr n) @
     le16 (l_i_blocks_high n) @ le16 (l_i_file_acl_high n) @ le16 (l_i_uid_high n) @
     le16 (l_i_gid_high n) @ le32 (l_i_reserved2 n) @ le16 (i_extra_isize n) @ le16 (i_pad1 n) @
     le32 (i_ctime_extra n) @ le32 (i_mtime_extra n) @ le32 (i_atime_extra n) @ le32 (i_crtime n) @
     le32 (i_crtime_extra n) @ le32 (i_version_hi n)"

definition sb_of_bytes :: "u8 list \<Rightarrow> ext4_super_block" where
  "sb_of_bytes bs =
     (let (v_s_inodes_count, bs) = take32 bs; (v_s_blocks_count_lo, bs) = take32 bs;
          (v_s_r_blocks_count_lo, bs) = take32 bs; (v_s_free_blocks_count_lo, bs) = take32 bs;
          (v_s_free_inodes_count, bs) = take32 bs; (v_s_first_data_block, bs) = take32 bs;
          (v_s_log_block_size, bs) = take32 bs; (v_s_obso_log_frag_size, bs) = take32 bs;
          (v_s_blocks_per_group, bs) = take32 bs; (v_s_obso_frags_per_group, bs) = take32 bs;
          (v_s_inodes_per_group, bs) = take32 bs; (v_s_mtime, bs) = take32 bs;
          (v_s_wtime, bs) = take32 bs; (v_s_mnt_count, bs) = take16 bs;
          (v_s_max_mnt_count, bs) = take16 bs; (v_s_magic, bs) = take16 bs;
          (v_s_state, bs) = take16 bs; (v_s_errors, bs) = take16 bs;
          (v_s_minor_rev_level, bs) = take16 bs; (v_s_lastcheck, bs) = take32 bs;
          (v_s_checkinterval, bs) = take32 bs; (v_s_creator_os, bs) = take32 bs;
          (v_s_rev_level, bs) = take32 bs; (v_s_def_resuid, bs) = take16 bs;
          (v_s_def_resgid, bs) = take16 bs; (v_s_first_ino, bs) = take32 bs;
          (v_s_inode_size, bs) = take16 bs; (v_s_block_group_nr, bs) = take16 bs;
          (v_s_feature_compat, bs) = take32 bs; (v_s_feature_incompat, bs) = take32 bs;
          (v_s_feature_ro_compat, bs) = take32 bs; (v_s_uuid, bs) = take_bytes 16 bs;
          (v_s_volume_name, bs) = take_bytes 16 bs; (v_s_last_mounted, bs) = take_bytes 64 bs;
          (v_s_algorithm_usage_bitmap, bs) = take32 bs; (v_s_prealloc_blocks, bs) = take8 bs;
          (v_s_prealloc_dir_blocks, bs) = take8 bs; (v_s_reserved_gdt_blocks, bs) = take16 bs;
          (v_s_journal_uuid, bs) = take_bytes 16 bs; (v_s_journal_inum, bs) = take32 bs;
          (v_s_journal_dev, bs) = take32 bs; (v_s_last_orphan, bs) = take32 bs;
          (v_s_hash_seed, bs) = take_words 4 bs; (v_s_def_hash_version, bs) = take8 bs;
          (v_s_reserved_char_pad, bs) = take8 bs; (v_s_desc_size, bs) = take16 bs;
          (v_s_default_mount_opts, bs) = take32 bs; (v_s_first_meta_bg, bs) = take32 bs;
          (v_s_mkfs_time, bs) = take32 bs; (v_s_jnl_blocks, bs) = take_words 17 bs;
          (v_s_blocks_count_hi, bs) = take32 bs; (v_s_r_blocks_count_hi, bs) = take32 bs;
          (v_s_free_blocks_count_hi, bs) = take32 bs; (v_s_min_extra_isize, bs) = take16 bs;
          (v_s_want_extra_isize, bs) = take16 bs; (v_s_flags, bs) = take32 bs;
          (v_s_raid_stride, bs) = take16 bs; (v_s_mmp_interval, bs) = take16 bs;
          (v_s_mmp_block, bs) = take64 bs; (v_s_raid_stripe_width, bs) = take32 bs;
          (v_s_log_groups_per_flex, bs) = take8 bs; (v_s_reserved_char_pad2, bs) = take8 bs;
          (v_s_reserved_pad, bs) = take16 bs; (v_s_kbytes_written, bs) = take64 bs;
          (v_s_reserved, bs) = take_words 160 bs in
      \<lparr>s_inodes_count = v_s_inodes_count, s_blocks_count_lo = v_s_blocks_count_lo,
       s_r_blocks_count_lo = v_s_r_blocks_count_lo, s_free_blocks_count_lo = v_s_free_blocks_count_lo,
       s_free_inodes_count = v_s_free_inodes_count, s_first_data_block = v_s_first_data_block,
       s_log_block_size = v_s_log_block_size, s_obso_log_frag_size = v_s_obso_log_frag_size,
       s_blocks_per_group = v_s_blocks_per_group, s_obso_frags_per_group = v_s_obso_frags_per_group,
       s_inodes_per_group = v_s_inodes_per_group, s_mtime = v_s_mtime, s_wtime = v_s_wtime,
       s_mnt_count = v_s_mnt_count, s_max_mnt_count = v_s_max_mnt_count, s_magic = v_s_magic,
       s_state = v_s_state, s_errors = v_s_errors, s_minor_rev_level = v_s_minor_rev_level,
       s_lastcheck = v_s_lastcheck, s_checkinterval = v_s_checkinterval, s_creator_os = v_s_creator_os,
       s_rev_level = v_s_rev_level, s_def_resuid = v_s_def_resuid, s_def_resgid = v_s_def_resgid,
       s_first_ino = v_s_first_ino, s_inode_size = v_s_inode_size,
       s_block_group_nr = v_s_block_group_nr, s_feature_compat = v_s_feature_compat,
       s_feature_incompat = v_s_feature_incompat, s_feature_ro_compat = v_s_feature_ro_compat,
       s_uuid = v_s_uuid, s_volume_name = v_s_volume_name, s_last_mounted = v_s_last_mounted,
       s_algorithm_usage_bitmap = v_s_algorithm_usage_bitmap, s_prealloc_blocks = v_s_prealloc_blocks,
       s_prealloc_dir_blocks = v_s_prealloc_dir_blocks, s_reserved_gdt_blocks = v_s_reserved_gdt_blocks,
       s_journal_uuid = v_s_journal_uuid, s_journal_inum = v_s_journal_inum,
       s_journal_dev = v_s_journal_dev, s_last_orphan = v_s_last_orphan, s_hash_seed = v_s_hash_seed,
       s_def_hash_version = v_s_def_hash_version, s_reserved_char_pad = v_s_reserved_char_pad,
       s_desc_size = v_s_desc_size, s_default_mount_opts = v_s_default_mount_opts,
       s_first_meta_bg = v_s_first_meta_bg, s_mkfs_time = v_s_mkfs_time, s_jnl_blocks = v_s_jnl_blocks,
       s_blocks_count_hi = v_s_blocks_count_hi, s_r_blocks_count_hi = v_s_r_blocks_count_hi,
       s_free_blocks_count_hi = v_s_free_blocks_count_hi, s_min_extra_isize = v_s_min_extra_isize,
       s_want_extra_isize = v_s_want_extra_isize, s_flags = v_s_flags, s_raid_stride = v_s_raid_stride,
       s_mmp_interval = v_s_mmp_interval, s_mmp_block = v_s_mmp_block,
       s_raid_stripe_width = v_s_raid_stripe_width, s_log_groups_per_flex = v_s_log_groups_per_flex,
       s_reserved_char_pad2 = v_s_reserved_char_pad2, s_reserved_pad = v_s_reserved_pad,
       s_kbytes_written = v_s_kbytes_written, s_reserved = v_s_reserved\<rparr>)"

definition inode_of_bytes :: "u8 list \<Rightarrow> ext4_inode" where
  "inode_of_bytes bs =
     (let (v_i_mode, bs) = take16 bs; (v_i_uid, bs) = take16 bs; (v_i_size_lo, bs) = take32 bs;
          (v_i_atime, bs) = take32 bs; (v_i_ctime, bs) = take32 bs; (v_i_mtime, bs) = take32 bs;
          (v_i_dtime, bs) = take32 bs; (v_i_gid, bs) = take16 bs; (v_i_links_count, bs) = take16 bs;
          (v_i_blocks_lo, bs) = take32 bs; (v_i_flags, bs) = take32 bs;
          (v_l_i_version, bs) = take32 bs; (v_i_block, bs) = take_words 15 bs;
          (v_i_generation, bs) = take32 bs; (v_i_file_acl_lo, bs) = take32 bs;
          (v_i_size_high, bs) = take32 bs; (v_i_obso_faddr, bs) = take32 bs;
          (v_l_i_blocks_high, bs) = take16 bs; (v_l_i_file_acl_high, bs) = take16 bs;
          (v_l_i_uid_high, bs) = take16 bs; (v_l_i_gid_high, bs) = take16 bs;
          (v_l_i_reserved2, bs) = take32 bs; (v_i_extra_isize, bs) = take16 bs;
          (v_i_pad1, bs) = take16 bs; (v_i_ctime_extra, bs) = take32 bs;
          (v_i_mtime_extra, bs) = take32 bs; (v_i_atime_extra, bs) = take32 bs;
          (v_i_crtime, bs) = take32 bs; (v_i_crtime_extra, bs) = take32 bs;
          (v_i_version_hi, bs) = take32 bs in
      \<lparr>i_mode = v_i_mode, i_uid = v_i_uid, i_size_lo = v_i_size_lo, i_atime = v_i_atime,
       i_ctime = v_i_ctime, i_mtime = v_i_mtime, i_dtime = v_i_dtime, i_gid = v_i_gid,
       i_links_count = v_i_links_count, i_blocks_lo = v_i_blocks_lo, i_flags = v_i_flags,
       l_i_version = v_l_i_version, i_block = v_i_block, i_generation = v_i_generation,
       i_file_acl_lo = v_i_file_acl_lo, i_size_high = v_i_size_high, i_obso_faddr = v_i_obso_faddr,
       l_i_blocks_high = v_l_i_blocks_high, l_i_file_acl_high = v_l_i_file_acl_high,
       l_i_uid_high = v_l_i_uid_high, l_i_gid_high = v_l_i_gid_high, l_i_reserved2 = v_l_i_reserved2,
       i_extra_isize = v_i_extra_isize, i_pad1 = v_i_pad1, i_ctime_extra = v_i_ctime_extra,
       i_mtime_extra = v_i_mtime_extra, i_atime_extra = v_i_atime_extra, i_crtime = v_i_crtime,
       i_crtime_extra = v_i_crtime_extra, i_version_hi = v_i_version_hi\<rparr>)"

definition desc_of_bytes :: "u8 list \<Rightarrow> ext2_group_desc" where
  "desc_of_bytes bs =
     (let (v_bg_block_bitmap, bs) = take32 bs; (v_bg_inode_bitmap, bs) = take32 bs;
          (v_bg_inode_table, bs) = take32 bs; (v_bg_free_blocks_count, bs) = take16 bs;
          (v_bg_free_inodes_count, bs) = take16 bs; (v_bg_used_dirs_count, bs) = take16 bs;
          (v_desc_flags, bs) = take16 bs; (v_bg_reserved, bs) = take_words 2 bs;
          (v_bg_reserved16, bs) = take16 bs; (v_bg_checksum, bs) = take16 bs in
      \<lparr>bg_block_bitmap = v_bg_block_bitmap, bg_inode_bitmap = v_bg_inode_bitmap,
       bg_inode_table = v_bg_inode_table, bg_free_blocks_count = v_bg_free_blocks_count,
       bg_free_inodes_count = v_bg_free_inodes_count, bg_used_dirs_count = v_bg_used_dirs_count,
       desc_flags = v_desc_flags, bg_reserved = v_bg_reserved, bg_reserved16 = v_bg_reserved16,
       bg_checksum = v_bg_checksum\<rparr>)"

lemma length_sb_bytes: "sb_ok s \<Longrightarrow> length (sb_bytes s) = 1024"
  by (simp add: sb_bytes_def sb_ok_def)

lemma length_desc_bytes: "desc_ok d \<Longrightarrow> length (desc_bytes d) = 32"
  by (simp add: desc_bytes_def desc_ok_def)

lemma length_inode_bytes: "inode_ok n \<Longrightarrow> length (inode_bytes n) = 156"
  by (simp add: inode_bytes_def inode_ok_def)

lemma sb_of_sb_bytes: "sb_ok s \<Longrightarrow> sb_of_bytes (sb_bytes s @ rest) = s"
  by (simp add: sb_ok_def sb_bytes_def sb_of_bytes_def Let_def)

lemma inode_of_inode_bytes: "inode_ok n \<Longrightarrow> inode_of_bytes (inode_bytes n @ rest) = n"
  by (simp add: inode_ok_def inode_bytes_def inode_of_bytes_def Let_def)

lemma desc_of_desc_bytes: "desc_ok d \<Longrightarrow> desc_of_bytes (desc_bytes d @ rest) = d"
  by (simp add: desc_ok_def desc_bytes_def desc_of_bytes_def Let_def)

end
