(* ===== verification/Superblock.thy ===== *)
theory Superblock
  imports Regions Disk_Format Crc
begin

text \<open>
  The file system under construction as one state, and the superblock code of \<^verbatim>\<open>src/ext4_utils.c\<close>
  and \<^verbatim>\<open>src/ext4_sb.c\<close>: filling in the superblock and the group descriptors, queueing them, the
  final free counts with the descriptor checksums, and reading a superblock back.
\<close>

section \<open>The file system under construction\<close>

text \<open>
  \<open>struct fs_aux_info\<close> with everything its pointers reach: the superblock and its copies, the
  descriptors, the groups (\<open>aux\<close>), the inodes in the inode tables by address with the bytes behind
  each structure up to \<open>inode_size\<close>, the list of attribute blocks, the buffers obtained with
  \<open>calloc\<close>, the heap of the regions and the queue of the image.
\<close>

record build =
  aux :: fs_aux_info
  aux_sb :: ext4_super_block
  backup_sb :: "ext4_super_block option list"
  bg_desc :: "ext2_group_desc list"
  inode_at :: "ptr \<Rightarrow> ext4_inode"
  inode_tail :: "ptr \<Rightarrow> u8 list"
  xattrs :: "(ptr \<times> nat) list"
  bufs :: "u8 list mem"
  regs :: reg_mem
  img :: image

text \<open>A call of \<open>sparse_file_add_data\<close> whose value is not looked at.\<close>

definition add_data :: "build \<Rightarrow> ptr \<Rightarrow> u32 \<Rightarrow> u32 \<Rightarrow> build res" where
  "add_data b p n block = rbind (sparse_file_add_data (img b) p n block) (\<lambda>(_, q). Inr (b\<lparr>img := q\<rparr>))"

definition calloc :: "build \<Rightarrow> u8 list \<Rightarrow> nat \<times> build" where
  "calloc b bytes = (let (a, m) = malloc_cell (bufs b) bytes in (a, b\<lparr>bufs := m\<rparr>))"

text \<open>
  The allocations at the end of \<open>ext4_init_fs_aux_info\<close>, with an empty image. A zeroed superblock
  is shorter than the structure for blocks below 1 KiB.
\<close>

definition empty_heap :: "'c mem" where
  "empty_heap = \<lparr>cells = (\<lambda>_. None), brk = 0\<rparr>"

definition init_build :: "fs_info \<Rightarrow> build res" where
  "init_build info =
     rbind (ext4_init_fs_aux_info info) (\<lambda>geom.
     Inr \<lparr>aux = fs_geom.extend geom \<lparr>bgs = []\<rparr>, aux_sb = zero_sb,
          backup_sb = replicate (unat (groups geom)) None,
          bg_desc = replicate (unat (block_size info) * unat (bg_desc_blocks geom) div 32) zero_desc,
          inode_at = (\<lambda>_. zero_inode),
          inode_tail = (\<lambda>_. replicate (unat (inode_size info) - 156) 0), xattrs = [],
          bufs = empty_heap, regs = empty_heap, img = (empty_heap, backed_block_list_new (block_size info))\<rparr>)"

text \<open>\<open>get_inode\<close> on the whole state.\<close>

definition get_inode_ptr :: "fs_info \<Rightarrow> build \<Rightarrow> u32 \<Rightarrow> (ptr \<times> build) res" where
  "get_inode_ptr info b ino =
     rbind (get_inode info (aux b) (img b) ino) (\<lambda>(p, a, q). Inr (p, b\<lparr>aux := a, img := q\<rparr>))"

definition update_inode :: "build \<Rightarrow> ptr \<Rightarrow> (ext4_inode \<Rightarrow> ext4_inode) \<Rightarrow> build" where
  "update_inode b p f = b\<lparr>inode_at := (inode_at b)(p := f (inode_at b p))\<rparr>"

section \<open>Filling in\<close>

abbreviation EXT4_SUPER_MAGIC :: u16 where "EXT4_SUPER_MAGIC \<equiv> 0xEF53"
abbreviation EXT4_VALID_FS :: u16 where "EXT4_VALID_FS \<equiv> 1"
abbreviation EXT4_RESIZE_INO :: u32 where "EXT4_RESIZE_INO \<equiv> 7"
abbreviation EXT4_JOURNAL_INO :: u32 where "EXT4_JOURNAL_INO \<equiv> 8"
abbreviation EXT4_GOOD_OLD_FIRST_INO :: u32 where "EXT4_GOOD_OLD_FIRST_INO \<equiv> 11"

function log_2_loop :: "int \<Rightarrow> int \<Rightarrow> int" where
  "log_2_loop i j = (if j > 0 then log_2_loop (i + 1) (j div 2) else i)"
  by pat_completeness auto
termination by (relation "measure (\<lambda>(i, j). nat j)") auto

declare log_2_loop.simps [simp del]

definition log_2 :: "int \<Rightarrow> int" where
  "log_2 j = log_2_loop 0 j - 1"

text \<open>A C string in an array of characters: \<open>strncpy\<close> into a zeroed array, and reading it back.\<close>

definition chars :: "string \<Rightarrow> u8 list" where
  "chars s = map of_char s"

definition strncpy :: "nat \<Rightarrow> string \<Rightarrow> u8 list" where
  "strncpy n s = take n (chars s @ replicate n 0)"

definition c_string :: "u8 list \<Rightarrow> string" where
  "c_string bs = map (\<lambda>b. char_of (unat b)) (takeWhile (\<lambda>b. b \<noteq> 0) bs)"

definition fill_sb :: "fs_info \<Rightarrow> fs_aux_info \<Rightarrow> string \<Rightarrow> ext4_super_block \<Rightarrow> ext4_super_block" where
  "fill_sb info a name s =
     (let log_bs = word_of_int (log_2 (sint (block_size info div 1024))) in
      s\<lparr>s_inodes_count := inodes_per_group info * groups a,
        s_blocks_count_lo := ucast (len_blocks a),
        s_r_blocks_count_lo := ucast (len_blocks a div 100 * ucast (reserve_pcnt info)),
        s_free_blocks_count_lo := 0, s_free_inodes_count := 0,
        s_first_data_block := first_data_block a,
        s_log_block_size := log_bs, s_obso_log_frag_size := log_bs,
        s_blocks_per_group := blocks_per_group info,
        s_obso_frags_per_group := blocks_per_group info,
        s_inodes_per_group := inodes_per_group info,
        s_mtime := 0, s_wtime := 0, s_mnt_count := 0, s_max_mnt_count := 0xFFFF,
        s_magic := EXT4_SUPER_MAGIC, s_state := EXT4_VALID_FS, s_errors := 2,
        s_minor_rev_level := 0, s_lastcheck := 0, s_checkinterval := 0, s_creator_os := 0,
        s_rev_level := 1, s_def_resuid := 0, s_def_resgid := 0,
        s_first_ino := EXT4_GOOD_OLD_FIRST_INO, s_inode_size := ucast (inode_size info),
        s_block_group_nr := 0, s_feature_compat := ucast (feat_compat info),
        s_feature_incompat := ucast (feat_incompat info),
        s_feature_ro_compat := ucast (feat_ro_compat info),
        s_uuid := uuid info, s_volume_name := strncpy 16 name,
        s_last_mounted := replicate 64 0, s_algorithm_usage_bitmap := 0,
        s_reserved_gdt_blocks := ucast (bg_desc_reserve_blocks info),
        s_prealloc_blocks := 0, s_prealloc_dir_blocks := 0,
        s_journal_inum := (if feat_compat info AND EXT4_FEATURE_COMPAT_HAS_JOURNAL \<noteq> 0
                           then EXT4_JOURNAL_INO else s_journal_inum s),
        s_journal_dev := 0, s_last_orphan := 0, s_hash_seed := (s_hash_seed s)[0 := 0],
        s_def_hash_version := 2, s_reserved_char_pad := 1, s_desc_size := 32,
        s_default_mount_opts := 0, s_first_meta_bg := 0, s_mkfs_time := 0,
        s_blocks_count_hi := ucast (drop_bit 32 (len_blocks a)),
        s_r_blocks_count_hi := 0, s_free_blocks_count_hi := 0,
        s_min_extra_isize := 28, s_want_extra_isize := 28, s_flags := 2,
        s_raid_stride := 0, s_mmp_interval := 0, s_mmp_block := 0, s_raid_stripe_width := 0,
        s_log_groups_per_flex := 0, s_kbytes_written := 0\<rparr>)"

text \<open>The body of the loop over the groups; the copy of the superblock has \<open>block_size\<close> bytes.\<close>

definition fill_group :: "fs_info \<Rightarrow> build \<Rightarrow> nat \<Rightarrow> build res" where
  "fill_group info b i =
     (let start = first_data_block (aux b) + of_nat i * blocks_per_group info in
      rbind (ext4_bg_has_super_block info (of_nat i)) (\<lambda>has.
      rbind (if has then
               rbind (if i \<noteq> 0 then
                        rbind (wr (backup_sb b) i (Some (aux_sb b\<lparr>s_block_group_nr := of_nat i\<rparr>))) (\<lambda>copies.
                        add_data (b\<lparr>backup_sb := copies\<rparr>) (Backup_Sb i, 0) (block_size info) start)
                      else Inr b) (\<lambda>b.
               add_data b (Bg_Desc, 0) (bg_desc_blocks (aux b) * block_size info) (start + 1))
             else Inr b) (\<lambda>b.
      let header = (if has then 1 + bg_desc_blocks (aux b) + bg_desc_reserve_blocks info else 0) in
      rbind (rd (bg_desc b) i) (\<lambda>d.
      rbind (wr (bg_desc b) i (d\<lparr>bg_block_bitmap := start + header,
               bg_inode_bitmap := start + header + 1, bg_inode_table := start + header + 2,
               bg_free_blocks_count := ucast (s_blocks_per_group (aux_sb b)),
               bg_free_inodes_count := ucast (s_inodes_per_group (aux_sb b)),
               bg_used_dirs_count := 0\<rparr>)) (\<lambda>ds.
      Inr (b\<lparr>bg_desc := ds\<rparr>))))))"

fun fill_groups :: "fs_info \<Rightarrow> nat list \<Rightarrow> build \<Rightarrow> build res" where
  "fill_groups info [] b = Inr b"
| "fill_groups info (i # is) b = rbind (fill_group info b i) (fill_groups info is)"

text \<open>
  A superblock buffer of \<open>block_size\<close> bytes holds the structure only if that is 1024 or more, and a
  label that was never set is a null pointer.
\<close>

definition ext4_fill_in_sb :: "fs_info \<Rightarrow> build \<Rightarrow> build res" where
  "ext4_fill_in_sb info b =
     (if block_size info < 1024 then Inl Fault else
      case label info of None \<Rightarrow> Inl Fault
      | Some name \<Rightarrow> fill_groups info [0..<unat (groups (aux b))]
                       (b\<lparr>aux_sb := fill_sb info (aux b) name (aux_sb b)\<rparr>))"

definition ext4_queue_sb :: "fs_info \<Rightarrow> build \<Rightarrow> build res" where
  "ext4_queue_sb info b =
     (if block_size info > 1024 then
        (if block_size info < 2048 then Inl Fault else
         let (buf, b) = calloc b (replicate 1024 0 @ sb_bytes (aux_sb b)
                                    @ replicate (unat (block_size info) - 2048) 0) in
         add_data b (Calloc buf, 0) (block_size info) 0)
      else add_data b (Sb, 0) 1024 1)"

section \<open>Free counts and checksums\<close>

text \<open>\<open>crc\<close> covers the UUID, the group number and the descriptor up to its checksum.\<close>

definition desc_crc :: "u8 list \<Rightarrow> u32 \<Rightarrow> ext2_group_desc \<Rightarrow> u16" where
  "desc_crc ident i d = ext4_crc16 (ext4_crc16 (ext4_crc16 0xFFFF ident) (le32 i)) (take 30 (desc_bytes d))"

definition update_group :: "build \<Rightarrow> nat \<Rightarrow> build res" where
  "update_group b i =
     rbind (get_free_blocks (aux b) i) (\<lambda>free.
     rbind (get_free_inodes (aux b) i) (\<lambda>free_ino.
     rbind (get_directories (aux b) i) (\<lambda>dirs.
     rbind (get_bg_flags (aux b) i) (\<lambda>flags.
     rbind (rd (bg_desc b) i) (\<lambda>d.
     let s = (aux_sb b)\<lparr>s_free_blocks_count_lo := s_free_blocks_count_lo (aux_sb b) + free,
               s_free_inodes_count := s_free_inodes_count (aux_sb b) + free_ino\<rparr>;
         d = d\<lparr>bg_free_blocks_count := ucast free, bg_free_inodes_count := ucast free_ino,
               bg_used_dirs_count := bg_used_dirs_count d + dirs, desc_flags := flags\<rparr>;
         d = d\<lparr>bg_checksum := desc_crc (s_uuid s) (of_nat i) d\<rparr> in
     rbind (wr (bg_desc b) i d) (\<lambda>ds. Inr (b\<lparr>aux_sb := s, bg_desc := ds\<rparr>)))))))"

fun update_groups :: "nat list \<Rightarrow> build \<Rightarrow> build res" where
  "update_groups [] b = Inr b"
| "update_groups (i # is) b = rbind (update_group b i) (update_groups is)"

definition ext4_update_free :: "build \<Rightarrow> build res" where
  "ext4_update_free b = update_groups [0..<unat (groups (aux b))] b"

section \<open>Reading and writing superblocks\<close>

definition read_sb :: "fd_file \<Rightarrow> (ext4_super_block \<times> fd_file) res" where
  "read_sb fd =
     (let got = take 1024 (drop 1024 (fd_bytes fd)) in
      if length got \<noteq> 1024 then Inl Critical
      else Inr (sb_of_bytes got, fd\<lparr>fd_pos := 1024 + length got\<rparr>))"

definition write_sb :: "fd_file \<Rightarrow> u64 \<Rightarrow> ext4_super_block \<Rightarrow> fd_file res" where
  "write_sb fd offset s =
     (if sint offset < 0 then Inl Critical else
      let (ret, fd) = write_whole (fd\<lparr>fd_pos := nat (sint offset)\<rparr>) (sb_bytes s) in
      if ret < 0 then Inl Critical else Inr fd)"

text \<open>
  \<open>ext4_parse_sb\<close>: the value and the parameters. \<open>1024 << s_log_block_size\<close> is an \<open>int\<close>. The label
  is a pointer to the volume name, which reads on into the next array when all 16 bytes are used.
\<close>

definition ext4_parse_sb :: "ext4_super_block \<Rightarrow> fs_info \<Rightarrow> (int \<times> fs_info) res" where
  "ext4_parse_sb s info =
     (if s_magic s \<noteq> EXT4_SUPER_MAGIC then Inr (- EINVAL, info) else
      if s_state s AND EXT4_VALID_FS \<noteq> EXT4_VALID_FS then Inr (- EINVAL, info) else
      if s_log_block_size s > 20 then Inl Fault else
      let bs = push_bit (unat (s_log_block_size s)) 1024 :: u32;
          blocks = push_bit 32 (ucast (s_blocks_count_hi s)) + ucast (s_blocks_count_lo s) in
      Inr (0, info\<lparr>block_size := bs, blocks_per_group := s_blocks_per_group s,
        inodes_per_group := s_inodes_per_group s, inode_size := ucast (s_inode_size s),
        inodes := s_inodes_count s, feat_ro_compat := ucast (s_feature_ro_compat s),
        feat_compat := ucast (s_feature_compat s), feat_incompat := ucast (s_feature_incompat s),
        bg_desc_reserve_blocks := ucast (s_reserved_gdt_blocks s),
        label := Some (c_string (s_volume_name s @ s_last_mounted s)),
        uuid := s_uuid s, len := ucast bs * blocks\<rparr>))"

text \<open>\<open>ext4_parse_sb_info\<close> does not look at the value of \<open>ext4_parse_sb\<close>.\<close>

definition ext4_parse_sb_info ::
  "fs_info \<Rightarrow> bool \<Rightarrow> ext4_super_block \<Rightarrow> (fs_info \<times> fs_geom \<times> ext4_super_block) res" where
  "ext4_parse_sb_info info force s =
     (if s_magic s \<noteq> EXT4_SUPER_MAGIC then error_then force else (\<lambda>k. k)) (
     (if s_state s AND EXT4_VALID_FS \<noteq> EXT4_VALID_FS then error_then force else (\<lambda>k. k)) (
     rbind (ext4_parse_sb s info) (\<lambda>(_, info).
     rbind (ext4_init_fs_aux_info info) (\<lambda>geom.
     if block_size info < 1024 then Inl Fault
     else if first_data_block geom \<noteq> s_first_data_block s then Inl Critical
     else Inr (info, geom, s)))))"

text \<open>\<open>get_file_size\<close>, from the size that the file or the block device has.\<close>

definition get_file_size :: "fs_info \<Rightarrow> u64 option \<Rightarrow> u64" where
  "get_file_size info st_size =
     (let reserve_len = (if sint (len info) < 0 then - len info else 0);
          computed = (case st_size of Some n \<Rightarrow> n - reserve_len | None \<Rightarrow> 0) in
      if sint computed < 0 then 0 else computed)"

section \<open>Free counts and checksums\<close>

definition sealed :: "u8 list \<Rightarrow> nat \<Rightarrow> ext2_group_desc \<Rightarrow> bool" where
  "sealed ident i d \<longleftrightarrow> bg_checksum d = desc_crc ident (of_nat i) d"

lemma desc_bytes_split:
  "desc_ok d \<Longrightarrow> take 30 (desc_bytes d) = le32 (bg_block_bitmap d) @ le32 (bg_inode_bitmap d)
     @ le32 (bg_inode_table d) @ le16 (bg_free_blocks_count d) @ le16 (bg_free_inodes_count d)
     @ le16 (bg_used_dirs_count d) @ le16 (desc_flags d) @ le32s (bg_reserved d) @ le16 (bg_reserved16 d)"
  by (simp add: desc_bytes_def desc_ok_def)

lemma sealed_update: "desc_ok d \<Longrightarrow> sealed ident i (d\<lparr>bg_checksum := desc_crc ident (of_nat i) d\<rparr>)"
proof -
  assume d: "desc_ok d"
  then have "desc_ok (d\<lparr>bg_checksum := c\<rparr>)" for c by (simp add: desc_ok_def)
  then show ?thesis using d by (simp add: sealed_def desc_crc_def desc_bytes_split)
qed

text \<open>The descriptor of group \<open>i\<close> after its update.\<close>

definition updated_desc :: "u8 list \<Rightarrow> nat \<Rightarrow> block_group_info \<Rightarrow> ext2_group_desc \<Rightarrow> ext2_group_desc" where
  "updated_desc ident i bg d =
     (let d = d\<lparr>bg_free_blocks_count := ucast (free_blocks bg), bg_free_inodes_count := ucast (free_inodes bg),
               bg_used_dirs_count := bg_used_dirs_count d + used_dirs bg, desc_flags := bg_flags bg\<rparr>
      in d\<lparr>bg_checksum := desc_crc ident (of_nat i) d\<rparr>)"

lemma update_group_eq:
  assumes "i < length (bgs (aux b))" "i < length (bg_desc b)"
  shows "update_group b i = Inr (b\<lparr>
    aux_sb := (aux_sb b)\<lparr>s_free_blocks_count_lo := s_free_blocks_count_lo (aux_sb b) + free_blocks (bgs (aux b) ! i),
      s_free_inodes_count := s_free_inodes_count (aux_sb b) + free_inodes (bgs (aux b) ! i)\<rparr>,
    bg_desc := (bg_desc b)[i := updated_desc (s_uuid (aux_sb b)) i (bgs (aux b) ! i) (bg_desc b ! i)]\<rparr>)"
  using assms by (simp add: update_group_def get_free_blocks_def get_free_inodes_def get_directories_def
      get_bg_flags_def updated_desc_def Let_def)

lemma update_groups_eq:
  assumes "\<forall>i \<in> set is. i < length (bgs (aux b)) \<and> i < length (bg_desc b)" "distinct is"
  shows "\<exists>ds. update_groups is b = Inr (b\<lparr>
      aux_sb := (aux_sb b)\<lparr>
        s_free_blocks_count_lo := s_free_blocks_count_lo (aux_sb b) + (\<Sum>i\<leftarrow>is. free_blocks (bgs (aux b) ! i)),
        s_free_inodes_count := s_free_inodes_count (aux_sb b) + (\<Sum>i\<leftarrow>is. free_inodes (bgs (aux b) ! i))\<rparr>,
      bg_desc := ds\<rparr>)
    \<and> length ds = length (bg_desc b)
    \<and> (\<forall>i < length ds. ds ! i = (if i \<in> set is
        then updated_desc (s_uuid (aux_sb b)) i (bgs (aux b) ! i) (bg_desc b ! i) else bg_desc b ! i))"
  using assms
proof (induction "is" arbitrary: b)
  case Nil
  show ?case by (intro exI [of _ "bg_desc b"]) simp
next
  case (Cons i "is")
  have i: "i < length (bgs (aux b))" "i < length (bg_desc b)" and ni: "i \<notin> set is"
    using Cons.prems by auto
  obtain b' where b': "update_group b i = Inr b'" and eq: "b' = b\<lparr>
    aux_sb := (aux_sb b)\<lparr>s_free_blocks_count_lo := s_free_blocks_count_lo (aux_sb b) + free_blocks (bgs (aux b) ! i),
      s_free_inodes_count := s_free_inodes_count (aux_sb b) + free_inodes (bgs (aux b) ! i)\<rparr>,
    bg_desc := (bg_desc b)[i := updated_desc (s_uuid (aux_sb b)) i (bgs (aux b) ! i) (bg_desc b ! i)]\<rparr>"
    using update_group_eq [OF i] by simp
  have hyps: "\<forall>i \<in> set is. i < length (bgs (aux b')) \<and> i < length (bg_desc b')" "distinct is"
    using Cons.prems unfolding eq by auto
  from Cons.IH [OF hyps] obtain ds where ds: "update_groups is b' = Inr (b'\<lparr>
      aux_sb := (aux_sb b')\<lparr>
        s_free_blocks_count_lo := s_free_blocks_count_lo (aux_sb b') + (\<Sum>i\<leftarrow>is. free_blocks (bgs (aux b') ! i)),
        s_free_inodes_count := s_free_inodes_count (aux_sb b') + (\<Sum>i\<leftarrow>is. free_inodes (bgs (aux b') ! i))\<rparr>,
      bg_desc := ds\<rparr>)" "length ds = length (bg_desc b')"
    "\<forall>i < length ds. ds ! i = (if i \<in> set is
        then updated_desc (s_uuid (aux_sb b')) i (bgs (aux b') ! i) (bg_desc b' ! i) else bg_desc b' ! i)"
    by (elim exE conjE) (rule that)
  have run: "update_groups (i # is) b = update_groups is b'" by (simp add: b')
  have "length ds = length (bg_desc b)" using ds(2) by (simp add: eq)
  moreover have "ds ! j = (if j \<in> set (i # is)
        then updated_desc (s_uuid (aux_sb b)) j (bgs (aux b) ! j) (bg_desc b ! j) else bg_desc b ! j)"
    if j: "j < length ds" for j
    using ds(3)[rule_format, OF j] ni i(2) by (cases "j = i") (simp_all add: eq)
  ultimately show ?case unfolding run ds(1) by (intro exI [of _ ds]) (simp add: eq add.assoc)
qed

lemma ext4_crc16_one_byte: "p \<noteq> p' \<Longrightarrow> ext4_crc16 c (xs @ p # ys) \<noteq> ext4_crc16 c (xs @ p' # ys)"
  using c16.foldl_tstep_one_byte by (simp only: ext4_crc16_def crc16_step_tstep) blast

text \<open>C35: \<open>ext4_update_free\<close> adds the free blocks and free inodes of all groups to the counts of the
  superblock, records the counts, the directories and the flags of every group in its
  descriptor, and seals the descriptor: its checksum is the CRC-16 of the UUID, the group number
  and the 30 bytes before it.\<close>

theorem ext4_update_free_counts:
  assumes "length (bgs (aux b)) = unat (groups (aux b))" "unat (groups (aux b)) \<le> length (bg_desc b)"
    and "\<forall>d \<in> set (bg_desc b). desc_ok d"
  shows "\<exists>b'. ext4_update_free b = Inr b'
    \<and> s_free_blocks_count_lo (aux_sb b') = s_free_blocks_count_lo (aux_sb b) + sum_list (map free_blocks (bgs (aux b)))
    \<and> s_free_inodes_count (aux_sb b') = s_free_inodes_count (aux_sb b) + sum_list (map free_inodes (bgs (aux b)))
    \<and> (\<forall>i < unat (groups (aux b)). let d = bg_desc b' ! i; bg = bgs (aux b) ! i in
        sealed (s_uuid (aux_sb b')) i d
        \<and> bg_free_blocks_count d = ucast (free_blocks bg) \<and> bg_free_inodes_count d = ucast (free_inodes bg)
        \<and> bg_used_dirs_count d = bg_used_dirs_count (bg_desc b ! i) + used_dirs bg \<and> desc_flags d = bg_flags bg
        \<and> bg_block_bitmap d = bg_block_bitmap (bg_desc b ! i) \<and> bg_inode_bitmap d = bg_inode_bitmap (bg_desc b ! i)
        \<and> bg_inode_table d = bg_inode_table (bg_desc b ! i))"
proof -
  let ?is = "[0..<unat (groups (aux b))]"
  have bounds: "\<forall>i \<in> set ?is. i < length (bgs (aux b)) \<and> i < length (bg_desc b)" "distinct ?is"
    using assms(1,2) by auto
  have sum: "(\<Sum>i\<leftarrow>?is. f (bgs (aux b) ! i)) = sum_list (map f (bgs (aux b)))" for f :: "block_group_info \<Rightarrow> u32"
  proof -
    have "map (\<lambda>i. f (bgs (aux b) ! i)) ?is = map f (map ((!) (bgs (aux b))) [0..<length (bgs (aux b))])"
      by (simp add: assms(1))
    then show ?thesis by (simp only: map_nth)
  qed
  obtain ds where ds: "update_groups ?is b = Inr (b\<lparr>
      aux_sb := (aux_sb b)\<lparr>
        s_free_blocks_count_lo := s_free_blocks_count_lo (aux_sb b) + sum_list (map free_blocks (bgs (aux b))),
        s_free_inodes_count := s_free_inodes_count (aux_sb b) + sum_list (map free_inodes (bgs (aux b)))\<rparr>,
      bg_desc := ds\<rparr>)" "length ds = length (bg_desc b)"
    "\<forall>i < length ds. ds ! i = (if i \<in> set ?is
        then updated_desc (s_uuid (aux_sb b)) i (bgs (aux b) ! i) (bg_desc b ! i) else bg_desc b ! i)"
    using update_groups_eq [OF bounds] unfolding sum by (elim exE conjE) (rule that)
  have d: "ds ! i = updated_desc (s_uuid (aux_sb b)) i (bgs (aux b) ! i) (bg_desc b ! i)"
    "desc_ok (bg_desc b ! i)" if "i < unat (groups (aux b))" for i
    using ds(2,3) assms(2,3) that by auto
  have ok: "desc_ok ((bg_desc b ! i)\<lparr>bg_free_blocks_count := f, bg_free_inodes_count := g,
      bg_used_dirs_count := h, desc_flags := k\<rparr>)" if "i < unat (groups (aux b))" for i f g h k
    using d(2) [OF that] by (simp add: desc_ok_def)
  show ?thesis unfolding ext4_update_free_def ds(1)
    by (auto simp: d(1) updated_desc_def Let_def intro!: sealed_update ok)
qed

definition demo_build :: build where
  "demo_build = \<lparr>aux = demo_aux\<lparr>bgs := [zero_bg\<lparr>free_blocks := 1012, free_inodes := 5\<rparr>]\<rparr>,
     aux_sb = zero_sb\<lparr>s_uuid := replicate 16 7\<rparr>, backup_sb = [None], bg_desc = replicate 32 zero_desc,
     inode_at = (\<lambda>_. zero_inode), inode_tail = (\<lambda>_. replicate 100 0), xattrs = [],
     bufs = empty_heap, regs = empty_heap, img = empty_image 1024\<rparr>"

lemma desc_ok_zero: "desc_ok zero_desc"
  by (simp add: desc_ok_def zero_desc_def)

theorem ext4_update_free_counts_witness:
  "\<exists>b'. ext4_update_free demo_build = Inr b' \<and> s_free_blocks_count_lo (aux_sb b') = 1012
    \<and> sealed (s_uuid (aux_sb b')) 0 (bg_desc b' ! 0)"
proof -
  have "length (bgs (aux demo_build)) = unat (groups (aux demo_build))"
    "unat (groups (aux demo_build)) \<le> length (bg_desc demo_build)" "\<forall>d \<in> set (bg_desc demo_build). desc_ok d"
    by (simp_all add: demo_build_def demo_aux_def desc_ok_zero)
  from ext4_update_free_counts [OF this] show ?thesis
    by (auto simp: Let_def demo_build_def demo_aux_def zero_sb_def zero_bg_def)
qed

text \<open>C36: a sealed group descriptor betrays damage: when one of the 30 bytes in front of the checksum
  is changed, the checksum no longer matches.\<close>

theorem damaged_descriptor_detected:
  assumes "sealed ident i d" "bg_checksum d' = bg_checksum d" "p \<noteq> p'"
    and "take 30 (desc_bytes d) = xs @ p # ys" "take 30 (desc_bytes d') = xs @ p' # ys"
  shows "\<not> sealed ident i d'"
proof -
  have "desc_crc ident (of_nat i) d \<noteq> desc_crc ident (of_nat i) d'"
    unfolding desc_crc_def assms(4,5) by (rule ext4_crc16_one_byte [OF assms(3)])
  then show ?thesis using assms(1,2) by (simp add: sealed_def)
qed

theorem damaged_descriptor_detected_witness:
  "\<not> sealed [] 0 (zero_desc\<lparr>bg_checksum := desc_crc [] (of_nat 0) zero_desc, bg_block_bitmap := 1\<rparr>)"
proof -
  let ?d = "zero_desc\<lparr>bg_checksum := desc_crc [] (of_nat 0) zero_desc\<rparr>"
  let ?d' = "?d\<lparr>bg_block_bitmap := 1\<rparr>"
  have s: "sealed [] 0 ?d" using sealed_update [OF desc_ok_zero, of "[]" 0] by simp
  have b: "take 30 (desc_bytes ?d) = [] @ 0 # replicate 29 0" "take 30 (desc_bytes ?d') = [] @ 1 # replicate 29 0"
    by (simp_all add: desc_bytes_def zero_desc_def le32_def le16_def le32s_def eval_nat_numeral)
  have "\<not> sealed [] 0 ?d'"
    by (rule damaged_descriptor_detected [OF s _ _ b]) (simp_all)
  then show ?thesis by (simp add: zero_desc_def)
qed

section \<open>Reading back what was filled in\<close>

lemma log_2_loop_power: "log_2_loop i (2 ^ k) = i + int k + 1"
proof (induction k arbitrary: i)
  case 0
  then show ?case by (simp add: log_2_loop.simps [of i 1] log_2_loop.simps [of _ 0])
next
  case (Suc k)
  then show ?case by (simp add: log_2_loop.simps [of i "2 * 2 ^ k"])
qed

lemma log_2_power: "log_2 (2 ^ k) = int k"
  by (simp add: log_2_def log_2_loop_power)

lemma unat_of_char: "unat (of_char c :: u8) = of_char c"
proof -
  have "(of_char c :: u8) = of_nat (of_char c)" by (simp only: of_nat_of_char)
  moreover have "(of_char c :: nat) < 256" by (cases c) (simp add: horner_sum_simps of_bool_def)
  ultimately show ?thesis by (simp add: unat_of_nat)
qed

lemma c_string_chars:
  assumes "\<forall>c \<in> set s. of_char c \<noteq> (0 :: nat)"
  shows "c_string (chars s @ 0 # bs) = s" "c_string (chars s) = s"
proof -
  have nz: "(of_char c :: u8) \<noteq> 0" if "c \<in> set s" for c
    using assms that by (metis unat_of_char unat_0)
  have "takeWhile (\<lambda>b. b \<noteq> 0) (chars s @ 0 # bs) = chars s" "takeWhile (\<lambda>b. b \<noteq> 0) (chars s) = chars s"
    using nz by (auto simp: chars_def takeWhile_append takeWhile_eq_all_conv)
  moreover have "map (\<lambda>b. char_of (unat b)) (chars s) = s"
    by (simp add: chars_def unat_of_char comp_def)
  ultimately show "c_string (chars s @ 0 # bs) = s" "c_string (chars s) = s"
    unfolding c_string_def by (simp_all only:)
qed

lemma c_string_strncpy:
  assumes "\<forall>c \<in> set s. of_char c \<noteq> (0 :: nat)" "length s \<le> 16"
  shows "c_string (strncpy 16 s @ replicate 64 0) = s"
proof -
  have "length (chars s) = length s" by (simp add: chars_def)
  then have "strncpy 16 s @ replicate 64 0 = chars s @ replicate (16 - length s + 64) 0"
    using assms(2) unfolding replicate_add by (simp add: strncpy_def)
  also have "\<dots> = chars s @ 0 # replicate (16 - length s + 63) 0"
    by (simp flip: replicate_Suc)
  finally show ?thesis using c_string_chars(1) [OF assms(1)] by simp
qed

lemma halves_64: "push_bit 32 (ucast (ucast (drop_bit 32 w) :: u32)) + ucast (ucast w :: u32) = (w :: u64)"
proof -
  have "push_bit 32 (ucast (ucast (drop_bit 32 w) :: u32)) AND ucast (ucast w :: u32) = (0 :: u64)"
    by (rule bit_word_eqI) (simp add: bit_simps)
  then have "push_bit 32 (ucast (ucast (drop_bit 32 w) :: u32)) + ucast (ucast w :: u32)
      = push_bit 32 (ucast (ucast (drop_bit 32 w) :: u32)) OR (ucast (ucast w :: u32) :: u64)"
    by (rule disjunctive_add_eq_or)
  also have "\<dots> = w" by (rule bit_word_eqI) (auto simp: bit_simps)
  finally show ?thesis .
qed

lemma ucast_up_down: "ucast (ucast (x :: u16) :: u32) = x"
  by (rule bit_word_eqI) (auto simp: bit_simps)

lemma ucast_down_up:
  assumes "unat x < 65536"
  shows "ucast (ucast (x :: u32) :: u16) = x"
proof -
  have "unat (ucast (ucast x :: u16) :: u32) = unat (ucast x :: u16)" by simp
  also have "\<dots> = unat x" using assms by (simp add: unsigned_ucast_eq take_bit_nat_eq_self)
  finally show ?thesis by (simp only: word_unat_eq_iff)
qed

lemma log_block_size:
  assumes "unat (bs :: u32) = 1024 * 2 ^ k" "k \<le> 20"
  shows "word_of_int (log_2 (sint (bs div 1024))) = (of_nat k :: u32)" "push_bit k 1024 = bs"
proof -
  have u: "unat (bs div 1024) = 2 ^ k" using assms(1) by (simp add: unat_div)
  have le: "(2 :: nat) ^ k \<le> 2 ^ 20" using assms(2) by (intro power_increasing) auto
  have "sint (bs div 1024) = int (unat (bs div 1024))"
    by (rule sint_small) (use u le in simp)
  then show "word_of_int (log_2 (sint (bs div 1024))) = (of_nat k :: u32)"
    by (simp add: u log_2_power)
  have "push_bit k (1024 :: u32) = of_nat (2 ^ k * 1024)" by (simp add: push_bit_eq_mult)
  also have "\<dots> = bs" using assms(1) by (metis mult.commute of_nat_unat ucast_id)
  finally show "push_bit k 1024 = bs" .
qed

lemma sb_ok_fill: "sb_ok s \<Longrightarrow> length (uuid info) = 16 \<Longrightarrow> sb_ok (fill_sb info a name s)"
  by (simp add: sb_ok_def fill_sb_def Let_def strncpy_def chars_def)

lemma write_read_sb:
  assumes "sb_ok s" "2048 \<le> fd_room fd"
  shows "\<exists>fd1 fd2. write_sb fd 1024 s = Inr fd1 \<and> read_sb fd1 = Inr (s, fd2)"
proof -
  have n: "length (sb_bytes s) = 1024" by (rule length_sb_bytes [OF assms(1)])
  then have ne: "sb_bytes s \<noteq> []" by auto
  define pre where "pre = take 1024 (fd_bytes fd @ replicate (1024 - length (fd_bytes fd)) 0)"
  have p: "length pre = 1024" by (simp add: pre_def)
  have room: "take (min (fd_room fd - 1024) MAX_RW_COUNT) (sb_bytes s) = sb_bytes s" using assms(2) n by simp
  have off: "sint (1024 :: u64) = 1024" by simp
  have put: "put_bytes (fd_bytes fd) 1024 (sb_bytes s) = pre @ sb_bytes s @ drop 2048 (fd_bytes fd)"
    using ne n by (simp add: put_bytes_def pre_def)
  have "write_sb fd 1024 s = Inr (fd\<lparr>fd_pos := 2048, fd_bytes := pre @ sb_bytes s @ drop 2048 (fd_bytes fd)\<rparr>)"
    unfolding write_sb_def off by (simp add: write_whole_def room put n)
  moreover have "read_sb (fd\<lparr>fd_pos := 2048, fd_bytes := pre @ sb_bytes s @ drop 2048 (fd_bytes fd)\<rparr>)
      = Inr (s, fd\<lparr>fd_pos := 2048, fd_bytes := pre @ sb_bytes s @ drop 2048 (fd_bytes fd)\<rparr>)"
    using p n sb_of_sb_bytes [OF assms(1), of "[]"] by (simp add: read_sb_def)
  ultimately show ?thesis by blast
qed

text \<open>C37: a superblock filled in for a file system with a block size of 1 KiB to 1 GiB, written at offset
  1024 of a file and read back from there, parses to the parameters it was filled in from; the
  length is the number of whole blocks and the inode count that of all groups.\<close>

theorem superblock_round_trip:
  assumes "unat (block_size info) = 1024 * 2 ^ k" "k \<le> 20" "unat (inode_size info) < 65536"
    and "unat (bg_desc_reserve_blocks info) < 65536" "length (uuid info) = 16" "label info = Some name"
    and "\<forall>c \<in> set name. of_char c \<noteq> (0 :: nat)" "length name \<le> 16" "sb_ok s0" "2048 \<le> fd_room fd"
  shows "\<exists>fd1 fd2. write_sb fd 1024 (fill_sb info a name s0) = Inr fd1
    \<and> read_sb fd1 = Inr (fill_sb info a name s0, fd2)
    \<and> ext4_parse_sb (fill_sb info a name s0) info0 = Inr (0, info0\<lparr>
        len := ucast (block_size info) * len_blocks a, inodes := inodes_per_group info * groups a,
        block_size := block_size info, blocks_per_group := blocks_per_group info,
        inodes_per_group := inodes_per_group info, inode_size := inode_size info,
        feat_ro_compat := feat_ro_compat info, feat_compat := feat_compat info,
        feat_incompat := feat_incompat info, bg_desc_reserve_blocks := bg_desc_reserve_blocks info,
        label := label info, uuid := uuid info\<rparr>)"
proof -
  let ?s = "fill_sb info a name s0"
  have k: "s_log_block_size ?s = of_nat k" "unat (of_nat k :: u32) = k" "\<not> (of_nat k :: u32) > 20"
    using log_block_size(1) [OF assms(1,2)] assms(2)
    by (simp_all add: fill_sb_def Let_def unat_of_nat word_less_nat_alt)
  have f: "s_magic ?s = EXT4_SUPER_MAGIC" "s_state ?s = EXT4_VALID_FS"
    "s_volume_name ?s = strncpy 16 name" "s_last_mounted ?s = replicate 64 0"
    "s_blocks_count_hi ?s = ucast (drop_bit 32 (len_blocks a))" "s_blocks_count_lo ?s = ucast (len_blocks a)"
    "s_blocks_per_group ?s = blocks_per_group info" "s_inodes_per_group ?s = inodes_per_group info"
    "s_inode_size ?s = ucast (inode_size info)" "s_inodes_count ?s = inodes_per_group info * groups a"
    "s_feature_compat ?s = ucast (feat_compat info)" "s_feature_incompat ?s = ucast (feat_incompat info)"
    "s_feature_ro_compat ?s = ucast (feat_ro_compat info)" "s_uuid ?s = uuid info"
    "s_reserved_gdt_blocks ?s = ucast (bg_desc_reserve_blocks info)"
    by (simp_all add: fill_sb_def Let_def)
  obtain fd1 fd2 where "write_sb fd 1024 ?s = Inr fd1" "read_sb fd1 = Inr (?s, fd2)"
    using write_read_sb [OF sb_ok_fill [OF assms(9,5)] assms(10)] by blast
  moreover have "ext4_parse_sb ?s info0 = Inr (0, info0\<lparr>
        len := ucast (block_size info) * len_blocks a, inodes := inodes_per_group info * groups a,
        block_size := block_size info, blocks_per_group := blocks_per_group info,
        inodes_per_group := inodes_per_group info, inode_size := inode_size info,
        feat_ro_compat := feat_ro_compat info, feat_compat := feat_compat info,
        feat_incompat := feat_incompat info, bg_desc_reserve_blocks := bg_desc_reserve_blocks info,
        label := label info, uuid := uuid info\<rparr>)"
    unfolding ext4_parse_sb_def f k(1,2) if_not_P [OF k(3)] log_block_size(2) [OF assms(1,2)] halves_64
      c_string_strncpy [OF assms(7,8)] ucast_down_up [OF assms(3)] ucast_down_up [OF assms(4)] ucast_up_down
    by (simp add: assms(6) Let_def)
  ultimately show ?thesis by blast
qed

theorem superblock_round_trip_witness:
  "\<exists>fd1 fd2 s. write_sb \<lparr>fd_bytes = [], fd_pos = 0, fd_room = 4096\<rparr> 1024 s = Inr fd1
    \<and> read_sb fd1 = Inr (s, fd2)
    \<and> ext4_parse_sb s sample_info = Inr (0, sample_info\<lparr>
        len := 1048576, inodes := 16, block_size := 1024, blocks_per_group := 8192,
        inodes_per_group := 16, inode_size := 256, feat_ro_compat := 1, feat_compat := 0,
        feat_incompat := 0x42, bg_desc_reserve_blocks := 3, label := Some ''demo'', uuid := replicate 16 7\<rparr>)"
proof -
  let ?info = "demo_info\<lparr>label := Some ''demo'', uuid := replicate 16 7\<rparr>"
  have "\<exists>fd1 fd2. write_sb \<lparr>fd_bytes = [], fd_pos = 0, fd_room = 4096\<rparr> 1024 (fill_sb ?info demo_aux ''demo'' zero_sb) = Inr fd1
    \<and> read_sb fd1 = Inr (fill_sb ?info demo_aux ''demo'' zero_sb, fd2)
    \<and> ext4_parse_sb (fill_sb ?info demo_aux ''demo'' zero_sb) sample_info = Inr (0, sample_info\<lparr>
        len := ucast (block_size ?info) * len_blocks demo_aux, inodes := inodes_per_group ?info * groups demo_aux,
        block_size := block_size ?info, blocks_per_group := blocks_per_group ?info,
        inodes_per_group := inodes_per_group ?info, inode_size := inode_size ?info,
        feat_ro_compat := feat_ro_compat ?info, feat_compat := feat_compat ?info,
        feat_incompat := feat_incompat ?info, bg_desc_reserve_blocks := bg_desc_reserve_blocks ?info,
        label := label ?info, uuid := uuid ?info\<rparr>)"
    by (rule superblock_round_trip [of _ 0]) (simp_all add: demo_info_def sb_ok_def zero_sb_def)
  then show ?thesis by (simp add: demo_info_def demo_aux_def) blast
qed

section \<open>Filling in\<close>

lemma add_data_adds:
  assumes "queue_repr (img b) xs" "block \<notin> fst ` set xs"
  shows "\<exists>q ys. add_data b p n block = Inr (b\<lparr>img := q\<rparr>) \<and> queue_repr q ys
    \<and> set ys = insert (block, n, BACKED_BLOCK_DATA p) (set xs)"
proof -
  let ?s = "(block, n, BACKED_BLOCK_DATA p) :: seg"
  have "add_piece (img b) ?s = rbind (sparse_file_add_data (img b) p n block) (\<lambda>(_, q). Inr q)"
    by (cases "img b") (auto simp: add_piece_def sparse_file_add_data_def rbind_def split: sum.splits)
  moreover obtain q ys where "add_piece (img b) ?s = Inr q" "queue_repr q ys" "set ys = insert ?s (set xs)"
    using add_piece_adds [of "img b" xs ?s] assms by (auto simp: from_memory_or_file_def)
  ultimately show ?thesis
    by (cases "sparse_file_add_data (img b) p n block") (auto simp: add_data_def)
qed

text \<open>The pieces that \<open>ext4_fill_in_sb\<close> queues for group \<open>i\<close>, and the descriptor of that group.\<close>

definition group_start :: "fs_info \<Rightarrow> fs_aux_info \<Rightarrow> nat \<Rightarrow> u32" where
  "group_start info a i = first_data_block a + of_nat i * blocks_per_group info"

definition sb_pieces :: "fs_info \<Rightarrow> fs_aux_info \<Rightarrow> nat \<Rightarrow> seg list" where
  "sb_pieces info a i =
     (if ext4_bg_has_super_block info (of_nat i) = Inr True then
        (if i \<noteq> 0 then [(group_start info a i, block_size info, BACKED_BLOCK_DATA (Backup_Sb i, 0))] else [])
        @ [(group_start info a i + 1, bg_desc_blocks a * block_size info, BACKED_BLOCK_DATA (Bg_Desc, 0))]
      else [])"

definition filled_desc ::
  "fs_info \<Rightarrow> fs_aux_info \<Rightarrow> ext4_super_block \<Rightarrow> nat \<Rightarrow> ext2_group_desc \<Rightarrow> ext2_group_desc" where
  "filled_desc info a s i d =
     (let header = group_start info a i + (if ext4_bg_has_super_block info (of_nat i) = Inr True
                     then 1 + bg_desc_blocks a + bg_desc_reserve_blocks info else 0) in
      d\<lparr>bg_block_bitmap := header, bg_inode_bitmap := header + 1, bg_inode_table := header + 2,
        bg_free_blocks_count := ucast (s_blocks_per_group s),
        bg_free_inodes_count := ucast (s_inodes_per_group s), bg_used_dirs_count := 0\<rparr>)"

definition filled_backup :: "fs_info \<Rightarrow> ext4_super_block \<Rightarrow> nat \<Rightarrow> ext4_super_block option list \<Rightarrow>
    ext4_super_block option list" where
  "filled_backup info s i copies =
     (if ext4_bg_has_super_block info (of_nat i) = Inr True \<and> i \<noteq> 0
      then copies[i := Some (s\<lparr>s_block_group_nr := of_nat i\<rparr>)] else copies)"

lemma fill_group_eq:
  assumes has: "ext4_bg_has_super_block info (of_nat i) = Inr has"
    and i: "i < length (backup_sb b)" "i < length (bg_desc b)"
    and q: "queue_repr (img b) xs" and new: "fst ` set (sb_pieces info (aux b) i) \<inter> fst ` set xs = {}"
  shows "\<exists>q ys. fill_group info b i = Inr (b\<lparr>img := q,
      backup_sb := filled_backup info (aux_sb b) i (backup_sb b),
      bg_desc := (bg_desc b)[i := filled_desc info (aux b) (aux_sb b) i (bg_desc b ! i)]\<rparr>)
    \<and> queue_repr q ys \<and> set ys = set xs \<union> set (sb_pieces info (aux b) i)"
proof (cases has)
  case False
  then show ?thesis using has i q
    by (intro exI [of _ "img b"] exI [of _ xs])
      (simp add: fill_group_def sb_pieces_def filled_desc_def filled_backup_def group_start_def Let_def)
next
  case True
  have h: "ext4_bg_has_super_block info (of_nat i) = Inr True" using has True by simp
  let ?st = "group_start info (aux b) i"
  define b1 where "b1 = (if i \<noteq> 0 then b\<lparr>backup_sb := (backup_sb b)[i := Some (aux_sb b\<lparr>s_block_group_nr := of_nat i\<rparr>)]\<rparr> else b)"
  have b1: "aux b1 = aux b" "aux_sb b1 = aux_sb b" "bg_desc b1 = bg_desc b" "img b1 = img b"
    "backup_sb b1 = filled_backup info (aux_sb b) i (backup_sb b)"
    by (simp_all add: b1_def filled_backup_def h)
  have "\<exists>q1 ys1. (if i \<noteq> 0 then add_data b1 (Backup_Sb i, 0) (block_size info) ?st else Inr b1) = Inr (b1\<lparr>img := q1\<rparr>)
    \<and> queue_repr q1 ys1 \<and> set ys1 = set xs \<union> (if i \<noteq> 0 then {(?st, block_size info, BACKED_BLOCK_DATA (Backup_Sb i, 0))} else {})"
  proof (cases "i = 0")
    case True
    then show ?thesis using q b1(4) by (intro exI [of _ "img b"] exI [of _ xs]) simp
  next
    case False
    have "?st \<notin> fst ` set xs" using new False by (auto simp: sb_pieces_def h)
    from add_data_adds [OF q [folded b1(4)] this, of "(Backup_Sb i, 0)" "block_size info"] False
    show ?thesis by auto
  qed
  then obtain q1 ys1 where q1: "(if i \<noteq> 0 then add_data b1 (Backup_Sb i, 0) (block_size info) ?st else Inr b1) = Inr (b1\<lparr>img := q1\<rparr>)"
    "queue_repr q1 ys1" "set ys1 = set xs \<union> (if i \<noteq> 0 then {(?st, block_size info, BACKED_BLOCK_DATA (Backup_Sb i, 0))} else {})"
    by blast
  define b2 where "b2 = b1\<lparr>img := q1\<rparr>"
  have n2: "?st + 1 \<notin> fst ` set ys1" using new by (auto simp: sb_pieces_def h q1(3) split: if_splits)
  have q2: "queue_repr (img b2) ys1" using q1(2) by (simp add: b2_def)
  obtain q ys where q': "add_data b2 (Bg_Desc, 0) (bg_desc_blocks (aux b) * block_size info) (?st + 1) = Inr (b2\<lparr>img := q\<rparr>)"
    "queue_repr q ys" "set ys = insert (?st + 1, bg_desc_blocks (aux b) * block_size info, BACKED_BLOCK_DATA (Bg_Desc, 0)) (set ys1)"
    using add_data_adds [OF q2 n2] by blast
  have s1: "(if i \<noteq> 0 then rbind (wr (backup_sb b) i (Some (aux_sb b\<lparr>s_block_group_nr := of_nat i\<rparr>))) (\<lambda>copies.
          add_data (b\<lparr>backup_sb := copies\<rparr>) (Backup_Sb i, 0) (block_size info) ?st) else Inr b) = Inr b2"
    using q1(1) i(1) by (auto simp: b1_def b2_def split: if_splits)
  have "aux b2 = aux b" "aux_sb b2 = aux_sb b" "bg_desc b2 = bg_desc b" using b1 by (simp_all add: b2_def)
  then have run: "fill_group info b i = Inr (b2\<lparr>img := q,
      bg_desc := (bg_desc b)[i := filled_desc info (aux b) (aux_sb b) i (bg_desc b ! i)]\<rparr>)"
    unfolding fill_group_def Let_def h rbind_Inr if_True s1 [unfolded group_start_def]
    using q'(1) i(2) by (simp add: group_start_def filled_desc_def h Let_def)
  have eq: "b2\<lparr>img := q, bg_desc := D\<rparr> = b\<lparr>img := q,
      backup_sb := filled_backup info (aux_sb b) i (backup_sb b), bg_desc := D\<rparr>" for D
    using b1(5) by (simp add: b2_def b1_def)
  have "set ys = set xs \<union> set (sb_pieces info (aux b) i)"
    by (auto simp: q'(3) q1(3) sb_pieces_def h)
  then show ?thesis unfolding run eq using q'(2) by blast
qed

lemma filled_backup_other:
  assumes "j \<noteq> i"
  shows "filled_backup info s i cs ! j = cs ! j"
    "filled_backup info s j (filled_backup info s i cs) ! j = filled_backup info s j cs ! j"
proof -
  show "filled_backup info s i cs ! j = cs ! j" using assms by (simp add: filled_backup_def)
  show "filled_backup info s j (filled_backup info s i cs) ! j = filled_backup info s j cs ! j"
    using assms unfolding filled_backup_def
    by (cases "j < length cs") (simp_all add: nth_list_update list_update_beyond)
qed

lemma fill_groups_eq:
  assumes "\<forall>i \<in> set is. i < length (backup_sb b) \<and> i < length (bg_desc b) \<and> i < 2 ^ 31" "distinct is"
    and "queue_repr (img b) xs" "distinct (map fst (concat (map (sb_pieces info (aux b)) is)))"
    and "\<forall>i \<in> set is. fst ` set (sb_pieces info (aux b) i) \<inter> fst ` set xs = {}"
  shows "\<exists>q ys copies ds. fill_groups info is b = Inr (b\<lparr>img := q, backup_sb := copies, bg_desc := ds\<rparr>)
    \<and> queue_repr q ys \<and> set ys = set xs \<union> (\<Union>i \<in> set is. set (sb_pieces info (aux b) i))
    \<and> length copies = length (backup_sb b) \<and> length ds = length (bg_desc b)
    \<and> (\<forall>j < length copies. copies ! j = (if j \<in> set is then filled_backup info (aux_sb b) j (backup_sb b) ! j else backup_sb b ! j))
    \<and> (\<forall>j < length ds. ds ! j = (if j \<in> set is then filled_desc info (aux b) (aux_sb b) j (bg_desc b ! j) else bg_desc b ! j))"
  using assms
proof (induction "is" arbitrary: b xs)
  case Nil
  then show ?case by (intro exI [of _ "img b"] exI [of _ xs] exI [of _ "backup_sb b"] exI [of _ "bg_desc b"]) simp
next
  case (Cons i "is")
  have i: "i < length (backup_sb b)" "i < length (bg_desc b)" "i < 2 ^ 31" and ni: "i \<notin> set is"
    using Cons.prems(1,2) by auto
  have "unat (of_nat i :: u32) < 2 ^ 31" using i(3) by (simp add: unat_of_nat)
  from has_super_block_spec [OF this] obtain has where has: "ext4_bg_has_super_block info (of_nat i) = Inr has" by blast
  have new: "fst ` set (sb_pieces info (aux b) i) \<inter> fst ` set xs = {}" using Cons.prems(5) by simp
  obtain q ys where q: "fill_group info b i = Inr (b\<lparr>img := q,
      backup_sb := filled_backup info (aux_sb b) i (backup_sb b),
      bg_desc := (bg_desc b)[i := filled_desc info (aux b) (aux_sb b) i (bg_desc b ! i)]\<rparr>)"
    "queue_repr q ys" "set ys = set xs \<union> set (sb_pieces info (aux b) i)"
    using fill_group_eq [OF has i(1,2) Cons.prems(3) new] by blast
  define b' where "b' = b\<lparr>img := q, backup_sb := filled_backup info (aux_sb b) i (backup_sb b),
      bg_desc := (bg_desc b)[i := filled_desc info (aux b) (aux_sb b) i (bg_desc b ! i)]\<rparr>"
  have e: "aux b' = aux b" "aux_sb b' = aux_sb b" "img b' = q"
    "length (backup_sb b') = length (backup_sb b)" "length (bg_desc b') = length (bg_desc b)"
    by (simp_all add: b'_def filled_backup_def)
  have cp: "backup_sb b' ! j = backup_sb b ! j" "filled_backup info (aux_sb b) j (backup_sb b') ! j = filled_backup info (aux_sb b) j (backup_sb b) ! j"
    "bg_desc b' ! j = bg_desc b ! j" if "j \<noteq> i" for j
    using that by (simp_all add: b'_def filled_backup_other)
  have ci: "backup_sb b' ! i = filled_backup info (aux_sb b) i (backup_sb b) ! i"
    "bg_desc b' ! i = filled_desc info (aux b) (aux_sb b) i (bg_desc b ! i)"
    using i(2) by (simp_all add: b'_def)
  have apart: "fst ` set (sb_pieces info (aux b) j) \<inter> fst ` set ys = {}" if "j \<in> set is" for j
  proof -
    have "fst ` set (sb_pieces info (aux b) j) \<inter> fst ` set xs = {}" using Cons.prems(5) that by simp
    moreover have "fst ` set (sb_pieces info (aux b) i) \<inter> fst ` (\<Union>j \<in> set is. set (sb_pieces info (aux b) j)) = {}"
      using Cons.prems(4) by simp
    then have "fst ` set (sb_pieces info (aux b) j) \<inter> fst ` set (sb_pieces info (aux b) i) = {}" using that by blast
    ultimately show ?thesis unfolding q(3) image_Un by blast
  qed
  have hyps: "\<forall>i \<in> set is. i < length (backup_sb b') \<and> i < length (bg_desc b') \<and> i < 2 ^ 31" "distinct is"
    "queue_repr (img b') ys" "distinct (map fst (concat (map (sb_pieces info (aux b')) is)))"
    "\<forall>i \<in> set is. fst ` set (sb_pieces info (aux b') i) \<inter> fst ` set ys = {}"
    unfolding e using Cons.prems(1,2,4) q(2) apart by simp_all
  obtain q' zs copies ds where r: "fill_groups info is b' = Inr (b'\<lparr>img := q', backup_sb := copies, bg_desc := ds\<rparr>)"
    "queue_repr q' zs" "set zs = set ys \<union> (\<Union>i \<in> set is. set (sb_pieces info (aux b') i))"
    "length copies = length (backup_sb b')" "length ds = length (bg_desc b')"
    "\<forall>j < length copies. copies ! j = (if j \<in> set is then filled_backup info (aux_sb b') j (backup_sb b') ! j else backup_sb b' ! j)"
    "\<forall>j < length ds. ds ! j = (if j \<in> set is then filled_desc info (aux b') (aux_sb b') j (bg_desc b' ! j) else bg_desc b' ! j)"
    using Cons.IH [OF hyps] by (elim exE conjE) (rule that)
  have run: "fill_groups info (i # is) b = Inr (b\<lparr>img := q', backup_sb := copies, bg_desc := ds\<rparr>)"
    using q(1) r(1) by (simp add: b'_def)
  have cs: "\<forall>j < length copies. copies ! j = (if j \<in> set (i # is) then filled_backup info (aux_sb b) j (backup_sb b) ! j else backup_sb b ! j)"
  proof (intro allI impI)
    fix j assume "j < length copies"
    then show "copies ! j = (if j \<in> set (i # is) then filled_backup info (aux_sb b) j (backup_sb b) ! j else backup_sb b ! j)"
      using r(6) ni ci(1) cp(1,2) [of j] by (cases "j = i") (simp_all add: e)
  qed
  have dd: "\<forall>j < length ds. ds ! j = (if j \<in> set (i # is) then filled_desc info (aux b) (aux_sb b) j (bg_desc b ! j) else bg_desc b ! j)"
  proof (intro allI impI)
    fix j assume "j < length ds"
    then show "ds ! j = (if j \<in> set (i # is) then filled_desc info (aux b) (aux_sb b) j (bg_desc b ! j) else bg_desc b ! j)"
      using r(7) ni ci(2) cp(3) [of j] by (cases "j = i") (simp_all add: e)
  qed
  have zs: "set zs = set xs \<union> (\<Union>i \<in> set (i # is). set (sb_pieces info (aux b) i))"
    by (simp add: r(3) q(3) e Un_assoc)
  show ?case
    by (intro exI conjI, rule run, rule r(2), rule zs, simp_all only: r(4,5) e)
      (rule cs [unfolded r(4) e], rule dd [unfolded r(5) e])
qed

text \<open>The first blocks of these pieces increase from group to group.\<close>

lemma sb_pieces_sorted:
  assumes "unat (first_data_block a) + n * unat (blocks_per_group info) < 2 ^ 32" "2 \<le> unat (blocks_per_group info)"
  shows "sorted_wrt (<) (map (unat \<circ> fst) (concat (map (sb_pieces info a) [0..<n])))
    \<and> (\<forall>x \<in> set (concat (map (sb_pieces info a) [0..<n])).
        unat (fst x) < unat (first_data_block a) + n * unat (blocks_per_group info))"
  using assms(1)
proof (induction n)
  case 0
  then show ?case by simp
next
  case (Suc n)
  let ?f = "unat (first_data_block a)" and ?B = "unat (blocks_per_group info)"
  have lt: "?f + n * ?B + ?B < 2 ^ 32" using Suc.prems by (simp add: add.commute)
  then have fit: "?f + n * ?B < 2 ^ 32" by simp
  have st: "group_start info a n = of_nat (?f + n * ?B)" by (simp add: group_start_def)
  have small: "unat (of_nat m :: u32) = m" if "m < 2 ^ 32" for m using that by (simp add: unat_of_nat)
  have st1: "group_start info a n + 1 = of_nat (?f + n * ?B + 1)" by (simp add: st)
  have u: "unat (group_start info a n) = ?f + n * ?B" "unat (group_start info a n + 1) = ?f + n * ?B + 1"
    unfolding st1 unfolding st using lt assms(2) by (auto intro!: small simp del: of_nat_add of_nat_mult of_nat_Suc)
  have new: "unat (fst x) \<in> {?f + n * ?B, ?f + n * ?B + 1}" if "x \<in> set (sb_pieces info a n)" for x
    using that u by (auto simp: sb_pieces_def split: if_splits)
  have sorted: "sorted_wrt (<) (map (unat \<circ> fst) (sb_pieces info a n))"
    by (auto simp: sb_pieces_def u)
  note IH = Suc.IH [OF fit]
  show ?case
  proof
    show "sorted_wrt (<) (map (unat \<circ> fst) (concat (map (sb_pieces info a) [0..<Suc n])))"
    proof -
      have "x < y" if "x \<in> set (map (unat \<circ> fst) (concat (map (sb_pieces info a) [0..<n])))"
        "y \<in> set (map (unat \<circ> fst) (sb_pieces info a n))" for x y
      proof -
        have "x < ?f + n * ?B" using conjunct2 [OF IH] that(1) unfolding set_map image_iff comp_def by blast
        moreover have "?f + n * ?B \<le> y" using new that(2) by fastforce
        ultimately show ?thesis by simp
      qed
      then have "sorted_wrt (<) (map (unat \<circ> fst) (concat (map (sb_pieces info a) [0..<n])) @ map (unat \<circ> fst) (sb_pieces info a n))"
        unfolding sorted_wrt_append using IH sorted by blast
      then show ?thesis by simp
    qed
    show "\<forall>x \<in> set (concat (map (sb_pieces info a) [0..<Suc n])). unat (fst x) < ?f + Suc n * ?B"
    proof
      fix x assume "x \<in> set (concat (map (sb_pieces info a) [0..<Suc n]))"
      then consider "x \<in> set (concat (map (sb_pieces info a) [0..<n]))" | "x \<in> set (sb_pieces info a n)" by auto
      then show "unat (fst x) < ?f + Suc n * ?B"
      proof cases
        case 1
        then have "unat (fst x) < ?f + n * ?B" using IH by blast
        then show ?thesis by simp
      next
        case 2
        then show ?thesis using new [OF 2] assms(2) by auto
      qed
    qed
  qed
qed

lemma distinct_sb_pieces:
  assumes "unat (first_data_block a) + n * unat (blocks_per_group info) < 2 ^ 32" "2 \<le> unat (blocks_per_group info)"
  shows "distinct (map fst (concat (map (sb_pieces info a) [0..<n])))"
proof -
  have "distinct (map (unat \<circ> fst) (concat (map (sb_pieces info a) [0..<n])))"
    using sb_pieces_sorted [OF assms] strict_sorted_iff by blast
  then show ?thesis by (metis distinct_map map_map)
qed

text \<open>C38: \<open>ext4_fill_in_sb\<close> queues the descriptor table behind every superblock copy, and a copy of the
  superblock that carries its group number at the start of every other group that keeps one; the
  descriptor of every group points to the block bitmap, the inode bitmap and the inode table that
  follow the group's header. Nothing else is queued, and the queueing cannot collide.\<close>

theorem ext4_fill_in_sb_groups:
  assumes "label info = Some name" "1024 \<le> block_size info" "queue_repr (img b) xs"
    and "length (backup_sb b) = G" "G \<le> length (bg_desc b)" "G = unat (groups (aux b))" "G < 2 ^ 31"
    and "unat (first_data_block (aux b)) + G * unat (blocks_per_group info) < 2 ^ 32"
    and "2 \<le> unat (blocks_per_group info)"
    and "\<forall>i < G. fst ` set (sb_pieces info (aux b) i) \<inter> fst ` set xs = {}"
  shows "\<exists>b' ys. ext4_fill_in_sb info b = Inr b' \<and> aux_sb b' = fill_sb info (aux b) name (aux_sb b)
    \<and> queue_repr (img b') ys \<and> set ys = set xs \<union> (\<Union>i < G. set (sb_pieces info (aux b) i))
    \<and> (\<forall>i < G. backup_sb b' ! i =
          (if ext4_bg_has_super_block info (of_nat i) = Inr True \<and> i \<noteq> 0
           then Some (aux_sb b'\<lparr>s_block_group_nr := of_nat i\<rparr>) else backup_sb b ! i))
    \<and> (\<forall>i < G. bg_desc b' ! i = filled_desc info (aux b) (aux_sb b') i (bg_desc b ! i))"
proof -
  define c where "c = b\<lparr>aux_sb := fill_sb info (aux b) name (aux_sb b)\<rparr>"
  have e: "aux c = aux b" "img c = img b" "backup_sb c = backup_sb b" "bg_desc c = bg_desc b"
    "aux_sb c = fill_sb info (aux b) name (aux_sb b)" by (simp_all add: c_def)
  have hyps: "\<forall>i \<in> set [0..<G]. i < length (backup_sb c) \<and> i < length (bg_desc c) \<and> i < 2 ^ 31" "distinct [0..<G]"
    "queue_repr (img c) xs" "distinct (map fst (concat (map (sb_pieces info (aux c)) [0..<G])))"
    "\<forall>i \<in> set [0..<G]. fst ` set (sb_pieces info (aux c) i) \<inter> fst ` set xs = {}"
    unfolding e using assms(3-5,7,10) distinct_sb_pieces [OF assms(8,9)] by simp_all
  obtain q ys copies ds where r: "fill_groups info [0..<G] c = Inr (c\<lparr>img := q, backup_sb := copies, bg_desc := ds\<rparr>)"
    "queue_repr q ys" "set ys = set xs \<union> (\<Union>i \<in> set [0..<G]. set (sb_pieces info (aux c) i))"
    "length copies = length (backup_sb c)" "length ds = length (bg_desc c)"
    "\<forall>j < length copies. copies ! j = (if j \<in> set [0..<G] then filled_backup info (aux_sb c) j (backup_sb c) ! j else backup_sb c ! j)"
    "\<forall>j < length ds. ds ! j = (if j \<in> set [0..<G] then filled_desc info (aux c) (aux_sb c) j (bg_desc c ! j) else bg_desc c ! j)"
    using fill_groups_eq [OF hyps] by (elim exE conjE) (rule that)
  have "\<not> block_size info < 1024" using assms(2) by simp
  then have run: "ext4_fill_in_sb info b = Inr (c\<lparr>img := q, backup_sb := copies, bg_desc := ds\<rparr>)"
    unfolding ext4_fill_in_sb_def assms(1) using r(1) by (simp add: c_def assms(6))
  have cs: "\<forall>i < G. copies ! i = (if ext4_bg_has_super_block info (of_nat i) = Inr True \<and> i \<noteq> 0
           then Some (aux_sb c\<lparr>s_block_group_nr := of_nat i\<rparr>) else backup_sb b ! i)"
    using r(4,6) assms(4) by (simp add: e filled_backup_def)
  have dd: "\<forall>i < G. ds ! i = filled_desc info (aux b) (aux_sb c) i (bg_desc b ! i)"
    using r(5,7) assms(5) by (simp add: e)
  have zs: "set ys = set xs \<union> (\<Union>i < G. set (sb_pieces info (aux b) i))"
    using r(3) by (simp add: e atLeast0LessThan)
  define b' where "b' = c\<lparr>img := q, backup_sb := copies, bg_desc := ds\<rparr>"
  have f: "aux_sb b' = aux_sb c" "img b' = q" "backup_sb b' = copies" "bg_desc b' = ds" by (simp_all add: b'_def)
  show ?thesis
    by (intro exI [of _ b'] exI [of _ ys] conjI; (unfold f)?)
      (rule run [folded b'_def] e(5) r(2) zs cs dd)+
qed

lemma has_super_block_0: "ext4_bg_has_super_block info 0 = Inr True"
  by (simp add: ext4_bg_has_super_block_def)

theorem ext4_fill_in_sb_groups_witness:
  "\<exists>b' ys. ext4_fill_in_sb (demo_info\<lparr>label := Some []\<rparr>) demo_build = Inr b'
    \<and> queue_repr (img b') ys \<and> set ys = {(2, 1024, BACKED_BLOCK_DATA (Bg_Desc, 0))}
    \<and> bg_block_bitmap (bg_desc b' ! 0) = 6"
proof -
  let ?info = "demo_info\<lparr>label := Some []\<rparr>"
  have q: "queue_repr (img demo_build) []"
    by (simp add: demo_build_def empty_image_def queue_repr_new mem_ok_def)
  have "label ?info = Some []" "1024 \<le> block_size ?info"
    "length (backup_sb demo_build) = 1" "1 \<le> length (bg_desc demo_build)"
    "1 = unat (groups (aux demo_build))" "1 < (2 :: nat) ^ 31"
    "unat (first_data_block (aux demo_build)) + 1 * unat (blocks_per_group ?info) < 2 ^ 32"
    "2 \<le> unat (blocks_per_group ?info)"
    "\<forall>i < 1. fst ` set (sb_pieces ?info (aux demo_build) i) \<inter> fst ` set ([] :: seg list) = {}"
    by (simp_all add: demo_info_def demo_build_def demo_aux_def)
  from ext4_fill_in_sb_groups [OF this(1,2) q this(3-)]
  obtain b' ys where r: "ext4_fill_in_sb ?info demo_build = Inr b'" "queue_repr (img b') ys"
    "set ys = set [] \<union> (\<Union>i < 1. set (sb_pieces ?info (aux demo_build) i))"
    "\<forall>i < 1. bg_desc b' ! i = filled_desc ?info (aux demo_build) (aux_sb b') i (bg_desc demo_build ! i)"
    by (elim exE conjE) (rule that)
  have "set ys = {(2, 1024, BACKED_BLOCK_DATA (Bg_Desc, 0))}"
    using r(3) by (simp add: sb_pieces_def has_super_block_0 group_start_def lessThan_Suc)
      (simp add: demo_info_def demo_build_def demo_aux_def)
  moreover have "bg_block_bitmap (bg_desc b' ! 0) = 6"
    using r(4) by (simp add: filled_desc_def has_super_block_0 group_start_def)
      (simp add: demo_info_def demo_build_def demo_aux_def)
  ultimately show ?thesis using r(1,2) by blast
qed

end
