(* ===== verification/Extents.thy ===== *)
theory Extents
  imports Superblock
begin

text \<open>
  \<^verbatim>\<open>src/extent.c\<close>: giving an inode its blocks as extents, with the data behind them in a buffer or
  in a file on disk, and the journal inode that \<^verbatim>\<open>src/ext4_utils.c\<close> builds on it. Extents are
  written as words of \<open>i_block\<close> or as bytes of a block of their own.
\<close>

section \<open>Words and buffers\<close>

abbreviation EXT4_EXT_MAGIC :: u16 where "EXT4_EXT_MAGIC \<equiv> 0xF30A"
abbreviation EXT4_EXTENTS_FL :: u32 where "EXT4_EXTENTS_FL \<equiv> 0x00080000"

definition pair16 :: "u16 \<Rightarrow> u16 \<Rightarrow> u32" where
  "pair16 lo hi = ucast lo OR push_bit 16 (ucast hi)"

record ext4_extent =
  ee_block :: u32
  ee_len :: u16
  ee_start_hi :: u16
  ee_start_lo :: u32

record ext4_extent_idx =
  ei_block :: u32
  ei_leaf_lo :: u32
  ei_leaf_hi :: u16
  ei_unused :: u16

record ext4_extent_header =
  eh_magic :: u16
  eh_entries :: u16
  eh_max :: u16
  eh_depth :: u16
  eh_generation :: u32

definition extent_words :: "ext4_extent \<Rightarrow> u32 list" where
  "extent_words e = [ee_block e, pair16 (ee_len e) (ee_start_hi e), ee_start_lo e]"

definition idx_words :: "ext4_extent_idx \<Rightarrow> u32 list" where
  "idx_words x = [ei_block x, ei_leaf_lo x, pair16 (ei_leaf_hi x) (ei_unused x)]"

definition header_words :: "ext4_extent_header \<Rightarrow> u32 list" where
  "header_words h = [pair16 (eh_magic h) (eh_entries h), pair16 (eh_max h) (eh_depth h), eh_generation h]"

text \<open>Stores of consecutive cells; past the end of the array they are a \<open>Fault\<close>.\<close>

definition put_at :: "'a list \<Rightarrow> nat \<Rightarrow> 'a list \<Rightarrow> 'a list res" where
  "put_at xs i ys = (if i + length ys \<le> length xs
     then Inr (take i xs @ ys @ drop (i + length ys) xs) else Inl Fault)"

lemma put_at_length: "put_at xs i ys = Inr zs \<Longrightarrow> length zs = length xs"
  by (auto simp: put_at_def split: if_splits)

definition put_inode_words :: "build \<Rightarrow> ptr \<Rightarrow> nat \<Rightarrow> u32 list \<Rightarrow> build res" where
  "put_inode_words b ino i ws =
     rbind (put_at (i_block (inode_at b ino)) i ws) (\<lambda>blk.
     Inr (update_inode b ino (\<lambda>n. n\<lparr>i_block := blk\<rparr>)))"

definition put_buf :: "build \<Rightarrow> nat \<Rightarrow> nat \<Rightarrow> u8 list \<Rightarrow> build res" where
  "put_buf b buf off bytes =
     rbind (load (bufs b) buf) (\<lambda>old. rbind (put_at old off bytes) (\<lambda>new.
     rbind (store (bufs b) buf new) (\<lambda>m. Inr (b\<lparr>bufs := m\<rparr>))))"

text \<open>The place of the extents: behind the header in the inode or in the extent block.\<close>

datatype extent_array = In_Inode ptr | In_Block nat

fun put_extent :: "build \<Rightarrow> extent_array \<Rightarrow> nat \<Rightarrow> ext4_extent \<Rightarrow> build res" where
  "put_extent b (In_Inode ino) k e = put_inode_words b ino (3 + 3 * k) (extent_words e)"
| "put_extent b (In_Block buf) k e = put_buf b buf (12 + 12 * k) (le32s (extent_words e))"

section \<open>Backing\<close>

definition sparse_file_add_file :: "image \<Rightarrow> string \<Rightarrow> u64 \<Rightarrow> u32 \<Rightarrow> u32 \<Rightarrow> (int \<times> image) res" where
  "sparse_file_add_file q filename off n block =
     (case q of (m, bbl) \<Rightarrow> rbind (backed_block_add_file m bbl filename off n block) (\<lambda>(ret, m, bbl).
      Inr (ret, (m, bbl))))"

text \<open>
  The loops of \<open>extent_create_backing\<close> and \<open>extent_create_backing_file\<close>: \<open>queue\<close> queues \<open>n\<close> bytes from
  offset \<open>off\<close>. When the regions end before the data, the null iterator is dereferenced.
\<close>

fun backing_loop ::
  "nat \<Rightarrow> (build \<Rightarrow> nat \<Rightarrow> u32 \<Rightarrow> u32 \<Rightarrow> build res) \<Rightarrow> fs_info \<Rightarrow> build \<Rightarrow> block_allocation \<Rightarrow> nat \<Rightarrow> u64 \<Rightarrow>
    (build \<times> block_allocation) res" where
  "backing_loop fuel queue info b alloc off backing_len =
     (if backing_len = 0 then Inr (b, alloc) else
      case fuel of 0 \<Rightarrow> Inl Diverge | Suc fuel \<Rightarrow>
      rbind (get_region (regs b) alloc) (\<lambda>(region_block, region_len).
      let n = ucast (min (ucast (region_len * block_size info)) backing_len) :: u32 in
      rbind (queue b off n region_block) (\<lambda>b.
      rbind (get_next_region (regs b) alloc) (\<lambda>alloc.
      backing_loop fuel queue info b alloc (off + unat n) (backing_len - ucast n)))))"

declare backing_loop.simps [simp del]

definition extent_create_backing ::
  "fs_info \<Rightarrow> build \<Rightarrow> block_allocation \<Rightarrow> u64 \<Rightarrow> (nat \<times> build \<times> block_allocation) res" where
  "extent_create_backing info b alloc backing_len =
     (let (data, b) = calloc b (replicate (unat backing_len) 0) in
      rbind (backing_loop (Suc (brk (regs b)))
               (\<lambda>b off n block. add_data b (Calloc data, off) n block) info b alloc 0 backing_len)
        (\<lambda>(b, alloc). Inr (data, b, alloc)))"

definition extent_create_backing_file ::
  "fs_info \<Rightarrow> build \<Rightarrow> block_allocation \<Rightarrow> u64 \<Rightarrow> string \<Rightarrow> (build \<times> block_allocation) res" where
  "extent_create_backing_file info b alloc backing_len filename =
     backing_loop (Suc (brk (regs b)))
       (\<lambda>b off n block. rbind (sparse_file_add_file (img b) filename (of_nat off) n block)
          (\<lambda>(_, q). Inr (b\<lparr>img := q\<rparr>))) info b alloc 0 backing_len"

section \<open>Extents\<close>

text \<open>The loop that writes one extent for each region; a length of more than 16 bits is truncated.\<close>

fun write_extents :: "nat \<Rightarrow> build \<Rightarrow> extent_array \<Rightarrow> nat \<Rightarrow> block_allocation \<Rightarrow> u32 \<Rightarrow>
    (build \<times> block_allocation) res" where
  "write_extents fuel b arr k alloc file_block =
     (if last_region alloc then Inr (b, alloc) else
      case fuel of 0 \<Rightarrow> Inl Diverge | Suc fuel \<Rightarrow>
      rbind (get_region (regs b) alloc) (\<lambda>(region_block, region_len).
      rbind (put_extent b arr k \<lparr>ee_block = file_block, ee_len = ucast region_len, ee_start_hi = 0,
               ee_start_lo = region_block\<rparr>) (\<lambda>b.
      rbind (get_next_region (regs b) alloc) (\<lambda>alloc.
      write_extents fuel b arr (Suc k) alloc (file_block + region_len)))))"

declare write_extents.simps [simp del]

text \<open>
  The head of the extents: in the inode itself, or an index in the inode that leads to a header in
  a block of its own. \<open>None\<close> is the return after the error that the block is too small; the test
  divides before it subtracts, as in the code.
\<close>

definition extent_head ::
  "fs_info \<Rightarrow> build \<Rightarrow> bool \<Rightarrow> ptr \<Rightarrow> u32 \<Rightarrow> u32 \<Rightarrow> (build \<times> extent_array option) res" where
  "extent_head info b force ino extent_block allocation_len =
     (if extent_block = 0 then
        rbind (put_inode_words b ino 0 (header_words \<lparr>eh_magic = EXT4_EXT_MAGIC,
                 eh_entries = ucast allocation_len, eh_max = 3, eh_depth = 0, eh_generation = 0\<rparr>)) (\<lambda>b.
        Inr (b, Some (In_Inode ino)))
      else
        rbind (put_inode_words b ino 0 (header_words \<lparr>eh_magic = EXT4_EXT_MAGIC, eh_entries = 1,
                 eh_max = 3, eh_depth = 1, eh_generation = 0\<rparr>)) (\<lambda>b.
        rbind (put_inode_words b ino 3 (idx_words \<lparr>ei_block = 0, ei_leaf_lo = extent_block,
                 ei_leaf_hi = 0, ei_unused = 0\<rparr>)) (\<lambda>b.
        let (data, b) = calloc b (replicate (unat (block_size info)) 0) in
        rbind (add_data b (Calloc data, 0) (block_size info) extent_block) (\<lambda>b.
        if block_size info - 12 div 12 <s allocation_len then error_then force (Inr (b, None)) else
        rbind (put_buf b data 0 (le32s (header_words \<lparr>eh_magic = EXT4_EXT_MAGIC,
                 eh_entries = ucast allocation_len,
                 eh_max = ucast ((ucast (block_size info) - 12) div 12 :: u64),
                 eh_depth = 0, eh_generation = 0\<rparr>))) (\<lambda>b.
        Inr (b, Some (In_Block data)))))))"

definition do_inode_allocate_extents ::
  "fs_info \<Rightarrow> build \<Rightarrow> bool \<Rightarrow> ptr \<Rightarrow> u64 \<Rightarrow> (block_allocation option \<times> build) res" where
  "do_inode_allocate_extents info b force ino n =
     rbind (DIV_ROUND_UP n (ucast (block_size info))) (\<lambda>q.
     let block_len = ucast q :: u32 in
     rbind (allocate_blocks force (aux b) (regs b) (block_len + 1)) (\<lambda>(alloc, m, a).
     let b = b\<lparr>regs := m, aux := a\<rparr> in
     case alloc of None \<Rightarrow> error_then force (Inr (None, b)) | Some alloc \<Rightarrow>
     rbind (block_allocation_num_regions (regs b) alloc) (\<lambda>allocation_len.
     rbind (if allocation_len \<le>s 3 then
              rbind (reduce_allocation (aux b) (regs b) alloc 1) (\<lambda>(a, m, alloc).
              Inr (0, b\<lparr>regs := m, aux := a\<rparr>, alloc))
            else
              rbind (reserve_oob_blocks (regs b) alloc 1) (\<lambda>(_, m, alloc).
              rbind (get_oob_block m alloc 0) (\<lambda>extent_block.
              Inr (extent_block, b\<lparr>regs := m\<rparr>, alloc)))) (\<lambda>(extent_block, b, alloc).
     rbind (extent_head info b force ino extent_block allocation_len) (\<lambda>(b, arr).
     case arr of None \<Rightarrow> Inr (None, b) | Some arr \<Rightarrow>
     rbind (write_extents (Suc (brk (regs b))) b arr 0 alloc 0) (\<lambda>(b, alloc).
     let block_len = (if extent_block \<noteq> 0 then block_len + 1 else block_len);
         blocks = ucast block_len * ucast (block_size info) div 512 :: u64 in
     Inr (Some (rewind_alloc alloc), update_inode b ino (\<lambda>i. i\<lparr>
       i_flags := i_flags i OR EXT4_EXTENTS_FL, i_size_lo := ucast n,
       i_size_high := ucast (drop_bit 32 n), i_blocks_lo := ucast blocks,
       l_i_blocks_high := ucast (drop_bit 32 blocks)\<rparr>))))))))"

text \<open>The three ways the callers use it. A buffer is \<open>None\<close> when the function returns null.\<close>

definition inode_allocate_data_extents ::
  "fs_info \<Rightarrow> build \<Rightarrow> bool \<Rightarrow> ptr \<Rightarrow> u64 \<Rightarrow> u64 \<Rightarrow> (nat option \<times> build) res" where
  "inode_allocate_data_extents info b force ino n backing_len =
     rbind (do_inode_allocate_extents info b force ino n) (\<lambda>(alloc, b).
     case alloc of None \<Rightarrow> error_then force (Inr (None, b)) | Some alloc \<Rightarrow>
     rbind (if backing_len \<noteq> 0 then
              rbind (extent_create_backing info b alloc backing_len) (\<lambda>(data, b, alloc). Inr (Some data, b, alloc))
            else Inr (None, b, alloc)) (\<lambda>(data, b, alloc).
     rbind (free_alloc (regs b) alloc) (\<lambda>m. Inr (data, b\<lparr>regs := m\<rparr>))))"

definition inode_allocate_file_extents ::
  "fs_info \<Rightarrow> build \<Rightarrow> bool \<Rightarrow> ptr \<Rightarrow> u64 \<Rightarrow> string \<Rightarrow> (block_allocation option \<times> build) res" where
  "inode_allocate_file_extents info b force ino n filename =
     rbind (do_inode_allocate_extents info b force ino n) (\<lambda>(alloc, b).
     case alloc of None \<Rightarrow> error_then force (Inr (None, b)) | Some alloc \<Rightarrow>
     rbind (extent_create_backing_file info b alloc n filename) (\<lambda>(b, alloc). Inr (Some alloc, b)))"

definition inode_allocate_extents :: "fs_info \<Rightarrow> build \<Rightarrow> bool \<Rightarrow> ptr \<Rightarrow> u64 \<Rightarrow> build res" where
  "inode_allocate_extents info b force ino n =
     rbind (do_inode_allocate_extents info b force ino n) (\<lambda>(alloc, b).
     case alloc of None \<Rightarrow> error_then force (Inr b) | Some alloc \<Rightarrow>
     rbind (free_alloc (regs b) alloc) (\<lambda>m. Inr (b\<lparr>regs := m\<rparr>)))"

section \<open>The journal\<close>

text \<open>\<open>htonl\<close> and a store, on a little-endian host.\<close>

definition be32 :: "u32 \<Rightarrow> u8 list" where
  "be32 w = rev (le32 w)"

abbreviation JBD2_MAGIC_NUMBER :: u32 where "JBD2_MAGIC_NUMBER \<equiv> 0xC03B3998"
abbreviation JBD2_SUPERBLOCK_V2 :: u32 where "JBD2_SUPERBLOCK_V2 \<equiv> 4"

text \<open>The offsets are those of \<open>journal_superblock_t\<close>; the mode is that of a regular file, 0600.\<close>

definition ext4_create_journal_inode :: "fs_info \<Rightarrow> build \<Rightarrow> bool \<Rightarrow> build res" where
  "ext4_create_journal_inode info b force =
     rbind (get_inode_ptr info b EXT4_JOURNAL_INO) (\<lambda>(ino, b).
     let n = ucast (journal_blocks info * block_size info) in
     rbind (inode_allocate_data_extents info b force ino n n) (\<lambda>(data, b).
     case data of None \<Rightarrow> error_then force (Inr b) | Some data \<Rightarrow>
     let b = update_inode b ino (\<lambda>i. i\<lparr>i_mode := 0x8180, i_links_count := 1\<rparr>) in
     rbind (put_buf b data 0 (be32 JBD2_MAGIC_NUMBER)) (\<lambda>b.
     rbind (put_buf b data 4 (be32 JBD2_SUPERBLOCK_V2)) (\<lambda>b.
     rbind (put_buf b data 12 (be32 (block_size info))) (\<lambda>b.
     rbind (put_buf b data 16 (be32 (journal_blocks info))) (\<lambda>b.
     rbind (put_buf b data 64 (be32 1)) (\<lambda>b.
     rbind (put_buf b data 20 (be32 1)) (\<lambda>b.
     rbind (put_buf b data 24 (be32 1)) (\<lambda>b.
     Inr (b\<lparr>aux_sb := (aux_sb b)\<lparr>s_jnl_blocks :=
       i_block (inode_at b ino) @ drop 15 (s_jnl_blocks (aux_sb b))\<rparr>\<rparr>))))))))))"

end
