(* ===== verification/Indirect.thy ===== *)
theory Indirect
  imports Extents
begin

text \<open>
  \<^verbatim>\<open>src/indirect.c\<close>: block maps of direct, indirect, doubly and triply indirect blocks, and the
  resize inode of \<^verbatim>\<open>src/ext4_utils.c\<close> that uses them. The functions that move through an allocation
  pass it on with the region heap. \<open>block_len\<close> parameters of type \<open>int\<close> are words read as signed.
  The loops that take steps of \<open>blocks_per_ind\<close> or \<open>blocks_per_dind\<close> blocks are followed for positive
  steps only; a step of zero or less, which leaves the count as it is or raises it, is \<open>Diverge\<close>.
\<close>

section \<open>Backing\<close>

definition create_backing ::
  "fs_info \<Rightarrow> build \<Rightarrow> block_allocation \<Rightarrow> u64 \<Rightarrow> (nat \<times> build \<times> block_allocation) res" where
  "create_backing info b alloc backing_len =
     rbind (DIV_ROUND_UP backing_len (ucast (block_size info))) (\<lambda>q.
     if q > 12 then Inl Critical else
     let (data, b) = calloc b (replicate (unat backing_len) 0) in
     rbind (backing_loop (Suc (brk (regs b)))
              (\<lambda>b off n block. add_data b (Calloc data, off) n block) info b alloc 0 backing_len)
       (\<lambda>(b, alloc). Inr (data, b, alloc)))"

section \<open>Setting blocks aside\<close>

definition reserve_indirect_block ::
  "bool \<Rightarrow> reg_mem \<Rightarrow> block_allocation \<Rightarrow> u32 \<Rightarrow> (reg_mem \<times> block_allocation) res" where
  "reserve_indirect_block force m alloc n =
     rbind (reserve_oob_blocks m alloc 1) (\<lambda>(ret, m, alloc).
     if ret \<noteq> 0 then error_then force (Inr (m, alloc)) else
     rbind (advance_blocks m alloc n) (\<lambda>(ret, alloc).
     if ret \<noteq> 0 then error_then force (Inr (m, alloc)) else Inr (m, alloc)))"

text \<open>The loop of \<open>reserve_dindirect_block\<close> and \<open>reserve_tindirect_block\<close> in steps of at most \<open>step\<close>.\<close>

function reserve_steps :: "(reg_mem \<Rightarrow> block_allocation \<Rightarrow> u32 \<Rightarrow> (reg_mem \<times> block_allocation) res) \<Rightarrow>
    int \<Rightarrow> reg_mem \<Rightarrow> block_allocation \<Rightarrow> int \<Rightarrow> (reg_mem \<times> block_allocation) res" where
  "reserve_steps reserve step m alloc n =
     (if n > 0 then
        (if step \<le> 0 then Inl Diverge else
         rbind (reserve m alloc (word_of_int (min step n))) (\<lambda>(m, alloc).
         reserve_steps reserve step m alloc (n - min step n)))
      else Inr (m, alloc))"
  by pat_completeness auto
termination by (relation "measure (\<lambda>(f, step, m, alloc, n). nat n)") (auto simp: min_def)

declare reserve_steps.simps [simp del]

definition reserve_dindirect_block ::
  "fs_aux_info \<Rightarrow> bool \<Rightarrow> reg_mem \<Rightarrow> block_allocation \<Rightarrow> u32 \<Rightarrow> (reg_mem \<times> block_allocation) res" where
  "reserve_dindirect_block a force m alloc n =
     rbind (reserve_oob_blocks m alloc 1) (\<lambda>(ret, m, alloc).
     if ret \<noteq> 0 then error_then force (Inr (m, alloc)) else
     reserve_steps (reserve_indirect_block force) (sint (blocks_per_ind a)) m alloc (sint n))"

definition reserve_tindirect_block ::
  "fs_aux_info \<Rightarrow> bool \<Rightarrow> reg_mem \<Rightarrow> block_allocation \<Rightarrow> u32 \<Rightarrow> (reg_mem \<times> block_allocation) res" where
  "reserve_tindirect_block a force m alloc n =
     rbind (reserve_oob_blocks m alloc 1) (\<lambda>(ret, m, alloc).
     if ret \<noteq> 0 then error_then force (Inr (m, alloc)) else
     reserve_steps (reserve_dindirect_block a force) (sint (blocks_per_dind a)) m alloc (sint n))"

definition reserve_all_indirect_blocks ::
  "fs_aux_info \<Rightarrow> bool \<Rightarrow> reg_mem \<Rightarrow> block_allocation \<Rightarrow> u32 \<Rightarrow> (reg_mem \<times> block_allocation) res" where
  "reserve_all_indirect_blocks a force m alloc n =
     (if n \<le> 12 then Inr (m, alloc) else
      let n = n - 12 in
      rbind (advance_blocks m alloc 12) (\<lambda>(_, alloc).
      let ind_block_len = min (blocks_per_ind a) n in
      rbind (reserve_indirect_block force m alloc ind_block_len) (\<lambda>(m, alloc).
      let n = n - ind_block_len in
      if n = 0 then Inr (m, alloc) else
      let dind_block_len = min (blocks_per_dind a) n in
      rbind (reserve_dindirect_block a force m alloc dind_block_len) (\<lambda>(m, alloc).
      let n = n - dind_block_len in
      if n = 0 then Inr (m, alloc) else
      let tind_block_len = min (blocks_per_tind a) n in
      rbind (reserve_tindirect_block a force m alloc tind_block_len) (\<lambda>(m, alloc).
      let n = n - tind_block_len in
      if n = 0 then Inr (m, alloc) else error_then force (Inr (m, alloc)))))))"

definition indirect_blocks_needed :: "fs_aux_info \<Rightarrow> u32 \<Rightarrow> u32 res" where
  "indirect_blocks_needed a n =
     (if n \<le> 12 then Inr 0 else
      let n = n - 12 in
      rbind (DIV_ROUND_UP n (blocks_per_ind a)) (\<lambda>ind.
      if n \<le> blocks_per_ind a then Inr ind else
      let n = n - blocks_per_ind a in
      rbind (DIV_ROUND_UP n (blocks_per_dind a)) (\<lambda>dind.
      if n \<le> blocks_per_dind a then Inr (ind + dind) else
      let n = n - blocks_per_dind a in
      rbind (DIV_ROUND_UP n (blocks_per_tind a)) (\<lambda>tind.
      if n \<le> blocks_per_tind a then Inr (ind + dind + tind) else Inl Critical))))"

section \<open>Filling the blocks\<close>

fun fill_words :: "nat list \<Rightarrow> build \<Rightarrow> nat \<Rightarrow> block_allocation \<Rightarrow> build res" where
  "fill_words [] b buf alloc = Inr b"
| "fill_words (i # is) b buf alloc =
     rbind (get_block (regs b) alloc (of_nat i)) (\<lambda>block.
     rbind (put_buf b buf (4 * i) (le32 block)) (\<lambda>b. fill_words is b buf alloc))"

definition fill_indirect_block :: "build \<Rightarrow> nat \<Rightarrow> int \<Rightarrow> block_allocation \<Rightarrow> build res" where
  "fill_indirect_block b ind_block n alloc = fill_words [0..<nat n] b ind_block alloc"

text \<open>The next block set aside, with a zeroed buffer queued for it; \<open>None\<close> after an error let pass.\<close>

definition next_oob_buffer ::
  "fs_info \<Rightarrow> bool \<Rightarrow> build \<Rightarrow> (build \<Rightarrow> u32 \<Rightarrow> build res) \<Rightarrow> block_allocation \<Rightarrow>
    (nat option \<times> build \<times> block_allocation) res" where
  "next_oob_buffer info force b attach alloc =
     rbind (get_oob_block (regs b) alloc 0) (\<lambda>block.
     rbind (advance_oob_blocks (regs b) alloc 1) (\<lambda>(ret, alloc).
     if ret \<noteq> 0 then error_then force (Inr (None, b, alloc)) else
     rbind (attach b block) (\<lambda>b.
     let (data, b) = calloc b (replicate (unat (block_size info)) 0) in
     rbind (add_data b (Calloc data, 0) (block_size info) block) (\<lambda>b. Inr (Some data, b, alloc)))))"

function fill_dindirect_loop :: "fs_info \<Rightarrow> bool \<Rightarrow> build \<Rightarrow> nat \<Rightarrow> nat \<Rightarrow> int \<Rightarrow> block_allocation \<Rightarrow>
    (build \<times> block_allocation) res" where
  "fill_dindirect_loop info force b dind_block i n alloc =
     (if n > 0 then
        (if sint (blocks_per_ind (aux b)) \<le> 0 then Inl Diverge else
         let ind_block_len = min (sint (blocks_per_ind (aux b))) n in
         rbind (next_oob_buffer info force b (\<lambda>b block. put_buf b dind_block (4 * i) (le32 block)) alloc)
           (\<lambda>(data, b, alloc).
         case data of None \<Rightarrow> Inr (b, alloc) | Some data \<Rightarrow>
         rbind (fill_indirect_block b data ind_block_len alloc) (\<lambda>b.
         rbind (advance_blocks (regs b) alloc (word_of_int ind_block_len)) (\<lambda>(ret, alloc).
         if ret \<noteq> 0 then error_then force (Inr (b, alloc))
         else fill_dindirect_loop info force b dind_block (Suc i) (n - ind_block_len) alloc))))
      else Inr (b, alloc))"
  by pat_completeness auto
termination
  by (relation "measure (\<lambda>(info, force, b, d, i, n, alloc). nat n)") (auto simp: min_def)

declare fill_dindirect_loop.simps [simp del]

definition fill_dindirect_block ::
  "fs_info \<Rightarrow> bool \<Rightarrow> build \<Rightarrow> nat \<Rightarrow> int \<Rightarrow> block_allocation \<Rightarrow> (build \<times> block_allocation) res" where
  "fill_dindirect_block info force b dind_block n alloc = fill_dindirect_loop info force b dind_block 0 n alloc"

function fill_tindirect_loop :: "fs_info \<Rightarrow> bool \<Rightarrow> build \<Rightarrow> nat \<Rightarrow> nat \<Rightarrow> int \<Rightarrow> block_allocation \<Rightarrow>
    (build \<times> block_allocation) res" where
  "fill_tindirect_loop info force b tind_block i n alloc =
     (if n > 0 then
        (if sint (blocks_per_dind (aux b)) \<le> 0 then Inl Diverge else
         let dind_block_len = min (sint (blocks_per_dind (aux b))) n in
         rbind (next_oob_buffer info force b (\<lambda>b block. put_buf b tind_block (4 * i) (le32 block)) alloc)
           (\<lambda>(data, b, alloc).
         case data of None \<Rightarrow> Inr (b, alloc) | Some data \<Rightarrow>
         rbind (fill_dindirect_block info force b data dind_block_len alloc) (\<lambda>(b, alloc).
         fill_tindirect_loop info force b tind_block (Suc i) (n - dind_block_len) alloc)))
      else Inr (b, alloc))"
  by pat_completeness auto
termination
  by (relation "measure (\<lambda>(info, force, b, d, i, n, alloc). nat n)") (auto simp: min_def)

declare fill_tindirect_loop.simps [simp del]

definition fill_tindirect_block ::
  "fs_info \<Rightarrow> bool \<Rightarrow> build \<Rightarrow> nat \<Rightarrow> int \<Rightarrow> block_allocation \<Rightarrow> (build \<times> block_allocation) res" where
  "fill_tindirect_block info force b tind_block n alloc = fill_tindirect_loop info force b tind_block 0 n alloc"

section \<open>Attaching to the inode\<close>

text \<open>The value is whether it succeeded and the blocks left.\<close>

fun attach_words :: "nat list \<Rightarrow> build \<Rightarrow> ptr \<Rightarrow> block_allocation \<Rightarrow> build res" where
  "attach_words [] b ino alloc = Inr b"
| "attach_words (i # is) b ino alloc =
     rbind (get_block (regs b) alloc (of_nat i)) (\<lambda>block.
     rbind (put_inode_words b ino i [block]) (\<lambda>b. attach_words is b ino alloc))"

definition inode_attach_direct_blocks ::
  "bool \<Rightarrow> build \<Rightarrow> ptr \<Rightarrow> block_allocation \<Rightarrow> u32 \<Rightarrow> (bool \<times> build \<times> block_allocation \<times> u32) res" where
  "inode_attach_direct_blocks force b ino alloc block_len =
     (let n = min block_len 12 in
      rbind (attach_words [0..<unat n] b ino alloc) (\<lambda>b.
      rbind (advance_blocks (regs b) alloc n) (\<lambda>(ret, alloc).
      if ret \<noteq> 0 then error_then force (Inr (False, b, alloc, block_len))
      else Inr (True, b, alloc, block_len - n))))"

text \<open>
  The shape the three functions for indirect blocks share: word \<open>k\<close> of the inode names the top
  block, \<open>fill\<close> fills its buffer for \<open>n\<close> blocks, and the position moves on by \<open>n\<close>. The word is
  written before the position of the blocks set aside moves on.
\<close>

definition attach_top ::
  "fs_info \<Rightarrow> bool \<Rightarrow> build \<Rightarrow> ptr \<Rightarrow> block_allocation \<Rightarrow> u32 \<Rightarrow> nat \<Rightarrow> u32 \<Rightarrow>
    (build \<Rightarrow> nat \<Rightarrow> int \<Rightarrow> block_allocation \<Rightarrow> (build \<times> block_allocation) res) \<Rightarrow>
    (bool \<times> build \<times> block_allocation \<times> u32) res" where
  "attach_top info force b ino alloc block_len k per fill =
     (let n = min block_len per in
      rbind (get_oob_block (regs b) alloc 0) (\<lambda>top.
      rbind (put_inode_words b ino k [top]) (\<lambda>b.
      rbind (advance_oob_blocks (regs b) alloc 1) (\<lambda>(ret, alloc).
      if ret \<noteq> 0 then error_then force (Inr (False, b, alloc, block_len)) else
      let (data, b) = calloc b (replicate (unat (block_size info)) 0) in
      rbind (add_data b (Calloc data, 0) (block_size info) top) (\<lambda>b.
      rbind (fill b data (sint n) alloc) (\<lambda>(b, alloc).
      rbind (advance_blocks (regs b) alloc n) (\<lambda>(ret, alloc).
      if ret \<noteq> 0 then error_then force (Inr (False, b, alloc, block_len))
      else Inr (True, b, alloc, block_len - n))))))))"

definition inode_attach_indirect_blocks where
  "inode_attach_indirect_blocks info force b ino alloc block_len =
     attach_top info force b ino alloc block_len 12 (blocks_per_ind (aux b))
       (\<lambda>b data n alloc. rbind (fill_indirect_block b data n alloc) (\<lambda>b. Inr (b, alloc)))"

definition inode_attach_dindirect_blocks where
  "inode_attach_dindirect_blocks info force b ino alloc block_len =
     attach_top info force b ino alloc block_len 13 (blocks_per_dind (aux b)) (fill_dindirect_block info force)"

definition inode_attach_tindirect_blocks where
  "inode_attach_tindirect_blocks info force b ino alloc block_len =
     attach_top info force b ino alloc block_len 14 (blocks_per_tind (aux b)) (fill_tindirect_block info force)"

text \<open>A failed step is an error and the return of -1 (\<open>False\<close>); a step is left out at zero blocks.\<close>

definition attach_if ::
  "bool \<Rightarrow> (build \<Rightarrow> block_allocation \<Rightarrow> u32 \<Rightarrow> (bool \<times> build \<times> block_allocation \<times> u32) res) \<Rightarrow>
    build \<Rightarrow> block_allocation \<Rightarrow> u32 \<Rightarrow>
    (build \<Rightarrow> block_allocation \<Rightarrow> u32 \<Rightarrow> (bool \<times> build \<times> block_allocation) res) \<Rightarrow>
    (bool \<times> build \<times> block_allocation) res" where
  "attach_if force attach b alloc count k =
     (if count > 0 then
        rbind (attach b alloc count) (\<lambda>(done, b, alloc, count).
        if \<not> done then error_then force (Inr (False, b, alloc)) else k b alloc count)
      else k b alloc count)"

definition do_inode_attach_indirect ::
  "fs_info \<Rightarrow> bool \<Rightarrow> build \<Rightarrow> ptr \<Rightarrow> block_allocation \<Rightarrow> u32 \<Rightarrow> (bool \<times> build \<times> block_allocation) res" where
  "do_inode_attach_indirect info force b ino alloc block_len =
     rbind (inode_attach_direct_blocks force b ino alloc block_len) (\<lambda>(done, b, alloc, count).
     if \<not> done then error_then force (Inr (False, b, alloc)) else
     attach_if force (\<lambda>b. inode_attach_indirect_blocks info force b ino) b alloc count (\<lambda>b alloc count.
     attach_if force (\<lambda>b. inode_attach_dindirect_blocks info force b ino) b alloc count (\<lambda>b alloc count.
     attach_if force (\<lambda>b. inode_attach_tindirect_blocks info force b ino) b alloc count (\<lambda>b alloc count.
     if count \<noteq> 0 then error_then force (Inr (False, b, alloc)) else Inr (True, b, rewind_alloc alloc)))))"

section \<open>Allocating\<close>

definition do_inode_allocate_indirect ::
  "bool \<Rightarrow> build \<Rightarrow> u32 \<Rightarrow> (block_allocation option \<times> build) res" where
  "do_inode_allocate_indirect force b block_len =
     rbind (indirect_blocks_needed (aux b) block_len) (\<lambda>indirect_len.
     rbind (allocate_blocks force (aux b) (regs b) (block_len + indirect_len)) (\<lambda>(alloc, m, a).
     let b = b\<lparr>regs := m, aux := a\<rparr> in
     case alloc of None \<Rightarrow> error_then force (Inr (None, b)) | Some alloc \<Rightarrow> Inr (Some alloc, b)))"

definition inode_allocate_indirect :: "fs_info \<Rightarrow> bool \<Rightarrow> build \<Rightarrow> ptr \<Rightarrow> u64 \<Rightarrow> build res" where
  "inode_allocate_indirect info force b ino n =
     rbind (DIV_ROUND_UP n (ucast (block_size info))) (\<lambda>q.
     let block_len = ucast q :: u32 in
     rbind (indirect_blocks_needed (aux b) block_len) (\<lambda>indirect_len.
     rbind (do_inode_allocate_indirect force b block_len) (\<lambda>(alloc, b).
     case alloc of None \<Rightarrow> error_then force (Inr b) | Some alloc \<Rightarrow>
     rbind (reserve_all_indirect_blocks (aux b) force (regs b) alloc block_len) (\<lambda>(m, alloc).
     rbind (do_inode_attach_indirect info force (b\<lparr>regs := m\<rparr>) ino (rewind_alloc alloc) block_len)
       (\<lambda>(done, b, alloc).
     (if \<not> done then error_then force else (\<lambda>k. k)) (
     let b = update_inode b ino (\<lambda>i. i\<lparr>i_flags := 0,
               i_blocks_lo := (block_len + indirect_len) * block_size info div 512, i_size_lo := ucast n\<rparr>) in
     rbind (free_alloc (regs b) alloc) (\<lambda>m. Inr (b\<lparr>regs := m\<rparr>))))))))"

definition inode_allocate_data_indirect ::
  "fs_info \<Rightarrow> bool \<Rightarrow> build \<Rightarrow> ptr \<Rightarrow> u64 \<Rightarrow> u64 \<Rightarrow> (nat option \<times> build) res" where
  "inode_allocate_data_indirect info force b ino n backing_len =
     rbind (DIV_ROUND_UP n (ucast (block_size info))) (\<lambda>q.
     let block_len = ucast q :: u32 in
     rbind (do_inode_allocate_indirect force b block_len) (\<lambda>(alloc, b).
     case alloc of None \<Rightarrow> error_then force (Inr (None, b)) | Some alloc \<Rightarrow>
     rbind (if backing_len \<noteq> 0 then
              rbind (create_backing info b alloc backing_len) (\<lambda>(data, b, alloc). Inr (Some data, b, alloc))
            else Inr (None, b, alloc)) (\<lambda>(data, b, alloc).
     rbind (do_inode_attach_indirect info force b ino (rewind_alloc alloc) block_len) (\<lambda>(done, b, alloc).
     (if \<not> done then error_then force else (\<lambda>k. k)) (
     rbind (free_alloc (regs b) alloc) (\<lambda>m. Inr (data, b\<lparr>regs := m\<rparr>)))))))"

section \<open>The resize inode\<close>

text \<open>
  The remainder \<open>r\<close> of \<open>inode_attach_resize\<close>: the subtraction and the remainder are unsigned, so the
  correction of a negative value never applies as it was meant.
\<close>

definition resize_index :: "u32 \<Rightarrow> u32 \<Rightarrow> u32 \<Rightarrow> u32 res" where
  "resize_index i desc_blocks reserved =
     rbind (umod (i - desc_blocks) reserved) (\<lambda>r. Inr (if sint r < 0 then r + reserved else r))"

fun resize_copies :: "nat list \<Rightarrow> fs_info \<Rightarrow> build \<Rightarrow> nat \<Rightarrow> u32 \<Rightarrow> block_allocation \<Rightarrow> build res" where
  "resize_copies [] info b buf r alloc = Inr b"
| "resize_copies (j # js) info b buf r alloc =
     rbind (get_block (regs b) alloc (of_nat j * bg_desc_reserve_blocks info + r)) (\<lambda>block.
     rbind (put_buf b buf (4 * unat (r * blocks_per_ind (aux b) + of_nat j - 1)) (le32 block)) (\<lambda>b.
     resize_copies js info b buf r alloc))"

fun resize_loop :: "nat list \<Rightarrow> fs_info \<Rightarrow> build \<Rightarrow> nat \<Rightarrow> nat \<Rightarrow> u32 \<Rightarrow> block_allocation \<Rightarrow> build res" where
  "resize_loop [] info b dind ind superblocks alloc = Inr b"
| "resize_loop (i # is) info b dind ind superblocks alloc =
     rbind (resize_index (of_nat i) (bg_desc_blocks (aux b)) (bg_desc_reserve_blocks info)) (\<lambda>r.
     rbind (get_block (regs b) alloc r) (\<lambda>block.
     rbind (put_buf b dind (4 * i) (le32 block)) (\<lambda>b.
     rbind (resize_copies [1..<unat superblocks] info b ind r alloc) (\<lambda>b.
     resize_loop is info b dind ind superblocks alloc))))"

definition inode_attach_resize ::
  "fs_info \<Rightarrow> bool \<Rightarrow> build \<Rightarrow> ptr \<Rightarrow> block_allocation \<Rightarrow> (build \<times> block_allocation) res" where
  "inode_attach_resize info force b ino alloc =
     rbind (block_allocation_len (regs b) alloc) (\<lambda>block_len.
     rbind (udiv block_len (bg_desc_reserve_blocks info)) (\<lambda>superblocks.
     rbind (umod block_len (bg_desc_reserve_blocks info)) (\<lambda>md.
     if md \<noteq> 0 then Inl Critical else
     rbind (append_oob_allocation force (aux b) (regs b) alloc 1) (\<lambda>(_, m, alloc, a).
     let b = b\<lparr>regs := m, aux := a\<rparr> in
     rbind (get_oob_block (regs b) alloc 0) (\<lambda>dind_block.
     let (dind, b) = calloc b (replicate (unat (block_size info)) 0) in
     rbind (add_data b (Calloc dind, 0) (block_size info) dind_block) (\<lambda>b.
     let (ind, b) = calloc b (replicate (unat (block_size info) * unat (bg_desc_reserve_blocks info)) 0) in
     rbind (get_block (regs b) alloc 0) (\<lambda>first.
     rbind (add_data b (Calloc ind, 0) (block_size info * bg_desc_reserve_blocks info) first) (\<lambda>b.
     rbind (resize_loop [0..<unat (bg_desc_reserve_blocks info)] info b dind ind superblocks alloc) (\<lambda>b.
     let last_block = 12 + blocks_per_ind (aux b)
               + blocks_per_ind (aux b) * (bg_desc_reserve_blocks info - 1) + superblocks - 2;
         blocks = (ucast block_len + 1) * ucast (block_size info) div 512 :: u64;
         n = ucast last_block * ucast (block_size info) :: u64 in
     rbind (put_inode_words b ino 13 [dind_block]) (\<lambda>b.
     Inr (update_inode b ino (\<lambda>i. i\<lparr>i_flags := 0, i_blocks_lo := ucast blocks,
       l_i_blocks_high := ucast (drop_bit 32 blocks), i_size_lo := ucast n,
       i_size_high := ucast (drop_bit 32 n)\<rparr>), alloc)))))))))))"

text \<open>The reserved blocks of every group with a superblock, in the order of the groups.\<close>

fun reserved_regions :: "nat list \<Rightarrow> fs_info \<Rightarrow> fs_aux_info \<Rightarrow> reg_mem \<Rightarrow> block_allocation \<Rightarrow>
    (reg_mem \<times> block_allocation) res" where
  "reserved_regions [] info a m alloc = Inr (m, alloc)"
| "reserved_regions (i # is) info a m alloc =
     rbind (ext4_bg_has_super_block info (of_nat i)) (\<lambda>has.
     rbind (if has then append_region m alloc
              (first_data_block a + of_nat i * blocks_per_group info + 1 + bg_desc_blocks a)
              (bg_desc_reserve_blocks info) i
            else Inr (m, alloc)) (\<lambda>(m, alloc).
     reserved_regions is info a m alloc))"

definition ext4_create_resize_inode :: "fs_info \<Rightarrow> build \<Rightarrow> bool \<Rightarrow> build res" where
  "ext4_create_resize_inode info b force =
     rbind (get_inode_ptr info b EXT4_RESIZE_INO) (\<lambda>(ino, b).
     rbind (reserved_regions [0..<unat (groups (aux b))] info (aux b) (regs b) create_allocation) (\<lambda>(m, alloc).
     rbind (inode_attach_resize info force (b\<lparr>regs := m\<rparr>) ino alloc) (\<lambda>(b, alloc).
     let b = update_inode b ino (\<lambda>i. i\<lparr>i_mode := 0x8180, i_links_count := 1\<rparr>) in
     rbind (free_alloc (regs b) alloc) (\<lambda>m. Inr (b\<lparr>regs := m\<rparr>)))))"

end
