(* ===== verification/Directories.thy ===== *)
theory Directories
  imports Indirect
begin

text \<open>
  Directories, files, links and special files of \<^verbatim>\<open>src/contents.c\<close>: the linear directory format is
  written byte by byte into the buffer of the directory. Names are C strings without their
  terminating zero; the pointer that \<open>make_directory\<close> leaves in every entry is a buffer and an
  offset in it.
\<close>

section \<open>Directory entries\<close>

record dentry =
  path :: string
  full_path :: string
  filename :: string
  link :: "string option"
  dsize :: u64
  file_type :: u8
  dmode :: u16
  duid :: u16
  dgid :: u16
  dinode :: "(nat \<times> nat) option"
  dmtime :: u32
  capabilities :: u64

abbreviation EXT4_ROOT_INO :: u32 where "EXT4_ROOT_INO \<equiv> 2"
abbreviation EXT4_FT_DIR :: u8 where "EXT4_FT_DIR \<equiv> 2"

text \<open>\<open>8 + EXT4_ALIGN(n, 4)\<close>: the record of a name of \<open>n\<close> bytes.\<close>

definition dentry_len :: "nat \<Rightarrow> nat" where
  "dentry_len n = 8 + 4 * ((n + 3) div 4)"

fun dentry_sizes :: "fs_info \<Rightarrow> dentry list \<Rightarrow> u32 \<Rightarrow> u32 res" where
  "dentry_sizes info [] n = Inr n"
| "dentry_sizes info (d # ds) n =
     (let k = of_nat (dentry_len (length (filename d))) in
      rbind (umod n (block_size info)) (\<lambda>off.
      let n = (if off + k > block_size info then n + (block_size info - off) else n) in
      dentry_sizes info ds (n + k)))"

definition dentry_size :: "fs_info \<Rightarrow> dentry list \<Rightarrow> u32 res" where
  "dentry_size info ds = dentry_sizes info ds 24"

text \<open>The record length of the entry at \<open>off\<close> in a buffer, and adding to it.\<close>

definition add_rec_len :: "build \<Rightarrow> nat \<Rightarrow> nat \<Rightarrow> u32 \<Rightarrow> build res" where
  "add_rec_len b data off n =
     rbind (load (bufs b) data) (\<lambda>bs. rbind (if off + 6 \<le> length bs then Inr (get16 bs (off + 4)) else Inl Fault)
       (\<lambda>r. put_buf b data (off + 4) (le16 (r + ucast n))))"

definition dentry_bytes :: "u32 \<Rightarrow> u16 \<Rightarrow> u8 \<Rightarrow> u8 \<Rightarrow> u8 list \<Rightarrow> u8 list" where
  "dentry_bytes inode rec_len name_len ft name = le32 inode @ le16 rec_len @ [name_len, ft] @ name"

text \<open>
  \<open>add_dentry\<close>: the offset of the entry and the next offset. Only the low byte of the length of the
  name is used.
\<close>

definition add_dentry ::
  "fs_info \<Rightarrow> build \<Rightarrow> nat \<Rightarrow> u32 \<Rightarrow> nat option \<Rightarrow> u32 \<Rightarrow> string \<Rightarrow> u8 \<Rightarrow> (nat \<times> u32 \<times> build) res" where
  "add_dentry info b data offset prev inode name ft =
     (let name_len = of_nat (length name) :: u8; rec_len = of_nat (dentry_len (unat name_len)) :: u16 in
      rbind (udiv offset (block_size info)) (\<lambda>start_block.
      rbind (udiv (offset + ucast rec_len - 1) (block_size info)) (\<lambda>end_block.
      rbind (if start_block \<noteq> end_block then
               (case prev of None \<Rightarrow> Inl Critical
                | Some p \<Rightarrow> rbind (add_rec_len b data p (end_block * block_size info - offset)) (\<lambda>b.
                    Inr (b, end_block * block_size info)))
             else Inr (b, offset)) (\<lambda>(b, offset).
      rbind (put_buf b data (unat offset)
               (dentry_bytes inode rec_len name_len ft (take (unat name_len) (chars name)))) (\<lambda>b.
      Inr (unat offset, offset + ucast rec_len, b))))))"

text \<open>The loop over the entries; \<open>n\<close> is the size of the directory.\<close>

fun add_dentries ::
  "fs_info \<Rightarrow> build \<Rightarrow> nat \<Rightarrow> u32 \<Rightarrow> u32 \<Rightarrow> nat \<Rightarrow> dentry list \<Rightarrow> (nat \<times> u32 \<times> dentry list \<times> build) res" where
  "add_dentries info b data n offset prev [] = Inr (prev, offset, [], b)"
| "add_dentries info b data n offset prev (d # ds) =
     rbind (add_dentry info b data offset (Some prev) 0 (filename d) (file_type d)) (\<lambda>(at, offset, b).
     if offset > n \<or> offset = n \<and> ds \<noteq> [] then Inl Critical else
     rbind (add_dentries info b data n offset at ds) (\<lambda>(prev, offset, ds, b).
     Inr (prev, offset, d\<lparr>dinode := Some (data, at)\<rparr> # ds, b)))"

section \<open>Directories\<close>

text \<open>The tail of \<open>make_directory\<close>: all records into the buffer of \<open>n\<close> bytes.\<close>

definition fill_directory ::
  "fs_info \<Rightarrow> build \<Rightarrow> nat \<Rightarrow> u32 \<Rightarrow> u32 \<Rightarrow> u32 \<Rightarrow> dentry list \<Rightarrow> (dentry list \<times> build) res" where
  "fill_directory info b data n inode_num dir_inode_num dentries =
     rbind (add_dentry info b data 0 None inode_num ''.'' EXT4_FT_DIR) (\<lambda>(at, offset, b).
     rbind (add_dentry info b data offset (Some at) dir_inode_num ''..'' EXT4_FT_DIR) (\<lambda>(at, offset, b).
     rbind (add_dentries info b data n offset at dentries) (\<lambda>(at, offset, dentries, b).
     rbind (add_rec_len b data at (n - offset)) (\<lambda>b. Inr (dentries, b)))))"

definition make_directory ::
  "fs_info \<Rightarrow> build \<Rightarrow> bool \<Rightarrow> u32 \<Rightarrow> dentry list \<Rightarrow> u32 \<Rightarrow> (u32 \<times> dentry list \<times> build) res" where
  "make_directory info b force dir_inode_num dentries dirs =
     rbind (dentry_size info dentries) (\<lambda>sz.
     rbind (DIV_ROUND_UP sz (block_size info)) (\<lambda>blocks.
     let n = blocks * block_size info in
     rbind (if dir_inode_num \<noteq> 0 then
              rbind (allocate_inode info (aux b)) (\<lambda>(i, a). Inr (i, dir_inode_num, b\<lparr>aux := a\<rparr>))
            else Inr (EXT4_ROOT_INO, EXT4_ROOT_INO, b)) (\<lambda>(inode_num, dir_inode_num, b).
     if inode_num = EXT4_ALLOCATE_FAILED then error_then force (Inr (EXT4_ALLOCATE_FAILED, dentries, b)) else
     rbind (add_directory info (aux b) inode_num) (\<lambda>a.
     rbind (get_inode_ptr info (b\<lparr>aux := a\<rparr>) inode_num) (\<lambda>(ino, b).
     rbind (inode_allocate_data_extents info b force ino (ucast n) (ucast n)) (\<lambda>(data, b).
     case data of None \<Rightarrow> error_then force (Inr (EXT4_ALLOCATE_FAILED, dentries, b)) | Some data \<Rightarrow>
     let b = update_inode b ino (\<lambda>i. i\<lparr>i_mode := 0x4000, i_links_count := ucast (dirs + 2),
               i_flags := i_flags i OR default_i_flags (aux b)\<rparr>) in
     rbind (fill_directory info b data n inode_num dir_inode_num dentries) (\<lambda>(dentries, b).
     Inr (inode_num, dentries, b))))))))"

section \<open>Files, links and special files\<close>

text \<open>What the four functions have in common: a new inode and its address, or the failure.\<close>

definition new_inode ::
  "fs_info \<Rightarrow> build \<Rightarrow> bool \<Rightarrow> (u32 \<Rightarrow> ptr \<Rightarrow> build \<Rightarrow> (u32 \<times> build) res) \<Rightarrow> (u32 \<times> build) res" where
  "new_inode info b force k =
     rbind (allocate_inode info (aux b)) (\<lambda>(inode_num, a).
     let b = b\<lparr>aux := a\<rparr> in
     if inode_num = EXT4_ALLOCATE_FAILED then error_then force (Inr (EXT4_ALLOCATE_FAILED, b)) else
     rbind (get_inode_ptr info b inode_num) (\<lambda>(ino, b). k inode_num ino b))"

text \<open>
  \<open>make_file\<close>. The allocation with the name of the file is linked in front of the parameter
  \<open>saved_allocation_head\<close>, which is a copy of the caller's pointer: nothing of it is left on return.
\<close>

definition make_file :: "fs_info \<Rightarrow> build \<Rightarrow> bool \<Rightarrow> string \<Rightarrow> u64 \<Rightarrow> (u32 \<times> build) res" where
  "make_file info b force name n =
     new_inode info b force (\<lambda>inode_num ino b.
     rbind (if n > 0 then
              rbind (inode_allocate_file_extents info b force ino n name) (\<lambda>(_, b). Inr b)
            else Inr b) (\<lambda>b.
     Inr (inode_num, update_inode b ino (\<lambda>i. i\<lparr>i_mode := 0x8000, i_links_count := 1,
       i_flags := i_flags i OR default_i_flags (aux b)\<rparr>))))"

text \<open>Bytes of \<open>i_block\<close>.\<close>

definition put_inode_bytes :: "build \<Rightarrow> ptr \<Rightarrow> u8 list \<Rightarrow> build res" where
  "put_inode_bytes b ino bytes =
     rbind (put_at (le32s (i_block (inode_at b ino))) 0 bytes) (\<lambda>bs.
     Inr (update_inode b ino (\<lambda>n. n\<lparr>i_block := fst (take_words (length (i_block n)) bs)\<rparr>)))"

text \<open>
  \<open>make_link\<close>: a target of up to 59 bytes goes into the inode, a longer one into a block of its
  own; one that is longer than the block writes past the buffer.
\<close>

definition make_link :: "fs_info \<Rightarrow> build \<Rightarrow> bool \<Rightarrow> string \<Rightarrow> (u32 \<times> build) res" where
  "make_link info b force target =
     (let n = of_nat (length target) :: u32 in
      new_inode info b force (\<lambda>inode_num ino b.
      let b = update_inode b ino (\<lambda>i. i\<lparr>i_mode := 0xA000, i_links_count := 1,
                i_flags := i_flags i OR default_i_flags (aux b), i_size_lo := n\<rparr>) in
      if n + 1 \<le> 60 then
        rbind (put_inode_bytes b ino (take (unat n) (chars target))) (\<lambda>b. Inr (inode_num, b))
      else
        rbind (inode_allocate_data_indirect info force b ino (ucast (block_size info)) (ucast (block_size info)))
          (\<lambda>(data, b).
        case data of None \<Rightarrow> Inl Fault | Some data \<Rightarrow>
        rbind (put_buf b data 0 (take (unat n) (chars target))) (\<lambda>b.
        Inr (inode_num, update_inode b ino (\<lambda>i. i\<lparr>i_blocks_lo := block_size info div 512\<rparr>))))))"

text \<open>\<open>make_special\<close>, from what \<open>stat\<close> says: the mode and the major and minor numbers.\<close>

definition make_special ::
  "fs_info \<Rightarrow> build \<Rightarrow> bool \<Rightarrow> (u16 \<times> u32 \<times> u32) option \<Rightarrow> (u32 \<times> build) res" where
  "make_special info b force stat =
     (case stat of None \<Rightarrow> error_then force (Inr (EXT4_ALLOCATE_FAILED, b))
      | Some (mode, major, minor) \<Rightarrow>
      new_inode info b force (\<lambda>inode_num ino b.
      let b = update_inode b ino (\<lambda>i. i\<lparr>i_mode := mode AND 0xF000, i_links_count := 1,
                i_flags := i_flags i OR default_i_flags (aux b)\<rparr>) in
      rbind (put_inode_bytes b ino [ucast major, ucast minor]) (\<lambda>b. Inr (inode_num, b))))"

definition inode_set_permissions ::
  "fs_info \<Rightarrow> build \<Rightarrow> u32 \<Rightarrow> u16 \<Rightarrow> u16 \<Rightarrow> u16 \<Rightarrow> u32 \<Rightarrow> (int \<times> build) res" where
  "inode_set_permissions info b inode_num mode uid gid mtime =
     rbind (get_inode_ptr info b inode_num) (\<lambda>(ino, b).
     Inr (0, update_inode b ino (\<lambda>i. i\<lparr>i_mode := i_mode i OR mode, i_uid := uid, i_gid := gid,
       i_mtime := mtime, i_atime := mtime, i_ctime := mtime\<rparr>)))"

end
