(* ===== verification/Xattr.thy ===== *)
theory Xattr
  imports Directories
begin

text \<open>
  Extended attributes: the region functions of \<^verbatim>\<open>src/contents.c\<close> on the bytes behind an inode and on
  the bytes of an attribute block, the block of an inode from \<^verbatim>\<open>src/allocate.c\<close>, and the
  capabilities stored with them. Entries are offsets in the region; a read past its end is a
  \<open>Fault\<close> (in the code the last region of an inode table is followed by unrelated memory, the
  others by the next inode).
\<close>

section \<open>Regions of attributes\<close>

abbreviation EXT4_XATTR_MAGIC :: u32 where "EXT4_XATTR_MAGIC \<equiv> 0xEA020000"
abbreviation EXT4_XATTR_INDEX_SECURITY :: u8 where "EXT4_XATTR_INDEX_SECURITY \<equiv> 6"

definition EXT4_XATTR_LEN :: "nat \<Rightarrow> nat" where
  "EXT4_XATTR_LEN name_len = 4 * ((name_len + 19) div 4)"

definition EXT4_XATTR_SIZE :: "nat \<Rightarrow> nat" where
  "EXT4_XATTR_SIZE n = 4 * ((n + 3) div 4)"

definition IS_LAST_ENTRY :: "u8 list \<Rightarrow> nat \<Rightarrow> bool res" where
  "IS_LAST_ENTRY bs e = (if e + 4 \<le> length bs then Inr (get32 bs e = 0) else Inl Fault)"

text \<open>The fields of the entry at \<open>e\<close>: name length, name index, value offset, block, size, hash, name.\<close>

record xattr_entry =
  e_name_len :: u8
  e_name_index :: u8
  e_value_offs :: u16
  e_value_block :: u32
  e_value_size :: u32
  e_hash :: u32
  e_name :: "u8 list"

definition read_entry :: "u8 list \<Rightarrow> nat \<Rightarrow> xattr_entry res" where
  "read_entry bs e =
     (if e + 16 \<le> length bs \<and> e + 16 + unat (bs ! e) \<le> length bs then
        Inr \<lparr>e_name_len = bs ! e, e_name_index = bs ! (e + 1), e_value_offs = get16 bs (e + 2),
             e_value_block = get32 bs (e + 4), e_value_size = get32 bs (e + 8), e_hash = get32 bs (e + 12),
             e_name = take (unat (bs ! e)) (drop (e + 16) bs)\<rparr>
      else Inl Fault)"

definition entry_bytes :: "xattr_entry \<Rightarrow> u8 list" where
  "entry_bytes x = [e_name_len x, e_name_index x] @ le16 (e_value_offs x) @ le32 (e_value_block x)
     @ le32 (e_value_size x) @ le32 (e_hash x) @ e_name x"

definition EXT4_XATTR_NEXT :: "u8 list \<Rightarrow> nat \<Rightarrow> nat res" where
  "EXT4_XATTR_NEXT bs e = rbind (rd bs e) (\<lambda>n. Inr (e + EXT4_XATTR_LEN (unat n)))"

lemma EXT4_XATTR_LEN_pos: "16 \<le> EXT4_XATTR_LEN n"
  by (simp add: EXT4_XATTR_LEN_def)

text \<open>
  \<open>xattr_free_space\<close>: the loop moves over the entries and takes the padded sizes of their values off
  the end. The padding of a size is computed in 32 bits.
\<close>

function free_space_loop :: "u8 list \<Rightarrow> nat \<Rightarrow> int \<Rightarrow> (nat \<times> int) res" where
  "free_space_loop bs e lim =
     rbind (IS_LAST_ENTRY bs e) (\<lambda>lst.
     if \<not> lst \<and> int e < lim then
       (if e + 12 > length bs then Inl Fault else
        free_space_loop bs (e + EXT4_XATTR_LEN (unat (bs ! e)))
          (lim - int (unat ((get32 bs (e + 8) + 3) AND NOT 3))))
     else Inr (e, lim))"
  by pat_completeness auto
termination
proof (relation "measure (\<lambda>(bs, e, lim). length bs - e)", goal_cases)
  case (2 bs e lim lst)
  have "e < e + EXT4_XATTR_LEN (unat (bs ! e))" using EXT4_XATTR_LEN_pos [of "unat (bs ! e)"] by linarith
  then show ?case using 2 by (simp add: IS_LAST_ENTRY_def split: if_splits)
qed simp

declare free_space_loop.simps [simp del]

definition xattr_free_space :: "bool \<Rightarrow> u8 list \<Rightarrow> nat \<Rightarrow> nat \<Rightarrow> nat res" where
  "xattr_free_space force bs first lim =
     rbind (free_space_loop bs first (int lim)) (\<lambda>(e, lim).
     if int e > lim then error_then force (Inr 0) else Inr (nat (lim - int e)))"

function xattr_get_last :: "u8 list \<Rightarrow> nat \<Rightarrow> nat res" where
  "xattr_get_last bs e =
     rbind (IS_LAST_ENTRY bs e) (\<lambda>lst.
     if lst then Inr e else xattr_get_last bs (e + EXT4_XATTR_LEN (unat (bs ! e))))"
  by pat_completeness auto
termination
proof (relation "measure (\<lambda>(bs, e). length bs - e)", goal_cases)
  case (2 bs e lst)
  have "e < e + EXT4_XATTR_LEN (unat (bs ! e))" using EXT4_XATTR_LEN_pos [of "unat (bs ! e)"] by linarith
  then show ?case using 2 by (simp add: IS_LAST_ENTRY_def split: if_splits)
qed simp

declare xattr_get_last.simps [simp del]

text \<open>The order of the entries: name index, length of the name, bytes of the name.\<close>

fun memcmp :: "u8 list \<Rightarrow> u8 list \<Rightarrow> int" where
  "memcmp (x # xs) (y # ys) = (if x = y then memcmp xs ys else uint x - uint y)"
| "memcmp _ _ = 0"

definition entry_cmp :: "xattr_entry \<Rightarrow> xattr_entry \<Rightarrow> int" where
  "entry_cmp nxt entry =
     (let cmp = uint (e_name_index nxt) - uint (e_name_index entry);
          cmp = (if cmp = 0 then uint (e_name_len nxt) - uint (e_name_len entry) else cmp) in
      if cmp = 0 then memcmp (e_name nxt) (e_name entry) else cmp)"

function xattr_assert_sane :: "bool \<Rightarrow> u8 list \<Rightarrow> nat \<Rightarrow> unit res" where
  "xattr_assert_sane force bs e =
     rbind (IS_LAST_ENTRY bs e) (\<lambda>lst.
     if lst then Inr () else
     let nxt = e + EXT4_XATTR_LEN (unat (bs ! e)) in
     rbind (IS_LAST_ENTRY bs nxt) (\<lambda>next_lst.
     if next_lst then Inr () else
     rbind (read_entry bs nxt) (\<lambda>n. rbind (read_entry bs e) (\<lambda>x.
     if entry_cmp n x \<le> 0 then error_then force (Inr ())
     else xattr_assert_sane force bs nxt))))"
  by pat_completeness auto
termination
proof (relation "measure (\<lambda>(force, bs, e). length bs - e)", goal_cases)
  case (2 force bs e lst nxt next_lst n x)
  have "e < e + EXT4_XATTR_LEN (unat (bs ! e))" using EXT4_XATTR_LEN_pos [of "unat (bs ! e)"] by linarith
  then show ?case using 2 by (simp add: IS_LAST_ENTRY_def split: if_splits)
qed simp

declare xattr_assert_sane.simps [simp del]

text \<open>The hash of an entry; the characters of the name are signed, as on x86.\<close>

definition hash_name :: "u8 list \<Rightarrow> u32" where
  "hash_name name = foldl (\<lambda>h c. push_bit 5 h XOR drop_bit 27 h XOR scast c) 0 name"

fun hash_value :: "u8 list \<Rightarrow> nat \<Rightarrow> nat \<Rightarrow> u32 \<Rightarrow> u32 res" where
  "hash_value bs off 0 h = Inr h"
| "hash_value bs off (Suc n) h =
     (if off + 4 \<le> length bs
      then hash_value bs (off + 4) n (push_bit 16 h XOR drop_bit 16 h XOR get32 bs off) else Inl Fault)"

definition ext4_xattr_hash_entry :: "u8 list \<Rightarrow> nat \<Rightarrow> u8 list res" where
  "ext4_xattr_hash_entry bs e =
     rbind (read_entry bs e) (\<lambda>x.
     let h = hash_name (e_name x) in
     rbind (if e_value_block x = 0 \<and> e_value_size x \<noteq> 0
            then hash_value bs (unat (e_value_offs x)) (unat (drop_bit 2 (e_value_size x + 3))) h
            else Inr h) (\<lambda>h.
     put_at bs (e + 12) (le32 h)))"

text \<open>
  \<open>xattr_addto_range\<close>: the new entry or \<open>None\<close>, and the region. \<open>start\<close> is where value offsets count
  from, \<open>lim\<close> the end of the region.
\<close>

definition xattr_addto_range ::
  "bool \<Rightarrow> u8 list \<Rightarrow> nat \<Rightarrow> nat \<Rightarrow> nat \<Rightarrow> u8 \<Rightarrow> u8 list \<Rightarrow> u8 list \<Rightarrow> (nat option \<times> u8 list) res" where
  "xattr_addto_range force bs start lim first name_index name value =
     (let name_len = length name; value_len = length value in
      if name_len > 255 then Inr (None, bs) else
      rbind (xattr_free_space force bs first lim) (\<lambda>available_size.
      let needed_size = EXT4_XATTR_LEN name_len + EXT4_XATTR_SIZE value_len in
      if needed_size > available_size then Inr (None, bs) else
      rbind (xattr_get_last bs first) (\<lambda>new_entry.
      rbind (put_at bs new_entry (replicate (EXT4_XATTR_LEN name_len) 0)) (\<lambda>bs.
      let val = new_entry + available_size - EXT4_XATTR_SIZE value_len in
      rbind (put_at bs new_entry (entry_bytes \<lparr>e_name_len = of_nat name_len, e_name_index = name_index,
               e_value_offs = of_nat val - of_nat start, e_value_block = 0,
               e_value_size = of_nat value_len, e_hash = 0, e_name = name\<rparr>)) (\<lambda>bs.
      rbind (put_at bs val (replicate (EXT4_XATTR_SIZE value_len) 0)) (\<lambda>bs.
      rbind (put_at bs val value) (\<lambda>bs.
      rbind (xattr_assert_sane force bs first) (\<lambda>_.
      Inr (Some new_entry, bs)))))))))"

section \<open>In the inode and in a block\<close>

text \<open>The bytes behind the inode start with the magic number; the first entry follows it.\<close>

definition xattr_addto_inode ::
  "build \<Rightarrow> bool \<Rightarrow> ptr \<Rightarrow> u8 \<Rightarrow> u8 list \<Rightarrow> u8 list \<Rightarrow> (bool \<times> build) res" where
  "xattr_addto_inode b force ino name_index name value =
     (let tail = inode_tail b ino in
      rbind (xattr_addto_range force tail 4 (length tail) 4 name_index name value) (\<lambda>(result, tail).
      case result of None \<Rightarrow> Inr (False, b\<lparr>inode_tail := (inode_tail b)(ino := tail)\<rparr>)
      | Some _ \<Rightarrow>
        rbind (put_at tail 0 (le32 EXT4_XATTR_MAGIC)) (\<lambda>tail.
        Inr (True, update_inode (b\<lparr>inode_tail := (inode_tail b)(ino := tail)\<rparr>) ino
          (\<lambda>i. i\<lparr>i_extra_isize := 28\<rparr>)))))"

definition xattr_list_find :: "build \<Rightarrow> ptr \<Rightarrow> nat option" where
  "xattr_list_find b ino = map_of (xattrs b) ino"

definition xattr_list_insert :: "build \<Rightarrow> ptr \<Rightarrow> nat \<Rightarrow> build" where
  "xattr_list_insert b ino header = b\<lparr>xattrs := (ino, header) # xattrs b\<rparr>"

text \<open>The failure of \<open>allocate_block\<close> is not looked at: its value becomes the block number.\<close>

definition get_xattr_block_for_inode :: "fs_info \<Rightarrow> build \<Rightarrow> bool \<Rightarrow> ptr \<Rightarrow> (nat \<times> build) res" where
  "get_xattr_block_for_inode info b force ino =
     (case xattr_list_find b ino of Some block \<Rightarrow> Inr (block, b)
      | None \<Rightarrow>
        rbind (allocate_block force (aux b)) (\<lambda>(block_num, a).
        let (block, b) = calloc (b\<lparr>aux := a\<rparr>) (replicate (unat (block_size info)) 0) in
        rbind (put_buf b block 0 (le32 EXT4_XATTR_MAGIC @ le32 1 @ le32 1)) (\<lambda>b.
        let b = update_inode b ino (\<lambda>i. i\<lparr>i_blocks_lo := i_blocks_lo i + block_size info div 512,
                  i_file_acl_lo := block_num\<rparr>) in
        rbind (add_data b (Calloc block, 0) (block_size info) block_num) (\<lambda>b.
        Inr (block, xattr_list_insert b ino block)))))"

definition xattr_addto_block ::
  "fs_info \<Rightarrow> build \<Rightarrow> bool \<Rightarrow> ptr \<Rightarrow> u8 \<Rightarrow> u8 list \<Rightarrow> u8 list \<Rightarrow> (bool \<times> build) res" where
  "xattr_addto_block info b force ino name_index name value =
     rbind (get_xattr_block_for_inode info b force ino) (\<lambda>(header, b).
     rbind (load (bufs b) header) (\<lambda>bs.
     rbind (xattr_addto_range force bs 0 (unat (block_size info)) 32 name_index name value) (\<lambda>(result, bs).
     case result of
       None \<Rightarrow> rbind (store (bufs b) header bs) (\<lambda>m. Inr (False, b\<lparr>bufs := m\<rparr>))
     | Some e \<Rightarrow> rbind (ext4_xattr_hash_entry bs e) (\<lambda>bs.
         rbind (store (bufs b) header bs) (\<lambda>m. Inr (True, b\<lparr>bufs := m\<rparr>))))))"

text \<open>A null value is \<open>None\<close>. The result is whether the function returned 0.\<close>

definition xattr_add ::
  "fs_info \<Rightarrow> build \<Rightarrow> bool \<Rightarrow> u32 \<Rightarrow> u8 \<Rightarrow> u8 list \<Rightarrow> u8 list option \<Rightarrow> (bool \<times> build) res" where
  "xattr_add info b force inode_num name_index name value =
     (case value of None \<Rightarrow> Inr (True, b) | Some value \<Rightarrow>
      rbind (get_inode_ptr info b inode_num) (\<lambda>(ino, b).
      rbind (xattr_addto_inode b force ino name_index name value) (\<lambda>(done, b).
      if done then Inr (True, b)
      else xattr_addto_block info b force ino name_index name value)))"

text \<open>\<open>struct vfs_cap_data\<close> of revision 2 with the effective flag.\<close>

definition vfs_cap_data :: "u64 \<Rightarrow> u8 list" where
  "vfs_cap_data caps = le32 (0x02000000 OR 0x000001) @ le32 (ucast (caps AND 0xffffffff)) @ le32 0
     @ le32 (ucast (drop_bit 32 caps)) @ le32 0"

definition inode_set_capabilities ::
  "fs_info \<Rightarrow> build \<Rightarrow> bool \<Rightarrow> u32 \<Rightarrow> u64 \<Rightarrow> (bool \<times> build) res" where
  "inode_set_capabilities info b force inode_num caps =
     (if caps = 0 then Inr (True, b) else
      xattr_add info b force inode_num EXT4_XATTR_INDEX_SECURITY (chars ''capability'') (Some (vfs_cap_data caps)))"

end
