(* ===== verification/Fixup.thy ===== *)
theory Fixup
  imports Extents
begin

text \<open>
  \<^verbatim>\<open>src/ext4fixup.c\<close> with \<open>read_ext\<close> of \<^verbatim>\<open>src/ext4_utils.c\<close>: the tool that renumbers the inodes of an
  image whose groups did not hold a whole number of blocks of inodes. It works in three passes that
  can be interrupted and resumed: a state word in the first bytes of the image says which pass is
  due, and while it is set a bit in the superblock keeps the image from being mounted. Everything
  that is only printed is left out. \<open>stop\<close> holds the phase, place and count at which a test asks
  the tool to fail.
\<close>

section \<open>State\<close>

abbreviation MAGIC_STATE_MARKING_INUMS :: u64 where "MAGIC_STATE_MARKING_INUMS \<equiv> 0x7000151515565512"
abbreviation MAGIC_STATE_UPDATING_INUMS :: u64 where "MAGIC_STATE_UPDATING_INUMS \<equiv> 0x6121131211735123"
abbreviation MAGIC_STATE_UPDATING_SB :: u64 where "MAGIC_STATE_UPDATING_SB \<equiv> 0x15E1715151558477"

datatype fixup_state = STATE_UNSET | STATE_MARKING_INUMS | STATE_UPDATING_INUMS | STATE_UPDATING_SB

datatype pass = SANITY_CHECK_PASS | MARK_INODE_NUMS | UPDATE_INODE_NUMS

fun pass_number :: "pass \<Rightarrow> int" where
  "pass_number SANITY_CHECK_PASS = 1"
| "pass_number MARK_INODE_NUMS = 2"
| "pass_number UPDATE_INODE_NUMS = 3"

text \<open>
  What a run carries along: the image, the descriptors in memory, the debugging counter and the state
  kept in memory when nothing is to be written. \<open>conf\<close> holds what stays the same.
\<close>

record fixup =
  fx_fd :: fd_file
  fx_desc :: "ext2_group_desc list"
  fx_count :: int
  fx_state :: fixup_state

record conf =
  cf_info :: fs_info
  cf_geom :: fs_geom
  no_write :: bool
  stop :: "int \<times> int \<times> int"

definition compute_new_inum :: "fs_info \<Rightarrow> u32 \<Rightarrow> u32 \<Rightarrow> u32 res" where
  "compute_new_inum info old_inum new_inodes_per_group =
     rbind (udiv (old_inum - 1) (inodes_per_group info)) (\<lambda>group.
     rbind (umod (old_inum - 1) (inodes_per_group info)) (\<lambda>offset.
     Inr (group * new_inodes_per_group + offset + 1)))"

section \<open>Reading and writing\<close>

text \<open>\<open>lseek\<close> and \<open>read\<close> or \<open>write\<close> of a whole piece, or the critical error.\<close>

definition read_at :: "fixup \<Rightarrow> u64 \<Rightarrow> nat \<Rightarrow> (u8 list \<times> fixup) res" where
  "read_at x off n =
     (if sint off < 0 then Inl Critical else
      let (ret, got, fd) = read_all ((fx_fd x)\<lparr>fd_pos := unat off\<rparr>) n in
      if ret < 0 then Inl Critical else Inr (got, x\<lparr>fx_fd := fd\<rparr>))"

definition write_at :: "fixup \<Rightarrow> u64 \<Rightarrow> u8 list \<Rightarrow> fixup res" where
  "write_at x off bytes =
     (if sint off < 0 then Inl Critical else
      let (ret, fd) = write_whole ((fx_fd x)\<lparr>fd_pos := unat off\<rparr>) bytes in
      if ret < 0 then Inl Critical else Inr (x\<lparr>fx_fd := fd\<rparr>))"

definition magic_of :: "fixup_state \<Rightarrow> u64" where
  "magic_of s = (case s of STATE_MARKING_INUMS \<Rightarrow> MAGIC_STATE_MARKING_INUMS
     | STATE_UPDATING_INUMS \<Rightarrow> MAGIC_STATE_UPDATING_INUMS
     | STATE_UPDATING_SB \<Rightarrow> MAGIC_STATE_UPDATING_SB | STATE_UNSET \<Rightarrow> 0)"

definition state_of :: "u64 \<Rightarrow> fixup_state" where
  "state_of magic = (if magic = MAGIC_STATE_MARKING_INUMS then STATE_MARKING_INUMS
     else if magic = MAGIC_STATE_UPDATING_INUMS then STATE_UPDATING_INUMS
     else if magic = MAGIC_STATE_UPDATING_SB then STATE_UPDATING_SB else STATE_UNSET)"

definition get_fs_fixup_state :: "conf \<Rightarrow> fixup \<Rightarrow> (fixup_state \<times> fixup) res" where
  "get_fs_fixup_state cf x =
     (if no_write cf then Inr (fx_state x, x) else
      rbind (read_at x 0 8) (\<lambda>(bs, x). Inr (state_of (fst (take64 bs)), x)))"

definition set_fs_fixup_state :: "conf \<Rightarrow> fixup_state \<Rightarrow> fixup \<Rightarrow> fixup res" where
  "set_fs_fixup_state cf s x =
     (if no_write cf then Inr (x\<lparr>fx_state := s\<rparr>) else
      let magic = magic_of s in
      rbind (write_at x 0 (le64 magic)) (\<lambda>x.
      rbind (read_sb (fx_fd x)) (\<lambda>(sb, fd).
      let sb = (if magic \<noteq> 0 then sb\<lparr>s_desc_size := s_desc_size sb OR 1\<rparr>
                else sb\<lparr>s_desc_size := s_desc_size sb AND NOT 1\<rparr>) in
      rbind (write_sb fd 1024 sb) (\<lambda>fd. Inr (x\<lparr>fx_fd := fd\<rparr>)))))"

definition read_inode :: "conf \<Rightarrow> fixup \<Rightarrow> u32 \<Rightarrow> (ext4_inode \<times> fixup) res" where
  "read_inode cf x inum =
     (let info = cf_info cf in
      rbind (udiv (inum - 1) (inodes_per_group info)) (\<lambda>bg_num.
      rbind (umod (inum - 1) (inodes_per_group info)) (\<lambda>bg_offset.
      rbind (rd (fx_desc x) (unat bg_num)) (\<lambda>d.
      rbind (read_at x (ucast (bg_inode_table d) * ucast (block_size info)
                        + ucast (bg_offset * inode_size info)) 156) (\<lambda>(bs, x).
      Inr (inode_of_bytes bs, x))))))"

text \<open>
  \<open>read_block\<close>: the comma in \<open>if (lseek(...), 0)\<close> throws the result of the seek away, so a block
  beyond the largest offset is read from wherever the file stands.
\<close>

definition read_block :: "conf \<Rightarrow> fixup \<Rightarrow> u64 \<Rightarrow> (u8 list \<times> fixup) res" where
  "read_block cf x block_num =
     (let off = block_num * ucast (block_size (cf_info cf));
          fd = (if sint off < 0 then fx_fd x else (fx_fd x)\<lparr>fd_pos := unat off\<rparr>);
          (ret, got, fd) = read_all fd (unat (block_size (cf_info cf))) in
      if ret < 0 then Inl Critical else Inr (got, x\<lparr>fx_fd := fd\<rparr>))"

definition write_block :: "conf \<Rightarrow> fixup \<Rightarrow> u64 \<Rightarrow> u8 list \<Rightarrow> fixup res" where
  "write_block cf x block_num bytes =
     (if no_write cf then Inr x else write_at x (block_num * ucast (block_size (cf_info cf))) bytes)"

text \<open>The geometry is read from the image; the descriptors follow the primary superblock.\<close>

fun take_descs :: "nat \<Rightarrow> u8 list \<Rightarrow> ext2_group_desc list" where
  "take_descs 0 bs = []"
| "take_descs (Suc n) bs = desc_of_bytes bs # take_descs n (drop 32 bs)"

definition read_ext :: "fs_info \<Rightarrow> bool \<Rightarrow> fixup \<Rightarrow> (fs_info \<times> fs_geom \<times> ext4_super_block \<times> fixup) res" where
  "read_ext info force x =
     rbind (read_sb (fx_fd x)) (\<lambda>(sb, fd).
     rbind (ext4_parse_sb_info info force sb) (\<lambda>(info, geom, sb).
     if sint (len info) < 0 then Inl Critical else
     let n = block_size info * bg_desc_blocks geom in
     rbind (read_at (x\<lparr>fx_fd := fd\<rparr>) (ucast (block_size info * (first_data_block geom + 1))) (unat n))
       (\<lambda>(bs, x).
     Inr (info, geom, sb, x\<lparr>fx_desc := take_descs (unat n div 32) bs\<rparr>))))"

section \<open>The blocks of a directory\<close>

text \<open>
  A block list is an array whose cells are undefined (\<open>None\<close>) until they are written; a store past
  its end or the use of an undefined cell is a \<open>Fault\<close>. Headers and extents are read from the bytes
  they lie in.
\<close>

definition word_at :: "u8 list \<Rightarrow> nat \<Rightarrow> u32 res" where
  "word_at bs i = (if i + 4 \<le> length bs then Inr (get32 bs i) else Inl Fault)"

fun get_direct :: "nat \<Rightarrow> u32 list \<Rightarrow> u64 option list \<Rightarrow> u64 option list res" where
  "get_direct 0 blocks bl = Inr bl"
| "get_direct (Suc n) blocks bl =
     rbind (get_direct n blocks bl) (\<lambda>bl. rbind (rd blocks n) (\<lambda>b. wr bl n (Some (ucast b))))"

definition get_direct_blocks ::
  "fs_info \<Rightarrow> ext4_inode \<Rightarrow> u64 option list \<Rightarrow> (bool \<times> u64 option list) res" where
  "get_direct_blocks info ino bl =
     rbind (udiv (i_blocks_lo ino) (block_size info div 512)) (\<lambda>n.
     rbind (get_direct (min (unat n) 12) (i_block ino) bl) (\<lambda>bl. Inr (n > 12, bl)))"

fun get_indirect :: "nat list \<Rightarrow> u8 list \<Rightarrow> u64 option list \<Rightarrow> u64 option list res" where
  "get_indirect [] bs bl = Inr bl"
| "get_indirect (i # is) bs bl =
     rbind (word_at bs (4 * i)) (\<lambda>w. rbind (wr bl (12 + i) (Some (ucast w))) (get_indirect is bs))"

definition get_indirect_blocks ::
  "conf \<Rightarrow> fixup \<Rightarrow> ext4_inode \<Rightarrow> u64 option list \<Rightarrow> (u64 option list \<times> fixup) res" where
  "get_indirect_blocks cf x ino bl =
     rbind (rd (i_block ino) 12) (\<lambda>ind.
     rbind (read_block cf x (ucast ind)) (\<lambda>(bs, x).
     rbind (udiv (i_blocks_lo ino) (block_size (cf_info cf) div 512)) (\<lambda>n.
     rbind (get_indirect [0..<unat (n - 12)] bs bl) (\<lambda>bl. Inr (bl, x)))))"

definition get_block_list_indirect ::
  "conf \<Rightarrow> fixup \<Rightarrow> ext4_inode \<Rightarrow> u64 option list \<Rightarrow> (u64 option list \<times> fixup) res" where
  "get_block_list_indirect cf x ino bl =
     rbind (get_direct_blocks (cf_info cf) ino bl) (\<lambda>(more, bl).
     if more then get_indirect_blocks cf x ino bl else Inr (bl, x))"

fun extent_run :: "nat \<Rightarrow> u32 \<Rightarrow> u64 \<Rightarrow> u64 option list \<Rightarrow> u64 option list res" where
  "extent_run 0 at phys bl = Inr bl"
| "extent_run (Suc n) at phys bl =
     rbind (extent_run n at phys bl) (\<lambda>bl. wr bl (unat (at + of_nat n)) (Some (phys + of_nat n)))"

fun extent_entries :: "nat list \<Rightarrow> u8 list \<Rightarrow> u64 option list \<Rightarrow> u64 option list res" where
  "extent_entries [] bs bl = Inr bl"
| "extent_entries (i # is) bs bl =
     rbind (word_at bs (12 + 12 * i)) (\<lambda>at.
     rbind (word_at bs (12 + 12 * i + 4)) (\<lambda>len_hi.
     rbind (word_at bs (12 + 12 * i + 8)) (\<lambda>lo.
     rbind (extent_run (unat (ucast len_hi :: u16)) at
              (push_bit 32 (ucast (drop_bit 16 len_hi)) OR ucast lo) bl) (\<lambda>bl.
     extent_entries is bs bl))))"

text \<open>The entries and the depth of the header at the start of the bytes.\<close>

definition header_entries :: "u8 list \<Rightarrow> nat res" where
  "header_entries bs = rbind (word_at bs 0) (\<lambda>w. Inr (unat (ucast (drop_bit 16 w) :: u16)))"

definition header_depth :: "u8 list \<Rightarrow> u16 res" where
  "header_depth bs = rbind (word_at bs 4) (\<lambda>w. Inr (ucast (drop_bit 16 w)))"

definition get_extent_ents :: "u8 list \<Rightarrow> u64 option list \<Rightarrow> u64 option list res" where
  "get_extent_ents bs bl =
     rbind (header_depth bs) (\<lambda>depth. if depth \<noteq> 0 then Inl Critical else
     rbind (header_entries bs) (\<lambda>n. extent_entries [0..<n] bs bl))"

text \<open>
  \<open>get_extent_idx\<close> never moves on from the first index. The block goes into a buffer of 4096 bytes.
  \<open>fuel\<close> bounds the depth of the tree.
\<close>

fun extent_children :: "(fixup \<Rightarrow> u8 list \<Rightarrow> u64 option list \<Rightarrow> (u64 option list \<times> fixup) res) \<Rightarrow>
    nat \<Rightarrow> conf \<Rightarrow> fixup \<Rightarrow> u8 list \<Rightarrow> u64 option list \<Rightarrow> (u64 option list \<times> fixup) res" where
  "extent_children below 0 cf x bs bl = Inr (bl, x)"
| "extent_children below (Suc n) cf x bs bl =
     rbind (word_at bs 16) (\<lambda>lo. rbind (word_at bs 20) (\<lambda>hi.
     if block_size (cf_info cf) > 4096 then Inl Fault else
     rbind (read_block cf x (push_bit 32 (ucast (ucast hi :: u16)) OR ucast lo)) (\<lambda>(child, x).
     rbind (header_depth child) (\<lambda>depth.
     rbind (if depth = 0 then rbind (get_extent_ents child bl) (\<lambda>bl. Inr (bl, x))
            else below x child bl) (\<lambda>(bl, x).
     extent_children below n cf x bs bl)))))"

fun get_extent_idx :: "nat \<Rightarrow> conf \<Rightarrow> fixup \<Rightarrow> u8 list \<Rightarrow> u64 option list \<Rightarrow> (u64 option list \<times> fixup) res" where
  "get_extent_idx 0 cf x bs bl = Inl Diverge"
| "get_extent_idx (Suc fuel) cf x bs bl =
     rbind (header_depth bs) (\<lambda>depth. if depth = 0 then Inl Critical else
     rbind (header_entries bs) (\<lambda>n. extent_children (get_extent_idx fuel cf) n cf x bs bl))"

text \<open>A path through more blocks than the image has bytes comes back to a block and never ends.\<close>

definition get_block_list_extents ::
  "conf \<Rightarrow> fixup \<Rightarrow> ext4_inode \<Rightarrow> u64 option list \<Rightarrow> (u64 option list \<times> fixup) res" where
  "get_block_list_extents cf x ino bl =
     (let bs = le32s (i_block ino) in
      if get16 bs 0 \<noteq> EXT4_EXT_MAGIC then Inl Critical else
      rbind (header_depth bs) (\<lambda>depth.
      if depth = 0 then rbind (get_extent_ents bs bl) (\<lambda>bl. Inr (bl, x))
      else get_extent_idx (Suc (length (fd_bytes (fx_fd x)))) cf x bs bl))"

section \<open>Walking the directories\<close>

definition S_ISDIR :: "u16 \<Rightarrow> bool" where
  "S_ISDIR mode \<longleftrightarrow> mode AND 0xF000 = 0x4000"

abbreviation high_bit :: u32 where "high_bit \<equiv> 0x80000000"
abbreviation low_bits :: u32 where "low_bits \<equiv> 0x7FFFFFFF"

definition byte_at :: "u8 list \<Rightarrow> nat \<Rightarrow> u8 res" where
  "byte_at bs i = rd bs i"

definition half_at :: "u8 list \<Rightarrow> nat \<Rightarrow> u16 res" where
  "half_at bs i = (if i + 2 \<le> length bs then Inr (get16 bs i) else Inl Fault)"

text \<open>The name copied by \<open>strncpy\<close>, which stops at a zero byte.\<close>

definition name_at :: "u8 list \<Rightarrow> nat \<Rightarrow> nat \<Rightarrow> u8 list res" where
  "name_at bs i n =
     (let s = take n (drop i bs); t = takeWhile (\<lambda>c. c \<noteq> 0) s in
      if length s < n \<and> length t = length s then Inl Fault else Inr t)"

definition is_entry_dir :: "conf \<Rightarrow> fixup \<Rightarrow> u32 \<Rightarrow> u8 \<Rightarrow> pass \<Rightarrow> (bool \<times> fixup) res" where
  "is_entry_dir cf x inode ft pass =
     (if ft = 2 then Inr (True, x)
      else if ft = 0 then
        (if pass = UPDATE_INODE_NUMS \<and> inode AND high_bit = 0 then Inr (False, x)
         else rbind (read_inode cf x (inode AND low_bits)) (\<lambda>(ino, x). Inr (S_ISDIR (i_mode ino), x)))
      else Inr (False, x))"

text \<open>What a pass does to the inode number of an entry.\<close>

definition renumber :: "conf \<Rightarrow> pass \<Rightarrow> u32 \<Rightarrow> u32 \<Rightarrow> u32 res" where
  "renumber cf pass new_inodes_per_group inode =
     (case pass of SANITY_CHECK_PASS \<Rightarrow> Inr inode
      | MARK_INODE_NUMS \<Rightarrow> Inr (inode OR high_bit)
      | UPDATE_INODE_NUMS \<Rightarrow>
          if inode AND high_bit \<noteq> 0
          then compute_new_inum (cf_info cf) (inode AND low_bits) new_inodes_per_group else Inr inode)"

text \<open>
  The loop over the entries of a directory. \<open>sub\<close> walks a directory below. A record length of zero
  keeps the loop at the entry for ever.
\<close>

function dir_entries :: "(fixup \<Rightarrow> ext4_inode \<Rightarrow> fixup res) \<Rightarrow> conf \<Rightarrow> pass \<Rightarrow> u32 \<Rightarrow> fixup \<Rightarrow> u8 list \<Rightarrow>
    nat \<Rightarrow> nat option \<Rightarrow> (fixup \<times> u8 list) res" where
  "dir_entries sub cf pass new_ipg x buf off prev =
     (if off < length buf then
        let x = x\<lparr>fx_count := fx_count x + 1\<rparr>; leftover = length buf - off in
        if pass \<noteq> MARK_INODE_NUMS \<and> leftover \<le> 8 \<and> prev \<noteq> None then
          rbind (half_at buf (the prev + 4)) (\<lambda>r.
          rbind (put_at buf (the prev + 4) (le16 (r + of_nat leftover))) (\<lambda>buf. Inr (x, buf)))
        else
          rbind (word_at buf off) (\<lambda>inode.
          if inode = 0 then Inr (x, buf) else
          rbind (byte_at buf (off + 6)) (\<lambda>name_len.
          rbind (name_at buf (off + 8) (unat name_len)) (\<lambda>name.
          rbind (byte_at buf (off + 7)) (\<lambda>ft.
          rbind (is_entry_dir cf x inode ft pass) (\<lambda>(is_dir, x).
          rbind (if is_dir \<and> name \<noteq> [0x2E] \<and> name \<noteq> [0x2E, 0x2E]
                    \<and> (pass \<noteq> UPDATE_INODE_NUMS \<or> inode AND high_bit \<noteq> 0) then
                   rbind (read_inode cf x (inode AND low_bits)) (\<lambda>(ino, x).
                   if \<not> S_ISDIR (i_mode ino) then Inl Critical
                   else if sint (i_blocks_lo ino * 512) < 0 then Inl Critical
                   else sub x ino)
                 else Inr x) (\<lambda>x.
          rbind (renumber cf pass new_ipg inode) (\<lambda>inode'.
          rbind (put_at buf off (le32 inode')) (\<lambda>buf'.
          if stop cf = (pass_number pass, 1, fx_count x) then Inl Critical else
          rbind (half_at buf' (off + 4)) (\<lambda>r.
          if r = 0 then Inl Diverge
          else dir_entries sub cf pass new_ipg x buf' (off + unat r) (Some off))))))))))
      else Inr (x, buf))"
  by pat_completeness auto
termination
  by (relation "measure (\<lambda>(sub, cf, pass, n, x, buf, off, prev). length buf - off)")
    (auto dest!: put_at_length simp: unat_gt_0 intro!: diff_less_mono2 split: if_splits)

declare dir_entries.simps [simp del]

fun read_dir_blocks :: "nat list \<Rightarrow> conf \<Rightarrow> fixup \<Rightarrow> u64 option list \<Rightarrow> (u8 list \<times> fixup) res" where
  "read_dir_blocks [] cf x bl = Inr ([], x)"
| "read_dir_blocks (i # is) cf x bl =
     rbind (rd bl i) (\<lambda>b. case b of None \<Rightarrow> Inl Fault | Some block \<Rightarrow>
     rbind (read_block cf x block) (\<lambda>(bs, x).
     rbind (read_dir_blocks is cf x bl) (\<lambda>(more, x). Inr (bs @ more, x))))"

fun write_dir_blocks :: "nat list \<Rightarrow> conf \<Rightarrow> pass \<Rightarrow> fixup \<Rightarrow> u64 option list \<Rightarrow> u8 list \<Rightarrow> fixup res" where
  "write_dir_blocks [] cf pass x bl buf = Inr x"
| "write_dir_blocks (i # is) cf pass x bl buf =
     (let bs = unat (block_size (cf_info cf)) in
      rbind (rd bl i) (\<lambda>b. case b of None \<Rightarrow> Inl Fault | Some block \<Rightarrow>
      rbind (write_block cf x block (take bs (drop (i * bs) buf))) (\<lambda>x.
      case stop cf of (phase, loc, cnt) \<Rightarrow>
      if phase = pass_number pass \<and> loc = 2 \<and> cnt \<le> fx_count x then Inl Critical
      else write_dir_blocks is cf pass x bl buf)))"

text \<open>
  \<open>recurse_dir\<close> for a directory of \<open>i_blocks_lo * 512\<close> bytes. A chain of more directories than the
  image has bytes holds one of them twice and never ends.
\<close>

fun recurse_dir :: "nat \<Rightarrow> conf \<Rightarrow> pass \<Rightarrow> u32 \<Rightarrow> fixup \<Rightarrow> ext4_inode \<Rightarrow> fixup res" where
  "recurse_dir 0 cf pass new_ipg x ino = Inl Diverge"
| "recurse_dir (Suc fuel) cf pass new_ipg x ino =
     (let dirsize = i_blocks_lo ino * 512; bs = block_size (cf_info cf) in
      rbind (umod dirsize bs) (\<lambda>md. if md \<noteq> 0 then Inl Critical else
      rbind (udiv dirsize bs) (\<lambda>num_blocks.
      let bl = replicate (unat num_blocks + 1) None in
      rbind (if i_flags ino AND EXT4_EXTENTS_FL \<noteq> 0 then get_block_list_extents cf x ino bl
             else if num_blocks > bs div 4 + 12 then Inl Critical
             else get_block_list_indirect cf x ino bl) (\<lambda>(bl, x).
      rbind (read_dir_blocks [0..<unat num_blocks] cf x bl) (\<lambda>(buf, x).
      rbind (dir_entries (recurse_dir fuel cf pass new_ipg) cf pass new_ipg x buf 0 None) (\<lambda>(x, buf).
      write_dir_blocks [0..<unat num_blocks] cf pass x bl buf))))))"

section \<open>The superblocks\<close>

fun clear_bits :: "nat list \<Rightarrow> u8 list \<Rightarrow> (bool \<times> u8 list) res" where
  "clear_bits [] bm = Inr (False, bm)"
| "clear_bits (i # is) bm =
     rbind (bitmap_get_bit bm 0 (of_nat i)) (\<lambda>set.
     rbind (if set then bitmap_clear_bit bm 0 (of_nat i) else Inr bm) (\<lambda>bm.
     rbind (clear_bits is bm) (\<lambda>(updated, bm). Inr (set \<or> updated, bm))))"

definition check_inode_bitmap :: "conf \<Rightarrow> fixup \<Rightarrow> nat \<Rightarrow> u32 \<Rightarrow> fixup res" where
  "check_inode_bitmap cf x bg_num new_ipg =
     (if block_size (cf_info cf) > 4096 then Inl Fault else
      rbind (rd (fx_desc x) bg_num) (\<lambda>d.
      rbind (read_block cf x (ucast (bg_inode_bitmap d))) (\<lambda>(bm, x).
      rbind (clear_bits [unat (inodes_per_group (cf_info cf))..<unat new_ipg] bm) (\<lambda>(updated, bm).
      if updated then write_block cf x (ucast (bg_inode_bitmap d)) bm else Inr x))))"

fun update_descs :: "nat list \<Rightarrow> conf \<Rightarrow> bool \<Rightarrow> u32 \<Rightarrow> u32 \<Rightarrow> fixup \<Rightarrow> fixup res" where
  "update_descs [] cf updating extra new_ipg x = Inr x"
| "update_descs (i # is) cf updating extra new_ipg x =
     rbind (if updating then
              rbind (rd (fx_desc x) i) (\<lambda>d.
              rbind (wr (fx_desc x) i (d\<lparr>bg_free_inodes_count := bg_free_inodes_count d + ucast extra\<rparr>)) (\<lambda>ds.
              Inr (x\<lparr>fx_desc := ds\<rparr>)))
            else Inr x) (\<lambda>x.
     rbind (check_inode_bitmap cf x i new_ipg) (\<lambda>x.
     update_descs is cf updating extra new_ipg x))"

text \<open>Group \<open>i\<close>: the superblock goes to its first block as if group 0 began at block 0.\<close>

fun write_copies :: "nat list \<Rightarrow> conf \<Rightarrow> ext4_super_block \<Rightarrow> fixup \<Rightarrow> fixup res" where
  "write_copies [] cf sb x = Inr x"
| "write_copies (i # is) cf sb x =
     (let info = cf_info cf;
          base = of_nat i * ucast (blocks_per_group info) * ucast (block_size info) :: u64;
          table = base + ucast (block_size info * (first_data_block (cf_geom cf) + 1)) in
      rbind (ext4_bg_has_super_block info (of_nat i)) (\<lambda>has.
      rbind (if has then
               (let sb = sb\<lparr>s_block_group_nr := of_nat i\<rparr>;
                    sb = (if i \<noteq> 0 then sb\<lparr>s_desc_size := s_desc_size sb AND NOT 1\<rparr> else sb) in
                rbind (if no_write cf then Inr x
                       else rbind (write_sb (fx_fd x) (base + (if i = 0 then 1024 else 0)) sb) (\<lambda>fd.
                              Inr (x\<lparr>fx_fd := fd\<rparr>))) (\<lambda>x.
                if sint table < 0 then Inl Critical else
                rbind (if no_write cf then Inr x
                       else write_at x table (take (unat (block_size info * bg_desc_blocks (cf_geom cf)))
                              (concat (map desc_bytes (fx_desc x))))) (\<lambda>x. Inr (sb, x))))
             else Inr (sb, x)) (\<lambda>(sb, x).
      case stop cf of (phase, loc, cnt) \<Rightarrow>
      if phase = 4 \<and> cnt = int i then Inl Critical else write_copies is cf sb x)))"

definition update_superblocks_and_bg_desc :: "conf \<Rightarrow> fixup_state \<Rightarrow> u32 \<Rightarrow> fixup \<Rightarrow> fixup res" where
  "update_superblocks_and_bg_desc cf s new_ipg x =
     (let info = cf_info cf in
      rbind (read_sb (fx_fd x)) (\<lambda>(sb, fd).
      let x = x\<lparr>fx_fd := fd\<rparr>; extra = new_ipg - s_inodes_per_group sb in
      rbind (DIV_ROUND_UP (len_blocks (cf_geom cf)) (ucast (blocks_per_group info))) (\<lambda>q.
      let num_block_groups = ucast q :: u32; total_new_inodes = num_block_groups * extra in
      rbind (update_descs [0..<unat num_block_groups] cf (s = STATE_UPDATING_SB) extra new_ipg x) (\<lambda>x.
      if s_inodes_count sb + total_new_inodes \<noteq> new_ipg * num_block_groups then Inl Critical else
      rbind (udiv (block_size info) (inode_size info)) (\<lambda>per_block.
      rbind (umod new_ipg per_block) (\<lambda>md. if md \<noteq> 0 then Inl Critical else
      write_copies [0..<unat (groups (cf_geom cf))] cf
        (sb\<lparr>s_inodes_count := s_inodes_count sb + total_new_inodes,
            s_free_inodes_count := s_free_inodes_count sb + total_new_inodes,
            s_inodes_per_group := new_ipg\<rparr>) x))))))"

section \<open>The tool\<close>

abbreviation EXT4_FEATURE_INCOMPAT_FILETYPE :: u16 where "EXT4_FEATURE_INCOMPAT_FILETYPE \<equiv> 0x0002"
abbreviation EXT4_FEATURE_INCOMPAT_RECOVER :: u16 where "EXT4_FEATURE_INCOMPAT_RECOVER \<equiv> 0x0004"

definition walk_root :: "conf \<Rightarrow> pass \<Rightarrow> u32 \<Rightarrow> ext4_inode \<Rightarrow> fixup \<Rightarrow> fixup res" where
  "walk_root cf pass new_ipg root x =
     (if sint (i_blocks_lo root * 512) < 0 then Inl Fault
      else recurse_dir (Suc (length (fd_bytes (fx_fd x)))) cf pass new_ipg x root)"

text \<open>
  The four steps, each of which runs when the state calls for it. The first one calls \<open>recurse_dir\<close>
  with the caller's \<open>no_write\<close>, and only \<open>update_superblocks_and_bg_desc\<close> with writing switched off.
\<close>

definition fixup_steps :: "conf \<Rightarrow> u32 \<Rightarrow> ext4_inode \<Rightarrow> fixup \<Rightarrow> fixup res" where
  "fixup_steps cf new_ipg root x =
     rbind (get_fs_fixup_state cf x) (\<lambda>(s, x).
     rbind (if s = STATE_UNSET then
              rbind (walk_root cf SANITY_CHECK_PASS new_ipg root x) (\<lambda>x.
              rbind (update_superblocks_and_bg_desc (cf\<lparr>no_write := True\<rparr>) STATE_UNSET new_ipg x) (\<lambda>x.
              set_fs_fixup_state cf STATE_MARKING_INUMS x))
            else Inr x) (\<lambda>x.
     rbind (get_fs_fixup_state cf x) (\<lambda>(s, x).
     rbind (if s = STATE_MARKING_INUMS then
              rbind (walk_root cf MARK_INODE_NUMS new_ipg root (x\<lparr>fx_count := 0\<rparr>)) (\<lambda>x.
              set_fs_fixup_state cf STATE_UPDATING_INUMS x)
            else Inr x) (\<lambda>x.
     rbind (get_fs_fixup_state cf x) (\<lambda>(s, x).
     rbind (if s = STATE_UPDATING_INUMS then
              rbind (walk_root cf UPDATE_INODE_NUMS new_ipg root (x\<lparr>fx_count := 0\<rparr>)) (\<lambda>x.
              set_fs_fixup_state cf STATE_UPDATING_SB x)
            else Inr x) (\<lambda>x.
     rbind (get_fs_fixup_state cf x) (\<lambda>(s, x).
     if s = STATE_UPDATING_SB then
       rbind (update_superblocks_and_bg_desc cf STATE_UPDATING_SB new_ipg x) (\<lambda>x.
       set_fs_fixup_state cf STATE_UNSET x)
     else Inr x)))))))"

definition ext4fixup_internal ::
  "fs_info \<Rightarrow> bool \<Rightarrow> bool \<Rightarrow> int \<times> int \<times> int \<Rightarrow> fd_file \<Rightarrow> fixup res" where
  "ext4fixup_internal info force no_wr bail fd =
     rbind (read_ext info force \<lparr>fx_fd = fd, fx_desc = [], fx_count = 0, fx_state = STATE_UNSET\<rparr>)
       (\<lambda>(info, geom, sb, x).
     let cf = \<lparr>cf_info = info, cf_geom = geom, no_write = no_wr, stop = bail\<rparr> in
     if feat_incompat info AND EXT4_FEATURE_INCOMPAT_RECOVER \<noteq> 0 then Inl Critical else
     if s_desc_size sb AND NOT 1 \<noteq> 32 \<and> s_desc_size sb AND NOT 1 \<noteq> 0 then Inl Critical else
     if feat_incompat info AND EXT4_FEATURE_INCOMPAT_FILETYPE = 0 then Inl Critical else
     rbind (udiv (block_size info) (inode_size info)) (\<lambda>per_block.
     rbind (EXT4_ALIGN (inodes_per_group info) per_block) (\<lambda>new_ipg.
     rbind (read_inode cf x 2) (\<lambda>(root, x).
     if \<not> S_ISDIR (i_mode root) then Inl Critical else fixup_steps cf new_ipg root x))))"

definition ext4fixup :: "fs_info \<Rightarrow> bool \<Rightarrow> bool \<Rightarrow> fd_file \<Rightarrow> fixup res" where
  "ext4fixup info force no_wr fd = ext4fixup_internal info force no_wr (0, 0, 0) fd"

end
