(* ===== verification/Canned_Config.thy ===== *)
theory Canned_Config
  imports C_Text "HOL-Library.Multiset"
begin

text \<open>
  \<^verbatim>\<open>src/canned_fs_config.c\<close>: the table of owners and modes read from a file. A file is the list of
  its characters, or \<open>None\<close> when it cannot be opened. \<open>fgets\<close>, \<open>strtok\<close>, \<open>strtol\<close>, \<open>strcmp\<close>, \<open>qsort\<close> and
  \<open>bsearch\<close> are written out as far as the code uses them; \<open>qsort\<close>, which may leave equal elements in
  any order, is a stable insertion sort here.
\<close>

section \<open>Text\<close>

text \<open>The lines \<open>fgets\<close> returns for a buffer of \<open>n + 1\<close> bytes: up to a newline or \<open>n\<close> characters.\<close>

fun fgets_lines :: "nat \<Rightarrow> nat \<Rightarrow> string \<Rightarrow> string \<Rightarrow> string list" where
  "fgets_lines n k acc [] = (if acc = [] then [] else [rev acc])"
| "fgets_lines n k acc (c # cs) =
     (if code c = 10 \<or> k \<le> 1 then rev (c # acc) # fgets_lines n n [] cs
      else fgets_lines n (k - 1) (c # acc) cs)"

definition delim :: "char \<Rightarrow> bool" where
  "delim c \<longleftrightarrow> code c = 32 \<or> code c = 9"

text \<open>The tokens that \<open>strtok(line, " \t")\<close> and the calls after it return.\<close>

function strtok_all :: "string \<Rightarrow> string list" where
  "strtok_all s =
     (let t = dropWhile delim s in
      if t = [] then [] else takeWhile (\<lambda>c. \<not> delim c) t # strtok_all (dropWhile (\<lambda>c. \<not> delim c) t))"
  by pat_completeness auto
termination
proof (relation "measure length", goal_cases)
  case (2 s t)
  have le: "length t \<le> length s" unfolding 2(1) by (rule length_dropWhile_le)
  obtain c u where t: "t = c # u" using 2(2) by (cases t) auto
  then have "\<not> delim c" using hd_dropWhile [of delim s] 2(1) by auto
  then have "length (dropWhile (\<lambda>c. \<not> delim c) t) \<le> length u"
    using t by (simp add: length_dropWhile_le)
  then show ?case using t le by simp
qed simp

declare strtok_all.simps [simp del]

definition digit_value :: "char \<Rightarrow> nat" where
  "digit_value c = (if isdigit c then code c - 48
     else if 97 \<le> code c \<and> code c \<le> 122 then code c - 87
     else if 65 \<le> code c \<and> code c \<le> 90 then code c - 55 else 36)"

text \<open>
  What \<open>strtol\<close> and \<open>strtoul\<close> parse in base 8, 10 or 0 (the base of the prefix): the sign and the
  magnitude. The values are those of a 64-bit \<open>long\<close>.
\<close>

definition strto :: "nat \<Rightarrow> string \<Rightarrow> bool \<times> nat" where
  "strto base s =
     (let t = dropWhile isspace s;
          neg = (t \<noteq> [] \<and> hd t = CHR ''-'');
          u = (if t \<noteq> [] \<and> (hd t = CHR ''-'' \<or> hd t = CHR ''+'') then tl t else t);
          hex = (base = 0 \<and> length u > 2 \<and> u ! 0 = CHR ''0'' \<and> (u ! 1 = CHR ''x'' \<or> u ! 1 = CHR ''X'')
                 \<and> digit_value (u ! 2) < 16);
          b = (if hex then 16 else if base = 0 then (if u \<noteq> [] \<and> hd u = CHR ''0'' then 8 else 10) else base);
          ds = takeWhile (\<lambda>c. digit_value c < b) (if hex then drop 2 u else u) in
      (neg, foldl (\<lambda>n c. b * n + digit_value c) 0 ds))"

definition strtol :: "nat \<Rightarrow> string \<Rightarrow> int" where
  "strtol base s =
     (let (neg, n) = strto base s in
      if neg then max (- int n) (- (2 ^ 63)) else min (int n) (2 ^ 63 - 1))"

definition strtoul :: "nat \<Rightarrow> string \<Rightarrow> u64" where
  "strtoul base s =
     (let (neg, n) = strto base s in
      if n \<ge> 2 ^ 64 then -1 else if neg then - of_nat n else of_nat n)"

definition atoi :: "string \<Rightarrow> u32" where
  "atoi s = word_of_int (strtol 10 s)"

fun strcmp :: "string \<Rightarrow> string \<Rightarrow> int" where
  "strcmp [] [] = 0"
| "strcmp [] (d # ds) = - int (code d)"
| "strcmp (c # cs) [] = int (code c)"
| "strcmp (c # cs) (d # ds) = (if c = d then strcmp cs ds else int (code c) - int (code d))"

section \<open>The table\<close>

record fs_config_path =
  cfg_path :: string
  cfg_uid :: u32
  cfg_gid :: u32
  cfg_mode :: u32
  cfg_capabilities :: u64

text \<open>The first \<open>canned_used\<close> cells of the array; \<open>canned_alloc\<close> is its capacity.\<close>

record fs_config_list =
  canned_data :: "fs_config_path list"
  canned_alloc :: nat

abbreviation canned_used :: "fs_config_list \<Rightarrow> nat" where
  "canned_used cl \<equiv> length (canned_data cl)"

definition fs_config_path_compare :: "fs_config_path \<Rightarrow> fs_config_path \<Rightarrow> int" where
  "fs_config_path_compare a b = strcmp (cfg_path a) (cfg_path b)"

definition fs_config_list_grow :: "fs_config_list \<Rightarrow> fs_config_list" where
  "fs_config_list_grow cl = cl\<lparr>canned_alloc := (canned_alloc cl + 1) * 2\<rparr>"

text \<open>The loop runs while the array is full.\<close>

definition grow_full :: "fs_config_list \<Rightarrow> fs_config_list" where
  "grow_full cl = (((\<lambda>cl. if canned_used cl \<ge> canned_alloc cl then fs_config_list_grow cl else cl)
     ^^ Suc (canned_used cl)) cl)"

text \<open>
  \<open>strtok\<close> sees the line up to its first zero byte. Its \<open>i\<close>-th call returns the \<open>i\<close>-th token or a null pointer;
  \<open>strdup\<close>, \<open>atoi\<close> and \<open>strtol\<close> read through the pointer they are given.
\<close>

definition c_line :: "string \<Rightarrow> string" where
  "c_line line = takeWhile (\<lambda>c. code c \<noteq> (0 :: nat)) line"

definition token :: "string list \<Rightarrow> nat \<Rightarrow> string option" where
  "token ts i = (if i < length ts then Some (ts ! i) else None)"

definition read_token :: "string option \<Rightarrow> string res" where
  "read_token p = (case p of None \<Rightarrow> Inl Fault | Some s \<Rightarrow> Inr s)"

text \<open>One line: \<open>None\<close> when it is skipped.\<close>

definition parse_line :: "string \<Rightarrow> fs_config_path option res" where
  "parse_line line =
     (let ts = strtok_all (c_line line) in
      rbind (read_token (token ts 0)) (\<lambda>p.
      if p = [] \<or> hd p = CHR ''#'' then Inr None else
      rbind (read_token (token ts 1)) (\<lambda>u. rbind (read_token (token ts 2)) (\<lambda>g.
      rbind (read_token (token ts 3)) (\<lambda>m.
      Inr (Some \<lparr>cfg_path = p, cfg_uid = atoi u, cfg_gid = atoi g, cfg_mode = word_of_int (strtol 8 m),
        cfg_capabilities =
          (case find (\<lambda>t. take 13 t = ''capabilities='') (drop 4 ts) of None \<Rightarrow> 0
           | Some t \<Rightarrow> word_of_int (strtol 0 (drop 13 t)))\<rparr>))))))"

fun load_lines :: "string list \<Rightarrow> fs_config_list \<Rightarrow> fs_config_list res" where
  "load_lines [] cl = Inr cl"
| "load_lines (l # ls) cl =
     (let cl = grow_full cl in
      rbind (parse_line l) (\<lambda>e.
      load_lines ls (case e of None \<Rightarrow> cl | Some e \<Rightarrow> cl\<lparr>canned_data := canned_data cl @ [e]\<rparr>)))"

fun insert_path :: "fs_config_path \<Rightarrow> fs_config_path list \<Rightarrow> fs_config_path list" where
  "insert_path e [] = [e]"
| "insert_path e (x # xs) =
     (if fs_config_path_compare e x \<le> 0 then e # x # xs else x # insert_path e xs)"

definition qsort :: "fs_config_path list \<Rightarrow> fs_config_path list" where
  "qsort es = foldr insert_path es []"

text \<open>The buffer for a line has 4096 + 200 bytes.\<close>

definition load_canned_fs_config :: "fs_config_list \<Rightarrow> string option \<Rightarrow> (int \<times> fs_config_list) res" where
  "load_canned_fs_config cl file =
     (case file of None \<Rightarrow> Inr (-1, cl)
      | Some text \<Rightarrow> rbind (load_lines (fgets_lines 4295 4295 [] text) cl) (\<lambda>cl.
          Inr (0, cl\<lparr>canned_data := qsort (canned_data cl)\<rparr>)))"

text \<open>\<open>bsearch\<close> between \<open>l\<close> and \<open>u\<close>.\<close>

function bsearch :: "string \<Rightarrow> fs_config_path list \<Rightarrow> nat \<Rightarrow> nat \<Rightarrow> fs_config_path option" where
  "bsearch key es l u =
     (if l < u then
        let idx = (l + u) div 2; cmp = strcmp key (cfg_path (es ! idx)) in
        if cmp < 0 then bsearch key es l idx
        else if cmp > 0 then bsearch key es (idx + 1) u
        else Some (es ! idx)
      else None)"
  by pat_completeness auto
termination by (relation "measure (\<lambda>(key, es, l, u). u - l)") auto

declare bsearch.simps [simp del]

text \<open>The four values stored through the pointers, or \<open>None\<close> when 0 is returned.\<close>

definition canned_fs_config :: "fs_config_list \<Rightarrow> string \<Rightarrow> (u32 \<times> u32 \<times> u32 \<times> u64) option" where
  "canned_fs_config cl path =
     (case bsearch path (canned_data cl) 0 (canned_used cl) of None \<Rightarrow> None
      | Some p \<Rightarrow> Some (cfg_uid p, cfg_gid p, cfg_mode p, cfg_capabilities p))"

section \<open>The order of paths\<close>

abbreviation c_str :: "string \<Rightarrow> bool" where
  "c_str s \<equiv> \<forall>c \<in> set s. code c \<noteq> (0 :: nat)"

lemma strcmp_eq_0: "c_str s \<Longrightarrow> c_str t \<Longrightarrow> strcmp s t = 0 \<longleftrightarrow> s = t"
  by (induction s t rule: strcmp.induct) auto

lemma strcmp_sym: "strcmp t s = - strcmp s t"
  by (induction s t rule: strcmp.induct) auto

lemma strcmp_trans:
  assumes "strcmp s t \<le> 0" "strcmp t u \<le> 0" "c_str s"
  shows "strcmp s u \<le> 0"
  using assms
proof (induction s t arbitrary: u rule: strcmp.induct)
  case (1 u)
  then show ?case by simp
next
  case (2 d ds u)
  then show ?case by (cases u) auto
next
  case (3 c cs u)
  then show ?case by simp
next
  case (4 c cs d ds u)
  then show ?case by (cases u) (auto split: if_splits)
qed

definition before :: "fs_config_path \<Rightarrow> fs_config_path \<Rightarrow> bool" where
  "before a b \<longleftrightarrow> fs_config_path_compare a b \<le> 0"

lemma before_total: "\<not> before a b \<Longrightarrow> before b a"
  using strcmp_sym [of "cfg_path a" "cfg_path b"] by (simp add: before_def fs_config_path_compare_def)

lemma mset_insert_path [simp]: "mset (insert_path e xs) = add_mset e (mset xs)"
  by (induction xs) auto

lemma mset_qsort: "mset (qsort es) = mset es"
  by (induction es) (auto simp: qsort_def)

lemma before_trans: "before a b \<Longrightarrow> before b c \<Longrightarrow> c_str (cfg_path a) \<Longrightarrow> before a c"
  unfolding before_def fs_config_path_compare_def by (rule strcmp_trans)

lemma set_insert_path: "set (insert_path e xs) = insert e (set xs)"
  by (induction xs) auto

lemma insert_path_sorted:
  assumes "sorted_wrt before xs" "\<forall>x \<in> set (e # xs). c_str (cfg_path x)"
  shows "sorted_wrt before (insert_path e xs)"
  using assms
proof (induction xs)
  case (Cons x xs)
  show ?case
  proof (cases "before e x")
    case True
    then have "before e y" if "y \<in> set (x # xs)" for y
      using Cons.prems that before_trans [OF True, of y] by auto
    then show ?thesis using True Cons.prems(1) by (simp add: before_def [symmetric])
  next
    case False
    then have "before x e" by (rule before_total)
    then have "\<forall>y \<in> set (insert_path e xs). before x y" using Cons.prems(1) by (simp add: set_insert_path)
    moreover have "sorted_wrt before (insert_path e xs)" using Cons by simp
    ultimately show ?thesis using False by (simp add: before_def [symmetric])
  qed
qed simp

lemma qsort_sorted:
  assumes "\<forall>x \<in> set es. c_str (cfg_path x)"
  shows "sorted_wrt before (qsort es)"
  using assms
proof (induction es)
  case (Cons e es)
  have "set (qsort es) = set es" using arg_cong [OF mset_qsort [of es], of set_mset] by simp
  then have "\<forall>x \<in> set (e # qsort es). c_str (cfg_path x)" using Cons.prems by simp
  moreover have "sorted_wrt before (qsort es)" using Cons by simp
  ultimately have "sorted_wrt before (insert_path e (qsort es))" by (intro insert_path_sorted)
  then show ?case by (simp add: qsort_def)
qed (simp add: qsort_def)

lemma bsearch_spec:
  assumes "sorted_wrt before es" "\<forall>x \<in> set es. c_str (cfg_path x)" "c_str key" "u \<le> length es"
  shows "case bsearch key es l u of
      None \<Rightarrow> \<forall>i. l \<le> i \<and> i < u \<longrightarrow> cfg_path (es ! i) \<noteq> key
    | Some e \<Rightarrow> e \<in> set es \<and> cfg_path e = key"
  using assms(4)
proof (induction "u - l" arbitrary: l u rule: less_induct)
  case less
  show ?case
  proof (cases "l < u")
    case False
    then show ?thesis by (auto simp: bsearch.simps [of key es l u])
  next
    case lu: True
    define k where "k = (l + u) div 2"
    have k: "l \<le> k" "k < u" "k < length es" using lu less.prems by (auto simp: k_def)
    have ck: "c_str (cfg_path (es ! k))" using assms(2) k(3) nth_mem by blast
    define c where "c = strcmp key (cfg_path (es ! k))"
    have step: "bsearch key es l u = (if c < 0 then bsearch key es l k
        else if c > 0 then bsearch key es (k + 1) u else Some (es ! k))"
      using lu by (subst bsearch.simps) (simp add: k_def c_def Let_def)
    have ord: "strcmp (cfg_path (es ! i)) (cfg_path (es ! j)) \<le> 0" if "i < j" "j < length es" for i j
      using sorted_wrt_nth_less [OF assms(1) that] by (simp add: before_def fs_config_path_compare_def)
    have cp: "c_str (cfg_path (es ! i))" if "i < length es" for i using assms(2) that nth_mem by blast
    consider "c < 0" | "c > 0" | "c = 0" by linarith
    then show ?thesis
    proof cases
      case 1
      have "cfg_path (es ! i) \<noteq> key" if "k \<le> i" "i < u" for i
      proof
        assume e: "cfg_path (es ! i) = key"
        then have "i \<noteq> k" using 1 strcmp_eq_0 [OF assms(3,3)] by (auto simp: c_def)
        then have "strcmp (cfg_path (es ! k)) key \<le> 0" using ord [of k i] that less.prems e by simp
        then show False using 1 strcmp_sym [of key "cfg_path (es ! k)"] by (simp add: c_def)
      qed
      moreover have "k - l < u - l" "k \<le> length es" using k lu by auto
      note less.hyps [OF this]
      ultimately show ?thesis using 1 unfolding step if_P [OF 1]
        by (auto split: option.splits) (metis not_le)
    next
      case 2
      have "cfg_path (es ! i) \<noteq> key" if "l \<le> i" "i \<le> k" for i
      proof
        assume e: "cfg_path (es ! i) = key"
        then have "i \<noteq> k" using 2 strcmp_eq_0 [OF assms(3,3)] by (auto simp: c_def)
        then have "c \<le> 0" using ord [of i k] that k(3) e by (simp add: c_def)
        then show False using 2 by simp
      qed
      moreover have "u - (k + 1) < u - l" "u \<le> length es" using k lu less.prems by auto
      note less.hyps [OF this]
      ultimately show ?thesis using 2 unfolding step
        by (auto split: option.splits) (metis not_less_eq_eq Suc_eq_plus1)
    next
      case 3
      then have "cfg_path (es ! k) = key" using strcmp_eq_0 [OF assms(3) ck] by (simp add: c_def)
      then show ?thesis using 3 k(3) unfolding step by simp
    qed
  qed
qed

text \<open>The path of an entry holds no zero byte.\<close>

lemma c_str_c_line: "c_str (c_line line)"
  using set_takeWhileD [of _ "\<lambda>c. code c \<noteq> (0 :: nat)" line] by (auto simp: c_line_def)

lemma strtok_first:
  assumes "token (strtok_all s) 0 = Some p"
  shows "set p \<subseteq> set s"
proof -
  have "p = takeWhile (\<lambda>c. \<not> delim c) (dropWhile delim s)"
    using assms by (subst (asm) strtok_all.simps) (simp add: token_def Let_def split: if_splits)
  then show ?thesis using set_takeWhileD set_dropWhileD by fastforce
qed

lemma parse_line_path:
  assumes "parse_line line = Inr (Some e)"
  shows "c_str (cfg_path e)"
proof -
  have "token (strtok_all (c_line line)) 0 = Some (cfg_path e)"
    using assms by (auto simp: parse_line_def read_token_def Let_def split: option.splits if_splits)
  from strtok_first [OF this] show ?thesis using c_str_c_line [of line] by blast
qed

text \<open>The entries of the lines, without the array.\<close>

fun entries :: "string list \<Rightarrow> fs_config_path list res" where
  "entries [] = Inr []"
| "entries (l # ls) = rbind (parse_line l) (\<lambda>e. rbind (entries ls) (\<lambda>es.
     Inr (case e of None \<Rightarrow> es | Some e \<Rightarrow> e # es)))"

lemma entries_paths: "entries ls = Inr es \<Longrightarrow> e \<in> set es \<Longrightarrow> c_str (cfg_path e)"
proof (induction ls arbitrary: es)
  case (Cons l ls)
  then show ?case using parse_line_path [of l] by (auto split: option.splits)
qed simp

lemma grow_full_data [simp]: "canned_data (grow_full cl) = canned_data cl"
proof -
  let ?f = "\<lambda>cl. if canned_used cl \<ge> canned_alloc cl then fs_config_list_grow cl else cl"
  have "canned_data ((?f ^^ n) cl) = canned_data cl" for n
    by (induction n) (auto simp: fs_config_list_grow_def)
  then show ?thesis unfolding grow_full_def .
qed

lemma load_lines_entries:
  assumes "entries ls = Inr es"
  shows "\<exists>cl'. load_lines ls cl = Inr cl' \<and> canned_data cl' = canned_data cl @ es"
  using assms
proof (induction ls arbitrary: cl es)
  case (Cons l ls)
  then obtain e es' where e: "parse_line l = Inr e" "entries ls = Inr es'"
    "es = (case e of None \<Rightarrow> es' | Some e \<Rightarrow> e # es')" by auto
  from Cons.IH [OF e(2)] show ?case using e(1,3)
    by (cases e) (fastforce simp: Let_def)+
qed simp

text \<open>C39: when every line of the file parses and no two have the same path, looking a path up in the
  loaded table finds the line of that path, and nothing when no line has it: sorting and binary
  search agree with a search through the file.\<close>

theorem canned_lookup:
  assumes "entries (fgets_lines 4295 4295 [] text) = Inr es" "canned_data cl = []"
    and "distinct (map cfg_path es)"
    and "\<forall>c \<in> set path. code c \<noteq> (0 :: nat)"
  shows "\<exists>cl'. load_canned_fs_config cl (Some text) = Inr (0, cl')
    \<and> canned_fs_config cl' path = (case find (\<lambda>e. cfg_path e = path) es of None \<Rightarrow> None
        | Some e \<Rightarrow> Some (cfg_uid e, cfg_gid e, cfg_mode e, cfg_capabilities e))"
proof -
  have zero: "\<forall>e \<in> set es. c_str (cfg_path e)" using entries_paths [OF assms(1)] by blast
  obtain cl' where cl': "load_lines (fgets_lines 4295 4295 [] text) cl = Inr cl'" "canned_data cl' = es"
    using load_lines_entries [OF assms(1), of cl] assms(2) by auto
  have set: "set (qsort es) = set es" by (metis mset_qsort set_mset_mset)
  have srt: "sorted_wrt before (qsort es)" by (rule qsort_sorted [OF zero])
  have cs: "\<forall>x \<in> set (qsort es). c_str (cfg_path x)" unfolding set by (rule zero)
  have "bsearch path (qsort es) 0 (length (qsort es)) = find (\<lambda>e. cfg_path e = path) es"
  proof (cases "find (\<lambda>e. cfg_path e = path) es")
    case None
    then have "cfg_path e \<noteq> path" if "e \<in> set (qsort es)" for e using that by (auto simp: find_None_iff set)
    then show ?thesis using bsearch_spec [OF srt cs assms(4) order.refl, of 0] None
      by (auto split: option.splits)
  next
    case (Some e)
    then have e: "e \<in> set es" "cfg_path e = path" by (auto simp: find_Some_iff)
    then obtain i where i: "i < length (qsort es)" "qsort es ! i = e" using set by (metis in_set_conv_nth)
    obtain e' where e': "bsearch path (qsort es) 0 (length (qsort es)) = Some e'" "e' \<in> set es" "cfg_path e' = path"
      using bsearch_spec [OF srt cs assms(4) order.refl, of 0] i e(2) set by (auto split: option.splits)
    then have "e' = e" using assms(3) e by (metis distinct_map inj_onD)
    then show ?thesis using e'(1) Some by simp
  qed
  then show ?thesis using cl' by (auto simp: load_canned_fs_config_def canned_fs_config_def)
qed

theorem canned_lookup_witness:
  "\<exists>cl'. load_canned_fs_config \<lparr>canned_data = [], canned_alloc = 0\<rparr>
      (Some (''b 1 2 0644'' @ [CHR 0x0A] @ ''a/c 0 7 0755 capabilities=0x10'' @ [CHR 0x0A])) = Inr (0, cl')
    \<and> canned_fs_config cl' ''a/c'' = Some (0, 7, 493, 16)"
proof -
  let ?text = "''b 1 2 0644'' @ [CHR 0x0A] @ ''a/c 0 7 0755 capabilities=0x10'' @ [CHR 0x0A]"
  let ?es = "[\<lparr>cfg_path = ''b'', cfg_uid = 1, cfg_gid = 2, cfg_mode = 420, cfg_capabilities = 0\<rparr>,
    \<lparr>cfg_path = ''a/c'', cfg_uid = 0, cfg_gid = 7, cfg_mode = 493, cfg_capabilities = 16\<rparr>]"
  have "entries (fgets_lines 4295 4295 [] ?text) = Inr ?es" by code_simp
  from canned_lookup [OF this, of "\<lparr>canned_data = [], canned_alloc = 0\<rparr>" "''a/c''"]
  show ?thesis by auto
qed

text \<open>The lines of two texts, the first of which ends with a newline.\<close>

lemma fgets_lines_append:
  assumes "code (last pre) = (10 :: nat)" "pre \<noteq> []"
  shows "fgets_lines n k acc (pre @ text) = fgets_lines n k acc pre @ fgets_lines n n [] text"
  using assms
proof (induction pre arbitrary: k acc)
  case (Cons c pre)
  show ?case
  proof (cases "pre = []")
    case True
    then show ?thesis using Cons.prems(1) by simp
  next
    case False
    with Cons show ?thesis by simp
  qed
qed simp

lemma load_lines_fault:
  assumes "entries ls = Inr es" "parse_line l = Inl f"
  shows "load_lines (ls @ l # ls') cl = Inl f"
  using assms(1)
proof (induction ls arbitrary: cl es)
  case Nil
  then show ?case using assms(2) by (simp add: Let_def)
next
  case (Cons l0 ls)
  then obtain e es' where "parse_line l0 = Inr e" "entries ls = Inr es'" by auto
  then show ?case using Cons.IH by (simp add: Let_def)
qed

lemma newline_token: "strtok_all (c_line [CHR 0x0A]) = [[CHR 0x0A]]"
  by code_simp

text \<open>C40: an empty line anywhere in the file stops the program. \<open>fgets\<close> keeps the newline, so the first
  token of the line is the newline and not the empty path that the code skips; the second call of
  \<open>strtok\<close> returns a null pointer, and \<open>atoi\<close> reads through it.\<close>

theorem empty_line_crashes:
  assumes "pre = [] \<or> code (last pre) = (10 :: nat)" "entries (fgets_lines 4295 4295 [] pre) = Inr es"
  shows "token (strtok_all (c_line [CHR 0x0A])) 0 = Some [CHR 0x0A]
    \<and> token (strtok_all (c_line [CHR 0x0A])) 1 = None \<and> read_token None = Inl Fault
    \<and> load_canned_fs_config cl (Some (pre @ [CHR 0x0A] @ text)) = Inl Fault"
proof -
  have t: "token (strtok_all (c_line [CHR 0x0A])) 0 = Some [CHR 0x0A]"
    "token (strtok_all (c_line [CHR 0x0A])) 1 = None"
    unfolding newline_token by (simp_all add: token_def)
  then have "parse_line [CHR 0x0A] = Inl Fault" by (simp add: parse_line_def read_token_def)
  moreover have "fgets_lines 4295 4295 [] (pre @ [CHR 0x0A] @ text)
      = fgets_lines 4295 4295 [] pre @ [CHR 0x0A] # fgets_lines 4295 4295 [] text"
  proof (cases "pre = []")
    case False
    then show ?thesis using fgets_lines_append [of pre 4295 4295 "[]" "[CHR 0x0A] @ text"] assms(1) by simp
  qed simp
  ultimately show ?thesis using t load_lines_fault [OF assms(2)]
    by (simp add: load_canned_fs_config_def read_token_def)
qed

lemma empty_line_crashes_witness:
  "load_canned_fs_config \<lparr>canned_data = [], canned_alloc = 0\<rparr>
     (Some ((''b 1 2 0644'' @ [CHR 0x0A]) @ [CHR 0x0A] @ ''a 0 7 0755'')) = Inl Fault"
proof -
  have "entries (fgets_lines 4295 4295 [] (''b 1 2 0644'' @ [CHR 0x0A]))
    = Inr [\<lparr>cfg_path = ''b'', cfg_uid = 1, cfg_gid = 2, cfg_mode = 420, cfg_capabilities = 0\<rparr>]" by code_simp
  from empty_line_crashes [OF _ this] show ?thesis by simp
qed

end
