(* ===== verification/Gzip_Output.thy ===== *)
theory Gzip_Output
  imports Sparse_Write
begin

text \<open>
  The gzip table of \<^verbatim>\<open>src/libsparse/output_file.c\<close>. The functions of zlib are parameters, gathered in
  a record; what is relied on of them is the predicate \<open>zlib_stream\<close>. That the plain file, the gzip
  file and a counting callback receive the same image is proved once, in a locale for two tables
  of operations that run in step.
\<close>

section \<open>The operations on a gzip file\<close>

text \<open>
  \<open>gzFile\<close> is the type \<open>'g\<close>; \<open>gz_null\<close> tells a null handle, \<open>gz_left\<close> what the file holds of a stream that
  is never closed.
\<close>

record 'g zlib =
  gz_null :: "'g \<Rightarrow> bool"
  gzdopen :: "fd_file \<Rightarrow> 'g"
  gzseek_cur :: "'g \<Rightarrow> int \<Rightarrow> int \<times> 'g"
  gzseek_set :: "'g \<Rightarrow> int \<Rightarrow> int \<times> 'g"
  gztell :: "'g \<Rightarrow> int"
  gzwrite :: "'g \<Rightarrow> u8 list \<Rightarrow> int \<times> 'g"
  gzclose :: "'g \<Rightarrow> fd_file"
  gz_left :: "'g \<Rightarrow> fd_file"

text \<open>\<open>errno\<close> after a failed \<open>gzdopen\<close> is an argument.\<close>

definition gz_file_open :: "'g zlib \<Rightarrow> int \<Rightarrow> fd_file \<Rightarrow> int \<times> 'g" where
  "gz_file_open z err fd = (let g = gzdopen z fd in (if gz_null z g then - err else 0, g))"

definition gz_file_skip :: "'g zlib \<Rightarrow> 'g \<Rightarrow> int \<Rightarrow> int \<times> 'g" where
  "gz_file_skip z g cnt = (let (ret, g) = gzseek_cur z g cnt in (if ret < 0 then -1 else 0, g))"

definition gz_file_pad :: "'g zlib \<Rightarrow> 'g \<Rightarrow> int \<Rightarrow> int \<times> 'g" where
  "gz_file_pad z g n =
     (let ret = gztell z g in
      if ret < 0 then (-1, g)
      else if ret \<ge> n then (0, g)
      else let (ret, g) = gzseek_set z g (n - 1) in
        if ret < 0 then (-1, g) else (0, snd (gzwrite z g [0])))"

text \<open>The \<open>int\<close> length is given to \<open>gzwrite\<close> as an unsigned one again, and compared as it is.\<close>

definition gz_file_write :: "'g zlib \<Rightarrow> 'g \<Rightarrow> u8 list \<Rightarrow> int \<Rightarrow> int \<times> 'g" where
  "gz_file_write z g data n =
     (let (ret, g) = gzwrite z g (take (unat (word_of_int n :: u32)) data) in
      (if ret < 0 then -1 else if ret < n then -1 else 0, g))"

lemma take_int_len: "length d < 2 ^ 31 \<Longrightarrow> take (unat (word_of_int (int_len d) :: u32)) d = d"
  by (simp add: int_len_def unat_of_nat)

definition gz_file_close :: "'g zlib \<Rightarrow> 'g \<Rightarrow> fd_file" where
  "gz_file_close z g = gzclose z g"

definition gz_file_ops :: "'g zlib \<Rightarrow> 'g output_file_ops" where
  "gz_file_ops z = \<lparr>skip_op = gz_file_skip z, pad_op = gz_file_pad z, write_op = gz_file_write z\<rparr>"

text \<open>
  \<open>output_file_open_fd\<close> for a gzip file; what \<open>open\<close> returns is dropped, and a failed start leaves
  the stream open.
\<close>

definition output_file_open_gz ::
  "'g zlib \<Rightarrow> int \<Rightarrow> fd_file \<Rightarrow> u32 \<Rightarrow> int \<Rightarrow> bool \<Rightarrow> u32 \<Rightarrow> bool \<Rightarrow> (int \<times> 'g output_file) res" where
  "output_file_open_gz z err fd bs n sparse chunks crc =
     (let (_, g) = gz_file_open z err fd in output_file_init (gz_file_ops z) g bs n sparse chunks crc)"

text \<open>\<open>sparse_file_write\<close> with \<open>gz\<close> set: the result and what the file holds.\<close>

definition sparse_file_write_gz ::
  "'g zlib \<Rightarrow> int \<Rightarrow> env \<Rightarrow> bb_mem \<Rightarrow> sparse_file \<Rightarrow> fd_file \<Rightarrow> bool \<Rightarrow> bool \<Rightarrow> (int \<times> fd_file) res" where
  "sparse_file_write_gz z err e m s fd sparse crc =
     rbind (sparse_count_chunks m s) (\<lambda>chunks.
     rbind (output_file_open_gz z err fd (sf_block_size s) (sf_len s) sparse chunks crc) (\<lambda>(ret, out).
     if ret < 0 then Inr (- ENOMEM, gz_left z (priv out)) else
     rbind (write_all_blocks e m s out) (\<lambda>(ret, out).
     Inr (ret, gz_file_close z (priv (output_file_close out))))))"

lemma length_fill_buf: "length (fill_buf bs v) = unat bs"
proof -
  have "length (fill_buf bs v) = 4 * unat (bs div 4) + unat (bs mod 4)"
    by (simp add: fill_buf_def length_concat comp_def sum_list_replicate mult.commute)
  then show ?thesis by (simp add: unat_div unat_mod)
qed

section \<open>Two outputs in step\<close>

text \<open>
  The second table succeeds whenever the first does and keeps \<open>R\<close>; skips of the first never fail.
\<close>

locale in_step =
  fixes t1 :: "'o output_file_ops" and t2 :: "'p output_file_ops" and R :: "'o \<Rightarrow> 'p \<Rightarrow> bool"
  assumes write_step: "R a b \<Longrightarrow> length d < 2 ^ 31 \<Longrightarrow> write_op t1 a d (int_len d) = (0, a') \<Longrightarrow>
      \<exists>b'. write_op t2 b d (int_len d) = (0, b') \<and> R a' b'"
    and write_fails: "fst (write_op t1 a d n) \<le> 0"
    and skip_step: "R a b \<Longrightarrow> 0 \<le> n \<Longrightarrow>
      fst (skip_op t1 a n) = 0 \<and> fst (skip_op t2 b n) = 0 \<and> R (snd (skip_op t1 a n)) (snd (skip_op t2 b n))"
begin

definition sim :: "'o output_file \<Rightarrow> 'p output_file \<Rightarrow> bool" where
  "sim x y \<longleftrightarrow> R (priv x) (priv y) \<and> ops x = t1 \<and> ops y = t2 \<and> \<not> out_sparse x \<and> \<not> out_sparse y
     \<and> out_block_size x = out_block_size y \<and> out_len x = out_len y
     \<and> unat (out_block_size x) < 2 ^ 31"

definition follows :: "(int \<times> 'o output_file) res \<Rightarrow> (int \<times> 'p output_file) res \<Rightarrow> bool" where
  "follows p q \<longleftrightarrow> (\<forall>x'. p = Inr (0, x') \<longrightarrow> (\<exists>y'. q = Inr (0, y') \<and> sim x' y'))"

lemma sim_opened: "R p q \<Longrightarrow> unat (sf_block_size s) < 2 ^ 31 \<Longrightarrow> sim (opened t1 s crc p) (opened t2 s crc q)"
  by (simp add: sim_def opened_def)

lemma sim_block: "sim x y \<Longrightarrow> out_block_size y = out_block_size x"
  by (simp add: sim_def)

lemma out_write_step: "sim x y \<Longrightarrow> length d < 2 ^ 31 \<Longrightarrow> out_write x d = (0, x') \<Longrightarrow> \<exists>y'. out_write y d = (0, y') \<and> sim x' y'"
  using write_step [of "priv x" "priv y" d]
  by (auto simp: sim_def out_write_def split: prod.splits)

lemma out_write_fails: "sim x y \<Longrightarrow> fst (out_write x d) \<le> 0"
  using write_fails [of "priv x" d "int_len d"] by (auto simp: sim_def out_write_def split: prod.splits)

lemma out_skip_step:
  "sim x y \<Longrightarrow> 0 \<le> n \<Longrightarrow> \<exists>x' y'. out_skip x n = (0, x') \<and> out_skip y n = (0, y') \<and> sim x' y'"
  using skip_step [of "priv x" "priv y" n]
  by (auto simp: sim_def out_skip_def split: prod.splits)

lemma skip_chunk_step:
  "sim x y \<Longrightarrow> 0 \<le> n \<Longrightarrow> \<exists>x' y'. write_skip_chunk x n = Inr (0, x') \<and> write_skip_chunk y n = Inr (0, y') \<and> sim x' y'"
  using out_skip_step [of x y n] by (auto simp: sim_def write_skip_chunk_def)

lemma write_data_step: "sim x y \<Longrightarrow> length d < 2 ^ 31 \<Longrightarrow> follows (write_data_chunk x n d) (write_data_chunk y n d)"
proof -
  assume s: "sim x y" and d: "length d < 2 ^ 31"
  show ?thesis
  proof (cases "EXT4_ALIGN n (out_block_size x)")
    case (Inr r)
    obtain w x1 where w: "out_write x d = (w, x1)" by force
    show ?thesis
    proof (cases "w = 0")
      case True
      then obtain y1 where y: "out_write y d = (0, y1)" "sim x1 y1" using out_write_step [OF s d] w by blast
      then show ?thesis using s w True Inr out_skip_step [OF y(2), of "uint (r - n)"]
        by (auto simp: follows_def write_data_chunk_def write_normal_data_chunk_def sim_def)
    next
      case False
      then have "w < 0" using out_write_fails [OF s, of d] w by simp
      then show ?thesis using s w Inr
        by (auto simp: follows_def write_data_chunk_def write_normal_data_chunk_def sim_def)
    qed
  qed (use s in \<open>simp add: follows_def write_data_chunk_def write_normal_data_chunk_def sim_def\<close>)
qed

lemma fill_loop_step: "sim x y \<Longrightarrow> length buf < 2 ^ 31 \<Longrightarrow> follows (normal_fill_loop x buf n) (normal_fill_loop y buf n)"
proof (induction x buf n arbitrary: y rule: normal_fill_loop.induct)
  case (1 x buf n)
  note bs = sim_block [OF 1(2)]
  show ?case
  proof (cases "n = 0 \<or> out_block_size x = 0")
    case False
    let ?l = "min n (out_block_size x)"
    obtain w x1 where w: "out_write x (take (unat ?l) buf) = (w, x1)" by force
    show ?thesis
    proof (cases "w = 0")
      case True
      then obtain y1 where y: "out_write y (take (unat ?l) buf) = (0, y1)" "sim x1 y1"
        using out_write_step [OF 1(2)] 1(3) w by (metis length_take min.strict_coboundedI1)
      have "follows (normal_fill_loop x1 buf (n - ?l)) (normal_fill_loop y1 buf (n - ?l))"
        using 1(1) [OF _ _ refl w [symmetric] refl _ y(2) 1(3)] False True by simp
      then show ?thesis
        using False w True y(1) bs
        by (simp add: normal_fill_loop.simps [of x] normal_fill_loop.simps [of y] Let_def)
    next
      case 2: False
      then have "w < 0" using out_write_fails [OF 1(2)] w by (metis fst_conv order_le_less)
      then show ?thesis using w False
        by (simp add: normal_fill_loop.simps [of x] follows_def Let_def)
    qed
  qed (use 1(2) bs in \<open>auto simp: normal_fill_loop.simps [of x] normal_fill_loop.simps [of y] follows_def\<close>)
qed

lemma read_buf_len: "read_buf b off n = Inr d \<Longrightarrow> length d \<le> n"
  by (auto simp: read_buf_def split: if_splits)

lemma write_fd_step: "sim x y \<Longrightarrow> unat n < 2 ^ 31 \<Longrightarrow> follows (write_fd_chunk x n c off) (write_fd_chunk y n c off)"
  using write_data_step [of x y] read_buf_len [of "mapped c" _ "unat n"]
  by (cases "read_buf (mapped c) (unat (off AND NOT 4095) + unat (ucast (off - (off AND NOT 4095)) :: u32)) (unat n)")
    (fastforce simp: write_fd_chunk_def Let_def follows_def)+

lemma write_block_step:
  "sim x y \<Longrightarrow> unat (bb_len bb) < 2 ^ 31 \<Longrightarrow>
     follows (sparse_file_write_block e x bb) (sparse_file_write_block e y bb)"
proof -
  assume s: "sim x y" and n: "unat (bb_len bb) < 2 ^ 31"
  show ?thesis
  proof (cases "bb_kind bb")
    case (BACKED_BLOCK_DATA p)
    then show ?thesis
      using write_data_step [OF s] n read_buf_len [of "env_buf e (fst p)" "snd p" "unat (bb_len bb)"]
      by (cases p; cases "read_buf (env_buf e (fst p)) (snd p) (unat (bb_len bb))")
        (fastforce simp: sparse_file_write_block_def follows_def)+
  next
    case (BACKED_BLOCK_FILE k fn off)
    then show ?thesis using write_fd_step [OF s n]
      by (auto simp: sparse_file_write_block_def write_file_chunk_def follows_def split: option.splits)
  next
    case (BACKED_BLOCK_FD fd off)
    then show ?thesis using write_fd_step [OF s n] by (simp add: sparse_file_write_block_def)
  next
    case (BACKED_BLOCK_FILL v)
    then show ?thesis using s fill_loop_step [OF s, of "fill_buf (out_block_size x) v"] sim_block [OF s] n length_fill_buf [of "out_block_size x" v]
      by (simp add: sparse_file_write_block_def write_fill_chunk_def write_normal_fill_chunk_def sim_def follows_def)
  qed
qed

lemma write_blocks_step:
  assumes "sim x y" "\<forall>a bb. cells m a = Some bb \<longrightarrow> unat (bb_len bb) < 2 ^ 31"
    "write_blocks fuel e m bs p lst x = Inr (0, l, x')"
  shows "\<exists>y'. write_blocks fuel e m bs p lst y = Inr (0, l, y') \<and> sim x' y'"
  using assms
proof (induction fuel arbitrary: p lst x y)
  case 0
  then show ?case by (cases p) auto
next
  case (Suc fuel)
  show ?case
  proof (cases p)
    case (Some a)
    then obtain bb where bb: "load m a = Inr bb" using Suc.prems(3) by (cases "load m a") auto
    let ?k = "uint (bb_block bb - lst) * uint bs"
    obtain x1 y1 where g: "(if bb_block bb > lst then rbind (write_skip_chunk x ?k) (\<lambda>(_, out). Inr out) else Inr x) = Inr x1"
      "(if bb_block bb > lst then rbind (write_skip_chunk y ?k) (\<lambda>(_, out). Inr out) else Inr y) = Inr y1" "sim x1 y1"
      using Suc.prems(1) skip_chunk_step [OF Suc.prems(1), of ?k]
      by (cases "lst < bb_block bb") (use that in auto)
    obtain x2 n where w: "sparse_file_write_block e x1 bb = Inr (0, x2)" "DIV_ROUND_UP (bb_len bb) bs = Inr n"
      "write_blocks fuel e m bs (bb_next bb) (bb_block bb + n) x2 = Inr (0, l, x')"
      using Suc.prems(3) unfolding Some write_blocks.simps bb rbind_Inr g(1)
      by (auto split: if_splits)
    have "unat (bb_len bb) < 2 ^ 31" using Suc.prems(2) bb by (auto simp: load_def split: option.splits)
    with w(1) obtain y2 where y2: "sparse_file_write_block e y1 bb = Inr (0, y2)" "sim x2 y2"
      using write_block_step [OF g(3)] by (fastforce simp: follows_def)
    from Suc.IH [OF y2(2) Suc.prems(2) w(3)]
    show ?thesis unfolding Some write_blocks.simps bb rbind_Inr g(2) y2(1) w(2) by simp
  qed (use Suc.prems in simp)
qed

lemma write_all_step:
  assumes "sim x y" "\<forall>a bb. cells m a = Some bb \<longrightarrow> unat (bb_len bb) < 2 ^ 31"
    "write_all_blocks e m s x = Inr (0, x')"
  shows "\<exists>y'. write_all_blocks e m s y = Inr (0, y') \<and> sim x' y'"
proof -
  obtain l x1 where w: "write_blocks (Suc (brk m)) e m (sf_block_size s) (data_blocks (sf_list s)) 0 x = Inr (0, l, x1)"
    using assms(3) by (auto simp: write_all_blocks_def Let_def simp del: write_blocks.simps split: if_splits)
  then obtain y1 where y: "write_blocks (Suc (brk m)) e m (sf_block_size s) (data_blocks (sf_list s)) 0 y = Inr (0, l, y1)" "sim x1 y1"
    using write_blocks_step [OF assms(1,2)] by blast
  show ?thesis
    using assms(3) y(2) skip_chunk_step [OF y(2), of "sf_len s - uint l * uint (sf_block_size s)"]
    unfolding write_all_blocks_def w y(1) rbind_Inr prod.case Let_def
    by (auto split: if_splits)
qed

end

section \<open>The gzip file and the counter\<close>

text \<open>
  What is relied on of zlib: a stream opened for writing starts empty, takes what it is given,
  writes zeros up to the place it is moved to, and once closed decompresses to what it was given.
\<close>

definition zlib_stream :: "'g zlib \<Rightarrow> ('g \<Rightarrow> u8 list) \<Rightarrow> (fd_file \<Rightarrow> u8 list) \<Rightarrow> bool" where
  "zlib_stream z given gunzip \<longleftrightarrow>
     (\<forall>fd. fd_bytes fd = [] \<longrightarrow> \<not> gz_null z (gzdopen z fd) \<and> given (gzdopen z fd) = [])
   \<and> (\<forall>g d. length d < 2 ^ 31 \<longrightarrow> (\<exists>g'. gzwrite z g d = (int (length d), g') \<and> given g' = given g @ d))
   \<and> (\<forall>g n. 0 \<le> n \<longrightarrow> (\<exists>g'. gzseek_cur z g n = (int (length (given g)) + n, g')
        \<and> given g' = given g @ replicate (nat n) 0))
   \<and> (\<forall>g n. int (length (given g)) \<le> n \<longrightarrow> (\<exists>g'. gzseek_set z g n = (n, g')
        \<and> given g' = given g @ replicate (nat n - length (given g)) 0))
   \<and> (\<forall>g. gztell z g = int (length (given g)))
   \<and> (\<forall>g. gunzip (gzclose z g) = given g)"

text \<open>The bytes of a file up to its offset, and how a write and a skip extend them.\<close>

definition shown :: "fd_file \<Rightarrow> u8 list" where
  "shown f = fd_bytes f @ replicate (fd_pos f - length (fd_bytes f)) 0"

definition at_end :: "fd_file \<Rightarrow> bool" where
  "at_end f \<longleftrightarrow> length (fd_bytes f) \<le> fd_pos f"

lemma shown_skip:
  assumes "at_end f" "0 \<le> n"
  shows "fst (file_skip f n) = 0" "at_end (snd (file_skip f n))" "shown (snd (file_skip f n)) = shown f @ replicate (nat n) 0"
    "fd_pos (snd (file_skip f n)) = fd_pos f + nat n"
proof -
  obtain k where k: "n = int k" using assms(2) nonneg_int_cases by blast
  show "fst (file_skip f n) = 0" "at_end (snd (file_skip f n))" "shown (snd (file_skip f n)) = shown f @ replicate (nat n) 0"
    "fd_pos (snd (file_skip f n)) = fd_pos f + nat n"
    using assms(1) by (simp_all add: file_skip_def k at_end_def shown_def replicate_add [symmetric] nat_int_add)
qed

lemma shown_write:
  assumes "at_end f" "length d < 2 ^ 31" "file_write f d (int_len d) = (0, f')"
  shows "at_end f'" "shown f' = shown f @ d" "fd_pos f' = fd_pos f + length d"
proof -
  have w: "write_whole f d = (0, f')"
    using assms(2,3) by (simp add: file_write_def int_len_small)
  then have n: "length d \<le> min (fd_room f - fd_pos f) MAX_RW_COUNT"
    by (auto simp: write_whole_def Let_def min_less_iff_disj not_less split: if_splits)
  then have f': "f' = f\<lparr>fd_bytes := put_bytes (fd_bytes f) (fd_pos f) d, fd_pos := fd_pos f + length d\<rparr>"
    using w by (simp add: write_whole_def)
  show "at_end f'" "shown f' = shown f @ d" "fd_pos f' = fd_pos f + length d"
    using assms(1) unfolding f' by (auto simp: at_end_def shown_def put_bytes_def)
qed

lemma file_write_fails: "fst (file_write f d n) \<le> 0"
  by (simp add: file_write_def write_whole_def Let_def)

interpretation counted: in_step file_ops "callback_file_ops out_counter_write" "\<lambda>f c. at_end f \<and> c = int (fd_pos f)"
proof
  show "\<exists>b'. write_op (callback_file_ops out_counter_write) b d (int_len d) = (0, b') \<and> at_end a' \<and> b' = int (fd_pos a')"
    if "at_end a \<and> b = int (fd_pos a)" "length d < 2 ^ 31" "write_op file_ops a d (int_len d) = (0, a')" for a a' b d
    using that shown_write [of a d a'] by (simp add: file_ops_def callback_file_ops_def out_counter_write_def int_len_small)
  have skip: "callback_skip_loop out_counter_write c n = (0, c + n)" if "0 \<le> n" for c n
    using that
  proof (induction "nat n" arbitrary: c n rule: less_induct)
    case less
    then show ?case by (subst callback_skip_loop.simps) (auto simp: out_counter_write_def Let_def min_def)
  qed
  show "fst (skip_op file_ops a n) = 0 \<and> fst (skip_op (callback_file_ops out_counter_write) b n) = 0
      \<and> at_end (snd (skip_op file_ops a n)) \<and> snd (skip_op (callback_file_ops out_counter_write) b n) = int (fd_pos (snd (skip_op file_ops a n)))"
    if "at_end a \<and> b = int (fd_pos a)" "0 \<le> n" for a b n
    using that shown_skip [of a n] skip [of n b] by (simp add: file_ops_def callback_file_ops_def)
qed (simp add: file_ops_def file_write_fails)

lemma gz_in_step:
  assumes "zlib_stream z given gunzip"
  shows "in_step file_ops (gz_file_ops z) (\<lambda>f g. at_end f \<and> given g = shown f)"
proof
  show "\<exists>b'. write_op (gz_file_ops z) b d (int_len d) = (0, b') \<and> at_end a' \<and> given b' = shown a'"
    if ab: "at_end a \<and> given b = shown a" "length d < 2 ^ 31" "write_op file_ops a d (int_len d) = (0, a')" for a a' b d
  proof -
    obtain g' where "gzwrite z b d = (int (length d), g')" "given g' = given b @ d"
      using assms ab(2) unfolding zlib_stream_def by blast
    then have "gz_file_write z b d (int_len d) = (0, g')" "given g' = given b @ d"
      unfolding gz_file_write_def take_int_len [OF ab(2)] using ab(2) by (simp_all add: int_len_small)
    then show ?thesis using ab shown_write [of a d a'] by (simp add: file_ops_def gz_file_ops_def)
  qed
  show "fst (skip_op file_ops a n) = 0 \<and> fst (skip_op (gz_file_ops z) b n) = 0
      \<and> at_end (snd (skip_op file_ops a n)) \<and> given (snd (skip_op (gz_file_ops z) b n)) = shown (snd (skip_op file_ops a n))"
    if ab: "at_end a \<and> given b = shown a" "0 \<le> n" for a b n
  proof -
    obtain g' where "gzseek_cur z b n = (int (length (given b)) + n, g')" "given g' = given b @ replicate (nat n) 0"
      using assms ab(2) unfolding zlib_stream_def by blast
    then show ?thesis using ab shown_skip [of a n] by (simp add: file_ops_def gz_file_ops_def gz_file_skip_def)
  qed
qed (simp add: file_ops_def file_write_fails)

section \<open>Properties\<close>

lemma shown_image:
  assumes "at_end f" "\<And>i. file_byte (fd_bytes f) i = c i"
  shows "shown f = List.map c [0..<fd_pos f]"
proof (rule nth_equalityI)
  fix i assume "i < length (shown f)"
  then have "shown f ! i = file_byte (fd_bytes f) i" "i < fd_pos f"
    using assms(1) by (auto simp: shown_def file_byte_def nth_append at_end_def)
  then show "shown f ! i = List.map c [0..<fd_pos f] ! i" using assms(2) by simp
qed (use assms(1) in \<open>simp add: shown_def at_end_def\<close>)

lemma gz_pad_at_end:
  assumes "zlib_stream z given gunzip" "int (length (given g)) = n"
  shows "gz_file_pad z g n = (0, g)"
  using assms by (simp add: zlib_stream_def gz_file_pad_def)

text \<open>C9: an image written as a gzip file decompresses to the bytes of the image, for every zlib that
  takes what it is given.\<close>

theorem gzip_image_written:
  assumes "zlib_stream z given gunzip"
    and "queue_list m (sf_list s) as xs" "sf_block_size s \<noteq> 0"
    and "\<forall>x \<in> set xs. writable e (sf_block_size s) x"
    and "placed (sf_block_size s) 0 xs (nat (sf_len s))" "0 \<le> sf_len s"
    and "\<forall>a bb. cells m a = Some bb \<longrightarrow> unat (bb_len bb) < 2 ^ 31" "unat (sf_block_size s) < 2 ^ 31"
    and "fd_bytes fd = []"
  shows "\<exists>f. sparse_file_write_gz z err e m s fd False crc = Inr (0, f)
    \<and> gunzip f = List.map (image_byte e (sf_block_size s) xs) [0..<nat (sf_len s)]"
proof -
  let ?N = "nat (sf_len s)" and ?g = "gzdopen z fd" and ?R = "\<lambda>f g. at_end f \<and> given g = shown f"
  note step = gz_in_step [OF assms(1)]
  obtain chunks f where r: "sparse_count_chunks m s = Inr chunks" "fd_pos f = ?N"
    "write_all_blocks e m s (opened file_ops s crc (new_file ?N)) = Inr (0, opened file_ops s crc f)"
    "\<And>i. file_byte (fd_bytes f) i = image_byte e (sf_block_size s) xs i"
    using write_all_blocks_plain [OF assms(2-6) le_refl, of crc] by blast
  have "given ?g = []" using assms(1,9) by (simp add: zlib_stream_def)
  then have "in_step.sim file_ops (gz_file_ops z) ?R (opened file_ops s crc (new_file ?N)) (opened (gz_file_ops z) s crc ?g)"
    by (intro in_step.sim_opened [OF step] assms(8)) (simp add: new_file_def at_end_def shown_def)
  from in_step.write_all_step [OF step this assms(7) r(3)]
  obtain y where y: "write_all_blocks e m s (opened (gz_file_ops z) s crc ?g) = Inr (0, y)"
    "in_step.sim file_ops (gz_file_ops z) ?R (opened file_ops s crc f) y" by blast
  then have p: "at_end f" "given (priv y) = shown f" "ops y = gz_file_ops z" "\<not> out_sparse y" "out_len y = sf_len s"
    by (simp_all add: in_step.sim_def [OF step] opened_def)
  have img: "shown f = List.map (image_byte e (sf_block_size s) xs) [0..<?N]"
    using shown_image [OF p(1), of "image_byte e (sf_block_size s) xs"] r(2,4) by simp
  have "gz_file_pad z (priv y) (sf_len s) = (0, priv y)"
    using assms(6) by (intro gz_pad_at_end [OF assms(1)]) (simp add: p(2) img)
  then have "output_file_close y = y"
    using p(3-5) by (simp add: output_file_close_def out_pad_def gz_file_ops_def)
  then have "sparse_file_write_gz z err e m s fd False crc = Inr (0, gzclose z (priv y))"
    using r(1) y(1) by (simp add: sparse_file_write_gz_def output_file_open_gz_def gz_file_open_def Let_def
        output_file_init_opened [OF assms(8)] gz_file_close_def)
  moreover have "gunzip (gzclose z (priv y)) = shown f" using assms(1) p(2) by (simp add: zlib_stream_def)
  ultimately show ?thesis using img by simp
qed

text \<open>A stand-in for zlib that stores what it is given.\<close>

definition store_zlib :: "u8 list zlib" where
  "store_zlib = \<lparr>gz_null = (\<lambda>g. False), gzdopen = (\<lambda>fd. fd_bytes fd),
     gzseek_cur = (\<lambda>g n. if n < 0 then (-1, g) else (int (length g) + n, g @ replicate (nat n) 0)),
     gzseek_set = (\<lambda>g n. if n < int (length g) then (-1, g) else (n, g @ replicate (nat n - length g) 0)),
     gztell = (\<lambda>g. int (length g)), gzwrite = (\<lambda>g d. (int (length d), g @ d)),
     gzclose = (\<lambda>g. \<lparr>fd_bytes = g, fd_pos = length g, fd_room = length g\<rparr>),
     gz_left = (\<lambda>g. \<lparr>fd_bytes = g, fd_pos = length g, fd_room = length g\<rparr>)\<rparr>"

theorem gzip_image_written_witness:
  "\<exists>f. sparse_file_write_gz store_zlib 12 demo_env demo_mem demo_file (new_file 0) False False = Inr (0, f)
    \<and> fd_bytes f = List.map (image_byte demo_env 8 [(1, 5, BACKED_BLOCK_DATA (Sb, 0))]) [0..<32]"
proof -
  have "zlib_stream store_zlib (\<lambda>g. g) fd_bytes" by (auto simp: zlib_stream_def store_zlib_def)
  moreover have "\<forall>a bb. cells demo_mem a = Some bb \<longrightarrow> unat (bb_len bb) < 2 ^ 31" by (simp add: demo_mem_def)
  moreover have "sf_block_size demo_file = 8" "nat (sf_len demo_file) = 32" "fd_bytes (new_file 0) = []"
    by (simp_all add: demo_file_def new_file_def)
  ultimately show ?thesis
    using gzip_image_written [OF _ demo_queue demo_ok(1,5,2,3), of store_zlib "\<lambda>g. g" fd_bytes "new_file 0" 12 False] by simp
qed

text \<open>C10: the length that is computed ahead for a plain image is the length of the image, which is also
  the length of the file that is written.\<close>

theorem sparse_file_len_plain:
  assumes "queue_list m (sf_list s) as xs" "sf_block_size s \<noteq> 0"
    and "\<forall>x \<in> set xs. writable e (sf_block_size s) x"
    and "placed (sf_block_size s) 0 xs (nat (sf_len s))" "0 \<le> sf_len s"
    and "\<forall>a bb. cells m a = Some bb \<longrightarrow> unat (bb_len bb) < 2 ^ 31" "unat (sf_block_size s) < 2 ^ 31"
  shows "sparse_file_len e m s False crc = Inr (sf_len s)
    \<and> (\<exists>f. sparse_file_write e m s (new_file (nat (sf_len s))) False crc = Inr (0, f) \<and> int (length (fd_bytes f)) = sf_len s)"
proof -
  let ?N = "nat (sf_len s)"
  obtain chunks f where r: "sparse_count_chunks m s = Inr chunks" "fd_pos f = ?N"
    "write_all_blocks e m s (opened file_ops s crc (new_file ?N)) = Inr (0, opened file_ops s crc f)"
    using write_all_blocks_plain [OF assms(1-5) le_refl, of crc] by blast
  have "counted.sim (opened file_ops s crc (new_file ?N)) (opened (callback_file_ops out_counter_write) s crc 0)"
    by (intro counted.sim_opened assms(7)) (simp add: new_file_def at_end_def)
  from counted.write_all_step [OF this assms(6) r(3)]
  obtain y where y: "write_all_blocks e m s (opened (callback_file_ops out_counter_write) s crc 0) = Inr (0, y)"
    "counted.sim (opened file_ops s crc f) y" by blast
  then have p: "priv y = int (fd_pos f)" "ops y = callback_file_ops out_counter_write" "\<not> out_sparse y"
    by (simp_all add: counted.sim_def opened_def)
  have "priv (output_file_close y) = sf_len s"
    using r(2) assms(5) p(1,3) unfolding output_file_close_def out_pad_def p(2) by (simp add: callback_file_ops_def)
  then have "sparse_file_len e m s False crc = Inr (sf_len s)"
    using r(1) y(1) by (simp add: sparse_file_len_def output_file_init_opened [OF assms(7)])
  then show ?thesis using sparse_file_write_plain [OF assms(1-5) le_refl assms(7), of crc] assms(5) by auto
qed

theorem sparse_file_len_plain_witness:
  "sparse_file_len demo_env demo_mem demo_file False False = Inr 32"
proof -
  have "\<forall>a bb. cells demo_mem a = Some bb \<longrightarrow> unat (bb_len bb) < 2 ^ 31" "unat (sf_block_size demo_file) < 2 ^ 31"
    by (simp_all add: demo_mem_def demo_file_def)
  from sparse_file_len_plain [OF demo_queue demo_ok(1,5,2,3) this, of False]
  show ?thesis by (simp add: demo_file_def)
qed

end
