(* ===== verification/Make_Ext4fs.thy ===== *)
theory Make_Ext4fs
  imports Directories Xattr Uuid Canned_Config Gzip_Output
begin

text \<open>
  \<^verbatim>\<open>src/make_ext4fs.c\<close> and \<^verbatim>\<open>src/make_ext4fs_main.c\<close>: walking the source directory, putting an image
  together and the command line.

  The machine the program runs on is an argument, \<open>host\<close>: what the file system calls and the ioctls
  return, and the functions of zlib. The recursion over directories has the depth as fuel; a path that
  the operating system resolves is shorter than 4096 bytes, so no tree needs more.
\<close>

section \<open>The host\<close>

record stat =
  st_mode :: u32
  st_size :: u64
  st_mtime :: u64
  st_major :: u32
  st_minor :: u32

record 'g host =
  listing :: "string \<Rightarrow> string list option"
  lstat :: "string \<Rightarrow> stat option"
  stat_of :: "string \<Rightarrow> stat option"
  readlink :: "string \<Rightarrow> string option"
  content :: "string \<Rightarrow> u8 list option"
  fd_size :: "u64 option"
  wipe_block_device :: "fd_file \<Rightarrow> u64 \<Rightarrow> fd_file"
  zl :: "'g zlib"
  gz_errno :: int

abbreviation S_IFMT :: u32 where "S_IFMT \<equiv> 0xF000"
abbreviation S_IRWXU :: u16 where "S_IRWXU \<equiv> 0x1C0"

definition filter_dot :: "string \<Rightarrow> bool" where
  "filter_dot name \<longleftrightarrow> strcmp name ''..'' \<noteq> 0 \<and> strcmp name ''.'' \<noteq> 0"

text \<open>\<open>scandir\<close> with \<open>filter_dot\<close> and \<open>alphasort\<close> in the C locale.\<close>

fun insert_name :: "string \<Rightarrow> string list \<Rightarrow> string list" where
  "insert_name x [] = [x]"
| "insert_name x (y # ys) = (if strcmp x y \<le> 0 then x # y # ys else y # insert_name x ys)"

definition scandir :: "'g host \<Rightarrow> string \<Rightarrow> string list option" where
  "scandir h dir = map_option (\<lambda>names. foldr insert_name (filter filter_dot names) []) (listing h dir)"

section \<open>The default directory\<close>

definition lost_found :: "u32 \<Rightarrow> string \<Rightarrow> dentry" where
  "lost_found mtime p = \<lparr>path = p, full_path = [], filename = ''lost+found'', link = None, dsize = 0,
     file_type = EXT4_FT_DIR, dmode = S_IRWXU, duid = 0, dgid = 0, dinode = None, dmtime = mtime,
     capabilities = 0\<rparr>"

text \<open>\<open>*dentry.inode = inode\<close>, through the pointer that \<open>make_directory\<close> left.\<close>

definition set_dentry_inode :: "build \<Rightarrow> dentry \<Rightarrow> u32 \<Rightarrow> build res" where
  "set_dentry_inode b d inode =
     (case dinode d of None \<Rightarrow> Inl Fault | Some (buf, off) \<Rightarrow> put_buf b buf off (le32 inode))"

definition build_default_directory_structure ::
  "fs_info \<Rightarrow> build \<Rightarrow> bool \<Rightarrow> u64 \<Rightarrow> (u32 \<times> build) res" where
  "build_default_directory_structure info b force fixed_time =
     (let d = lost_found (if fixed_time \<noteq> -1 then ucast fixed_time else 0) [] in
      rbind (make_directory info b force 0 [d] 1) (\<lambda>(root_inode, ds, b).
      rbind (make_directory info b force root_inode [] 0) (\<lambda>(inode, _, b).
      rbind (set_dentry_inode b (hd ds) inode) (\<lambda>b.
      rbind (inode_set_permissions info b inode (dmode d) (duid d) (dgid d) (dmtime d)) (\<lambda>(_, b).
      Inr (root_inode, b))))))"

section \<open>Walking a directory\<close>

type_synonym fs_config = "string \<Rightarrow> (u32 \<times> u32 \<times> u32 \<times> u64) option"

text \<open>The type of an entry, or \<open>None\<close> for a mode that is none of the seven kinds.\<close>

definition file_type_of :: "u32 \<Rightarrow> u8 option" where
  "file_type_of mode =
     (let t = mode AND S_IFMT in
      if t = 0x8000 then Some 1 else if t = 0x4000 then Some EXT4_FT_DIR
      else if t = 0x2000 then Some 3 else if t = 0x6000 then Some 4
      else if t = 0x1000 then Some 5 else if t = 0xC000 then Some 6
      else if t = 0xA000 then Some 7 else None)"

text \<open>The body of the first loop; \<open>None\<close> where it reaches \<open>error\<close>.\<close>

definition read_dentry ::
  "'g host \<Rightarrow> fs_info \<Rightarrow> fs_config option \<Rightarrow> u64 \<Rightarrow> string \<Rightarrow> string \<Rightarrow> string \<Rightarrow> dentry option" where
  "read_dentry h info config fixed_time full_dir dir name =
     (let full = full_dir @ name; p = dir @ name in
      case lstat h full of None \<Rightarrow> None | Some st \<Rightarrow>
      let (uid, gid, mode, caps) = (case Option.bind config (\<lambda>f. f p) of
            None \<Rightarrow> (0, 0, ucast (st_mode st AND 0xFFF), 0)
          | Some (uid, gid, mode, caps) \<Rightarrow> (ucast uid, ucast gid, ucast mode, caps)) in
      map_option (\<lambda>ft. \<lparr>path = p, full_path = full, filename = name,
        link = (if ft = 7 then Some (take (unat (block_size info - 1))
                  (case readlink h full of None \<Rightarrow> [] | Some t \<Rightarrow> t)) else None),
        dsize = st_size st, file_type = ft, dmode = mode, duid = uid, dgid = gid, dinode = None,
        dmtime = ucast (if fixed_time = -1 then st_mtime st else fixed_time), capabilities = caps\<rparr>)
        (file_type_of (st_mode st)))"

text \<open>
  The first loop. After a failure the index goes back by one, to a name that is freed: if any entry
  is left, the next round reads freed memory; a failure of the last entry drops it.
\<close>

fun read_dentries ::
  "(string \<Rightarrow> dentry option) \<Rightarrow> bool \<Rightarrow> string list \<Rightarrow> dentry list res" where
  "read_dentries entry_of force [] = Inr []"
| "read_dentries entry_of force (name # names) = (case entry_of name of
     None \<Rightarrow> error_then force (if names = [] then Inr [] else Inl Fault)
   | Some d \<Rightarrow> rbind (read_dentries entry_of force names) (\<lambda>ds. Inr (d # ds)))"

text \<open>One round of the second loop: the file itself (\<open>sub\<close> builds a directory), then its attributes.\<close>

definition build_entry ::
  "'g host \<Rightarrow> fs_info \<Rightarrow> bool \<Rightarrow> (build \<Rightarrow> dentry \<Rightarrow> (u32 \<times> build) res) \<Rightarrow> build \<Rightarrow> dentry \<Rightarrow> build res" where
  "build_entry h info force sub b d =
     rbind (if file_type d = 1 then make_file info b force (full_path d) (dsize d)
            else if file_type d = EXT4_FT_DIR then sub b d
            else if file_type d = 7 then
              (case link d of None \<Rightarrow> Inl Fault | Some t \<Rightarrow> make_link info b force t)
            else if file_type d \<in> {3, 4, 5, 6} then
              make_special info b force (map_option (\<lambda>st. (ucast (st_mode st), st_major st, st_minor st))
                (stat_of h (full_path d)))
            else error_then force (Inr (0, b))) (\<lambda>(entry_inode, b).
     rbind (set_dentry_inode b d entry_inode) (\<lambda>b.
     rbind (inode_set_permissions info b entry_inode (dmode d) (duid d) (dgid d) (dmtime d)) (\<lambda>(ret, b).
     rbind (if ret \<noteq> 0 then error_then force (Inr b) else Inr b) (\<lambda>b.
     rbind (inode_set_capabilities info b force entry_inode (capabilities d)) (\<lambda>(ok, b).
     if ok then Inr b else error_then force (Inr b))))))"

fun build_entries ::
  "'g host \<Rightarrow> fs_info \<Rightarrow> bool \<Rightarrow> (build \<Rightarrow> dentry \<Rightarrow> (u32 \<times> build) res) \<Rightarrow> dentry list \<Rightarrow> build \<Rightarrow> build res" where
  "build_entries h info force sub [] b = Inr b"
| "build_entries h info force sub (d # ds) b =
     rbind (build_entry h info force sub b d) (build_entries h info force sub ds)"

text \<open>
  \<open>build_directory_structure\<close>; \<open>full_path\<close> is \<open>None\<close> for a directory that is not on disk. The entry
  of such a directory has an empty \<open>full_path\<close> here.
\<close>

primrec build_directory_structure ::
  "nat \<Rightarrow> 'g host \<Rightarrow> fs_info \<Rightarrow> fs_config option \<Rightarrow> bool \<Rightarrow> u64 \<Rightarrow> build \<Rightarrow> string option \<Rightarrow> string \<Rightarrow> u32 \<Rightarrow>
     (u32 \<times> build) res" where
  "build_directory_structure 0 h info config force fixed_time b full_dir dir dir_inode = Inl Diverge"
| "build_directory_structure (Suc depth) h info config force fixed_time b full_dir dir dir_inode =
     (case (case full_dir of None \<Rightarrow> Some [] | Some f \<Rightarrow> scandir h f) of
        None \<Rightarrow> error_then force (Inr (EXT4_ALLOCATE_FAILED, b))
      | Some names \<Rightarrow>
      let needs = (dir_inode = 0 \<and> ''lost+found'' \<notin> set names) in
      rbind (read_dentries (read_dentry h info config fixed_time (case full_dir of None \<Rightarrow> [] | Some f \<Rightarrow> f) dir)
               force names) (\<lambda>ds.
      let ds = (if needs then lost_found 0 (dir @ ''lost+found'') # ds else ds);
          dirs = of_nat (length (filter (\<lambda>d. file_type d = EXT4_FT_DIR) ds)) in
      rbind (make_directory info b force dir_inode ds dirs) (\<lambda>(inode, ds, b).
      rbind (build_entries h info force (\<lambda>b d.
               build_directory_structure depth h info config force fixed_time b
                 (if full_path d = [] then None else Some (full_path d @ ''/'')) (path d @ ''/'') inode) ds b) (\<lambda>b.
      Inr (inode, b)))))"

section \<open>The image\<close>

definition canonicalize_slashes :: "string \<Rightarrow> bool \<Rightarrow> string" where
  "canonicalize_slashes str absolute =
     (if str = [] then (if absolute then ''/'' else '''')
      else (if hd str \<noteq> CHR ''/'' \<and> absolute then ''/'' else '''') @ str
           @ (if List.last str \<noteq> CHR ''/'' then ''/'' else ''''))"

definition canonicalize_rel_slashes :: "string \<Rightarrow> string" where
  "canonicalize_rel_slashes str = canonicalize_slashes str False"

text \<open>The bytes behind the data pointers of the queue when the image is written.\<close>

definition pad_to :: "nat \<Rightarrow> u8 list \<Rightarrow> u8 list" where
  "pad_to n bs = bs @ replicate (n - length bs) 0"

definition inode_slot :: "fs_info \<Rightarrow> build \<Rightarrow> ptr \<Rightarrow> u8 list" where
  "inode_slot info b p = take (unat (inode_size info)) (inode_bytes (inode_at b p) @ inode_tail b p)"

definition build_env :: "'g host \<Rightarrow> fs_info \<Rightarrow> build \<Rightarrow> env" where
  "build_env h info b = (let bs = unat (block_size info) in
     \<lparr>env_buf = (\<lambda>r. case r of
          Bitmaps i \<Rightarrow> bitmaps (bgs (aux b) ! i)
        | Inode_Table i \<Rightarrow> pad_to (unat (inode_table_blocks (aux b)) * bs)
            (concat (map (\<lambda>k. inode_slot info b (Inode_Table i, k * unat (inode_size info)))
               [0..<unat (inodes_per_group info)]))
        | Sb \<Rightarrow> pad_to bs (sb_bytes (aux_sb b))
        | Backup_Sb i \<Rightarrow> (case backup_sb b ! i of None \<Rightarrow> [] | Some s \<Rightarrow> pad_to bs (sb_bytes s))
        | Bg_Desc \<Rightarrow> concat (map desc_bytes (bg_desc b))
        | Calloc a \<Rightarrow> (case cells (bufs b) a of None \<Rightarrow> [] | Some bytes \<Rightarrow> bytes)),
      env_file = content h, env_fd = (\<lambda>_. [])\<rparr>)"

text \<open>What \<open>make_ext4fs_internal\<close> does between choosing the parameters and writing the image.\<close>

definition build_file_system ::
  "nat \<Rightarrow> 'g host \<Rightarrow> fs_info \<Rightarrow> fs_config option \<Rightarrow> bool \<Rightarrow> string option \<Rightarrow> u64 \<Rightarrow> build res" where
  "build_file_system depth h info config force directory fixed_time =
     rbind (init_build info) (\<lambda>b.
     rbind (block_allocator_init info (aux b) (img b) force) (\<lambda>(a, q).
     rbind (ext4_fill_in_sb info (b\<lparr>aux := a, img := q\<rparr>)) (\<lambda>b.
     rbind (reserve_inodes (aux b) 0 10) (\<lambda>(ret, a).
     rbind (if ret = EXT4_ALLOCATE_FAILED then error_then force (Inr b) else Inr (b\<lparr>aux := a\<rparr>)) (\<lambda>b.
     rbind (if feat_compat info AND EXT4_FEATURE_COMPAT_HAS_JOURNAL \<noteq> 0
            then ext4_create_journal_inode info b force else Inr b) (\<lambda>b.
     rbind (if feat_compat info AND EXT4_FEATURE_COMPAT_RESIZE_INODE \<noteq> 0
            then ext4_create_resize_inode info b force else Inr b) (\<lambda>b.
     rbind (case directory of
              Some d \<Rightarrow> build_directory_structure depth h info config force fixed_time b (Some d) [] 0
            | None \<Rightarrow> build_default_directory_structure info b force fixed_time) (\<lambda>(root_inode_num, b).
     rbind (inode_set_permissions info b root_inode_num 0x1ED 0 0
              (if fixed_time \<noteq> 1 then ucast fixed_time else 0)) (\<lambda>(_, b).
     rbind (ext4_update_free b) (\<lambda>b.
     ext4_queue_sb info b))))))))))"

text \<open>
  \<open>make_ext4fs_internal\<close>: the exit code and the output file. An \<open>error\<close> or \<open>critical_error\<close> comes
  back from \<open>setjmp\<close>, with the file truncated. The head of the block list is the zeroed structure of
  \<open>main\<close>, since \<open>make_file\<close> cannot link anything to it: with a block list file, its null name goes to
  \<open>strncmp\<close>.
\<close>

definition make_ext4fs_internal ::
  "nat \<Rightarrow> 'g host \<Rightarrow> SHA1_CTX \<Rightarrow> fs_info \<Rightarrow> fs_config option \<Rightarrow> bool \<Rightarrow> bool \<Rightarrow> fd_file \<Rightarrow> string option \<Rightarrow>
     bool \<Rightarrow> bool \<Rightarrow> bool \<Rightarrow> bool \<Rightarrow> u64 \<Rightarrow> bool \<Rightarrow> (int \<times> fd_file) res" where
  "make_ext4fs_internal depth h ctx info config force uuid_user_specified fd directory gzip sparse crc wipe
       fixed_time block_list_file =
     (let directory = map_option canonicalize_rel_slashes directory in
      rbind (fill_in_params (get_file_size info (fd_size h)) info) (\<lambda>r.
      case r of None \<Rightarrow> Inr (1, fd) | Some info \<Rightarrow>
      rbind (if uuid_user_specified then Inr info else
               rbind (uuid5_generate ctx (chars ''extandroid/make_ext4fs'') (chars (the (label info)))) (\<lambda>u.
               Inr (info\<lparr>uuid := u\<rparr>))) (\<lambda>info.
      let fd = fd\<lparr>fd_bytes := []\<rparr> in
      case build_file_system depth h info config force directory fixed_time of
        Inl Error \<Rightarrow> Inr (1, fd)
      | Inl Critical \<Rightarrow> Inr (1, fd)
      | Inl e \<Rightarrow> Inl e
      | Inr b \<Rightarrow>
        if block_list_file then Inl Fault else
        let fd = (if wipe then wipe_block_device h fd (len info) else fd);
            s = \<lparr>sf_block_size = block_size info, sf_len = sint (len info), sf_list = snd (img b)\<rparr> in
        if gzip then rbind (sparse_file_write_gz (zl h) (gz_errno h) (build_env h info b) (fst (img b)) s fd sparse crc)
             (\<lambda>(_, fd). Inr (0, fd))
        else rbind (sparse_file_write (build_env h info b) (fst (img b)) s fd sparse crc) (\<lambda>(_, fd).
             Inr (0, fd)))))"

section \<open>The command line\<close>

record options =
  opt_info :: fs_info
  opt_fixed_time :: u64
  opt_config_file :: "string option"
  opt_block_list :: bool
  opt_uuid :: bool
  opt_force :: bool
  opt_gzip :: bool
  opt_sparse :: bool
  opt_crc :: bool
  opt_wipe :: bool

definition no_options :: options where
  "no_options = \<lparr>opt_info = \<lparr>len = 0, block_size = 0, blocks_per_group = 0, inodes_per_group = 0,
       inode_size = 0, inodes = 0, journal_blocks = 0, feat_ro_compat = 0, feat_compat = 0, feat_incompat = 0,
       bg_desc_reserve_blocks = 0, reserve_pcnt = 0, label = None, no_journal = 0, uuid = replicate 16 0\<rparr>,
     opt_fixed_time = -1, opt_config_file = None, opt_block_list = False, opt_uuid = False,
     opt_force = False, opt_gzip = False, opt_sparse = False, opt_crc = False, opt_wipe = False\<rparr>"

text \<open>One option of \<open>getopt\<close> with its argument; \<open>None\<close> is \<open>exit(EXIT_FAILURE)\<close>.\<close>

definition parse_option :: "(string \<Rightarrow> bool) \<Rightarrow> char \<times> string \<Rightarrow> options \<Rightarrow> options option res" where
  "parse_option can_open opt o' =
     (let (c, arg) = opt; info = opt_info o'; n = parse_num arg;
          set_info = (\<lambda>i. Inr (Some (o'\<lparr>opt_info := i\<rparr>))) in
      if c = CHR ''l'' then set_info (info\<lparr>len := n\<rparr>)
      else if c = CHR ''j'' then set_info (info\<lparr>journal_blocks := ucast n\<rparr>)
      else if c = CHR ''b'' then set_info (info\<lparr>block_size := ucast n\<rparr>)
      else if c = CHR ''g'' then set_info (info\<lparr>blocks_per_group := ucast n\<rparr>)
      else if c = CHR ''i'' then set_info (info\<lparr>inodes := ucast n\<rparr>)
      else if c = CHR ''I'' then set_info (info\<lparr>inode_size := ucast n\<rparr>)
      else if c = CHR ''L'' then set_info (info\<lparr>label := Some arg\<rparr>)
      else if c = CHR ''u'' then
        rbind (parse_uuid (uuid info) arg (length arg)) (\<lambda>(ok, u).
        Inr (if ok then Some (o'\<lparr>opt_info := info\<lparr>uuid := u\<rparr>, opt_uuid := True\<rparr>) else None))
      else if c = CHR ''f'' then Inr (Some (o'\<lparr>opt_force := True\<rparr>))
      else if c = CHR ''w'' then Inr (Some (o'\<lparr>opt_wipe := True\<rparr>))
      else if c = CHR ''z'' then Inr (Some (o'\<lparr>opt_gzip := True\<rparr>))
      else if c = CHR ''J'' then set_info (info\<lparr>no_journal := 1\<rparr>)
      else if c = CHR ''c'' then Inr (Some (o'\<lparr>opt_crc := True\<rparr>))
      else if c = CHR ''s'' then Inr (Some (o'\<lparr>opt_sparse := True\<rparr>))
      else if c = CHR ''t'' \<or> c = CHR ''v'' then Inr (Some o')
      else if c = CHR ''T'' then Inr (Some (o'\<lparr>opt_fixed_time := word_of_int (strtol 0 arg)\<rparr>))
      else if c = CHR ''C'' then Inr (Some (o'\<lparr>opt_config_file := Some arg\<rparr>))
      else if c = CHR ''B'' then Inr (if can_open arg then Some (o'\<lparr>opt_block_list := True\<rparr>) else None)
      else if c = CHR ''m'' then set_info (info\<lparr>reserve_pcnt := ucast (strtoul 0 arg)\<rparr>)
      else Inr None)"

fun parse_options :: "(string \<Rightarrow> bool) \<Rightarrow> (char \<times> string) list \<Rightarrow> options \<Rightarrow> options option res" where
  "parse_options can_open [] o' = Inr (Some o')"
| "parse_options can_open (opt # opts) o' =
     rbind (parse_option can_open opt o') (\<lambda>r. case r of None \<Rightarrow> Inr None | Some o' \<Rightarrow> parse_options can_open opts o')"

text \<open>
  \<open>main\<close> after \<open>getopt\<close> has split the arguments: the exit code and what is left of the output file,
  \<open>None\<close> when nothing was opened or it was unlinked. \<open>files\<close> reads the configuration file and \<open>output\<close>
  opens the output.
\<close>

definition main ::
  "nat \<Rightarrow> 'g host \<Rightarrow> SHA1_CTX \<Rightarrow> (string \<Rightarrow> bool) \<Rightarrow> (string \<Rightarrow> string option) \<Rightarrow> (string \<Rightarrow> fd_file option) \<Rightarrow>
     (char \<times> string) list \<Rightarrow> string list \<Rightarrow> (int \<times> fd_file option) res" where
  "main depth h ctx can_open files output opts args =
     rbind (parse_options can_open opts no_options) (\<lambda>r.
     case r of None \<Rightarrow> Inr (1, None) | Some o' \<Rightarrow>
     rbind (case opt_config_file o' of None \<Rightarrow> Inr (Some None)
            | Some file \<Rightarrow> rbind (load_canned_fs_config \<lparr>canned_data = [], canned_alloc = 0\<rparr> (files file)) (\<lambda>(ret, cl).
                Inr (if ret < 0 then None else Some (Some (canned_fs_config cl))))) (\<lambda>config.
     case config of None \<Rightarrow> Inr (1, None) | Some config \<Rightarrow>
     if opt_wipe o' \<and> opt_sparse o' \<or> opt_wipe o' \<and> opt_gzip o' \<or> length args \<notin> {1, 2} then Inr (1, None) else
     case output (args ! 0) of None \<Rightarrow> Inr (1, None) | Some fd \<Rightarrow>
     rbind (make_ext4fs_internal depth h ctx (opt_info o') config (opt_force o') (opt_uuid o') fd
              (if length args = 2 then Some (args ! 1) else None) (opt_gzip o') (opt_sparse o') (opt_crc o')
              (opt_wipe o') (opt_fixed_time o') (opt_block_list o')) (\<lambda>(code, fd).
     Inr (code, if code \<noteq> 0 \<and> strcmp (args ! 0) ''-'' \<noteq> 0 then None else Some fd))))"

end
