(* ===== verification/Resparse.thy ===== *)
theory Resparse
  imports Sparse_Write
begin

text \<open>
  Cutting a queue into images of a bounded size (\<open>sparse_file_resparse\<close> in \<^verbatim>\<open>libsparse/sparse.c\<close>), with
  the moves between queues and the release of a queue from \<^verbatim>\<open>libsparse/backed_block.c\<close>. Both queues
  of a move live in the same heap.
\<close>

section \<open>Moving and releasing\<close>

definition backed_block_iter_new :: "backed_block_list \<Rightarrow> nat option" where
  "backed_block_iter_new bbl = data_blocks bbl"

definition backed_block_iter_next :: "bb_mem \<Rightarrow> nat \<Rightarrow> nat option res" where
  "backed_block_iter_next m bb = rbind (load m bb) (\<lambda>c. Inr (bb_next c))"

text \<open>The last cell of the chain.\<close>

fun last_cell :: "nat \<Rightarrow> bb_mem \<Rightarrow> nat \<Rightarrow> nat res" where
  "last_cell 0 m a = Inl Diverge"
| "last_cell (Suc fuel) m a = rbind (load m a) (\<lambda>c.
     case bb_next c of None \<Rightarrow> Inr a | Some n \<Rightarrow> last_cell fuel m n)"

text \<open>Unlinking: the cell that leads to \<open>start\<close>, if there is one, gets the successor of \<open>end\<close>.\<close>

fun unlink_loop :: "nat \<Rightarrow> bb_mem \<Rightarrow> nat \<Rightarrow> nat option \<Rightarrow> nat option \<Rightarrow> bb_mem res" where
  "unlink_loop fuel m start after None = Inr m"
| "unlink_loop 0 m start after (Some a) = Inl Diverge"
| "unlink_loop (Suc fuel) m start after (Some a) = rbind (load m a) (\<lambda>c.
     if bb_next c = Some start then store m a (c\<lparr>bb_next := after\<rparr>)
     else unlink_loop fuel m start after (bb_next c))"

text \<open>Linking: in front of the first cell behind the head that starts later, or at the end.\<close>

fun relink_loop :: "nat \<Rightarrow> bb_mem \<Rightarrow> nat \<Rightarrow> nat \<Rightarrow> nat \<Rightarrow> bb_mem res" where
  "relink_loop 0 m start lst a = Inl Diverge"
| "relink_loop (Suc fuel) m start lst a = rbind (load m a) (\<lambda>c. rbind (load m start) (\<lambda>s.
     rbind (case bb_next c of None \<Rightarrow> Inr True
            | Some n \<Rightarrow> rbind (load m n) (\<lambda>d. Inr (bb_block d > bb_block s))) (\<lambda>here.
     if here then
       rbind (load m lst) (\<lambda>l. rbind (store m lst (l\<lparr>bb_next := bb_next c\<rparr>)) (\<lambda>m.
       rbind (load m a) (\<lambda>c. store m a (c\<lparr>bb_next := Some start\<rparr>))))
     else (case bb_next c of None \<Rightarrow> Inr m | Some n \<Rightarrow> relink_loop fuel m start lst n))))"

definition backed_block_list_move ::
  "bb_mem \<Rightarrow> backed_block_list \<Rightarrow> backed_block_list \<Rightarrow> nat option \<Rightarrow> nat option \<Rightarrow>
     (bb_mem \<times> backed_block_list \<times> backed_block_list) res" where
  "backed_block_list_move m from to start lst =
     (let fuel = Suc (brk m); start = (if start = None then data_blocks from else start) in
      case start of None \<Rightarrow> Inr (m, from, to) | Some start \<Rightarrow>
      rbind (case lst of None \<Rightarrow> last_cell fuel m start | Some a \<Rightarrow> Inr a) (\<lambda>lst.
      rbind (load m lst) (\<lambda>l.
      let from = from\<lparr>last_used := None\<rparr>; to = to\<lparr>last_used := None\<rparr> in
      rbind (if data_blocks from = Some start then Inr (m, from\<lparr>data_blocks := bb_next l\<rparr>)
             else rbind (unlink_loop fuel m start (bb_next l) (data_blocks from)) (\<lambda>m. Inr (m, from))) (\<lambda>(m, from).
      case data_blocks to of
        None \<Rightarrow> rbind (load m lst) (\<lambda>l. rbind (store m lst (l\<lparr>bb_next := None\<rparr>)) (\<lambda>m.
          Inr (m, from, to\<lparr>data_blocks := Some start\<rparr>)))
      | Some a \<Rightarrow> rbind (relink_loop fuel m start lst a) (\<lambda>m. Inr (m, from, to))))))"

text \<open>
  Release of a queue. The copies of file names are blocks of their own: \<open>freed\<close> are those that were
  given back before, and giving one back again is a \<open>Fault\<close>.
\<close>

definition backed_block_destroy :: "bb_mem \<Rightarrow> nat list \<Rightarrow> nat \<Rightarrow> (bb_mem \<times> nat list) res" where
  "backed_block_destroy m freed bb =
     rbind (load m bb) (\<lambda>c.
     rbind (case bb_kind c of
              BACKED_BLOCK_FILE a _ _ \<Rightarrow> if a \<in> set freed then Inl Fault else Inr (a # freed)
            | _ \<Rightarrow> Inr freed) (\<lambda>freed.
     rbind (release m bb) (\<lambda>m. Inr (m, freed))))"

fun destroy_loop :: "nat \<Rightarrow> bb_mem \<Rightarrow> nat list \<Rightarrow> nat option \<Rightarrow> (bb_mem \<times> nat list) res" where
  "destroy_loop fuel m freed None = Inr (m, freed)"
| "destroy_loop 0 m freed (Some a) = Inl Diverge"
| "destroy_loop (Suc fuel) m freed (Some a) = rbind (load m a) (\<lambda>c.
     rbind (backed_block_destroy m freed a) (\<lambda>(m, freed). destroy_loop fuel m freed (bb_next c)))"

definition backed_block_list_destroy :: "bb_mem \<Rightarrow> nat list \<Rightarrow> backed_block_list \<Rightarrow> (bb_mem \<times> nat list) res" where
  "backed_block_list_destroy m freed bbl = destroy_loop (Suc (brk m)) m freed (data_blocks bbl)"

definition sparse_file_new :: "u32 \<Rightarrow> int \<Rightarrow> sparse_file" where
  "sparse_file_new bs n = \<lparr>sf_block_size = bs, sf_len = n, sf_list = backed_block_list_new bs\<rparr>"

definition sparse_file_destroy :: "bb_mem \<Rightarrow> nat list \<Rightarrow> sparse_file \<Rightarrow> (bb_mem \<times> nat list) res" where
  "sparse_file_destroy m freed s = backed_block_list_destroy m freed (sf_list s)"

definition sparse_file_callback ::
  "env \<Rightarrow> bb_mem \<Rightarrow> sparse_file \<Rightarrow> bool \<Rightarrow> bool \<Rightarrow> ('p \<Rightarrow> u8 list option \<Rightarrow> int \<Rightarrow> int \<times> 'p) \<Rightarrow> 'p \<Rightarrow> (int \<times> 'p) res"
where
  "sparse_file_callback e m s sparse crc write p =
     rbind (sparse_count_chunks m s) (\<lambda>chunks.
     rbind (output_file_init (callback_file_ops write) p (sf_block_size s) (sf_len s) sparse chunks crc)
       (\<lambda>(ret, out).
     if ret < 0 then Inr (- ENOMEM, priv out) else
     rbind (write_all_blocks e m s out) (\<lambda>(ret, out).
     Inr (ret, priv (output_file_close out)))))"

section \<open>Cutting\<close>

text \<open>
  The loop of \<open>move_chunks_up_to_len\<close>: the heap, the cell it stopped at and the last cell to move.
  The outer \<open>None\<close> is the jump to \<open>out\<close> after a failed write.
\<close>

fun scan_chunks ::
  "nat \<Rightarrow> env \<Rightarrow> bb_mem \<Rightarrow> backed_block_list \<Rightarrow> int output_file \<Rightarrow> int \<Rightarrow> int \<Rightarrow> nat option \<Rightarrow> nat option \<Rightarrow>
     (bb_mem \<times> nat option \<times> nat option) option res" where
  "scan_chunks fuel e m from out len file_len last_bb None = Inr (Some (m, None, last_bb))"
| "scan_chunks 0 e m from out len file_len last_bb (Some a) = Inl Diverge"
| "scan_chunks (Suc fuel) e m from out len file_len last_bb (Some a) = rbind (load m a) (\<lambda>bb.
     rbind (sparse_file_write_block e (out\<lparr>priv := 0\<rparr>) bb) (\<lambda>(ret, out).
     if ret \<noteq> 0 then Inr None
     else if file_len + priv out > len then
       rbind (if last_bb = None \<or> len - file_len > len div 8
              then rbind (backed_block_split m from a (word_of_int (len - file_len))) (\<lambda>(_, m). Inr (m, Some a))
              else Inr (m, last_bb)) (\<lambda>(m, last_bb). Inr (Some (m, Some a, last_bb)))
     else scan_chunks fuel e m from out len (file_len + priv out) (Some a) (bb_next bb)))"

text \<open>
  \<open>len -= overhead\<close> is unsigned: a limit below the overhead becomes a very large one.
\<close>

definition move_chunks_up_to_len ::
  "env \<Rightarrow> bb_mem \<Rightarrow> sparse_file \<Rightarrow> sparse_file \<Rightarrow> u32 \<Rightarrow> (nat option \<times> bb_mem \<times> sparse_file \<times> sparse_file) res" where
  "move_chunks_up_to_len e m from to len =
     (let len = len - (SPARSE_HEADER_LEN + 4 * CHUNK_HEADER_LEN + 4);
          start = backed_block_iter_new (sf_list from) in
      rbind (output_file_init (callback_file_ops out_counter_write) 0 (sf_block_size to) (sf_len to) True 0 False)
        (\<lambda>(ret, out).
      if ret < 0 then Inr (None, m, from, to) else
      rbind (scan_chunks (Suc (brk m)) e m (sf_list from) out (uint len) 0 None start) (\<lambda>r.
      case r of None \<Rightarrow> Inr (None, m, from, to) | Some (m, bb, last_bb) \<Rightarrow>
      rbind (backed_block_list_move m (sf_list from) (sf_list to) start last_bb) (\<lambda>(m, f, t).
      Inr (bb, m, from\<lparr>sf_list := f\<rparr>, to\<lparr>sf_list := t\<rparr>)))))"

text \<open>
  The loop of \<open>sparse_file_resparse\<close>, with fuel: the images stored so far, in order, and those
  beyond \<open>out_s_count\<close> collected in \<open>tmp\<close>.
\<close>

fun resparse_loop ::
  "nat \<Rightarrow> env \<Rightarrow> bb_mem \<Rightarrow> nat list \<Rightarrow> sparse_file \<Rightarrow> sparse_file \<Rightarrow> u32 \<Rightarrow> nat \<Rightarrow> nat \<Rightarrow> sparse_file list \<Rightarrow>
     (nat \<times> sparse_file list \<times> bb_mem \<times> nat list \<times> sparse_file \<times> sparse_file) res" where
  "resparse_loop 0 e m freed in_s tmp max_len n c outs = Inl Diverge"
| "resparse_loop (Suc fuel) e m freed in_s tmp max_len n c outs =
     rbind (move_chunks_up_to_len e m in_s (sparse_file_new (sf_block_size in_s) (sf_len in_s)) max_len)
       (\<lambda>(bb, m, in_s, s).
     rbind (if c < n then Inr (outs @ [s], m, freed, tmp) else
              rbind (backed_block_list_move m (sf_list s) (sf_list tmp) None None) (\<lambda>(m, l, t).
              rbind (sparse_file_destroy m freed (s\<lparr>sf_list := l\<rparr>)) (\<lambda>(m, freed).
              Inr (outs, m, freed, tmp\<lparr>sf_list := t\<rparr>)))) (\<lambda>(outs, m, freed, tmp).
     if bb = None then Inr (Suc c, outs, m, freed, in_s, tmp)
     else resparse_loop fuel e m freed in_s tmp max_len n (Suc c) outs))"

definition sparse_file_resparse ::
  "nat \<Rightarrow> env \<Rightarrow> bb_mem \<Rightarrow> nat list \<Rightarrow> sparse_file \<Rightarrow> u32 \<Rightarrow> nat \<Rightarrow>
     (nat \<times> sparse_file list \<times> bb_mem \<times> nat list \<times> sparse_file) res" where
  "sparse_file_resparse fuel e m freed in_s max_len n =
     rbind (resparse_loop fuel e m freed in_s (sparse_file_new (sf_block_size in_s) (sf_len in_s)) max_len n 0 [])
       (\<lambda>(c, outs, m, freed, in_s, tmp).
     rbind (backed_block_list_move m (sf_list tmp) (sf_list in_s) None None) (\<lambda>(m, t, l).
     rbind (sparse_file_destroy m freed (tmp\<lparr>sf_list := t\<rparr>)) (\<lambda>(m, freed).
     Inr (c, outs, m, freed, in_s\<lparr>sf_list := l\<rparr>))))"

end
