(* ===== verification/Build_Invariant.thy ===== *)
theory Build_Invariant
  imports Make_Ext4fs
begin

text \<open>
  What the construction of an image keeps. Everything between the set-up and the free counts changes
  the groups, the queue and the superblock through a few operations only: pieces are queued, blocks
  are taken from a group or given back, inodes are reserved, directories are counted, inode tables
  are attached and the journal's block list is copied. The locale \<open>build_invariant\<close> names a property
  that each of these keeps; inside it, every function that builds a part of the image is shown to
  keep it, up to \<open>build_directory_structure\<close>. The rules are collected in \<open>keeps\<close>: they push a
  postcondition back over a call, as in a calculus of weakest preconditions.
\<close>

named_theorems keeps \<open>postconditions of calls\<close>

section \<open>Postconditions\<close>

text \<open>\<open>P\<close> holds of the result, if there is one.\<close>

definition post :: "('a \<Rightarrow> bool) \<Rightarrow> 'a res \<Rightarrow> bool" where
  "post P m \<longleftrightarrow> (case m of Inl _ \<Rightarrow> True | Inr x \<Rightarrow> P x)"

lemma post_simps [simp]:
  "post P (Inl e) = True" "post P (Inr x) = P x"
  "post P (error_then force m) \<longleftrightarrow> (force \<longrightarrow> post P m)"
  by (simp_all add: post_def error_then_def)

lemma post_rbind [simp]: "post P (rbind m f) = post (\<lambda>x. post P (f x)) m"
  by (cases m) simp_all

lemma postD: "post P m \<Longrightarrow> m = Inr x \<Longrightarrow> P x"
  by (simp add: post_def)

lemma postI: "(\<And>x. m = Inr x \<Longrightarrow> P x) \<Longrightarrow> post P m"
  by (cases m) simp_all

lemma post_any: "(\<And>x. P x) \<Longrightarrow> post P m"
  by (cases m) simp_all

text \<open>Calls that read only, or change only regions and buffers.\<close>

lemmas reads [keeps] =
  post_any [where m = "DIV_ROUND_UP x y" for x y] post_any [where m = "udiv x y" for x y]
  post_any [where m = "umod x y" for x y] post_any [where m = "rd xs i" for xs i]
  post_any [where m = "load m a" for m a] post_any [where m = "store m a c" for m a c]
  post_any [where m = "put_at xs i ys" for xs i ys] post_any [where m = "get_region m a" for m a]
  post_any [where m = "get_next_region m a" for m a]
  post_any [where m = "block_allocation_num_regions m a" for m a]
  post_any [where m = "block_allocation_len m a" for m a]
  post_any [where m = "reserve_oob_blocks m a n" for m a n] post_any [where m = "get_oob_block m a n" for m a n]
  post_any [where m = "get_block m a n" for m a n] post_any [where m = "advance_blocks m a n" for m a n]
  post_any [where m = "advance_oob_blocks m a n" for m a n] post_any [where m = "free_alloc m a" for m a]
  post_any [where m = "indirect_blocks_needed a n" for a n]
  post_any [where m = "reserve_all_indirect_blocks a f m al n" for a f m al n]
  post_any [where m = "reserved_regions is info a m al" for "is" info a m al]
  post_any [where m = "xattr_addto_range f bs s l e i n v" for f bs s l e i n v]
  post_any [where m = "ext4_xattr_hash_entry bs e" for bs e]
  post_any [where m = "ext4_bg_has_super_block info i" for info i]
  post_any [where m = "resize_index i n r" for i n r] post_any [where m = "dentry_size info ds" for info ds]
  post_any [where m = "read_dentries f g ns" for f g ns]

lemma calloc_eq: "calloc b bytes = (brk (bufs b), b\<lparr>bufs := snd (malloc_cell (bufs b) bytes)\<rparr>)"
  by (simp add: calloc_def malloc_cell_def)

lemma update_inode_sels [simp]:
  "aux (update_inode b p f) = aux b" "img (update_inode b p f) = img b"
  "aux_sb (update_inode b p f) = aux_sb b" "bg_desc (update_inode b p f) = bg_desc b"
  by (simp_all add: update_inode_def)

section \<open>The interface\<close>

locale build_invariant =
  fixes I :: "fs_aux_info \<Rightarrow> image \<Rightarrow> ext4_super_block \<Rightarrow> ext2_group_desc list \<Rightarrow> bool"
  assumes keep_data: "sparse_file_add_data q p n block = Inr (r, q') \<Longrightarrow> I a q s d \<Longrightarrow> I a q' s d"
    and keep_file: "sparse_file_add_file q fn off n block = Inr (r, q') \<Longrightarrow> I a q s d \<Longrightarrow> I a q' s d"
    and keep_take: "ext4_allocate_blocks_from_block_group force a n i = Inr (k, a') \<Longrightarrow> I a q s d \<Longrightarrow> I a' q s d"
    and keep_release: "i < length (bgs a) \<Longrightarrow> release_blocks (bgs a ! i) n = Inr bg \<Longrightarrow> I a q s d \<Longrightarrow>
          I (set_bg a i bg) q s d"
    and keep_inodes: "reserve_inodes a i n = Inr (k, a') \<Longrightarrow> I a q s d \<Longrightarrow> I a' q s d"
    and keep_directory: "add_directory info a ino = Inr a' \<Longrightarrow> I a q s d \<Longrightarrow> I a' q s d"
    and keep_table: "i < length (bgs a) \<Longrightarrow> I a q s d \<Longrightarrow>
          I (set_bg a i ((bgs a ! i)\<lparr>inode_table := t, bg_flags := f\<rparr>)) q s d"
    and keep_journal: "I a q s d \<Longrightarrow> I a q (s\<lparr>s_jnl_blocks := w\<rparr>) d"
begin

abbreviation J :: "build \<Rightarrow> bool" where
  "J b \<equiv> I (aux b) (img b) (aux_sb b) (bg_desc b)"

section \<open>Blocks\<close>

lemma allocate_block_from_keeps:
  "allocate_block_from force a is = Inr (k, a') \<Longrightarrow> I a q s d \<Longrightarrow> I a' q s d"
  by (induction "is" arbitrary: a) (auto split: if_split_asm dest: keep_take)

lemma allocate_block_keeps:
  "allocate_block force a = Inr (k, a') \<Longrightarrow> I a q s d \<Longrightarrow> I a' q s d"
  unfolding allocate_block_def by (rule allocate_block_from_keeps)

lemma best_fit_partial_keeps:
  "ext4_allocate_best_fit_partial force a m n = Inr (r, m', a') \<Longrightarrow> I a q s d \<Longrightarrow> I a' q s d"
  by (auto simp: ext4_allocate_best_fit_partial_def error_then_def Let_def malloc_cell_def
      split: if_split_asm dest: keep_take)

lemma best_fit_loop_keeps:
  "best_fit_loop fuel force a m n f p = Inr (r, m', a') \<Longrightarrow> I a q s d \<Longrightarrow> I a' q s d"
proof (induction fuel arbitrary: a m n f p)
  case (Suc fuel)
  show ?case
  proof (cases "0 < n \<and> (\<exists>r m1 a1. ext4_allocate_best_fit_partial force a m n = Inr (Some r, m1, a1))")
    case True
    then obtain r1 m1 a1 where p: "0 < n" "ext4_allocate_best_fit_partial force a m n = Inr (Some r1, m1, a1)"
      by blast
    then show ?thesis using Suc.prems Suc.IH best_fit_partial_keeps [OF p(2) Suc.prems(2)]
      by (auto simp: Let_def)
  next
    case False
    then show ?thesis using Suc.prems
      by (cases "ext4_allocate_best_fit_partial force a m n")
        (auto split: if_split_asm option.split_asm dest: best_fit_partial_keeps)
  qed
qed simp

lemma best_fit_keeps:
  "ext4_allocate_best_fit force a m n = Inr (r, m', a') \<Longrightarrow> I a q s d \<Longrightarrow> I a' q s d"
  unfolding ext4_allocate_best_fit_def by (rule best_fit_loop_keeps)

lemma allocate_blocks_keeps:
  "allocate_blocks force a m n = Inr (r, m', a') \<Longrightarrow> I a q s d \<Longrightarrow> I a' q s d"
  by (auto simp: allocate_blocks_def split: option.split_asm dest: best_fit_keeps)

lemma reduce_loop_keeps:
  "reduce_loop fuel a m alloc n = Inr (a', m', alloc') \<Longrightarrow> I a q s d \<Longrightarrow> I a' q s d"
proof (induction fuel arbitrary: a m alloc n)
  case (Suc fuel)
  then show ?case
    by (auto simp: rd_eq_Inr split: if_split_asm option.split_asm dest: keep_release)
qed simp

lemma reduce_allocation_keeps:
  "reduce_allocation a m alloc n = Inr (a', m', alloc') \<Longrightarrow> I a q s d \<Longrightarrow> I a' q s d"
  unfolding reduce_allocation_def by (rule reduce_loop_keeps)

lemma append_oob_keeps:
  "append_oob_allocation force a m alloc n = Inr (r, m', alloc', a') \<Longrightarrow> I a q s d \<Longrightarrow> I a' q s d"
  by (auto simp: append_oob_allocation_def error_then_def split: if_split_asm dest: best_fit_keeps)

section \<open>Inodes\<close>

lemma allocate_inode_from_keeps:
  "allocate_inode_from info a is = Inr (k, a') \<Longrightarrow> I a q s d \<Longrightarrow> I a' q s d"
  by (induction "is" arbitrary: a) (auto split: if_split_asm dest: keep_inodes)

lemma allocate_inode_keeps:
  "allocate_inode info a = Inr (k, a') \<Longrightarrow> I a q s d \<Longrightarrow> I a' q s d"
  unfolding allocate_inode_def by (rule allocate_inode_from_keeps)

lemma inode_table_keeps:
  "allocate_bg_inode_table info a q i = Inr (a', q') \<Longrightarrow> I a q s d \<Longrightarrow> I a' q' s d"
  by (auto simp: allocate_bg_inode_table_def rd_eq_Inr Let_def split: if_split_asm dest: keep_data intro: keep_table)

lemma get_inode_keeps:
  "get_inode info a q ino = Inr (p, a', q') \<Longrightarrow> I a q s d \<Longrightarrow> I a' q' s d"
  by (auto simp: get_inode_def split: option.split_asm dest: inode_table_keeps)

section \<open>Functions on the whole state\<close>

lemma allocate_block_post [keeps]:
  assumes "J b" "\<And>k b'. J b' \<Longrightarrow> img b' = img b \<Longrightarrow> aux_sb b' = aux_sb b \<Longrightarrow> bg_desc b' = bg_desc b \<Longrightarrow> Q (k, aux b')"
  shows "post Q (allocate_block force (aux b))"
proof (rule postI)
  fix x assume x: "allocate_block force (aux b) = Inr x"
  obtain k a where e: "x = (k, a)" by (cases x)
  have "J (b\<lparr>aux := a\<rparr>)" using allocate_block_keeps [OF x [unfolded e]] assms(1) by simp
  from assms(2) [OF this] show "Q x" by (simp add: e)
qed

lemma allocate_blocks_post [keeps]:
  assumes "J b" "\<And>r m' b'. J b' \<Longrightarrow> img b' = img b \<Longrightarrow> aux_sb b' = aux_sb b \<Longrightarrow> bg_desc b' = bg_desc b \<Longrightarrow> Q (r, m', aux b')"
  shows "post Q (allocate_blocks force (aux b) m n)"
proof (rule postI)
  fix x assume x: "allocate_blocks force (aux b) m n = Inr x"
  obtain r m' a where e: "x = (r, m', a)" by (cases x)
  have "J (b\<lparr>aux := a\<rparr>)" using allocate_blocks_keeps [OF x [unfolded e]] assms(1) by simp
  from assms(2) [OF this] show "Q x" by (simp add: e)
qed

lemma reduce_allocation_post [keeps]:
  assumes "J b" "\<And>m' alloc' b'. J b' \<Longrightarrow> img b' = img b \<Longrightarrow> aux_sb b' = aux_sb b \<Longrightarrow> bg_desc b' = bg_desc b \<Longrightarrow> Q (aux b', m', alloc')"
  shows "post Q (reduce_allocation (aux b) m alloc n)"
proof (rule postI)
  fix x assume x: "reduce_allocation (aux b) m alloc n = Inr x"
  obtain m' alloc' a where e: "x = (a, m', alloc')" by (cases x)
  have "J (b\<lparr>aux := a\<rparr>)" using reduce_allocation_keeps [OF x [unfolded e]] assms(1) by simp
  from assms(2) [OF this] show "Q x" by (simp add: e)
qed

lemma append_oob_post [keeps]:
  assumes "J b" "\<And>r m' alloc' b'. J b' \<Longrightarrow> img b' = img b \<Longrightarrow> aux_sb b' = aux_sb b \<Longrightarrow> bg_desc b' = bg_desc b \<Longrightarrow> Q (r, m', alloc', aux b')"
  shows "post Q (append_oob_allocation force (aux b) m alloc n)"
proof (rule postI)
  fix x assume x: "append_oob_allocation force (aux b) m alloc n = Inr x"
  obtain r m' alloc' a where e: "x = (r, m', alloc', a)" by (cases x)
  have "J (b\<lparr>aux := a\<rparr>)" using append_oob_keeps [OF x [unfolded e]] assms(1) by simp
  from assms(2) [OF this] show "Q x" by (simp add: e)
qed

lemma allocate_inode_post [keeps]:
  assumes "J b" "\<And>k b'. J b' \<Longrightarrow> img b' = img b \<Longrightarrow> aux_sb b' = aux_sb b \<Longrightarrow> bg_desc b' = bg_desc b \<Longrightarrow> Q (k, aux b')"
  shows "post Q (allocate_inode info (aux b))"
proof (rule postI)
  fix x assume x: "allocate_inode info (aux b) = Inr x"
  obtain k a where e: "x = (k, a)" by (cases x)
  have "J (b\<lparr>aux := a\<rparr>)" using allocate_inode_keeps [OF x [unfolded e]] assms(1) by simp
  from assms(2) [OF this] show "Q x" by (simp add: e)
qed

lemma add_directory_post [keeps]:
  assumes "J b" "\<And>b'. J b' \<Longrightarrow> img b' = img b \<Longrightarrow> aux_sb b' = aux_sb b \<Longrightarrow> bg_desc b' = bg_desc b \<Longrightarrow> Q (aux b')"
  shows "post Q (add_directory info (aux b) ino)"
proof (rule postI)
  fix a assume a: "add_directory info (aux b) ino = Inr a"
  have "J (b\<lparr>aux := a\<rparr>)" using keep_directory [OF a] assms(1) by simp
  from assms(2) [OF this] show "Q a" by simp
qed

lemma get_inode_ptr_post [keeps]:
  "J b \<Longrightarrow> (\<And>p b'. J b' \<Longrightarrow> Q (p, b')) \<Longrightarrow> post Q (get_inode_ptr info b ino)"
  by (rule postI) (auto simp: get_inode_ptr_def dest: get_inode_keeps)

lemma add_data_post [keeps]:
  "J b \<Longrightarrow> (\<And>b'. J b' \<Longrightarrow> Q b') \<Longrightarrow> post Q (add_data b p n block)"
  by (rule postI) (auto simp: add_data_def dest: keep_data)

lemma put_buf_post [keeps]:
  "J b \<Longrightarrow> (\<And>b'. J b' \<Longrightarrow> Q b') \<Longrightarrow> post Q (put_buf b buf off bytes)"
  unfolding put_buf_def by (auto simp: calloc_eq Let_def intro!: keeps split: if_splits option.splits prod.splits)

lemma put_inode_words_post [keeps]:
  "J b \<Longrightarrow> (\<And>b'. J b' \<Longrightarrow> Q b') \<Longrightarrow> post Q (put_inode_words b ino i ws)"
  unfolding put_inode_words_def by (auto simp: calloc_eq Let_def intro!: keeps split: if_splits option.splits prod.splits)

lemma put_inode_bytes_post [keeps]:
  "J b \<Longrightarrow> (\<And>b'. J b' \<Longrightarrow> Q b') \<Longrightarrow> post Q (put_inode_bytes b ino bytes)"
  unfolding put_inode_bytes_def by (auto simp: calloc_eq Let_def intro!: keeps split: if_splits option.splits prod.splits)

lemma put_extent_post [keeps]:
  "J b \<Longrightarrow> (\<And>b'. J b' \<Longrightarrow> Q b') \<Longrightarrow> post Q (put_extent b arr k e)"
  by (cases arr) (auto intro!: keeps)

section \<open>Extents\<close>

lemma backing_loop_post:
  assumes "\<And>b off n block R. J b \<Longrightarrow> (\<And>b'. J b' \<Longrightarrow> R b') \<Longrightarrow> post R (queue b off n block)"
  shows "J b \<Longrightarrow> (\<And>b' alloc'. J b' \<Longrightarrow> Q (b', alloc')) \<Longrightarrow> post Q (backing_loop fuel queue info b alloc off n)"
proof (induction fuel arbitrary: b alloc off n Q)
  case 0
  then show ?case by (auto simp: backing_loop.simps [of 0])
next
  case (Suc fuel)
  then show ?case
    by (auto simp: backing_loop.simps [of "Suc fuel"] Let_def split: prod.splits intro!: assms Suc.IH keeps)
qed

lemma data_backing_post [keeps]:
  "J b \<Longrightarrow> (\<And>b' alloc'. J b' \<Longrightarrow> Q (b', alloc')) \<Longrightarrow>
     post Q (backing_loop fuel (\<lambda>b off. add_data b (Calloc data, off)) info b alloc off n)"
  by (rule backing_loop_post) (rule add_data_post)

lemma extent_backing_post [keeps]:
  "J b \<Longrightarrow> (\<And>data alloc' b'. J b' \<Longrightarrow> Q (data, b', alloc')) \<Longrightarrow> post Q (extent_create_backing info b alloc n)"
  unfolding extent_create_backing_def by (auto simp: calloc_eq Let_def intro!: keeps split: if_splits option.splits prod.splits)

lemma extent_backing_file_post [keeps]:
  "J b \<Longrightarrow> (\<And>b' alloc'. J b' \<Longrightarrow> Q (b', alloc')) \<Longrightarrow> post Q (extent_create_backing_file info b alloc n fn)"
  unfolding extent_create_backing_file_def
  by (rule backing_loop_post) (auto simp: post_def dest: keep_file split: sum.splits)

lemma write_extents_post [keeps]:
  "J b \<Longrightarrow> (\<And>alloc' b'. J b' \<Longrightarrow> Q (b', alloc')) \<Longrightarrow> post Q (write_extents fuel b arr k alloc f)"
proof (induction fuel arbitrary: b k alloc f Q)
  case 0
  then show ?case by (auto simp: write_extents.simps [of 0])
next
  case (Suc fuel)
  then show ?case
    by (auto simp: write_extents.simps [of "Suc fuel"] split: prod.splits intro!: Suc.IH keeps)
qed

lemma extent_head_post [keeps]:
  "J b \<Longrightarrow> (\<And>arr b'. J b' \<Longrightarrow> Q (b', arr)) \<Longrightarrow> post Q (extent_head info b force ino block n)"
  unfolding extent_head_def by (auto simp: calloc_eq Let_def intro!: keeps split: if_splits option.splits prod.splits)

lemma do_inode_allocate_extents_post [keeps]:
  "J b \<Longrightarrow> (\<And>alloc b'. J b' \<Longrightarrow> Q (alloc, b')) \<Longrightarrow> post Q (do_inode_allocate_extents info b force ino n)"
  unfolding do_inode_allocate_extents_def by (auto simp: calloc_eq Let_def intro!: keeps split: if_splits option.splits prod.splits)

lemma data_extents_post [keeps]:
  "J b \<Longrightarrow> (\<And>data b'. J b' \<Longrightarrow> Q (data, b')) \<Longrightarrow> post Q (inode_allocate_data_extents info b force ino n k)"
  unfolding inode_allocate_data_extents_def by (auto simp: calloc_eq Let_def intro!: keeps split: if_splits option.splits prod.splits)

lemma file_extents_post [keeps]:
  "J b \<Longrightarrow> (\<And>alloc b'. J b' \<Longrightarrow> Q (alloc, b')) \<Longrightarrow> post Q (inode_allocate_file_extents info b force ino n fn)"
  unfolding inode_allocate_file_extents_def by (auto simp: calloc_eq Let_def intro!: keeps split: if_splits option.splits prod.splits)

lemma journal_post [keeps]:
  "J b \<Longrightarrow> (\<And>b'. J b' \<Longrightarrow> Q b') \<Longrightarrow> post Q (ext4_create_journal_inode info b force)"
  unfolding ext4_create_journal_inode_def
  by (auto simp: calloc_eq Let_def keep_journal intro!: keeps split: option.splits)

section \<open>Block maps\<close>

lemma create_backing_post [keeps]:
  "J b \<Longrightarrow> (\<And>data alloc' b'. J b' \<Longrightarrow> Q (data, b', alloc')) \<Longrightarrow> post Q (create_backing info b alloc n)"
  unfolding create_backing_def by (auto simp: calloc_eq Let_def intro!: keeps split: if_splits option.splits prod.splits)

lemma fill_words_post [keeps]:
  "J b \<Longrightarrow> (\<And>b'. J b' \<Longrightarrow> Q b') \<Longrightarrow> post Q (fill_words is b buf alloc)"
  by (induction "is" arbitrary: b Q) (auto intro!: keeps)

lemma fill_indirect_post [keeps]:
  "J b \<Longrightarrow> (\<And>b'. J b' \<Longrightarrow> Q b') \<Longrightarrow> post Q (fill_indirect_block b buf n alloc)"
  unfolding fill_indirect_block_def by (auto simp: calloc_eq Let_def intro!: keeps split: if_splits option.splits prod.splits)

lemma next_oob_buffer_post:
  assumes "\<And>b block R. J b \<Longrightarrow> (\<And>b'. J b' \<Longrightarrow> R b') \<Longrightarrow> post R (attach b block)"
  shows "J b \<Longrightarrow> (\<And>data b' alloc'. J b' \<Longrightarrow> Q (data, b', alloc')) \<Longrightarrow>
     post Q (next_oob_buffer info force b attach alloc)"
  unfolding next_oob_buffer_def
  by (auto simp: calloc_eq Let_def intro!: assms keeps split: if_splits option.splits prod.splits)

lemma next_oob_word_post [keeps]:
  "J b \<Longrightarrow> (\<And>data b' alloc'. J b' \<Longrightarrow> Q (data, b', alloc')) \<Longrightarrow>
     post Q (next_oob_buffer info force b (\<lambda>b block. put_buf b buf k (le32 block)) alloc)"
  by (rule next_oob_buffer_post) (rule put_buf_post)

lemma fill_dindirect_loop_post [keeps]:
  "J b \<Longrightarrow> (\<And>alloc' b'. J b' \<Longrightarrow> Q (b', alloc')) \<Longrightarrow> post Q (fill_dindirect_loop info force b buf i n alloc)"
proof (induction "nat n" arbitrary: b i n alloc Q rule: less_induct)
  case less
  have step: "post Q (fill_dindirect_loop info force b buf i m alloc)" if "J b" "m < n" "0 < n"
      "\<And>alloc' b'. J b' \<Longrightarrow> Q (b', alloc')" for b i m alloc Q
    using less.hyps that by simp
  show ?case
    by (subst fill_dindirect_loop.simps) (auto simp: Let_def less.prems intro!: step less.prems keeps
      split: if_splits option.splits prod.splits)
qed

lemma fill_dindirect_post [keeps]:
  "J b \<Longrightarrow> (\<And>alloc' b'. J b' \<Longrightarrow> Q (b', alloc')) \<Longrightarrow> post Q (fill_dindirect_block info force b buf n alloc)"
  unfolding fill_dindirect_block_def by (auto simp: calloc_eq Let_def intro!: keeps split: if_splits option.splits prod.splits)

lemma fill_tindirect_loop_post [keeps]:
  "J b \<Longrightarrow> (\<And>alloc' b'. J b' \<Longrightarrow> Q (b', alloc')) \<Longrightarrow> post Q (fill_tindirect_loop info force b buf i n alloc)"
proof (induction "nat n" arbitrary: b i n alloc Q rule: less_induct)
  case less
  have step: "post Q (fill_tindirect_loop info force b buf i m alloc)" if "J b" "m < n" "0 < n"
      "\<And>alloc' b'. J b' \<Longrightarrow> Q (b', alloc')" for b i m alloc Q
    using less.hyps that by simp
  show ?case
    by (subst fill_tindirect_loop.simps) (auto simp: Let_def less.prems intro!: step less.prems keeps
      split: if_splits option.splits prod.splits)
qed

lemma fill_tindirect_post [keeps]:
  "J b \<Longrightarrow> (\<And>alloc' b'. J b' \<Longrightarrow> Q (b', alloc')) \<Longrightarrow> post Q (fill_tindirect_block info force b buf n alloc)"
  unfolding fill_tindirect_block_def by (auto simp: calloc_eq Let_def intro!: keeps split: if_splits option.splits prod.splits)

lemma attach_words_post [keeps]:
  "J b \<Longrightarrow> (\<And>b'. J b' \<Longrightarrow> Q b') \<Longrightarrow> post Q (attach_words is b ino alloc)"
  by (induction "is" arbitrary: b Q) (auto intro!: keeps)

lemma attach_direct_post [keeps]:
  "J b \<Longrightarrow> (\<And>ok alloc' k b'. J b' \<Longrightarrow> Q (ok, b', alloc', k)) \<Longrightarrow> post Q (inode_attach_direct_blocks force b ino alloc n)"
  unfolding inode_attach_direct_blocks_def by (auto simp: calloc_eq Let_def intro!: keeps split: if_splits option.splits prod.splits)

lemma attach_top_post:
  assumes "\<And>b data n alloc R. J b \<Longrightarrow> (\<And>b' alloc'. J b' \<Longrightarrow> R (b', alloc')) \<Longrightarrow> post R (fill b data n alloc)"
  shows "J b \<Longrightarrow> (\<And>ok b' alloc' k. J b' \<Longrightarrow> Q (ok, b', alloc', k)) \<Longrightarrow>
     post Q (attach_top info force b ino alloc n w per fill)"
  unfolding attach_top_def
  by (auto simp: calloc_eq Let_def intro!: assms keeps split: if_splits option.splits prod.splits)

lemma attach_indirect_post [keeps]:
  "J b \<Longrightarrow> (\<And>ok b' alloc' k. J b' \<Longrightarrow> Q (ok, b', alloc', k)) \<Longrightarrow>
     post Q (inode_attach_indirect_blocks info force b ino alloc n)"
  "J b \<Longrightarrow> (\<And>ok b' alloc' k. J b' \<Longrightarrow> Q (ok, b', alloc', k)) \<Longrightarrow>
     post Q (inode_attach_dindirect_blocks info force b ino alloc n)"
  "J b \<Longrightarrow> (\<And>ok b' alloc' k. J b' \<Longrightarrow> Q (ok, b', alloc', k)) \<Longrightarrow>
     post Q (inode_attach_tindirect_blocks info force b ino alloc n)"
  unfolding inode_attach_indirect_blocks_def inode_attach_dindirect_blocks_def inode_attach_tindirect_blocks_def
  by (rule attach_top_post; auto intro!: keeps)+

lemma attach_if_post:
  assumes "\<And>b alloc n R. J b \<Longrightarrow> (\<And>ok b' alloc' k. J b' \<Longrightarrow> R (ok, b', alloc', k)) \<Longrightarrow> post R (attach b alloc n)"
    and "\<And>b alloc n. J b \<Longrightarrow> post Q (k b alloc n)"
  shows "J b \<Longrightarrow> (\<And>ok b' alloc'. J b' \<Longrightarrow> Q (ok, b', alloc')) \<Longrightarrow> post Q (attach_if force attach b alloc n k)"
  unfolding attach_if_def by (auto intro!: assms)

lemma do_attach_indirect_post [keeps]:
  "J b \<Longrightarrow> (\<And>ok b' alloc'. J b' \<Longrightarrow> Q (ok, b', alloc')) \<Longrightarrow>
     post Q (do_inode_attach_indirect info force b ino alloc n)"
  unfolding do_inode_attach_indirect_def by (auto intro!: attach_if_post keeps)

lemma do_inode_allocate_indirect_post [keeps]:
  "J b \<Longrightarrow> (\<And>alloc b'. J b' \<Longrightarrow> Q (alloc, b')) \<Longrightarrow> post Q (do_inode_allocate_indirect force b n)"
  unfolding do_inode_allocate_indirect_def by (auto simp: calloc_eq Let_def intro!: keeps split: if_splits option.splits prod.splits)

lemma inode_allocate_indirect_post [keeps]:
  "J b \<Longrightarrow> (\<And>b'. J b' \<Longrightarrow> Q b') \<Longrightarrow> post Q (inode_allocate_indirect info force b ino n)"
  unfolding inode_allocate_indirect_def by (auto simp: calloc_eq Let_def intro!: keeps split: if_splits option.splits prod.splits)

lemma data_indirect_post [keeps]:
  "J b \<Longrightarrow> (\<And>data b'. J b' \<Longrightarrow> Q (data, b')) \<Longrightarrow> post Q (inode_allocate_data_indirect info force b ino n k)"
  unfolding inode_allocate_data_indirect_def by (auto simp: calloc_eq Let_def intro!: keeps split: if_splits option.splits prod.splits)

lemma resize_copies_post [keeps]:
  "J b \<Longrightarrow> (\<And>b'. J b' \<Longrightarrow> Q b') \<Longrightarrow> post Q (resize_copies js info b buf r alloc)"
  by (induction js arbitrary: b Q) (auto intro!: keeps)

lemma resize_loop_post [keeps]:
  "J b \<Longrightarrow> (\<And>b'. J b' \<Longrightarrow> Q b') \<Longrightarrow> post Q (resize_loop is info b dind ind sbs alloc)"
  by (induction "is" arbitrary: b Q) (auto intro!: keeps)

lemma attach_resize_post [keeps]:
  "J b \<Longrightarrow> (\<And>alloc' b'. J b' \<Longrightarrow> Q (b', alloc')) \<Longrightarrow> post Q (inode_attach_resize info force b ino alloc)"
  unfolding inode_attach_resize_def by (auto simp: calloc_eq Let_def intro!: keeps split: if_splits option.splits prod.splits)

lemma resize_inode_post [keeps]:
  "J b \<Longrightarrow> (\<And>b'. J b' \<Longrightarrow> Q b') \<Longrightarrow> post Q (ext4_create_resize_inode info b force)"
  unfolding ext4_create_resize_inode_def by (auto simp: calloc_eq Let_def intro!: keeps split: if_splits option.splits prod.splits)

section \<open>Directories and files\<close>

lemma add_rec_len_post [keeps]:
  "J b \<Longrightarrow> (\<And>b'. J b' \<Longrightarrow> Q b') \<Longrightarrow> post Q (add_rec_len b buf off n)"
  unfolding add_rec_len_def by (auto simp: calloc_eq Let_def intro!: keeps split: if_splits option.splits prod.splits)

lemma add_dentry_post [keeps]:
  "J b \<Longrightarrow> (\<And>at k b'. J b' \<Longrightarrow> Q (at, k, b')) \<Longrightarrow> post Q (add_dentry info b buf off prev ino name fty)"
  unfolding add_dentry_def by (auto simp: calloc_eq Let_def intro!: keeps split: if_splits option.splits prod.splits)

lemma add_dentries_post [keeps]:
  "J b \<Longrightarrow> (\<And>at k ds' b'. J b' \<Longrightarrow> Q (at, k, ds', b')) \<Longrightarrow> post Q (add_dentries info b buf n off prev ds)"
  by (induction ds arbitrary: b off prev Q) (auto intro!: keeps)

lemma make_directory_post [keeps]:
  "J b \<Longrightarrow> (\<And>ino ds' b'. J b' \<Longrightarrow> Q (ino, ds', b')) \<Longrightarrow> post Q (make_directory info b force dir ds dirs)"
  unfolding make_directory_def fill_directory_def by (auto simp: calloc_eq Let_def intro!: keeps split: if_splits option.splits prod.splits)

lemma new_inode_post:
  assumes "\<And>i p b. J b \<Longrightarrow> post Q (k i p b)"
  shows "J b \<Longrightarrow> (\<And>ino b'. J b' \<Longrightarrow> Q (ino, b')) \<Longrightarrow> post Q (new_inode info b force k)"
  unfolding new_inode_def by (auto simp: Let_def intro!: assms keeps)

lemma make_file_post [keeps]:
  "J b \<Longrightarrow> (\<And>ino b'. J b' \<Longrightarrow> Q (ino, b')) \<Longrightarrow> post Q (make_file info b force name n)"
  unfolding make_file_def
  by (auto simp: Let_def intro!: new_inode_post keeps split: if_splits option.splits prod.splits)

lemma make_link_post [keeps]:
  "J b \<Longrightarrow> (\<And>ino b'. J b' \<Longrightarrow> Q (ino, b')) \<Longrightarrow> post Q (make_link info b force t)"
  unfolding make_link_def
  by (auto simp: Let_def intro!: new_inode_post keeps split: if_splits option.splits prod.splits)

lemma make_special_post [keeps]:
  "J b \<Longrightarrow> (\<And>ino b'. J b' \<Longrightarrow> Q (ino, b')) \<Longrightarrow> post Q (make_special info b force st)"
  unfolding make_special_def
  by (auto simp: Let_def intro!: new_inode_post keeps split: if_splits option.splits prod.splits)

lemma set_permissions_post [keeps]:
  "J b \<Longrightarrow> (\<And>r b'. J b' \<Longrightarrow> Q (r, b')) \<Longrightarrow> post Q (inode_set_permissions info b ino m u g t)"
  unfolding inode_set_permissions_def by (auto simp: calloc_eq Let_def intro!: keeps split: if_splits option.splits prod.splits)

section \<open>Extended attributes\<close>

lemma xattr_addto_inode_post [keeps]:
  "J b \<Longrightarrow> (\<And>ok b'. J b' \<Longrightarrow> Q (ok, b')) \<Longrightarrow> post Q (xattr_addto_inode b force ino i name v)"
  unfolding xattr_addto_inode_def by (auto simp: calloc_eq Let_def intro!: keeps split: if_splits option.splits prod.splits)

lemma xattr_block_post [keeps]:
  "J b \<Longrightarrow> (\<And>k b'. J b' \<Longrightarrow> Q (k, b')) \<Longrightarrow> post Q (get_xattr_block_for_inode info b force ino)"
  unfolding get_xattr_block_for_inode_def xattr_list_insert_def by (auto simp: calloc_eq Let_def intro!: keeps split: if_splits option.splits prod.splits)

lemma xattr_addto_block_post [keeps]:
  "J b \<Longrightarrow> (\<And>ok b'. J b' \<Longrightarrow> Q (ok, b')) \<Longrightarrow> post Q (xattr_addto_block info b force ino i name v)"
  unfolding xattr_addto_block_def by (auto simp: calloc_eq Let_def intro!: keeps split: if_splits option.splits prod.splits)

lemma xattr_add_post [keeps]:
  "J b \<Longrightarrow> (\<And>ok b'. J b' \<Longrightarrow> Q (ok, b')) \<Longrightarrow> post Q (xattr_add info b force ino i name v)"
  unfolding xattr_add_def by (auto simp: calloc_eq Let_def intro!: keeps split: if_splits option.splits prod.splits)

lemma set_capabilities_post [keeps]:
  "J b \<Longrightarrow> (\<And>ok b'. J b' \<Longrightarrow> Q (ok, b')) \<Longrightarrow> post Q (inode_set_capabilities info b force ino c)"
  unfolding inode_set_capabilities_def by (auto simp: calloc_eq Let_def intro!: keeps split: if_splits option.splits prod.splits)

section \<open>The tree\<close>

lemma set_dentry_inode_post [keeps]:
  "J b \<Longrightarrow> (\<And>b'. J b' \<Longrightarrow> Q b') \<Longrightarrow> post Q (set_dentry_inode b dn ino)"
  unfolding set_dentry_inode_def by (auto simp: calloc_eq Let_def intro!: keeps split: if_splits option.splits prod.splits)

lemma default_directory_post [keeps]:
  "J b \<Longrightarrow> (\<And>ino b'. J b' \<Longrightarrow> Q (ino, b')) \<Longrightarrow> post Q (build_default_directory_structure info b force t)"
  unfolding build_default_directory_structure_def by (auto simp: calloc_eq Let_def intro!: keeps split: if_splits option.splits prod.splits)

lemma build_entry_post:
  assumes "\<And>b R. J b \<Longrightarrow> (\<And>ino b'. J b' \<Longrightarrow> R (ino, b')) \<Longrightarrow> post R (sub b dn)"
  shows "J b \<Longrightarrow> (\<And>b'. J b' \<Longrightarrow> Q b') \<Longrightarrow> post Q (build_entry h info force sub b dn)"
  unfolding build_entry_def by (auto intro!: assms keeps split: option.splits)

lemma build_entries_post:
  assumes "\<And>b dn R. J b \<Longrightarrow> (\<And>ino b'. J b' \<Longrightarrow> R (ino, b')) \<Longrightarrow> post R (sub b dn)"
  shows "J b \<Longrightarrow> (\<And>b'. J b' \<Longrightarrow> Q b') \<Longrightarrow> post Q (build_entries h info force sub ds b)"
  by (induction ds arbitrary: b Q) (auto intro!: build_entry_post assms)

lemma directory_structure_post [keeps]:
  "J b \<Longrightarrow> (\<And>i b'. J b' \<Longrightarrow> Q (i, b')) \<Longrightarrow> post Q (build_directory_structure depth h info config force t b full dir ino)"
proof (induction depth arbitrary: b full dir ino Q)
  case (Suc depth)
  then show ?case
    by (auto simp: Let_def intro!: build_entries_post keeps split: option.splits if_splits)
qed simp

end

end
