(* ===== verification/Consistency.thy ===== *)
theory Consistency
  imports Build_Invariant
begin

text \<open>
  Three invariants of the construction of an image, each an instance of \<open>build_invariant\<close>: what was
  queued stays queued and the queue stays ordered (\<open>queue_holds\<close>); in every group the counts agree
  with the bitmaps (\<open>groups_good\<close>); descriptors and the counts of the superblock stay as they were
  filled in. Together they describe what \<open>build_file_system\<close> leaves behind, whatever the source tree.
\<close>

section \<open>The queue\<close>

definition queue_holds :: "seg set \<Rightarrow> image \<Rightarrow> bool" where
  "queue_holds P q \<longleftrightarrow> (\<exists>xs. queue_repr q xs \<and> P \<subseteq> set xs)"

text \<open>A call that returns has not queued a second piece at the same block.\<close>

lemma add_piece_holds:
  assumes "add_piece q s = Inr q'" "from_memory_or_file s" "queue_holds P q"
  shows "queue_holds (insert s P) q'"
proof -
  obtain xs where xs: "queue_repr q xs" "P \<subseteq> set xs" using assms(3) by (auto simp: queue_holds_def)
  have "fst s \<notin> fst ` set xs" using add_piece_duplicate [OF xs(1) assms(2)] assms(1) by auto
  from add_piece_adds [OF xs(1) assms(2) this] show ?thesis
    using assms(1) xs(2) by (auto simp: queue_holds_def)
qed

lemma queue_holds_mono: "queue_holds P q \<Longrightarrow> R \<subseteq> P \<Longrightarrow> queue_holds R q"
  by (auto simp: queue_holds_def)

lemma add_data_holds:
  assumes "sparse_file_add_data q p n block = Inr (r, q')" "queue_holds P q"
  shows "queue_holds (insert (block, n, BACKED_BLOCK_DATA p) P) q'"
  using assms by (intro add_piece_holds)
    (auto simp: add_piece_def sparse_file_add_data_def from_memory_or_file_def split: prod.splits)

lemma add_file_holds:
  assumes "sparse_file_add_file q fn off n block = Inr (r, q')" "queue_holds P q"
  shows "queue_holds (insert (block, n, BACKED_BLOCK_FILE 0 fn off) P) q'"
  using assms by (intro add_piece_holds)
    (auto simp: add_piece_def sparse_file_add_file_def from_memory_or_file_def split: prod.splits)

interpretation queue_kept: build_invariant "\<lambda>a q s d. queue_holds P q" for P
  by unfold_locales (blast intro: queue_holds_mono dest: add_data_holds add_file_holds)+

section \<open>The groups\<close>

text \<open>
  A group of \<open>n\<close> blocks and \<open>ipg\<close> inodes: the used blocks and the used inodes come first, and the
  counts and both bitmaps say the same.
\<close>

definition group_good :: "nat \<Rightarrow> nat \<Rightarrow> nat \<Rightarrow> block_group_info \<Rightarrow> bool" where
  "group_good bs ipg n bg \<longleftrightarrow> blocks_ok bs bg
     \<and> unat (first_free_block bg) + unat (free_blocks bg) = n
     \<and> inode_bitmap bg = bs \<and> ipg \<le> 8 * bs \<and> 1 \<le> unat (first_free_inode bg)
     \<and> unat (first_free_inode bg) + unat (free_inodes bg) = ipg + 1
     \<and> (\<forall>k < ipg. bm_bit (bitmaps bg) (8 * bs + k) \<longleftrightarrow> k + 1 < unat (first_free_inode bg))"

lemma group_good_block_count:
  assumes "group_good bs ipg n bg"
  shows "card {k. k < n \<and> \<not> bm_bit (bitmaps bg) k} = unat (free_blocks bg)"
proof -
  let ?f = "unat (first_free_block bg)"
  have "{k. k < n \<and> \<not> bm_bit (bitmaps bg) k} = {?f..<?f + unat (free_blocks bg)}"
    using assms by (auto simp: group_good_def blocks_ok_def not_less [symmetric])
  then show ?thesis by simp
qed

lemma group_good_inode_count:
  assumes "group_good bs ipg n bg"
  shows "card {k. k < ipg \<and> \<not> bm_bit (bitmaps bg) (8 * bs + k)} = unat (free_inodes bg)"
proof -
  let ?f = "unat (first_free_inode bg)"
  have "{k. k < ipg \<and> \<not> bm_bit (bitmaps bg) (8 * bs + k)} = {?f - 1..<?f - 1 + unat (free_inodes bg)}"
    using assms by (auto simp: group_good_def)
  then show ?thesis by simp
qed

lemma group_good_take:
  assumes good: "group_good bs ipg n bg" and m: "m \<le> free_blocks bg"
  obtains bm where "reserve_blocks force bg (first_free_block bg) m = Inr (0, bg\<lparr>bitmaps := bm,
      free_blocks := free_blocks bg - m, first_free_block := first_free_block bg + m\<rparr>)"
    "group_good bs ipg n (bg\<lparr>bitmaps := bm, free_blocks := free_blocks bg - m,
      first_free_block := first_free_block bg + m\<rparr>)"
proof -
  have ok: "blocks_ok bs bg" using good by (simp add: group_good_def)
  from reserve_first_free [OF this m, of force] obtain bm where bm:
    "reserve_blocks force bg (first_free_block bg) m = Inr (0, bg\<lparr>bitmaps := bm,
      free_blocks := free_blocks bg - m, first_free_block := first_free_block bg + m\<rparr>)"
    "bm_bit bm = (\<lambda>k. bm_bit (bitmaps bg) k
       \<or> k \<in> {unat (first_free_block bg)..<unat (first_free_block bg) + unat m})"
    "blocks_ok bs (bg\<lparr>bitmaps := bm, free_blocks := free_blocks bg - m,
       first_free_block := first_free_block bg + m\<rparr>)" by blast
  have lim: "unat (first_free_block bg) + unat (free_blocks bg) \<le> 8 * bs" "16 * bs + 8 < 4294967296"
    "unat m \<le> unat (free_blocks bg)"
    using ok m by (simp_all add: blocks_ok_def word_le_nat_alt)
  then have "unat (first_free_block bg + m) = unat (first_free_block bg) + unat m"
    "unat (free_blocks bg - m) = unat (free_blocks bg) - unat m"
    using m by (auto intro!: unat_add_small simp: unat_sub)
  then have "group_good bs ipg n (bg\<lparr>bitmaps := bm, free_blocks := free_blocks bg - m,
      first_free_block := first_free_block bg + m\<rparr>)"
    using good bm(3) lim by (auto simp: group_good_def bm(2))
  with bm(1) show thesis by (rule that)
qed

text \<open>Giving back more than was taken wraps around and leaves the bitmap.\<close>

lemma free_bits_underflow:
  "length bm < 536870911 \<Longrightarrow> unat (block + 1) < n \<Longrightarrow> free_bits bm 0 n block \<noteq> Inr r"
proof (induction n arbitrary: bm block)
  case (Suc n)
  show ?case
  proof (cases "block = -1")
    case True
    have "byte_index 0 (-1) = 536870911" by (simp add: byte_index_def unat_div)
    then have "bitmap_clear_bit bm 0 block = Inl Fault"
      using Suc.prems(1) True by (simp add: bitmap_clear_bit_def rd_def)
    then show ?thesis by simp
  next
    case False
    then have "1 + block \<noteq> 0" by (metis add.inverse_unique add.inverse_inverse)
    then have u: "unat (block + 1) = Suc (unat block)" by (subst add.commute) (rule unatSuc)
    show ?thesis
    proof
      assume "free_bits bm 0 (Suc n) block = Inr r"
      then obtain bm1 where bm1: "bitmap_clear_bit bm 0 block = Inr bm1" "free_bits bm1 0 n (block - 1) = Inr r"
        by auto
      then have "length bm1 = length bm" by (auto simp: bitmap_clear_bit_def wr_eq_Inr)
      then have "length bm1 < 536870911" "unat (block - 1 + 1) < n" using Suc.prems u by auto
      from Suc.IH [OF this] bm1(2) show False by simp
    qed
  qed
qed simp

lemma group_good_release:
  assumes good: "group_good bs ipg n bg" and run: "release_blocks bg m = Inr bg'"
  shows "group_good bs ipg n bg'"
proof -
  let ?f = "first_free_block bg"
  have ok: "length (bitmaps bg) = 2 * bs" "block_bitmap bg = 0" "16 * bs + 8 < 4294967296"
    "unat ?f + unat (free_blocks bg) \<le> 8 * bs"
    using good by (simp_all add: group_good_def blocks_ok_def)
  obtain bm where bm: "free_bits (bitmaps bg) 0 (unat m) (?f - 1) = Inr bm"
    and bg': "bg' = bg\<lparr>bitmaps := bm, free_blocks := free_blocks bg + m, first_free_block := ?f - m\<rparr>"
    using run ok(2) by (auto simp: release_blocks_def)
  have mf: "unat m \<le> unat ?f"
  proof (rule ccontr)
    assume "\<not> unat m \<le> unat ?f"
    then have "unat (?f - 1 + 1) < unat m" by simp
    moreover have "length (bitmaps bg) < 536870911" using ok by simp
    ultimately show False using free_bits_underflow bm by blast
  qed
  have bits: "length bm = length (bitmaps bg)" "bm_bit bm = (\<lambda>k. bm_bit (bitmaps bg) k
      \<and> k \<notin> {unat ?f - unat m..<unat ?f})"
  proof -
    have "length bm = length (bitmaps bg) \<and> bm_bit bm = (\<lambda>k. bm_bit (bitmaps bg) k
      \<and> k \<notin> {unat ?f - unat m..<unat ?f})"
    proof (cases "?f = 0")
      case True
      then have "unat m = 0" using mf by simp
      then show ?thesis using bm True by simp
    next
      case False
      then have "1 \<le> unat ?f" by (simp add: Suc_le_eq unat_gt_0)
      then have u: "unat (?f - 1) + 1 = unat ?f" by (subst unat_sub) (simp_all add: word_le_nat_alt)
      have "8 * 0 + unat (?f - 1) < 8 * length (bitmaps bg)" "unat m \<le> unat (?f - 1) + 1"
        using u ok mf by simp_all
      from free_bits_spec [OF this] show ?thesis using bm u by auto
    qed
    then show "length bm = length (bitmaps bg)" "bm_bit bm = (\<lambda>k. bm_bit (bitmaps bg) k
      \<and> k \<notin> {unat ?f - unat m..<unat ?f})" by simp_all
  qed
  have u: "unat (?f - m) = unat ?f - unat m" "unat (free_blocks bg + m) = unat (free_blocks bg) + unat m"
    using mf ok by (auto intro!: unat_add_small simp: unat_sub word_le_nat_alt)
  show ?thesis using good mf ok(4) unfolding bg' group_good_def blocks_ok_def
    by (auto simp: u bits)
qed

text \<open>Reserving inodes.\<close>

lemma inode_bits_spec:
  "8 * base + unat ino + n \<le> 8 * length bm \<Longrightarrow> unat ino + n < 2 ^ 32 \<Longrightarrow>
   \<exists>bm'. inode_bits bm base n ino = Inr bm' \<and> length bm' = length bm
     \<and> bm_bit bm' = (\<lambda>k. bm_bit bm k \<or> k \<in> {8 * base + unat ino..<8 * base + unat ino + n})"
proof (induction n arbitrary: bm ino)
  case (Suc n)
  let ?q = "byte_index base ino"
  let ?B = "8 * base + unat ino"
  have q: "?q = ?B div 8" "?q < length bm" using Suc.prems(1) by (simp_all add: byte_index_div)
  define bm1 where "bm1 = bm[?q := bm ! ?q OR bit_mask ino]"
  have m8: "?B mod 8 = unat ino mod 8" by simp
  have bits: "bm_bit bm1 = (\<lambda>k. bm_bit bm k \<or> k = ?B)"
  proof
    fix k
    have "k = ?B \<longleftrightarrow> k div 8 = ?B div 8 \<and> k mod 8 = unat ino mod 8"
      unfolding m8 [symmetric] by (metis div_mult_mod_eq)
    then show "bm_bit bm1 k \<longleftrightarrow> bm_bit bm k \<or> k = ?B"
      unfolding bm1_def bm_bit_update [OF q(2)] using q
      by (auto simp: bm_bit_def bit_simps bit_bit_mask)
  qed
  have u: "unat (ino + 1) = unat ino + 1" using Suc.prems(2) by (intro unat_add_small [THEN trans]) simp_all
  have "8 * base + unat (ino + 1) + n \<le> 8 * length bm1" "unat (ino + 1) + n < 2 ^ 32"
    using Suc.prems by (simp_all add: u bm1_def)
  from Suc.IH [OF this] obtain bm2 where bm2: "inode_bits bm1 base n (ino + 1) = Inr bm2" "length bm2 = length bm1"
    "bm_bit bm2 = (\<lambda>k. bm_bit bm1 k \<or> k \<in> {8 * base + unat (ino + 1)..<8 * base + unat (ino + 1) + n})" by blast
  have "inode_bits bm base (Suc n) ino = Inr bm2" using q bm2(1) by (simp add: bm1_def)
  moreover have "bm_bit bm2 = (\<lambda>k. bm_bit bm k \<or> k \<in> {?B..<?B + Suc n})"
    unfolding bm2(3) bits u by (rule ext) auto
  moreover have "length bm2 = length bm" using bm2(2) by (simp add: bm1_def)
  ultimately show ?case by blast
qed simp

lemma group_good_inodes:
  assumes good: "group_good bs ipg n bg" and m: "m \<le> free_inodes bg"
  shows "\<exists>bm. inode_bits (bitmaps bg) (inode_bitmap bg) (unat m) (first_free_inode bg - 1) = Inr bm
    \<and> group_good bs ipg n (bg\<lparr>bitmaps := bm, first_free_inode := first_free_inode bg + m,
        free_inodes := free_inodes bg - m\<rparr>)"
proof -
  let ?f = "unat (first_free_inode bg)"
  have g: "length (bitmaps bg) = 2 * bs" "16 * bs + 8 < 4294967296" "inode_bitmap bg = bs" "ipg \<le> 8 * bs" "1 \<le> ?f"
    "?f + unat (free_inodes bg) = ipg + 1" "unat (first_free_block bg) + unat (free_blocks bg) \<le> 8 * bs"
    using good by (simp_all add: group_good_def blocks_ok_def)
  have m': "unat m \<le> unat (free_inodes bg)" using m by (simp add: word_le_nat_alt)
  have u1: "unat (first_free_inode bg - 1) = ?f - 1" using g(5) by (subst unat_sub) (auto simp: word_le_nat_alt)
  have u: "unat (first_free_inode bg + m) = ?f + unat m" "unat (free_inodes bg - m) = unat (free_inodes bg) - unat m"
    using m m' g by (auto intro!: unat_add_small simp: unat_sub)
  have "8 * bs + unat (first_free_inode bg - 1) + unat m \<le> 8 * length (bitmaps bg)"
    "unat (first_free_inode bg - 1) + unat m < 2 ^ 32"
    using g m' by (auto simp: u1)
  from inode_bits_spec [OF this] obtain bm where bm: "inode_bits (bitmaps bg) bs (unat m) (first_free_inode bg - 1) = Inr bm"
    "length bm = length (bitmaps bg)"
    "bm_bit bm = (\<lambda>k. bm_bit (bitmaps bg) k \<or> k \<in> {8 * bs + (?f - 1)..<8 * bs + (?f - 1) + unat m})"
    unfolding u1 by blast
  have "group_good bs ipg n (bg\<lparr>bitmaps := bm, first_free_inode := first_free_inode bg + m,
        free_inodes := free_inodes bg - m\<rparr>)"
    using good g m' unfolding group_good_def blocks_ok_def by (auto simp: u bm(2,3))
  then show ?thesis using bm(1) g(3) by auto
qed

definition groups_good :: "nat \<Rightarrow> nat \<Rightarrow> (nat \<Rightarrow> nat) \<Rightarrow> u32 \<Rightarrow> fs_aux_info \<Rightarrow> bool" where
  "groups_good bs ipg size_of N a \<longleftrightarrow> groups a = N \<and> length (bgs a) = unat N
     \<and> (\<forall>i < unat N. group_good bs ipg (size_of i) (bgs a ! i))"

lemma groups_good_set_bg:
  "groups_good bs ipg e N a \<Longrightarrow> group_good bs ipg (e i) bg \<Longrightarrow> groups_good bs ipg e N (set_bg a i bg)"
  by (cases "i < length (bgs a)") (auto simp: groups_good_def nth_list_update)

lemma groups_good_bg: "groups_good bs ipg e N a \<Longrightarrow> i < length (bgs a) \<Longrightarrow> group_good bs ipg (e i) (bgs a ! i)"
  by (simp add: groups_good_def)

lemma groups_good_take:
  assumes "ext4_allocate_blocks_from_block_group force a n i = Inr (k, a')" "groups_good bs ipg e N a"
  shows "groups_good bs ipg e N a'"
proof (cases "i < length (bgs a) \<and> \<not> free_blocks (bgs a ! i) < n")
  case True
  then have i: "i < length (bgs a)" "n \<le> free_blocks (bgs a ! i)" by (simp_all add: not_less)
  obtain bm where bm: "reserve_blocks force (bgs a ! i) (first_free_block (bgs a ! i)) n = Inr (0, (bgs a ! i)\<lparr>bitmaps := bm,
      free_blocks := free_blocks (bgs a ! i) - n, first_free_block := first_free_block (bgs a ! i) + n\<rparr>)"
    "group_good bs ipg (e i) ((bgs a ! i)\<lparr>bitmaps := bm, free_blocks := free_blocks (bgs a ! i) - n,
      first_free_block := first_free_block (bgs a ! i) + n\<rparr>)"
    by (rule group_good_take [OF groups_good_bg [OF assms(2) i(1)] i(2)])
  define bg where "bg = (bgs a ! i)\<lparr>bitmaps := bm, free_blocks := free_blocks (bgs a ! i) - n,
      first_free_block := first_free_block (bgs a ! i) + n\<rparr>"
  have "a' = set_bg a i (bg\<lparr>data_blocks_used := data_blocks_used bg + n\<rparr>)"
    using assms(1) i bm(1) unfolding bg_def [symmetric]
    by (simp add: ext4_allocate_blocks_from_block_group_def get_free_blocks_def Let_def not_less [symmetric])
  moreover have "group_good bs ipg (e i) (bg\<lparr>data_blocks_used := data_blocks_used bg + n\<rparr>)"
    using bm(2) unfolding bg_def [symmetric] by (simp add: group_good_def blocks_ok_def)
  ultimately show ?thesis using groups_good_set_bg [OF assms(2)] by simp
next
  case False
  then show ?thesis using assms
    by (auto simp: ext4_allocate_blocks_from_block_group_def get_free_blocks_def rd_eq_Inr split: if_split_asm)
qed

lemma groups_good_reserve_inodes:
  assumes "reserve_inodes a i n = Inr (k, a')" "groups_good bs ipg e N a"
  shows "groups_good bs ipg e N a'"
proof (cases "i < length (bgs a) \<and> \<not> free_inodes (bgs a ! i) < n")
  case True
  then have "n \<le> free_inodes (bgs a ! i)" by (simp add: not_less)
  from group_good_inodes [OF groups_good_bg [OF assms(2)] this] True assms show ?thesis
    by (auto simp: reserve_inodes_def get_free_inodes_def intro!: groups_good_set_bg)
next
  case False
  then show ?thesis using assms
    by (auto simp: reserve_inodes_def get_free_inodes_def rd_eq_Inr split: if_split_asm)
qed

lemma group_good_frame:
  "group_good bs ipg n (bg\<lparr>inode_table := t, bg_flags := f\<rparr>) = group_good bs ipg n bg"
  "group_good bs ipg n (bg\<lparr>used_dirs := u\<rparr>) = group_good bs ipg n bg"
  by (simp_all add: group_good_def blocks_ok_def)

interpretation groups_kept: build_invariant "\<lambda>a q s d. groups_good bs ipg e N a" for bs ipg e N
proof (unfold_locales, goal_cases)
  case (4 i a n bg q s d)
  then show ?case by (blast intro: groups_good_set_bg group_good_release groups_good_bg)
next
  case (6 info a ino a' q s d)
  then show ?case
    by (auto simp: add_directory_def rd_eq_Inr group_good_frame intro!: groups_good_set_bg groups_good_bg)
next
  case (7 i a q s d t f)
  then show ?case by (auto simp: group_good_frame intro!: groups_good_set_bg groups_good_bg)
qed (blast intro: groups_good_take groups_good_reserve_inodes)+

section \<open>The frame\<close>

interpretation counts_kept: build_invariant "\<lambda>a q s d. d = D \<and> s_uuid s = U \<and>
    s_free_blocks_count_lo s = F \<and> s_free_inodes_count s = G" for D U F G
  by unfold_locales simp_all

section \<open>Setting up the groups\<close>

text \<open>The blocks that group \<open>i\<close> has; the last one ends with the image.\<close>

definition group_blocks :: "fs_info \<Rightarrow> fs_aux_info \<Rightarrow> nat \<Rightarrow> nat" where
  "group_blocks info a i = min (unat (blocks_per_group info))
     (unat (len_blocks a) - (unat (first_data_block a) + i * unat (blocks_per_group info)))"

text \<open>
  A geometry the program can build: block numbers fit 32 bits, the bitmaps cover a group, and every
  group has more blocks than its header.
\<close>

definition layout_fits :: "fs_info \<Rightarrow> fs_aux_info \<Rightarrow> bool" where
  "layout_fits info a \<longleftrightarrow> 16 * unat (block_size info) + 8 < 2 ^ 32
     \<and> unat (blocks_per_group info) \<le> 8 * unat (block_size info)
     \<and> unat (inodes_per_group info) \<le> 8 * unat (block_size info)
     \<and> unat (first_data_block a) + unat (groups a) * unat (blocks_per_group info) < 2 ^ 32
     \<and> (\<forall>i < unat (groups a). \<exists>has. ext4_bg_has_super_block info (of_nat i) = Inr has
          \<and> header_size info a has < group_blocks info a i)"

lemma header_size_bgs [simp]: "header_size info (a\<lparr>bgs := l\<rparr>) has = header_size info a has"
  by (simp add: header_size_def)

lemma group_start_nat:
  assumes "layout_fits info a" "i \<le> unat (groups a)"
  shows "unat (group_start info a i) = unat (first_data_block a) + i * unat (blocks_per_group info)"
proof -
  have "i * unat (blocks_per_group info) \<le> unat (groups a) * unat (blocks_per_group info)"
    using assms(2) by simp
  then have lim: "unat (first_data_block a) + i * unat (blocks_per_group info) < 2 ^ 32"
    using assms(1) unfolding layout_fits_def by linarith
  have "group_start info a i = of_nat (unat (first_data_block a) + i * unat (blocks_per_group info))"
    by (simp add: group_start_def)
  then show ?thesis using lim by (simp only: unat_of_nat) simp
qed

text \<open>The piece that \<open>init_bg\<close> queues lies in its group.\<close>

definition sb_blocks :: "fs_info \<Rightarrow> fs_aux_info \<Rightarrow> nat \<Rightarrow> u32" where
  "sb_blocks info a i = (if ext4_bg_has_super_block info (of_nat i) = Inr True
     then 1 + bg_desc_blocks a + bg_desc_reserve_blocks info else 0)"

definition bitmap_piece :: "fs_info \<Rightarrow> fs_aux_info \<Rightarrow> nat \<Rightarrow> seg" where
  "bitmap_piece info a i =
     (group_start info a i + sb_blocks info a i, 2 * block_size info, BACKED_BLOCK_DATA (Bitmaps i, 0))"

lemma sb_blocks_nat:
  assumes "header_size info a has < 2 ^ 32" "ext4_bg_has_super_block info (of_nat i) = Inr has"
  shows "unat (sb_blocks info a i) < header_size info a has"
proof (cases has)
  case True
  define n where "n = 1 + unat (bg_desc_blocks a) + unat (bg_desc_reserve_blocks info)"
  have "sb_blocks info a i = of_nat n" using assms(2) True by (simp add: sb_blocks_def n_def)
  moreover have "n < header_size info a has" using True by (simp add: header_size_def n_def)
  ultimately show ?thesis using assms(1) by (simp add: unat_of_nat)
qed (use assms in \<open>simp add: sb_blocks_def header_size_def\<close>)

lemma bitmap_piece_in_group:
  assumes "layout_fits info a" "i < unat (groups a)"
  shows "unat (group_start info a i) \<le> unat (fst (bitmap_piece info a i))"
    "unat (fst (bitmap_piece info a i)) < unat (group_start info a (Suc i))"
proof -
  obtain has where has: "ext4_bg_has_super_block info (of_nat i) = Inr has"
    "header_size info a has < group_blocks info a i"
    using assms by (auto simp: layout_fits_def)
  have h: "header_size info a has < unat (blocks_per_group info)" using has(2) by (simp add: group_blocks_def)
  then have "header_size info a has < 2 ^ 32" using unat_less_32 [of "blocks_per_group info"] by simp
  from sb_blocks_nat [OF this has(1)] h
  have sb: "unat (sb_blocks info a i) < unat (blocks_per_group info)" by simp
  have st: "unat (group_start info a (Suc i)) = unat (group_start info a i) + unat (blocks_per_group info)"
    using group_start_nat [OF assms(1)] assms(2) by simp
  have "unat (group_start info a i) + unat (sb_blocks info a i) < 2 ^ 32"
    using sb st unat_less_32 [of "group_start info a (Suc i)"] by simp
  then have "unat (fst (bitmap_piece info a i)) = unat (group_start info a i) + unat (sb_blocks info a i)"
    by (simp add: bitmap_piece_def unat_add_small)
  then show "unat (group_start info a i) \<le> unat (fst (bitmap_piece info a i))"
    "unat (fst (bitmap_piece info a i)) < unat (group_start info a (Suc i))"
    using sb st by simp_all
qed

text \<open>
  Group \<open>i\<close> before anything is allocated: the header is as large as the metadata of the group, the
  bits set in the block bitmap are exactly those of the header and of the blocks past the end of
  the image, and no inode is taken.
\<close>

definition fresh_group :: "fs_info \<Rightarrow> fs_aux_info \<Rightarrow> nat \<Rightarrow> block_group_info \<Rightarrow> bool" where
  "fresh_group info a i bg \<longleftrightarrow>
     group_good (unat (block_size info)) (unat (inodes_per_group info)) (group_blocks info a i) bg
   \<and> unat (first_block bg) = unat (first_data_block a) + i * unat (blocks_per_group info)
   \<and> ext4_bg_has_super_block info (of_nat i) = Inr (has_superblock bg)
   \<and> unat (first_free_block bg) = header_size info a (has_superblock bg)
   \<and> (\<forall>k. bm_bit (bitmaps bg) k \<longleftrightarrow> k < header_size info a (has_superblock bg)
        \<or> group_blocks info a i \<le> k \<and> k < unat (blocks_per_group info))
   \<and> first_free_inode bg = 1 \<and> free_inodes bg = inodes_per_group info"

lemma init_bg_good:
  assumes fits: "layout_fits info a" and i: "i < unat (groups a)" "length l = unat (groups a)"
    and q: "queue_repr q xs" and low: "\<forall>s \<in> set xs. unat (fst s) < unat (group_start info a i)"
  shows "\<exists>bg q' ys. init_bg info (a\<lparr>bgs := l\<rparr>) q force i = Inr (a\<lparr>bgs := l[i := bg]\<rparr>, q')
    \<and> fresh_group info a i bg
    \<and> queue_repr q' ys \<and> set ys = insert (bitmap_piece info a i) (set xs)"
proof -
  obtain has where has: "ext4_bg_has_super_block info (of_nat i) = Inr has"
    "header_size info a has < group_blocks info a i"
    using fits i by (auto simp: layout_fits_def)
  let ?blk = "group_start info a i + sb_blocks info a i"
  have low': "fst (bitmap_piece info a i) \<notin> fst ` set xs"
    using low bitmap_piece_in_group(1) [OF fits i(1)] by force
  then have "?blk \<notin> fst ` set xs" by (simp add: bitmap_piece_def)
  obtain m bbl where qq: "q = (m, bbl)" by (cases q)
  have "add_piece q (bitmap_piece info a i) = rbind (sparse_file_add_data q (Bitmaps i, 0) (2 * block_size info) ?blk) (\<lambda>(_, q). Inr q)"
    by (auto simp: add_piece_def bitmap_piece_def sparse_file_add_data_def qq rbind_def split: sum.splits)
  moreover have "from_memory_or_file (bitmap_piece info a i)"
    by (simp add: bitmap_piece_def from_memory_or_file_def)
  ultimately obtain ret q' ys where data: "sparse_file_add_data q (Bitmaps i, 0) (2 * block_size info) ?blk = Inr (ret, q')"
    "queue_repr q' ys" "set ys = insert (bitmap_piece info a i) (set xs)"
    using add_piece_adds [OF q _ low'] by auto
  have sb: "sb_blocks info a i = (if has then 1 + bg_desc_blocks a + bg_desc_reserve_blocks info else 0)"
    by (simp add: sb_blocks_def has(1))
  have nowrap: "unat (first_data_block a) + (i + 1) * unat (blocks_per_group info) < 2 ^ 32"
    using group_start_nat [OF fits, of "Suc i"] i(1) unat_less_32 [of "group_start info a (Suc i)"]
    by (simp add: algebra_simps)
  have "\<exists>bg. init_bg info (a\<lparr>bgs := l\<rparr>) q force i = Inr (set_bg (a\<lparr>bgs := l\<rparr>) i bg, q')
    \<and> blocks_ok (unat (block_size info)) bg
    \<and> unat (first_block bg) = unat (first_data_block a) + i * unat (blocks_per_group info)
    \<and> unat (first_free_block bg) = header_size info (a\<lparr>bgs := l\<rparr>) has
    \<and> unat (free_blocks bg) = group_blocks info a i - header_size info (a\<lparr>bgs := l\<rparr>) has
    \<and> bm_bit (bitmaps bg) = (\<lambda>k. k < header_size info (a\<lparr>bgs := l\<rparr>) has
         \<or> group_blocks info a i \<le> k \<and> k < unat (blocks_per_group info))
    \<and> has_superblock bg = has \<and> free_inodes bg = inodes_per_group info \<and> first_free_inode bg = 1
    \<and> inode_bitmap bg = unat (block_size info) \<and> inode_table bg = inode_table (bgs (a\<lparr>bgs := l\<rparr>) ! i)"
  proof (rule init_bg_group)
    show "sparse_file_add_data q (Bitmaps i, 0) (2 * block_size info)
      (first_data_block (a\<lparr>bgs := l\<rparr>) + of_nat i * blocks_per_group info
        + (if has then 1 + bg_desc_blocks (a\<lparr>bgs := l\<rparr>) + bg_desc_reserve_blocks info else 0)) = Inr (ret, q')"
      using data(1) unfolding sb group_start_def by (cases has) simp_all
  qed (use fits i has nowrap in \<open>simp_all add: group_blocks_def layout_fits_def\<close>)
  then obtain bg where bg: "init_bg info (a\<lparr>bgs := l\<rparr>) q force i = Inr (set_bg (a\<lparr>bgs := l\<rparr>) i bg, q')"
    "blocks_ok (unat (block_size info)) bg" "unat (first_free_block bg) = header_size info a has"
    "unat (free_blocks bg) = group_blocks info a i - header_size info a has"
    "bm_bit (bitmaps bg) = (\<lambda>k. k < header_size info a has
         \<or> group_blocks info a i \<le> k \<and> k < unat (blocks_per_group info))"
    "free_inodes bg = inodes_per_group info" "first_free_inode bg = 1" "inode_bitmap bg = unat (block_size info)"
    "unat (first_block bg) = unat (first_data_block a) + i * unat (blocks_per_group info)" "has_superblock bg = has"
    by auto
  have "unat (blocks_per_group info) \<le> 8 * unat (block_size info)"
    "unat (inodes_per_group info) \<le> 8 * unat (block_size info)"
    "group_blocks info a i \<le> unat (blocks_per_group info)"
    using fits by (simp_all add: layout_fits_def group_blocks_def)
  then have "fresh_group info a i bg"
    using bg has by (simp add: fresh_group_def group_good_def)
  then show ?thesis using bg(1) data(2,3) by (auto simp: set_bg_def)
qed

lemma atLeastLessThan_insert: "k < n \<Longrightarrow> {k..<n} = insert k {Suc k..<n}" for k :: nat
  by auto

lemma init_bgs_good:
  assumes fits: "layout_fits info a" and l: "length l = unat (groups a)" and k: "k \<le> unat (groups a)"
    and good: "\<forall>i < k. fresh_group info a i (l ! i)"
    and q: "queue_repr q xs" and low: "\<forall>s \<in> set xs. unat (fst s) < unat (group_start info a k)"
  shows "\<exists>l' q' ys. init_bgs info force [k..<unat (groups a)] (a\<lparr>bgs := l\<rparr>) q = Inr (a\<lparr>bgs := l'\<rparr>, q')
    \<and> length l' = unat (groups a)
    \<and> (\<forall>i < unat (groups a). fresh_group info a i (l' ! i))
    \<and> queue_repr q' ys \<and> set ys = set xs \<union> bitmap_piece info a ` {k..<unat (groups a)}"
  using l k good q low
proof (induction "unat (groups a) - k" arbitrary: k l q xs)
  case 0
  then show ?case by (intro exI [of _ l] exI [of _ q] exI [of _ xs]) auto
next
  case (Suc n)
  let ?N = "unat (groups a)"
  have k: "k < ?N" using Suc.hyps(2) by simp
  obtain bg q1 ys where bg: "init_bg info (a\<lparr>bgs := l\<rparr>) q force k = Inr (a\<lparr>bgs := l[k := bg]\<rparr>, q1)"
    "fresh_group info a k bg"
    "queue_repr q1 ys" "set ys = insert (bitmap_piece info a k) (set xs)"
    using init_bg_good [OF fits k Suc.prems(1,4,5)] by blast
  have mono: "unat (group_start info a k) \<le> unat (group_start info a (Suc k))"
    using bitmap_piece_in_group [OF fits k] by simp
  have hyps: "n = ?N - Suc k" "length (l[k := bg]) = ?N" "Suc k \<le> ?N"
    "\<forall>i < Suc k. fresh_group info a i (l[k := bg] ! i)"
    "\<forall>s \<in> set ys. unat (fst s) < unat (group_start info a (Suc k))"
    using Suc.hyps(2) Suc.prems(1,3,5) k bg(2,4) bitmap_piece_in_group(2) [OF fits k] mono
    by (auto simp: nth_list_update less_Suc_eq intro: less_le_trans)
  obtain l' q' zs where r: "init_bgs info force [Suc k..<?N] (a\<lparr>bgs := l[k := bg]\<rparr>) q1 = Inr (a\<lparr>bgs := l'\<rparr>, q')"
    "length l' = ?N"
    "\<forall>i < ?N. fresh_group info a i (l' ! i)"
    "queue_repr q' zs" "set zs = set ys \<union> bitmap_piece info a ` {Suc k..<?N}"
    using Suc.hyps(1) [OF hyps(1-4) bg(3) hyps(5)] by (elim exE conjE) (rule that)
  have "set zs = set xs \<union> bitmap_piece info a ` {k..<?N}"
    unfolding r(5) bg(4) atLeastLessThan_insert [OF k] by simp
  then show ?case using r(1-4) bg(1) k by (simp add: upt_rec [of k]) blast
qed

definition start_aux :: "fs_geom \<Rightarrow> fs_aux_info" where
  "start_aux g = fs_geom.extend g \<lparr>bgs = []\<rparr>"

text \<open>A file system of 64 blocks in one group.\<close>

definition small_info :: fs_info where
  "small_info = \<lparr>len = 65536, block_size = 1024, blocks_per_group = 64, inodes_per_group = 16,
     inode_size = 256, inodes = 16, journal_blocks = 0, feat_ro_compat = 0, feat_compat = 0, feat_incompat = 0,
     bg_desc_reserve_blocks = 0, reserve_pcnt = 0, label = Some ''x'', no_journal = 0, uuid = replicate 16 0\<rparr>"

definition small_geom :: fs_geom where
  "small_geom = \<lparr>first_data_block = 1, len_blocks = 64, inode_table_blocks = 4, groups = 1, bg_desc_blocks = 1,
     default_i_flags = 128, blocks_per_ind = 256, blocks_per_dind = 65536, blocks_per_tind = 0\<rparr>"

definition no_host :: "u8 list host" where
  "no_host = \<lparr>listing = (\<lambda>_. None), lstat = (\<lambda>_. None), stat_of = (\<lambda>_. None), readlink = (\<lambda>_. None),
     content = (\<lambda>_. None), fd_size = None, wipe_block_device = (\<lambda>f _. f), zl = store_zlib, gz_errno = 0\<rparr>"

lemma small_geom: "ext4_init_fs_aux_info small_info = Inr small_geom"
  by code_simp

lemma small_layout: "layout_fits small_info (start_aux small_geom)"
proof -
  have "ext4_bg_has_super_block small_info (of_nat 0) = Inr True" by code_simp
  then show ?thesis
    by (auto simp: layout_fits_def small_info_def small_geom_def start_aux_def fs_geom.defs header_size_def
        group_blocks_def)
qed

text \<open>C5: when every group has room for its header, \<open>block_allocator_init\<close> goes through: it queues the
  bitmaps of every group behind the group's superblock area. In every group exactly the header
  (superblock area where there is one, bitmaps and inode table) and the blocks past the end of the
  image are marked, the first free block is the one after the header, the counts say what the
  bitmaps say, and no inode is taken.\<close>

theorem block_allocator_init_groups:
  assumes "layout_fits info a" "queue_repr q []"
  shows "\<exists>a' q' ys. block_allocator_init info a q force = Inr (a', q')
    \<and> groups_good (unat (block_size info)) (unat (inodes_per_group info)) (group_blocks info a) (groups a) a'
    \<and> (\<forall>i < unat (groups a). let bg = bgs a' ! i in
         unat (first_block bg) = unat (first_data_block a) + i * unat (blocks_per_group info)
       \<and> ext4_bg_has_super_block info (of_nat i) = Inr (has_superblock bg)
       \<and> unat (first_free_block bg) = header_size info a (has_superblock bg)
       \<and> (\<forall>k. bm_bit (bitmaps bg) k \<longleftrightarrow> k < header_size info a (has_superblock bg)
            \<or> group_blocks info a i \<le> k \<and> k < unat (blocks_per_group info))
       \<and> first_free_inode bg = 1 \<and> free_inodes bg = inodes_per_group info)
    \<and> fs_geom.truncate a' = fs_geom.truncate a
    \<and> queue_repr q' ys \<and> set ys = bitmap_piece info a ` {0..<unat (groups a)}"
proof -
  let ?zero = "replicate (unat (groups a)) zero_bg"
  obtain l' q' ys where r: "init_bgs info force [0..<unat (groups a)] (a\<lparr>bgs := ?zero\<rparr>) q = Inr (a\<lparr>bgs := l'\<rparr>, q')"
    "length l' = unat (groups a)" "\<forall>i < unat (groups a). fresh_group info a i (l' ! i)"
    "queue_repr q' ys" "set ys = bitmap_piece info a ` {0..<unat (groups a)}"
    using init_bgs_good [OF assms(1) _ _ _ assms(2), of ?zero 0 force] by auto
  then show ?thesis
    by (intro exI [of _ "a\<lparr>bgs := l'\<rparr>"] exI [of _ q'] exI [of _ ys])
      (simp add: block_allocator_init_def groups_good_def fresh_group_def fs_geom.defs Let_def)
qed

theorem block_allocator_init_groups_witness:
  "\<exists>a' q'. block_allocator_init small_info (start_aux small_geom) (empty_heap, backed_block_list_new 1024) False = Inr (a', q')
    \<and> (\<forall>k. bm_bit (bitmaps (bgs a' ! 0)) k \<longleftrightarrow> k < 8 \<or> 63 \<le> k \<and> k < 64)"
proof -
  have q: "queue_repr (empty_heap, backed_block_list_new 1024) []"
    by (rule queue_repr_new) (simp_all add: mem_ok_def empty_heap_def)
  have "ext4_bg_has_super_block small_info (of_nat 0) = Inr True" by code_simp
  moreover have "header_size small_info (start_aux small_geom) True = 8"
    "group_blocks small_info (start_aux small_geom) 0 = 63" "unat (blocks_per_group small_info) = 64"
    "0 < unat (groups (start_aux small_geom))"
    by (simp_all add: header_size_def group_blocks_def small_info_def small_geom_def start_aux_def fs_geom.defs)
  ultimately show ?thesis
    using block_allocator_init_groups [OF small_layout q, of False] by (fastforce simp: Let_def)
qed

section \<open>The whole construction\<close>

lemma build_invariant_conj:
  "build_invariant I1 \<Longrightarrow> build_invariant I2 \<Longrightarrow>
     build_invariant (\<lambda>a q s d. I1 a q s d \<and> I2 a q s d)"
  unfolding build_invariant_def by (intro conjI) meson+

interpretation image_kept: build_invariant "\<lambda>a q s d. queue_holds P q \<and> groups_good bs ipg e N a \<and>
    (d = D \<and> s_uuid s = U \<and> s_free_blocks_count_lo s = F \<and> s_free_inodes_count s = G)" for P bs ipg e N D U F G
  by (intro build_invariant_conj queue_kept.build_invariant_axioms groups_kept.build_invariant_axioms
      counts_kept.build_invariant_axioms)

lemma add_data_post_holds:
  assumes "queue_holds P (img b)"
    "\<And>q. queue_holds (insert (block, n, BACKED_BLOCK_DATA p) P) q \<Longrightarrow> Q (b\<lparr>img := q\<rparr>)"
  shows "post Q (add_data b p n block)"
  using assms by (auto simp: add_data_def post_def split: sum.splits dest: add_data_holds)

lemma post_mono: "post P m \<Longrightarrow> (\<And>x. P x \<Longrightarrow> Q x) \<Longrightarrow> post Q m"
  by (simp add: post_def split: sum.splits)

lemma post_if: "(c \<Longrightarrow> post Q m) \<Longrightarrow> (\<not> c \<Longrightarrow> Q x) \<Longrightarrow> post Q (if c then m else Inr x)"
  by simp

lemma desc_ok_fill: "desc_ok (d\<lparr>bg_block_bitmap := x, bg_inode_bitmap := y, bg_inode_table := z,
    bg_free_blocks_count := u, bg_free_inodes_count := v, bg_used_dirs_count := w\<rparr>) = desc_ok d"
  by (simp add: desc_ok_def)

lemma fill_group_post:
  assumes "queue_holds P (img b)" "\<forall>d \<in> set (bg_desc b). desc_ok d"
    and "\<And>b'. queue_holds (P \<union> set (sb_pieces info (aux b) i)) (img b') \<Longrightarrow> aux b' = aux b \<Longrightarrow>
      aux_sb b' = aux_sb b \<Longrightarrow> \<forall>d \<in> set (bg_desc b'). desc_ok d \<Longrightarrow> Q b'"
  shows "post Q (fill_group info b i)"
proof (cases "ext4_bg_has_super_block info (of_nat i)")
  case (Inr has)
  let ?st = "first_data_block (aux b) + of_nat i * blocks_per_group info"
  let ?first = "if has then
               rbind (if i \<noteq> 0 then
                        rbind (wr (backup_sb b) i (Some (aux_sb b\<lparr>s_block_group_nr := of_nat i\<rparr>))) (\<lambda>copies.
                        add_data (b\<lparr>backup_sb := copies\<rparr>) (Backup_Sb i, 0) (block_size info) ?st)
                      else Inr b) (\<lambda>b.
               add_data b (Bg_Desc, 0) (bg_desc_blocks (aux b) * block_size info) (?st + 1))
             else Inr b"
  have first: "post (\<lambda>b1. queue_holds (P \<union> set (sb_pieces info (aux b) i)) (img b1) \<and> aux b1 = aux b
      \<and> aux_sb b1 = aux_sb b \<and> bg_desc b1 = bg_desc b) ?first"
    using assms(1)
    by (auto simp: sb_pieces_def Inr group_start_def insert_commute
        intro!: add_data_post_holds post_any [where m = "wr xs i v" for xs v] elim!: queue_holds_mono)
  have rest: "post Q (rbind (rd (bg_desc b) i) (\<lambda>d. rbind (wr (bg_desc b) i (d\<lparr>bg_block_bitmap := x,
               bg_inode_bitmap := y, bg_inode_table := z, bg_free_blocks_count := u, bg_free_inodes_count := v,
               bg_used_dirs_count := 0\<rparr>)) (\<lambda>ds. Inr (b1\<lparr>bg_desc := ds\<rparr>))))"
    if "queue_holds (P \<union> set (sb_pieces info (aux b) i)) (img b1)" "aux b1 = aux b" "aux_sb b1 = aux_sb b"
      "bg_desc b1 = bg_desc b" for b1 x y z u v
  proof (cases "i < length (bg_desc b)")
    case True
    then have "desc_ok (bg_desc b ! i)" using assms(2) by simp
    then have "\<forall>d \<in> set ((bg_desc b)[i := (bg_desc b ! i)\<lparr>bg_block_bitmap := x, bg_inode_bitmap := y,
        bg_inode_table := z, bg_free_blocks_count := u, bg_free_inodes_count := v, bg_used_dirs_count := 0\<rparr>]). desc_ok d"
      using assms(2) by (auto dest!: subsetD [OF set_update_subset_insert] simp: desc_ok_fill)
    then show ?thesis using that True by (auto simp: intro!: assms(3))
  qed (simp add: that rd_def)
  show ?thesis unfolding fill_group_def Let_def Inr rbind_Inr post_rbind [of Q ?first]
    by (rule post_mono [OF first]) (auto intro!: rest [unfolded post_rbind post_simps] simp: Let_def)
qed (simp add: fill_group_def)

lemma fill_groups_post:
  assumes "queue_holds P (img b)" "\<forall>d \<in> set (bg_desc b). desc_ok d"
    and "\<And>b'. queue_holds (P \<union> (\<Union>i \<in> set is. set (sb_pieces info (aux b) i))) (img b') \<Longrightarrow> aux b' = aux b \<Longrightarrow>
      aux_sb b' = aux_sb b \<Longrightarrow> \<forall>d \<in> set (bg_desc b'). desc_ok d \<Longrightarrow> Q b'"
  shows "post Q (fill_groups info is b)"
  using assms
proof (induction "is" arbitrary: b P)
  case (Cons i "is")
  show ?case unfolding fill_groups.simps post_rbind
  proof (rule fill_group_post [OF Cons.prems(1,2)])
    fix b1 :: build assume b1: "queue_holds (P \<union> set (sb_pieces info (aux b) i)) (img b1)" "aux b1 = aux b"
      "aux_sb b1 = aux_sb b" "\<forall>d \<in> set (bg_desc b1). desc_ok d"
    show "post Q (fill_groups info is b1)"
      by (rule Cons.IH [OF b1(1,4)]) (rule Cons.prems(3), simp_all add: b1 Un_assoc)
  qed
qed simp

text \<open>The free counts at the end.\<close>

lemma update_groups_defined:
  "update_groups is b = Inr b' \<Longrightarrow> \<forall>i \<in> set is. i < length (bgs (aux b)) \<and> i < length (bg_desc b)"
proof (induction "is" arbitrary: b)
  case (Cons i "is")
  then obtain b1 where b1: "update_group b i = Inr b1" "update_groups is b1 = Inr b'" by auto
  then have "i < length (bgs (aux b))" "i < length (bg_desc b)" "bgs (aux b1) = bgs (aux b)"
    "length (bg_desc b1) = length (bg_desc b)"
    by (auto simp: update_group_def get_free_blocks_def rd_eq_Inr wr_eq_Inr Let_def)
  with Cons.IH [OF b1(2)] show ?case by simp
qed simp

text \<open>What the counts of superblock and descriptors have to say about the groups.\<close>

definition counts_agree :: "build \<Rightarrow> bool" where
  "counts_agree b \<longleftrightarrow>
     s_free_blocks_count_lo (aux_sb b) = sum_list (map free_blocks (bgs (aux b)))
     \<and> s_free_inodes_count (aux_sb b) = sum_list (map free_inodes (bgs (aux b)))
     \<and> (\<forall>i < length (bgs (aux b)). sealed (s_uuid (aux_sb b)) i (bg_desc b ! i)
          \<and> bg_free_blocks_count (bg_desc b ! i) = ucast (free_blocks (bgs (aux b) ! i))
          \<and> bg_free_inodes_count (bg_desc b ! i) = ucast (free_inodes (bgs (aux b) ! i)))"

lemma update_free_agree:
  assumes run: "ext4_update_free b = Inr b'" and zero: "s_free_blocks_count_lo (aux_sb b) = 0" "s_free_inodes_count (aux_sb b) = 0"
    and ok: "\<forall>d \<in> set (bg_desc b). desc_ok d" and len: "length (bgs (aux b)) = unat (groups (aux b))"
  shows "counts_agree b' \<and> aux b' = aux b \<and> img b' = img b"
proof -
  let ?is = "[0..<unat (groups (aux b))]"
  note bounds = update_groups_defined [OF run [unfolded ext4_update_free_def]]
  have sum: "(\<Sum>i\<leftarrow>?is. f (bgs (aux b) ! i)) = sum_list (map f (bgs (aux b)))" for f :: "block_group_info \<Rightarrow> u32"
  proof -
    have "map (\<lambda>i. f (bgs (aux b) ! i)) ?is = map f (map ((!) (bgs (aux b))) [0..<length (bgs (aux b))])"
      by (simp add: len)
    then show ?thesis by (simp only: map_nth)
  qed
  from update_groups_eq [OF bounds] obtain ds where ds: "b' = b\<lparr>
      aux_sb := (aux_sb b)\<lparr>s_free_blocks_count_lo := sum_list (map free_blocks (bgs (aux b))),
        s_free_inodes_count := sum_list (map free_inodes (bgs (aux b)))\<rparr>, bg_desc := ds\<rparr>" "length ds = length (bg_desc b)"
    "\<forall>i < length ds. ds ! i = (if i \<in> set ?is
        then updated_desc (s_uuid (aux_sb b)) i (bgs (aux b) ! i) (bg_desc b ! i) else bg_desc b ! i)"
    using run by (auto simp: ext4_update_free_def sum zero)
  have upd: "ds ! i = updated_desc (s_uuid (aux_sb b)) i (bgs (aux b) ! i) (bg_desc b ! i)" "desc_ok (bg_desc b ! i)"
    if "i < length (bgs (aux b))" for i
    using bounds ds(2,3) ok that len by auto
  have "desc_ok (d\<lparr>bg_free_blocks_count := f, bg_free_inodes_count := g, bg_used_dirs_count := h, desc_flags := k\<rparr>)"
    if "desc_ok d" for d f g h k
    using that by (simp add: desc_ok_def)
  then show ?thesis
    by (auto simp: counts_agree_def ds(1) upd updated_desc_def Let_def intro!: sealed_update)
qed

lemma sb_pieces_bgs [simp]: "sb_pieces info (a\<lparr>bgs := l\<rparr>) i = sb_pieces info a i"
  by (simp add: sb_pieces_def group_start_def)

text \<open>
  From the filled superblock on: \<open>J\<close> is the conjunction of the three invariants, and every part that
  \<open>build_file_system\<close> adds keeps it.
\<close>

lemma reserve_inodes_post:
  assumes "groups_good bs ipg e N (aux b)" "\<And>r a. groups_good bs ipg e N a \<Longrightarrow> Q (r, a)"
  shows "post Q (reserve_inodes (aux b) i n)"
  using assms by (auto simp: post_def split: sum.splits dest: groups_good_reserve_inodes)

lemma update_free_post:
  assumes "queue_holds P (img b)" "groups_good bs ipg e N (aux b)" "\<forall>d \<in> set (bg_desc b). desc_ok d"
    "s_free_blocks_count_lo (aux_sb b) = 0" "s_free_inodes_count (aux_sb b) = 0"
    and "\<And>b'. queue_holds P (img b') \<Longrightarrow> groups_good bs ipg e N (aux b') \<Longrightarrow> counts_agree b' \<Longrightarrow> Q b'"
  shows "post Q (ext4_update_free b)"
proof (rule postI)
  fix b' assume "ext4_update_free b = Inr b'"
  from update_free_agree [OF this assms(4,5,3)] assms(1,2) show "Q b'"
    by (intro assms(6)) (auto simp: groups_good_def)
qed

lemma queue_sb_post:
  assumes "queue_holds P (img b)"
  shows "post (\<lambda>b'. queue_holds P (img b') \<and> aux b' = aux b \<and> aux_sb b' = aux_sb b \<and> bg_desc b' = bg_desc b)
    (ext4_queue_sb info b)"
  using assms
  by (auto simp: ext4_queue_sb_def calloc_eq Let_def intro!: add_data_post_holds elim!: queue_holds_mono)

lemma fill_in_sb_post:
  assumes "queue_holds P (img b)" "\<forall>d \<in> set (bg_desc b). desc_ok d"
    and "\<And>b'. queue_holds (P \<union> (\<Union>i < unat (groups (aux b)). set (sb_pieces info (aux b) i))) (img b') \<Longrightarrow>
      aux b' = aux b \<Longrightarrow> s_free_blocks_count_lo (aux_sb b') = 0 \<Longrightarrow> s_free_inodes_count (aux_sb b') = 0 \<Longrightarrow>
      \<forall>d \<in> set (bg_desc b'). desc_ok d \<Longrightarrow> Q b'"
  shows "post Q (ext4_fill_in_sb info b)"
proof -
  have sb: "s_free_blocks_count_lo (fill_sb info a name s) = 0" "s_free_inodes_count (fill_sb info a name s) = 0"
    for a name s by (simp_all add: fill_sb_def Let_def)
  have "post Q (fill_groups info [0..<unat (groups (aux b))] (b\<lparr>aux_sb := fill_sb info (aux b) name (aux_sb b)\<rparr>))" for name
    by (rule fill_groups_post [where P = P]) (use assms in \<open>auto simp: sb atLeast0LessThan\<close>)
  then show ?thesis by (auto simp: ext4_fill_in_sb_def split: option.splits)
qed

text \<open>Everything after the set-up, from a state that satisfies the three invariants.\<close>

lemma built_post:
  assumes J: "queue_holds P (img b)" "groups_good bs ipg e N (aux b)" "\<forall>d \<in> set (bg_desc b). desc_ok d"
    "s_free_blocks_count_lo (aux_sb b) = 0" "s_free_inodes_count (aux_sb b) = 0"
  shows "post (\<lambda>b'. queue_holds P (img b') \<and> groups_good bs ipg e N (aux b') \<and> counts_agree b')
     (rbind (reserve_inodes (aux b) 0 10) (\<lambda>(ret, a).
     rbind (if ret = EXT4_ALLOCATE_FAILED then error_then force (Inr b) else Inr (b\<lparr>aux := a\<rparr>)) (\<lambda>b.
     rbind (if feat_compat info AND EXT4_FEATURE_COMPAT_HAS_JOURNAL \<noteq> 0
            then ext4_create_journal_inode info b force else Inr b) (\<lambda>b.
     rbind (if feat_compat info AND EXT4_FEATURE_COMPAT_RESIZE_INODE \<noteq> 0
            then ext4_create_resize_inode info b force else Inr b) (\<lambda>b.
     rbind (case directory of
              Some d \<Rightarrow> build_directory_structure depth h info config force fixed_time b (Some d) [] 0
            | None \<Rightarrow> build_default_directory_structure info b force fixed_time) (\<lambda>(root_inode_num, b).
     rbind (inode_set_permissions info b root_inode_num 0x1ED 0 0
              (if fixed_time \<noteq> 1 then ucast fixed_time else 0)) (\<lambda>(_, b).
     rbind (ext4_update_free b) (\<lambda>b.
     ext4_queue_sb info b))))))))"
proof -
  let ?J = "image_kept.J P bs ipg e N (bg_desc b) (s_uuid (aux_sb b)) 0 0"
  have last: "post (\<lambda>b'. queue_holds P (img b') \<and> groups_good bs ipg e N (aux b') \<and> counts_agree b')
      (rbind (ext4_update_free b1) (ext4_queue_sb info))"
    if "?J b1" for b1
    using that J(3) unfolding post_rbind
    by (intro update_free_post [where P = P and bs = bs and ipg = ipg and e = e and N = N])
      (auto intro!: post_mono [OF queue_sb_post] simp: counts_agree_def)
  let ?G = "\<lambda>b'. queue_holds P (img b') \<and> groups_good bs ipg e N (aux b') \<and> counts_agree b'"
  have perms: "post ?G (rbind (inode_set_permissions info b1 k m u g t) (\<lambda>(_, b). rbind (ext4_update_free b) (ext4_queue_sb info)))"
    if "?J b1" for b1 k m u g t
    unfolding post_rbind [where m = "inode_set_permissions info b1 k m u g t"]
    by (rule image_kept.set_permissions_post [OF that]) (use last in auto)
  let ?fin = "\<lambda>(root_inode_num, b). rbind (inode_set_permissions info b root_inode_num 0x1ED 0 0
              (if fixed_time \<noteq> 1 then ucast fixed_time else 0)) (\<lambda>(_, b). rbind (ext4_update_free b) (ext4_queue_sb info))"
  have tree: "post ?G (rbind (case directory of
              Some d \<Rightarrow> build_directory_structure depth h info config force fixed_time b1 (Some d) [] 0
            | None \<Rightarrow> build_default_directory_structure info b1 force fixed_time) ?fin)"
    if "?J b1" for b1
  proof (cases directory)
    case None
    then show ?thesis unfolding post_rbind [where f = ?fin]
      by (simp only: option.case) (rule image_kept.default_directory_post [OF that], use perms in auto)
  next
    case (Some d)
    then show ?thesis unfolding post_rbind [where f = ?fin]
      by (simp only: option.case) (rule image_kept.directory_structure_post [OF that], use perms in auto)
  qed
  let ?tree = "\<lambda>b. rbind (case directory of
              Some d \<Rightarrow> build_directory_structure depth h info config force fixed_time b (Some d) [] 0
            | None \<Rightarrow> build_default_directory_structure info b force fixed_time) ?fin"
  let ?resize = "\<lambda>b. rbind (if feat_compat info AND EXT4_FEATURE_COMPAT_RESIZE_INODE \<noteq> 0
            then ext4_create_resize_inode info b force else Inr b) ?tree"
  let ?journal = "\<lambda>b. rbind (if feat_compat info AND EXT4_FEATURE_COMPAT_HAS_JOURNAL \<noteq> 0
            then ext4_create_journal_inode info b force else Inr b) ?resize"
  have resize: "post ?G (?resize b1)" if "?J b1" for b1
    unfolding post_rbind [where f = ?tree]
    by (rule post_if) (rule image_kept.resize_inode_post [OF that], rule tree, assumption, rule tree [OF that])
  have journal: "post ?G (?journal b1)" if "?J b1" for b1
    unfolding post_rbind [where f = ?resize]
    by (rule post_if) (rule image_kept.journal_post [OF that], rule resize, assumption, rule resize [OF that])
  have "post ?G (rbind (if ret = EXT4_ALLOCATE_FAILED then error_then force (Inr b) else Inr (b\<lparr>aux := a\<rparr>)) ?journal)"
    if "groups_good bs ipg e N a" for ret a
    unfolding post_rbind [where f = ?journal]
  proof (cases "ret = EXT4_ALLOCATE_FAILED")
    case True
    then show "post (\<lambda>x. post ?G (?journal x))
        (if ret = EXT4_ALLOCATE_FAILED then error_then force (Inr b) else Inr (b\<lparr>aux := a\<rparr>))"
      unfolding if_P [OF True] post_simps using journal [of b] J by (intro impI) blast
  next
    case False
    have "post ?G (?journal (b\<lparr>aux := a\<rparr>))" by (rule journal) (use J that in simp)
    then show "post (\<lambda>x. post ?G (?journal x))
        (if ret = EXT4_ALLOCATE_FAILED then error_then force (Inr b) else Inr (b\<lparr>aux := a\<rparr>))"
      unfolding if_not_P [OF False] post_simps .
  qed
  then have "post (\<lambda>(ret, a). post ?G (rbind (if ret = EXT4_ALLOCATE_FAILED then error_then force (Inr b) else Inr (b\<lparr>aux := a\<rparr>)) ?journal))
      (reserve_inodes (aux b) 0 10)"
    by (intro reserve_inodes_post [OF J(2)]) simp
  then show ?thesis
    by (simp only: post_rbind [where m = "reserve_inodes (aux b) 0 10"] case_prod_beta')
qed


text \<open>C1: the image that \<open>build_file_system\<close> leaves when it returns, whatever the source tree and the
  configuration: in every group the used blocks and inodes are the first ones and the bitmaps agree
  with the counts; the descriptors and the superblock carry these counts, each descriptor under its
  checksum; and the queue, ordered and without two pieces at one block, still holds the bitmaps, the
  backup superblocks and the descriptor tables of every group where the geometry places them.\<close>

theorem built_image_consistent:
  assumes geom: "ext4_init_fs_aux_info info = Inr g" and fits: "layout_fits info (start_aux g)"
    and run: "build_file_system depth h info config force directory fixed_time = Inr b"
  shows "groups_good (unat (block_size info)) (unat (inodes_per_group info))
      (group_blocks info (start_aux g)) (groups g) (aux b)
    \<and> counts_agree b
    \<and> queue_holds (\<Union>i < unat (groups g). insert (bitmap_piece info (start_aux g) i)
        (set (sb_pieces info (start_aux g) i))) (img b)"
proof -
  let ?a = "start_aux g" and ?N = "unat (groups g)"
  let ?q = "(empty_heap, backed_block_list_new (block_size info))"
  let ?P = "bitmap_piece info ?a ` {0..<?N} \<union> (\<Union>i < ?N. set (sb_pieces info ?a i))"
  obtain b0 where b0: "init_build info = Inr b0" "aux b0 = ?a" "img b0 = ?q" "\<forall>d \<in> set (bg_desc b0). desc_ok d"
    by (rule that [of "\<lparr>aux = ?a, aux_sb = zero_sb, backup_sb = replicate ?N None,
          bg_desc = replicate (unat (block_size info) * unat (bg_desc_blocks g) div 32) zero_desc,
          inode_at = (\<lambda>_. zero_inode), inode_tail = (\<lambda>_. replicate (unat (inode_size info) - 156) 0), xattrs = [],
          bufs = empty_heap, regs = empty_heap, img = ?q\<rparr>"])
      (simp_all add: init_build_def geom start_aux_def desc_ok_zero)
  have "post (\<lambda>_. block_size info \<noteq> 0) (build_file_system depth h info config force directory fixed_time)"
  proof (cases "block_size info = 0")
    case True
    then have "ext4_fill_in_sb info x = Inl Fault" for x by (simp add: ext4_fill_in_sb_def)
    then show ?thesis unfolding build_file_system_def b0 rbind_Inr
      by (simp only: post_rbind [where m = "block_allocator_init i a q f" for i a q f] rbind_Inl post_simps)
        (rule post_any, auto)
  qed (rule post_any, simp)
  from postD [OF this run] have "block_size info \<noteq> 0" .
  then have new: "queue_repr ?q []" by (rule queue_repr_new) (simp add: mem_ok_def empty_heap_def)
  have "groups ?a = groups g" by (simp add: start_aux_def fs_geom.defs)
  with init_bgs_good [OF fits _ _ _ new, of "replicate ?N zero_bg" 0 force] obtain l q ys where
    alloc: "block_allocator_init info ?a ?q force = Inr (?a\<lparr>bgs := l\<rparr>, q)" "length l = ?N"
      "\<forall>i < ?N. fresh_group info ?a i (l ! i)"
      "queue_repr q ys" "set ys = bitmap_piece info ?a ` {0..<?N}"
    by (auto simp: block_allocator_init_def)
  have good: "groups_good (unat (block_size info)) (unat (inodes_per_group info)) (group_blocks info ?a) (groups g) (?a\<lparr>bgs := l\<rparr>)"
    using alloc(2,3) \<open>groups ?a = groups g\<close> by (simp add: groups_good_def fresh_group_def)
  have "post (\<lambda>b'. queue_holds ?P (img b') \<and> groups_good (unat (block_size info)) (unat (inodes_per_group info))
      (group_blocks info ?a) (groups g) (aux b') \<and> counts_agree b')
    (build_file_system depth h info config force directory fixed_time)"
    unfolding build_file_system_def b0 alloc rbind_Inr prod.case
    unfolding post_rbind [where m = "ext4_fill_in_sb i b" for i b]
    by (rule fill_in_sb_post [where P = "set ys"], use alloc in \<open>simp add: queue_holds_def, blast\<close>, use b0 in simp,
      rule built_post, use good alloc(5) \<open>groups ?a = groups g\<close> in simp_all)
  from postD [OF this run] show ?thesis by (auto elim!: queue_holds_mono)
qed

text \<open>
  A run of \<open>build_file_system\<close> on the small file system, evaluated by the simplifier: the arguments of
  the case distinctions first, the bitmaps as updates of a list of zeros.
\<close>

definition returns :: "('a \<Rightarrow> bool) \<Rightarrow> 'a res \<Rightarrow> bool" where
  "returns P m = (case m of Inl _ \<Rightarrow> False | Inr x \<Rightarrow> P x)"
lemma returns_Inr: "returns P (Inr x) = P x"
  by (simp add: returns_def)
lemma eval_first: "m = m' \<Longrightarrow> rbind m f = rbind m' f" "m = m' \<Longrightarrow> returns P m = returns P m'"
  "x = y \<Longrightarrow> Let x g = Let y g" by simp_all
lemmas eval_cong = eval_first prod.case_cong_weak option.case_cong_weak nat.case_cong_weak if_weak_cong
lemma inode_bits_eq: "inode_bits bm base n inode = (case n of 0 \<Rightarrow> Inr bm | Suc n \<Rightarrow>
     rbind (rd bm (byte_index base inode)) (\<lambda>v.
     rbind (wr bm (byte_index base inode) (v OR bit_mask inode)) (\<lambda>bm.
     inode_bits bm base n (inode + 1))))"
  by (cases n) simp_all
lemmas run_defs = block_allocator_init_def init_bg_def sparse_file_add_data_def set_bg_def init_bgs.simps
  backed_block_add_data_def backed_block_add_def queue_bb_def queue_link_def reserve_blocks_def reserve_bits_def
  reserve_head.simps reserve_bytes.simps reserve_tail.simps bitmap_set_bit_def bitmap_set_8_bits_def byte_index_def bit_mask_def
  zero_bg_def Let_def error_then_def merge_bb_def rd_def wr_def load_def store_def malloc_cell_def
  queue_seek.simps release_def deref_def udiv_def umod_def DIV_ROUND_UP_def
  get_free_blocks_def get_free_inodes_def inode_bits_eq reserve_inodes_def allocate_inode_from.simps allocate_inode_def
  add_directory_def allocate_bg_inode_table_def get_inode_def ext4_allocate_blocks_from_block_group_def
  best_fit_search.simps get_directories_def get_bg_flags_def
  empty_region_list_def create_allocation_def region_list_remove_def region_list_append_def append_region_def regions_count.simps
  block_allocation_num_regions_def get_region_def get_next_region_def last_region_def rewind_alloc_def
  ext4_allocate_best_fit_partial_def link_region_def best_fit_loop.simps ext4_allocate_best_fit_def allocate_blocks_def
  reduce_loop.simps reduce_allocation_def free_regions.simps free_alloc_def free_bits.simps release_blocks_def bitmap_clear_bit_def
  put_at_def put_inode_words_def put_buf_def put_extent.simps backing_loop.simps extent_create_backing_def write_extents.simps
  extent_head_def do_inode_allocate_extents_def inode_allocate_data_extents_def update_inode_def get_inode_ptr_def calloc_def add_data_def
  pair16_def extent_words_def header_words_def zero_inode_def
  dentry_len_def dentry_sizes.simps dentry_size_def add_rec_len_def dentry_bytes_def add_dentry_def add_dentries.simps make_directory_def fill_directory_def
  inode_set_permissions_def lost_found_def set_dentry_inode_def build_default_directory_structure_def
  update_group_def update_groups.simps ext4_update_free_def ext4_queue_sb_def ext4_fill_in_sb_def fill_groups.simps fill_group_def
  init_build_def build_file_system_def

lemmas run_data = small_info_def small_geom_def start_aux_def fs_geom.defs backed_block_list_new_def empty_heap_def

lemma one_le_three: "(1::u32) \<le>s 3"
  by code_simp

lemma small_run: "\<exists>b. build_file_system 1 no_host small_info None False None 0 = Inr b"
proof -
  have "ext4_bg_has_super_block small_info 0 = Inr True" by code_simp
  then have "returns (\<lambda>_. True) (build_file_system 1 no_host small_info None False None 0)"
    using small_geom by (simp add: run_defs one_le_three chars_def returns_Inr run_data cong: eval_cong del: rbind_eq_Inr)
  then show ?thesis by (auto simp: returns_def split: sum.splits)
qed

theorem built_image_consistent_witness:
  "\<exists>b. build_file_system 1 no_host small_info None False None 0 = Inr b
      \<and> groups_good (unat (block_size small_info)) (unat (inodes_per_group small_info))
        (group_blocks small_info (start_aux small_geom)) (groups small_geom) (aux b)
      \<and> counts_agree b
      \<and> queue_holds (\<Union>i < unat (groups small_geom). insert (bitmap_piece small_info (start_aux small_geom) i)
          (set (sb_pieces small_info (start_aux small_geom) i))) (img b)"
  using small_run built_image_consistent [OF small_geom small_layout] by blast

end
