(* ===== verification/Extent_Layout.thy ===== *)
theory Extent_Layout
  imports Extents
begin

text \<open>
  What the extents of a file say. The regions of an allocation are written as extents into the inode
  and the data of the file is queued region by region: read back, the extents map the blocks of the
  file to the blocks of the allocation in order, and the pieces in the queue put the bytes there.
\<close>

section \<open>Reading extents\<close>

text \<open>The extents that stand for the regions \<open>rs\<close> from file block \<open>fb\<close> on.\<close>

fun extents_of :: "u32 \<Rightarrow> region_data list \<Rightarrow> ext4_extent list" where
  "extents_of fb [] = []"
| "extents_of fb ((b, n, g) # rs) =
     \<lparr>ee_block = fb, ee_len = ucast n, ee_start_hi = 0, ee_start_lo = b\<rparr> # extents_of (fb + n) rs"

fun extents_of_words :: "u32 list \<Rightarrow> ext4_extent list" where
  "extents_of_words (x # y # z # ws) =
     \<lparr>ee_block = x, ee_len = ucast y, ee_start_hi = ucast (drop_bit 16 y), ee_start_lo = z\<rparr> # extents_of_words ws"
| "extents_of_words ws = []"

text \<open>
  The block of the disk that holds block \<open>x\<close> of the file. A length above \<open>EXT_INIT_MAX_LEN\<close> (of
  \<^verbatim>\<open>src/ext4_extents.h\<close>) is that of an uninitialised extent, whose blocks hold no data of the file.
\<close>

abbreviation EXT_INIT_MAX_LEN :: nat where "EXT_INIT_MAX_LEN \<equiv> 32768"

definition extent_span :: "ext4_extent \<Rightarrow> nat" where
  "extent_span e = (if unat (ee_len e) \<le> EXT_INIT_MAX_LEN then unat (ee_len e)
     else unat (ee_len e) - EXT_INIT_MAX_LEN)"

fun extent_lookup :: "ext4_extent list \<Rightarrow> u32 \<Rightarrow> u64 option" where
  "extent_lookup [] x = None"
| "extent_lookup (e # es) x =
     (if ee_block e \<le> x \<and> unat x < unat (ee_block e) + extent_span e
      then (if unat (ee_len e) \<le> EXT_INIT_MAX_LEN
            then Some (push_bit 32 (ucast (ee_start_hi e)) + ucast (ee_start_lo e) + ucast (x - ee_block e))
            else None)
      else extent_lookup es x)"

text \<open>
  The extents in the words of an inode, as its header announces them: \<open>eh_entries\<close> of them, no more
  than \<open>eh_max\<close> and than the words hold, none of length 0, in a tree of depth 0.
\<close>

definition inode_extents :: "u32 list \<Rightarrow> ext4_extent list option" where
  "inode_extents ws =
     (let magic = ucast (ws ! 0) :: u16; entries = ucast (drop_bit 16 (ws ! 0)) :: u16;
          most = ucast (ws ! 1) :: u16; depth = ucast (drop_bit 16 (ws ! 1)) :: u16;
          es = extents_of_words (take (3 * unat entries) (drop 3 ws)) in
      if magic = EXT4_EXT_MAGIC \<and> depth = 0 \<and> entries \<le> most \<and> 3 + 3 * unat most \<le> length ws
        \<and> list_all (\<lambda>e. ee_len e \<noteq> 0) es
      then Some es else None)"

definition inode_lookup :: "u32 list \<Rightarrow> u32 \<Rightarrow> u64 option" where
  "inode_lookup ws x = Option.bind (inode_extents ws) (\<lambda>es. extent_lookup es x)"

lemma length_extents_of [simp]: "length (extents_of fb rs) = length rs"
  by (induction rs arbitrary: fb) auto

lemma pair16_parts: "ucast (pair16 lo hi) = lo" "ucast (drop_bit 16 (pair16 lo hi)) = hi"
  by (auto simp: pair16_def bit_eq_iff bit_simps dest: bit_imp_le_length)

lemma extents_of_words_inverse: "extents_of_words (concat (map extent_words es)) = es"
  by (induction es) (simp_all add: extent_words_def pair16_parts)

text \<open>
  Regions that extents can stand for: none is empty or longer than an initialised extent, and the
  blocks end before \<open>2 ^ 32\<close>, in the file and on disk.
\<close>

definition regions_fit :: "region_data list \<Rightarrow> bool" where
  "regions_fit rs \<longleftrightarrow> blocks_of rs < 2 ^ 32
     \<and> (\<forall>(b, n, g) \<in> set rs. 0 < n \<and> unat n \<le> EXT_INIT_MAX_LEN \<and> unat b + unat n < 2 ^ 32)"

lemma extent_lookup_of:
  assumes "unat fb + blocks_of rs < 2 ^ 32" "\<forall>(b, n, g) \<in> set rs. unat n \<le> EXT_INIT_MAX_LEN \<and> unat b + unat n < 2 ^ 32" "fb \<le> x"
  shows "extent_lookup (extents_of fb rs) x = (if unat x - unat fb < blocks_of rs
     then Some (ucast (expand rs ! (unat x - unat fb))) else None)"
  using assms
proof (induction rs arbitrary: fb)
  case (Cons r rs)
  obtain b n g where r: "r = (b, n, g)" by (cases r)
  have le: "unat fb \<le> unat x" using Cons.prems(3) by (simp add: word_le_nat_alt)
  have n: "unat (ucast n :: u16) = unat n" using Cons.prems(2) r by (auto simp: unsigned_ucast_eq take_bit_eq_mod)
  have n_max: "unat n \<le> EXT_INIT_MAX_LEN" using Cons.prems(2) r by auto
  have next_fb: "unat (fb + n) = unat fb + unat n"
    using Cons.prems(1) r by (intro unat_add_small) simp
  show ?case
  proof (cases "unat x < unat fb + unat n")
    case True
    define k where "k = unat x - unat fb"
    have k: "k < unat n" using True le by (simp add: k_def)
    have x: "unat (x - fb) = k" using Cons.prems(3) by (simp add: unat_sub k_def)
    have "unat b + k < 2 ^ 32" using k Cons.prems(2) r by auto
    then have "unat (ucast b + ucast (x - fb) :: u64) = unat (ucast (b + of_nat k) :: u64)"
      by (simp add: unat_word_ariths unsigned_ucast_eq take_bit_eq_mod x unat_of_nat)
    then have "ucast b + ucast (x - fb) = (ucast (b + of_nat k) :: u64)" by (simp only: word_unat_eq_iff)
    then show ?thesis using True Cons.prems(3) k n_max by (simp add: r n nth_append k_def extent_span_def)
  next
    case False
    have "fb + n \<le> x" using False by (simp add: word_le_nat_alt next_fb)
    with Cons.IH [of "fb + n"] Cons.prems(1,2) r next_fb False show ?thesis
      using n_max by (auto simp: n nth_append not_less extent_span_def)
  qed
qed simp

text \<open>A list of distinct cells is no longer than the heap.\<close>

lemma rlist_bounded:
  assumes "rlist (cells m) pr as rs" "mem_ok m" "distinct as"
  shows "length as \<le> brk m"
proof -
  have "set as \<subseteq> {..<brk m}" using rlist_below [OF assms(1,2)] by auto
  then have "card (set as) \<le> brk m" using card_mono [of "{..<brk m}"] by fastforce
  then show ?thesis using assms(3) by (simp add: distinct_card)
qed

section \<open>Writing extents\<close>

definition put_list :: "'a list \<Rightarrow> nat \<Rightarrow> 'a list \<Rightarrow> 'a list" where
  "put_list xs i ys = take i xs @ ys @ drop (i + length ys) xs"

lemma put_at_list: "i + length ys \<le> length xs \<Longrightarrow> put_at xs i ys = Inr (put_list xs i ys)"
  by (simp add: put_at_def put_list_def)

lemma length_put_list: "i + length ys \<le> length xs \<Longrightarrow> length (put_list xs i ys) = length xs"
  by (simp add: put_list_def)

lemma put_list_append:
  "i + length ys + length zs \<le> length xs \<Longrightarrow>
     put_list (put_list xs i ys) (i + length ys) zs = put_list xs i (ys @ zs)"
  by (simp add: put_list_def ac_simps)

text \<open>The words of an inode after a store.\<close>

definition put_words :: "build \<Rightarrow> ptr \<Rightarrow> nat \<Rightarrow> u32 list \<Rightarrow> build" where
  "put_words b ino i ws = update_inode b ino (\<lambda>n. n\<lparr>i_block := put_list (i_block n) i ws\<rparr>)"

lemma put_words_sels [simp]:
  "regs (put_words b ino i ws) = regs b" "aux (put_words b ino i ws) = aux b"
  "img (put_words b ino i ws) = img b"
  "i_block (inode_at (put_words b ino i ws) ino) = put_list (i_block (inode_at b ino)) i ws"
  by (simp_all add: put_words_def update_inode_def)

lemma put_words_append:
  "i + length ys + length zs \<le> length (i_block (inode_at b ino)) \<Longrightarrow>
     put_words (put_words b ino i ys) ino (i + length ys) zs = put_words b ino i (ys @ zs)"
  by (simp add: put_words_def update_inode_def put_list_append)

lemma put_words_nil [simp]: "put_words b ino i [] = b"
  by (simp add: put_words_def update_inode_def put_list_def)

lemma put_inode_words_eq:
  "i + length ws \<le> length (i_block (inode_at b ino)) \<Longrightarrow> put_inode_words b ino i ws = Inr (put_words b ino i ws)"
  by (simp add: put_inode_words_def put_at_list put_words_def update_inode_def)

lemma length_extent_words [simp]: "length (extent_words e) = 3"
  by (simp add: extent_words_def)

lemma length_concat_words [simp]: "length (concat (map extent_words es)) = 3 * length es"
  by (induction es) simp_all

text \<open>An allocation whose iterator is at the regions \<open>rs\<close>, with the address list \<open>as\<close>.\<close>

definition at_regions :: "reg_mem \<Rightarrow> block_allocation \<Rightarrow> nat list \<Rightarrow> region_data list \<Rightarrow> bool" where
  "at_regions m alloc as rs \<longleftrightarrow> (\<exists>pr. rlist (cells m) pr as rs)
     \<and> rl_iter (main_list alloc) = hd_opt as \<and> partial_iter (main_list alloc) = 0"

lemma at_regions_nil: "at_regions m alloc as [] \<Longrightarrow> as = [] \<and> last_region alloc"
  by (auto simp: at_regions_def last_region_def dest: rlist_length)

lemma at_regions_step:
  assumes "at_regions m alloc as ((b, n, g) # rs)"
  obtains a as' alloc' where "as = a # as'" "\<not> last_region alloc" "get_region m alloc = Inr (b, n)"
    "get_next_region m alloc = Inr alloc'" "at_regions m alloc' as' rs" "rewind_alloc alloc' = rewind_alloc alloc"
proof -
  obtain a as' where as: "as = a # as'" using assms by (cases as) (auto simp: at_regions_def)
  then obtain pr where r: "cells m a = Some \<lparr>reg_block = b, reg_len = n, reg_bg = g, reg_next = hd_opt as', reg_prev = pr\<rparr>"
    "rlist (cells m) (Some a) as' rs" "rl_iter (main_list alloc) = Some a" "partial_iter (main_list alloc) = 0"
    using assms by (auto simp: at_regions_def)
  let ?alloc' = "alloc\<lparr>main_list := (main_list alloc)\<lparr>rl_iter := hd_opt as', partial_iter := 0\<rparr>\<rparr>"
  show ?thesis
    by (rule that [of a as' ?alloc', OF as]) (use r in \<open>auto simp: at_regions_def last_region_def get_region_def get_next_region_def
      deref_def rewind_alloc_def\<close>)
qed

lemma write_extents_words:
  assumes "at_regions (regs b) alloc as rs" "length rs \<le> fuel"
    "3 + 3 * (k + length rs) \<le> length (i_block (inode_at b ino))"
  shows "\<exists>alloc'. write_extents fuel b (In_Inode ino) k alloc fb
      = Inr (put_words b ino (3 + 3 * k) (concat (map extent_words (extents_of fb rs))), alloc')
    \<and> rewind_alloc alloc' = rewind_alloc alloc"
  using assms
proof (induction rs arbitrary: b alloc as fuel k fb)
  case Nil
  then show ?case using at_regions_nil [OF Nil.prems(1)] by (simp add: write_extents.simps [of fuel])
next
  case (Cons r rs)
  obtain bl n g where r: "r = (bl, n, g)" by (cases r)
  obtain fuel' where fuel: "fuel = Suc fuel'" "length rs \<le> fuel'" using Cons.prems(2) by (cases fuel) auto
  from at_regions_step [OF Cons.prems(1) [unfolded r]] obtain a as' alloc1 where s: "\<not> last_region alloc"
    "get_region (regs b) alloc = Inr (bl, n)" "get_next_region (regs b) alloc = Inr alloc1"
    "at_regions (regs b) alloc1 as' rs" "rewind_alloc alloc1 = rewind_alloc alloc" by metis
  let ?e = "\<lparr>ee_block = fb, ee_len = ucast n, ee_start_hi = 0, ee_start_lo = bl\<rparr>"
  let ?b1 = "put_words b ino (3 + 3 * k) (extent_words ?e)"
  have "at_regions (regs ?b1) alloc1 as' rs" using s(4) by simp
  from Cons.IH [OF this fuel(2), where k = "Suc k" and fb = "fb + n"] obtain alloc' where rest:
    "write_extents fuel' ?b1 (In_Inode ino) (Suc k) alloc1 (fb + n)
      = Inr (put_words ?b1 ino (3 + 3 * Suc k) (concat (map extent_words (extents_of (fb + n) rs))), alloc')"
    "rewind_alloc alloc' = rewind_alloc alloc"
    using Cons.prems(3) s(5) by (auto simp: length_put_list)
  have "put_words ?b1 ino (3 + 3 * Suc k) (concat (map extent_words (extents_of (fb + n) rs)))
      = put_words b ino (3 + 3 * k) (concat (map extent_words (extents_of fb (r # rs))))"
    using put_words_append [of "3 + 3 * k" "extent_words ?e" "concat (map extent_words (extents_of (fb + n) rs))" b ino]
      Cons.prems(3) by (simp add: r add.commute)
  moreover have "put_extent b (In_Inode ino) k ?e = Inr ?b1"
    using Cons.prems(3) by (simp add: put_inode_words_eq)
  ultimately show ?case
    using rest s by (subst write_extents.simps) (simp add: fuel(1))
qed

text \<open>
  The header goes in front of the extents, and a reader that believes it finds them.
\<close>

lemma extent_head_inode:
  assumes "length (i_block (inode_at b ino)) = 15"
  shows "extent_head info b force ino 0 k = Inr (put_words b ino 0 (header_words \<lparr>eh_magic = EXT4_EXT_MAGIC,
     eh_entries = ucast k, eh_max = 3, eh_depth = 0, eh_generation = 0\<rparr>), Some (In_Inode ino))"
  using assms by (simp add: extent_head_def put_inode_words_eq header_words_def)

lemma ee_len_extents_of:
  "\<forall>(b, n, g) \<in> set rs. 0 < n \<and> unat n \<le> EXT_INIT_MAX_LEN \<Longrightarrow> list_all (\<lambda>e. ee_len e \<noteq> 0) (extents_of fb rs)"
proof (induction fb rs rule: extents_of.induct)
  case (2 fb b n g rs)
  then have "unat (ucast n :: u16) = unat n" "0 < unat n"
    by (auto simp: unsigned_ucast_eq take_bit_eq_mod unat_gt_0 word_neq_0_conv)
  then have "(ucast n :: u16) \<noteq> 0" by (metis less_irrefl unat_0)
  then show ?case using 2 by simp
qed simp

lemma inode_extents_written:
  assumes "length ws = 15" "length rs \<le> 3" "\<forall>(b, n, g) \<in> set rs. 0 < n \<and> unat n \<le> EXT_INIT_MAX_LEN"
  shows "inode_extents (put_list ws 0 (header_words \<lparr>eh_magic = EXT4_EXT_MAGIC, eh_entries = of_nat (length rs),
       eh_max = 3, eh_depth = 0, eh_generation = 0\<rparr> @ concat (map extent_words (extents_of 0 rs))))
    = Some (extents_of 0 rs)"
proof -
  let ?h = "header_words \<lparr>eh_magic = EXT4_EXT_MAGIC, eh_entries = of_nat (length rs),
       eh_max = 3, eh_depth = 0, eh_generation = 0\<rparr>"
  let ?es = "concat (map extent_words (extents_of 0 rs))"
  have n: "unat (of_nat (length rs) :: u16) = length rs" using assms(2) by (simp add: unat_of_nat)
  then have le: "(of_nat (length rs) :: u16) \<le> 3" using assms(2) by (simp add: word_le_nat_alt)
  have "length (put_list ws 0 (?h @ ?es)) = 15" using assms(1,2) by (simp add: length_put_list header_words_def)
  moreover have "take (3 * length rs) (drop 3 (put_list ws 0 (?h @ ?es))) = ?es"
    by (simp add: put_list_def header_words_def)
  moreover have "put_list ws 0 (?h @ ?es) ! 0 = pair16 EXT4_EXT_MAGIC (of_nat (length rs))"
    "put_list ws 0 (?h @ ?es) ! 1 = pair16 3 0"
    by (simp_all add: put_list_def header_words_def)
  ultimately show ?thesis
    using le ee_len_extents_of [OF assms(3), of 0]
    by (simp add: inode_extents_def Let_def pair16_parts n extents_of_words_inverse)
qed

text \<open>C3: for an allocation of at most three regions (as many as the inode itself takes), each of 1 to 32768
  blocks (the longest initialised extent), the header and the extents that an inode gets, read back
  as the header announces them, map block \<open>x\<close> of the file to block \<open>x\<close> of the allocation and nothing
  else. The fuel of the loop is enough.\<close>

theorem inode_extents_map_file:
  assumes "at_regions (regs b) alloc as rs" "mem_ok (regs b)" "distinct as"
    and "length rs \<le> 3" "length (i_block (inode_at b ino)) = 15" "regions_fit rs"
  shows "\<exists>b1 b' alloc'. extent_head info b force ino 0 (of_nat (length rs)) = Inr (b1, Some (In_Inode ino))
    \<and> write_extents (Suc (brk (regs b1))) b1 (In_Inode ino) 0 alloc 0 = Inr (b', alloc')
    \<and> rewind_alloc alloc' = rewind_alloc alloc
    \<and> (\<forall>x. inode_lookup (i_block (inode_at b' ino)) x
         = (if unat x < blocks_of rs then Some (ucast (expand rs ! unat x)) else None))"
proof -
  let ?h = "header_words \<lparr>eh_magic = EXT4_EXT_MAGIC, eh_entries = of_nat (length rs), eh_max = 3, eh_depth = 0,
      eh_generation = 0\<rparr>"
  let ?es = "concat (map extent_words (extents_of 0 rs))"
  let ?b1 = "put_words b ino 0 ?h" and ?ws = "i_block (inode_at b ino)"
  have h3: "length ?h = 3" by (simp add: header_words_def)
  have "(ucast (of_nat (length rs) :: u32) :: u16) = of_nat (length rs)"
    using assms(4) by (simp add: word_unat_eq_iff unsigned_ucast_eq take_bit_eq_mod unat_of_nat)
  then have head: "extent_head info b force ino 0 (of_nat (length rs)) = Inr (?b1, Some (In_Inode ino))"
    using extent_head_inode [OF assms(5), of info force "of_nat (length rs)"] by simp
  have "length as \<le> brk (regs b)"
    using rlist_bounded assms(1-3) by (auto simp: at_regions_def)
  then have "length rs \<le> Suc (brk (regs ?b1))" using assms(1) by (auto simp: at_regions_def dest: rlist_length)
  moreover have "at_regions (regs ?b1) alloc as rs" using assms(1) by simp
  moreover have "3 + 3 * (0 + length rs) \<le> length (i_block (inode_at ?b1 ino))"
    using assms(4,5) h3 by (simp add: length_put_list)
  ultimately obtain alloc' where w:
    "write_extents (Suc (brk (regs ?b1))) ?b1 (In_Inode ino) 0 alloc 0 = Inr (put_words ?b1 ino (3 + 3 * 0) ?es, alloc')"
    "rewind_alloc alloc' = rewind_alloc alloc" using write_extents_words by blast
  have "put_words ?b1 ino (3 + 3 * 0) ?es = put_words b ino 0 (?h @ ?es)"
    using put_words_append [of 0 ?h ?es b ino] assms(4,5) h3 by simp
  with w have w': "write_extents (Suc (brk (regs ?b1))) ?b1 (In_Inode ino) 0 alloc 0 = Inr (put_words b ino 0 (?h @ ?es), alloc')"
    by simp
  have fit: "\<forall>(b, n, g) \<in> set rs. 0 < n \<and> unat n \<le> EXT_INIT_MAX_LEN"
    "\<forall>(b, n, g) \<in> set rs. unat n \<le> EXT_INIT_MAX_LEN \<and> unat b + unat n < 2 ^ 32" "blocks_of rs < 2 ^ 32"
    using assms(6) by (auto simp: regions_fit_def)
  have "inode_lookup (put_list ?ws 0 (?h @ ?es)) x
      = (if unat x < blocks_of rs then Some (ucast (expand rs ! unat x)) else None)" for x
    unfolding inode_lookup_def inode_extents_written [OF assms(5,4) fit(1)]
    using extent_lookup_of [of 0 rs x] fit(2,3) by simp
  then show ?thesis using head w' w(2) by (intro exI [of _ ?b1] exI [of _ "put_words b ino 0 (?h @ ?es)"] exI [of _ alloc']) simp
qed

definition extent_build :: build where
  "extent_build = demo_build\<lparr>regs := demo_regions\<rparr>"

lemma extent_build_regions:
  "at_regions (regs extent_build) demo_alloc [0, 1] [(100, 3, 0), (20, 2, 1)]" "mem_ok (regs extent_build)"
  by (auto simp: at_regions_def mem_ok_def extent_build_def demo_regions_def demo_alloc_def create_allocation_def)

theorem inode_extents_map_file_witness:
  "\<exists>b1 b' alloc'. extent_head demo_info extent_build False (Inode_Table 0, 0) 0 2 = Inr (b1, Some (In_Inode (Inode_Table 0, 0)))
    \<and> write_extents (Suc (brk (regs b1))) b1 (In_Inode (Inode_Table 0, 0)) 0 demo_alloc 0 = Inr (b', alloc')
    \<and> (\<forall>x. inode_lookup (i_block (inode_at b' (Inode_Table 0, 0))) x
         = (if unat x < 5 then Some (ucast (expand [(100, 3, 0), (20, 2, 1)] ! unat x)) else None))"
proof -
  have "regions_fit [(100, 3, 0), (20, 2, 1)]" "distinct [0, 1 :: nat]"
    "length (i_block (inode_at extent_build (Inode_Table 0, 0))) = 15"
    by (simp_all add: regions_fit_def extent_build_def demo_build_def demo_regions_def zero_inode_def)
  then show ?thesis
    using inode_extents_map_file [OF extent_build_regions, of "(Inode_Table 0, 0)" demo_info False] by fastforce
qed

section \<open>Queueing the data\<close>

text \<open>The pieces for \<open>len\<close> bytes from offset \<open>off\<close> of buffer \<open>data\<close>: as many as each region holds.\<close>

fun pieces_of :: "nat \<Rightarrow> nat \<Rightarrow> nat \<Rightarrow> nat \<Rightarrow> region_data list \<Rightarrow> seg list" where
  "pieces_of bs data off n [] = []"
| "pieces_of bs data off n ((b, ln, g) # rs) = (if n = 0 then [] else
     let k = min (unat ln * bs) n in
     (b, of_nat k, BACKED_BLOCK_DATA (Calloc data, off)) # pieces_of bs data (off + k) (n - k) rs)"

lemma backing_loop_pieces:
  assumes "at_regions (regs b) alloc as rs" "length rs \<le> fuel"
    and "unat n \<le> blocks_of rs * unat (block_size info)"
    and "\<forall>(bl, k, g) \<in> set rs. unat k * unat (block_size info) < 2 ^ 32"
    and "queue_repr (img b) xs" "distinct (map fst rs)" "\<forall>r \<in> set rs. fst r \<notin> fst ` set xs"
  shows "\<exists>q ys alloc'. backing_loop fuel (\<lambda>b off n block. add_data b (Calloc data, off) n block) info b alloc off n
      = Inr (b\<lparr>img := q\<rparr>, alloc')
    \<and> queue_repr q ys \<and> set ys = set xs \<union> set (pieces_of (unat (block_size info)) data off (unat n) rs)"
  using assms
proof (induction rs arbitrary: b alloc as fuel off n xs)
  case Nil
  then have "n = 0" by (simp add: unat_eq_zero)
  then show ?case using Nil.prems(5)
    by (intro exI [of _ "img b"] exI [of _ xs] exI [of _ alloc], subst backing_loop.simps) simp
next
  case (Cons r rs)
  obtain bl ln g where r: "r = (bl, ln, g)" by (cases r)
  show ?case
  proof (cases "n = 0")
    case True
    then show ?thesis using Cons.prems(5) r
      by (intro exI [of _ "img b"] exI [of _ xs] exI [of _ alloc], subst backing_loop.simps) simp
  next
    case False
    obtain fuel' where fuel: "fuel = Suc fuel'" "length rs \<le> fuel'" using Cons.prems(2) by (cases fuel) auto
    from at_regions_step [OF Cons.prems(1) [unfolded r]] obtain a as' alloc1 where s:
      "get_region (regs b) alloc = Inr (bl, ln)" "get_next_region (regs b) alloc = Inr alloc1"
      "at_regions (regs b) alloc1 as' rs" by metis
    define k where "k = min (unat ln * unat (block_size info)) (unat n)"
    have lim: "unat ln * unat (block_size info) < 2 ^ 32" using Cons.prems(4) r by auto
    then have bytes: "unat (ln * block_size info) = unat ln * unat (block_size info)"
      by (simp add: unat_word_ariths)
    have k32: "k < 2 ^ 32" using lim by (simp add: k_def)
    define w where "w = (ucast (min (ucast (ln * block_size info)) n) :: u32)"
    have m: "unat (min (ucast (ln * block_size info)) n) = k"
      by (simp add: min_def word_le_nat_alt unsigned_ucast_eq take_bit_eq_mod bytes k_def)
    then have w: "unat w = k" using k32 by (simp add: w_def unsigned_ucast_eq take_bit_eq_mod)
    then have w_eq: "w = of_nat k" by (simp add: word_unat_eq_iff unat_of_nat k32 [simplified])
    have rest: "unat (n - ucast w) = unat n - k"
      using w by (subst unat_sub) (simp_all add: word_le_nat_alt unsigned_ucast_eq take_bit_eq_mod k_def)
    have "bl \<notin> fst ` set xs" using Cons.prems(7) r by auto
    from add_data_adds [OF Cons.prems(5) this] obtain q1 ys1 where q1:
      "add_data b (Calloc data, off) w bl = Inr (b\<lparr>img := q1\<rparr>)" "queue_repr q1 ys1"
      "set ys1 = insert (bl, w, BACKED_BLOCK_DATA (Calloc data, off)) (set xs)" by metis
    have IH: "at_regions (regs (b\<lparr>img := q1\<rparr>)) alloc1 as' rs"
      "unat (n - ucast w) \<le> blocks_of rs * unat (block_size info)"
      "\<forall>(bl, k, g) \<in> set rs. unat k * unat (block_size info) < 2 ^ 32" "queue_repr (img (b\<lparr>img := q1\<rparr>)) ys1"
      "distinct (map fst rs)" "\<forall>r \<in> set rs. fst r \<notin> fst ` set ys1"
      using s(3) Cons.prems(3-7) q1(2,3) r by (auto simp: rest k_def algebra_simps)
    from Cons.IH [OF IH(1) fuel(2) IH(2-6), of "off + k"] obtain q ys alloc' where rec:
      "backing_loop fuel' (\<lambda>b off n block. add_data b (Calloc data, off) n block) info (b\<lparr>img := q1\<rparr>) alloc1
         (off + k) (n - ucast w) = Inr (b\<lparr>img := q1\<rparr>\<lparr>img := q\<rparr>, alloc')" "queue_repr q ys"
      "set ys = set ys1 \<union> set (pieces_of (unat (block_size info)) data (off + k) (unat n - k) rs)"
      unfolding rest by metis
    have "backing_loop fuel (\<lambda>b off n block. add_data b (Calloc data, off) n block) info b alloc off n
        = Inr (b\<lparr>img := q\<rparr>, alloc')"
      using rec(1) q1(1) by (subst backing_loop.simps) (simp add: False fuel(1) s(1,2) w_def [symmetric] w)
    moreover have "n \<noteq> 0 \<longleftrightarrow> unat n \<noteq> 0" by (simp add: unat_eq_zero)
    ultimately show ?thesis using rec(2,3) q1(3) False
      by (intro exI [of _ q] exI [of _ ys] exI [of _ alloc']) (auto simp: r Let_def k_def [symmetric] w_eq)
  qed
qed

text \<open>C4: the data of a file that fits its allocation goes through the loop of
  \<open>extent_create_backing\<close> within the fuel: the queue gains, region by region, a piece at the region's
  first block with the next bytes of the buffer, and nothing else.\<close>

theorem extent_create_backing_pieces:
  assumes "at_regions (regs b) alloc as rs" "mem_ok (regs b)" "distinct as"
    and "unat n \<le> blocks_of rs * unat (block_size info)"
    and "\<forall>(bl, k, g) \<in> set rs. unat k * unat (block_size info) < 2 ^ 32"
    and "queue_repr (img b) xs" "distinct (map fst rs)" "\<forall>r \<in> set rs. fst r \<notin> fst ` set xs"
  shows "\<exists>b' alloc' ys. extent_create_backing info b alloc n = Inr (brk (bufs b), b', alloc')
    \<and> queue_repr (img b') ys
    \<and> set ys = set xs \<union> set (pieces_of (unat (block_size info)) (brk (bufs b)) 0 (unat n) rs)
    \<and> cells (bufs b') (brk (bufs b)) = Some (replicate (unat n) 0)"
proof -
  let ?b = "snd (calloc b (replicate (unat n) 0))"
  have c: "regs ?b = regs b" "img ?b = img b" by (simp_all add: calloc_def malloc_cell_def)
  have "length as \<le> brk (regs b)"
    using rlist_bounded assms(1-3) by (auto simp: at_regions_def)
  then have ln: "length rs \<le> Suc (brk (regs b))" using assms(1) by (auto simp: at_regions_def dest: rlist_length)
  from backing_loop_pieces [of ?b, unfolded c, OF assms(1) ln assms(4-8)]
  show ?thesis by (fastforce simp: extent_create_backing_def calloc_def malloc_cell_def)
qed

theorem extent_create_backing_pieces_witness:
  "\<exists>b' alloc' ys. extent_create_backing demo_info extent_build demo_alloc 4000 = Inr (0, b', alloc')
    \<and> queue_repr (img b') ys
    \<and> set ys = {(100, 3072, BACKED_BLOCK_DATA (Calloc 0, 0)), (20, 928, BACKED_BLOCK_DATA (Calloc 0, 3072))}"
proof -
  have "queue_repr (img extent_build) []" "brk (bufs extent_build) = 0" "block_size demo_info = 1024"
    by (simp_all add: extent_build_def demo_build_def empty_image_def queue_repr_new mem_ok_def empty_heap_def demo_info_def)
  then show ?thesis
    using extent_create_backing_pieces [OF extent_build_regions, of 4000 demo_info "[]"]
    by (auto simp: Let_def)
qed

end
