(* ===== verification/Directory_Data.thy ===== *)
theory Directory_Data
  imports Make_Ext4fs
begin

text \<open>
  The data of a directory. The records that \<open>make_directory\<close> writes are read back by a reader that
  checks what a file system checker asks of a directory: every record is long enough for its name,
  and no record crosses the end of a block.
\<close>

section \<open>Records\<close>

type_synonym dir_entry = "u32 \<times> u8 \<times> u8 list"
type_synonym dir_record = "dir_entry \<times> nat"

text \<open>The bytes of a record of \<open>l\<close> bytes, and of a buffer of \<open>n\<close> bytes with the records \<open>rs\<close> in front.\<close>

fun record_bytes :: "dir_record \<Rightarrow> u8 list" where
  "record_bytes ((ino, ty, nm), l) =
     dentry_bytes ino (of_nat l) (of_nat (length nm)) ty nm @ replicate (l - (8 + length nm)) 0"

definition recs :: "dir_record list \<Rightarrow> nat" where
  "recs rs = sum_list (map snd rs)"

definition dir_buffer :: "nat \<Rightarrow> dir_record list \<Rightarrow> u8 list" where
  "dir_buffer n rs = concat (map record_bytes rs) @ replicate (n - recs rs) 0"

text \<open>The record at offset \<open>off\<close> holds its name and stays in its block of \<open>bs\<close> bytes.\<close>

fun record_ok :: "nat \<Rightarrow> nat \<Rightarrow> dir_record \<Rightarrow> bool" where
  "record_ok bs off ((ino, ty, nm), l) \<longleftrightarrow> length nm < 256 \<and> 8 + length nm \<le> l \<and> l < 2 ^ 16 \<and> off mod bs + l \<le> bs"

fun records_ok :: "nat \<Rightarrow> nat \<Rightarrow> dir_record list \<Rightarrow> bool" where
  "records_ok bs off [] = True"
| "records_ok bs off (r # rs) \<longleftrightarrow> record_ok bs off r \<and> records_ok bs (off + snd r) rs"

lemma recs_simps [simp]: "recs [] = 0" "recs (r # rs) = snd r + recs rs" "recs (rs @ qs) = recs rs + recs qs"
  by (simp_all add: recs_def)

lemma records_ok_append [simp]:
  "records_ok bs off (rs @ qs) \<longleftrightarrow> records_ok bs off rs \<and> records_ok bs (off + recs rs) qs"
  by (induction rs arbitrary: off) (auto simp: add.assoc)

declare record_bytes.simps [simp del] record_ok.simps [simp del]

lemma record_ok_simp: "record_ok bs off ((ino, ty, nm), l) \<longleftrightarrow>
    length nm < 256 \<and> 8 + length nm \<le> l \<and> l < 2 ^ 16 \<and> off mod bs + l \<le> bs"
  by (simp add: record_ok.simps)

lemma length_dentry_bytes [simp]: "length (dentry_bytes ino l k ty nm) = 8 + length nm"
  by (simp add: dentry_bytes_def)

lemma length_record [simp]: "record_ok bs off r \<Longrightarrow> length (record_bytes r) = snd r"
  by (cases "(bs, off, r)" rule: record_ok.cases) (simp add: record_ok_simp record_bytes.simps)

lemma length_records [simp]: "records_ok bs off rs \<Longrightarrow> length (concat (map record_bytes rs)) = recs rs"
  by (induction rs arbitrary: off) auto

section \<open>Reading\<close>

fun read_dir :: "nat \<Rightarrow> nat \<Rightarrow> nat \<Rightarrow> u8 list \<Rightarrow> dir_entry list option" where
  "read_dir bs off 0 bytes = (if bytes = [] then Some [] else None)"
| "read_dir bs off (Suc fuel) bytes =
     (if bytes = [] then Some [] else
      let l = unat (get16 bytes 4); k = unat (bytes ! 6) in
      if l < 8 + k \<or> length bytes < l \<or> bs < off mod bs + l then None
      else map_option ((#) (get32 bytes 0, bytes ! 7, take k (drop 8 bytes)))
             (read_dir bs (off + l) fuel (drop l bytes)))"

declare read_dir.simps [simp del]

lemma get16_append: "length xs = n \<Longrightarrow> get16 (xs @ ys) n = get16 ys 0"
  by (simp add: get16_def nth_append)

lemma read_record:
  assumes "record_ok bs off (e, l)"
  shows "read_dir bs off (Suc fuel) (record_bytes (e, l) @ ys) = map_option ((#) e) (read_dir bs (off + l) fuel ys)"
proof -
  obtain ino ty nm where e: "e = (ino, ty, nm)" by (cases e)
  define data where "data = record_bytes (e, l) @ ys"
  have ok: "length nm < 256" "8 + length nm \<le> l" "l < 2 ^ 16" "off mod bs + l \<le> bs" using assms by (simp_all add: e record_ok_simp)
  have bytes: "data = le32 ino @ le16 (of_nat l) @ [of_nat (length nm), ty] @ nm @ replicate (l - (8 + length nm)) 0 @ ys"
    by (simp add: data_def e record_bytes.simps dentry_bytes_def)
  have "get32 data 0 = ino" "get16 data 4 = of_nat l"
    unfolding bytes by (simp_all add: get16_append)
  moreover have "data ! 6 = of_nat (length nm)" "data ! 7 = ty" "take (length nm) (drop 8 data) = nm" "data \<noteq> []"
    unfolding bytes by (simp_all add: nth_append)
  moreover have "unat (of_nat l :: u16) = l" "unat (of_nat (length nm) :: u8) = length nm"
    using ok by (simp_all add: unat_of_nat)
  moreover have "drop l data = ys" "l \<le> length data" using length_record [OF assms] by (simp_all add: data_def)
  ultimately show ?thesis using ok
    unfolding data_def [symmetric] read_dir.simps by (simp add: Let_def e)
qed

lemma read_dir_records:
  "records_ok bs off rs \<Longrightarrow> length rs \<le> fuel \<Longrightarrow> read_dir bs off fuel (concat (map record_bytes rs)) = Some (map fst rs)"
proof (induction rs arbitrary: off fuel)
  case Nil
  then show ?case by (cases fuel) (simp_all add: read_dir.simps)
next
  case (Cons r rs)
  then obtain fuel' where "fuel = Suc fuel'" "length rs \<le> fuel'" by (cases fuel) auto
  with Cons read_record [of bs off "fst r" "snd r"] show ?case by simp
qed

section \<open>Writing\<close>

lemma put_at_middle: "length ys = length zs \<Longrightarrow> put_at (xs @ ys @ ws) (length xs) zs = Inr (xs @ zs @ ws)"
  by (simp add: put_at_def)

lemma replicate_split: "k \<le> n \<Longrightarrow> replicate n x = replicate k x @ replicate (n - k) x"
  by (simp flip: replicate_add)

lemma put_record:
  assumes "records_ok bs 0 rs" "record_ok bs off ((ino, ty, nm), l)" "recs rs + l \<le> n"
  shows "put_at (dir_buffer n rs) (recs rs) (dentry_bytes ino (of_nat l) (of_nat (length nm)) ty nm)
    = Inr (dir_buffer n (rs @ [((ino, ty, nm), l)]))"
proof -
  have l: "8 + length nm \<le> l" using assms(2) by (simp add: record_ok_simp)
  have "replicate (n - recs rs) 0
      = replicate (8 + length nm) (0 :: u8) @ replicate (l - (8 + length nm)) 0 @ replicate (n - (recs rs + l)) 0"
    using l assms(3) by (simp flip: replicate_add)
  then show ?thesis
    using put_at_middle [of "replicate (8 + length nm) 0" "dentry_bytes ino (of_nat l) (of_nat (length nm)) ty nm"
        "concat (map record_bytes rs)"] assms(1)
    by (simp add: dir_buffer_def record_bytes.simps)
qed

fun grow_last :: "nat \<Rightarrow> dir_record list \<Rightarrow> dir_record list" where
  "grow_last k [] = []"
| "grow_last k [(e, l)] = [(e, l + k)]"
| "grow_last k (r # rs) = r # grow_last k rs"

lemma grow_last_snoc [simp]: "grow_last k (rs @ [(e, l)]) = rs @ [(e, l + k)]"
proof (induction rs)
  case (Cons r rs)
  then show ?case by (cases "rs @ [(e, l)]") auto
qed simp

lemma grow_last_0 [simp]: "grow_last 0 rs = rs"
  by (induction "0 :: nat" rs rule: grow_last.induct) auto

lemma recs_grow_last: "rs \<noteq> [] \<Longrightarrow> recs (grow_last k rs) = recs rs + k"
  by (induction k rs rule: grow_last.induct) auto

lemma map_grow_last [simp]: "map fst (grow_last k rs) = map fst rs"
  by (induction k rs rule: grow_last.induct) auto

text \<open>The last record of the buffer grows by \<open>k\<close> bytes.\<close>

lemma last_record_bytes:
  assumes "records_ok bs 0 (rs @ [((ino, ty, nm), l)])" "recs rs + l \<le> n"
  shows "dir_buffer n (rs @ [((ino, ty, nm), l)]) = (concat (map record_bytes rs) @ le32 ino) @ le16 (of_nat l)
      @ [of_nat (length nm), ty] @ nm @ replicate (n - (recs rs + 8 + length nm)) 0"
    "length (concat (map record_bytes rs) @ le32 ino) = recs rs + 4"
proof -
  have ok: "8 + length nm \<le> l" "records_ok bs 0 rs" using assms(1) by (simp_all add: record_ok_simp)
  have "replicate (n - (recs rs + 8 + length nm)) (0 :: u8)
      = replicate (l - (8 + length nm)) 0 @ replicate (n - (recs rs + l)) 0"
    using ok(1) assms(2) by (simp flip: replicate_add)
  then show "dir_buffer n (rs @ [((ino, ty, nm), l)]) = (concat (map record_bytes rs) @ le32 ino) @ le16 (of_nat l)
      @ [of_nat (length nm), ty] @ nm @ replicate (n - (recs rs + 8 + length nm)) 0"
    by (simp add: dir_buffer_def record_bytes.simps dentry_bytes_def)
  show "length (concat (map record_bytes rs) @ le32 ino) = recs rs + 4" using ok(2) by simp
qed

lemma grow_record:
  assumes "records_ok bs 0 (rs @ [(e, l)])" "records_ok bs 0 (rs @ [(e, l + k)])" "recs rs + l + k \<le> n"
  shows "get16 (dir_buffer n (rs @ [(e, l)])) (recs rs + 4) = of_nat l"
    "put_at (dir_buffer n (rs @ [(e, l)])) (recs rs + 4) (le16 (of_nat (l + k))) = Inr (dir_buffer n (rs @ [(e, l + k)]))"
proof -
  obtain ino ty nm where e: "e = (ino, ty, nm)" by (cases e)
  have fits: "recs rs + l \<le> n" "recs rs + (l + k) \<le> n" using assms(3) by simp_all
  note a = last_record_bytes [OF assms(1) [unfolded e] fits(1)]
  note b = last_record_bytes [OF assms(2) [unfolded e] fits(2)]
  show "get16 (dir_buffer n (rs @ [(e, l)])) (recs rs + 4) = of_nat l"
    unfolding e a(1) using get16_append [OF a(2)] by (simp del: append_assoc)
  show "put_at (dir_buffer n (rs @ [(e, l)])) (recs rs + 4) (le16 (of_nat (l + k))) = Inr (dir_buffer n (rs @ [(e, l + k)]))"
    unfolding e a(1) b(1) a(2) [symmetric] by (rule put_at_middle) simp
qed

lemma length_dir_buffer: "records_ok bs 0 rs \<Longrightarrow> recs rs \<le> n \<Longrightarrow> length (dir_buffer n rs) = n"
  by (simp add: dir_buffer_def)

section \<open>Adding an entry\<close>

text \<open>The buffer \<open>data\<close> of \<open>n\<close> bytes holds the records \<open>rs\<close>; \<open>prev\<close> points to the last of them.\<close>

definition dir_state :: "nat \<Rightarrow> nat \<Rightarrow> nat \<Rightarrow> build \<Rightarrow> dir_record list \<Rightarrow> nat option \<Rightarrow> u32 \<Rightarrow> bool" where
  "dir_state bs n data b rs prev offset \<longleftrightarrow> cells (bufs b) data = Some (dir_buffer n rs)
     \<and> records_ok bs 0 rs \<and> recs rs \<le> n \<and> unat offset = recs rs
     \<and> (rs \<noteq> [] \<longrightarrow> prev = Some (recs (butlast rs)))"

text \<open>A state that differs from \<open>b\<close> in the buffer \<open>data\<close> only.\<close>

definition only_buf :: "nat \<Rightarrow> build \<Rightarrow> build \<Rightarrow> bool" where
  "only_buf data b b' \<longleftrightarrow> (\<exists>bytes. b' = b\<lparr>bufs := (bufs b)\<lparr>cells := (cells (bufs b))(data := Some bytes)\<rparr>\<rparr>)"

lemma only_buf_trans: "only_buf data b b' \<Longrightarrow> only_buf data b' b'' \<Longrightarrow> only_buf data b b''"
  by (auto simp: only_buf_def)

lemma only_buf_refl: "cells (bufs b) data = Some bytes \<Longrightarrow> only_buf data b b"
  unfolding only_buf_def by (rule exI [of _ bytes]) (simp add: fun_upd_idem)

lemma put_buf_state:
  assumes "cells (bufs b) data = Some old" "put_at old off bytes = Inr new"
  shows "\<exists>b'. put_buf b data off bytes = Inr b' \<and> cells (bufs b') data = Some new \<and> only_buf data b b'"
  using assms by (auto simp: put_buf_def load_def store_def only_buf_def)

lemma add_rec_len_state:
  assumes st: "dir_state bs n data b rs (Some p) offset" "rs \<noteq> []" and k: "unat k = j"
    and ok: "records_ok bs 0 (grow_last j rs)" "recs rs + j \<le> n"
  shows "\<exists>b'. add_rec_len b data p k = Inr b' \<and> cells (bufs b') data = Some (dir_buffer n (grow_last j rs)) \<and> only_buf data b b'"
proof -
  obtain qs e l where rs: "rs = qs @ [(e, l)]" using st(2) by (metis prod.exhaust rev_exhaust)
  have s: "cells (bufs b) data = Some (dir_buffer n (qs @ [(e, l)]))" "records_ok bs 0 (qs @ [(e, l)])" "p = recs qs"
    using st rs by (simp_all add: dir_state_def)
  have g: "records_ok bs 0 (qs @ [(e, l + j)])" "recs qs + l + j \<le> n" using ok rs by (simp_all add: add.assoc)
  note gr = grow_record [OF s(2) g]
  have "8 \<le> l" using s(2) by (cases e) (simp add: record_ok_simp)
  then have "recs qs + 4 + 2 \<le> length (dir_buffer n (qs @ [(e, l)]))"
    using length_dir_buffer [OF s(2), of n] g(2) by simp
  moreover have "ucast k = (of_nat j :: u16)" using k by (auto simp: unsigned_of_nat simp flip: k)
  ultimately show ?thesis
    using put_buf_state [OF s(1) gr(2)] s(1) gr(1) by (simp add: add_rec_len_def load_def s(3) rs)
qed

text \<open>What is left of a block when a record of \<open>l\<close> bytes at \<open>off\<close> would cross its end.\<close>

definition skip :: "nat \<Rightarrow> nat \<Rightarrow> nat \<Rightarrow> nat" where
  "skip bs off l = (if off mod bs + l > bs then bs - off mod bs else 0)"

lemma last_byte_block:
  fixes bs :: nat
  assumes "0 < l" "l \<le> bs"
  shows "(off + l - 1) div bs = (if off mod bs + l \<le> bs then off div bs else off div bs + 1)"
proof -
  have "off + l - 1 = bs * (off div bs) + (off mod bs + l - 1)"
    using mult_div_mod_eq [of bs off] assms(1) by linarith
  then have "(off + l - 1) div bs = off div bs + (off mod bs + l - 1) div bs"
    using assms by (simp only: div_mult_self4)
  moreover have "(off mod bs + l - 1) div bs = (if off mod bs + l \<le> bs then 0 else 1)"
  proof (cases "off mod bs + l \<le> bs")
    case True
    then show ?thesis using assms by simp
  next
    case False
    have "off mod bs < bs" using assms by simp
    then have "off mod bs + l - 1 < 2 * bs" using assms by linarith
    then show ?thesis using False assms by (simp add: div_nat_eqI)
  qed
  ultimately show ?thesis by simp
qed

lemma records_ok_grow:
  assumes "records_ok bs 0 rs" "bs < 2 ^ 16" "k \<noteq> 0 \<Longrightarrow> recs rs mod bs \<noteq> 0 \<and> recs rs mod bs + k \<le> bs"
  shows "records_ok bs 0 (grow_last k rs)"
proof (cases "k = 0 \<or> rs = []")
  case False
  then obtain qs e l where rs: "rs = qs @ [(e, l)]" by (metis prod.exhaust rev_exhaust)
  obtain ino ty nm where e: "e = (ino, ty, nm)" by (cases e)
  have ok: "length nm < 256" "8 + length nm \<le> l" "recs qs mod bs + l \<le> bs"
    using assms(1) by (simp_all add: rs e record_ok_simp)
  have m: "(recs qs + l) mod bs \<noteq> 0" "(recs qs + l) mod bs + k \<le> bs" using assms(3) False rs by auto
  have "(recs qs + l) mod bs = (recs qs mod bs + l) mod bs" by (simp add: mod_add_left_eq)
  moreover have "recs qs mod bs + l \<noteq> bs" using m(1) calculation by auto
  ultimately have "(recs qs + l) mod bs = recs qs mod bs + l" using ok(3) by simp
  then show ?thesis using assms(1,2) m(2) ok by (simp add: rs e record_ok_simp)
qed (use assms(1) in auto)

lemma dentry_len_bounds: "8 + n \<le> dentry_len n" "n < 256 \<Longrightarrow> dentry_len n \<le> 264"
  by (auto simp: dentry_len_def)

lemma length_chars [simp]: "length (chars s) = length s"
  by (simp add: chars_def)

lemma add_dentry_state:
  assumes st: "dir_state bs n data b rs prev offset" and bs: "bs = unat (block_size info)" "264 \<le> bs" "bs < 2 ^ 16"
    and name: "length name < 256" and l: "l = dentry_len (length name)" and s: "s = skip bs (recs rs) l"
    and room: "recs rs + s + l \<le> n" "n < 2 ^ 32"
  shows "\<exists>b'. add_dentry info b data offset prev ino name ty = Inr (recs rs + s, of_nat (recs rs + s + l), b')
    \<and> dir_state bs n data b' (grow_last s rs @ [((ino, ty, chars name), l)]) (Some (recs rs + s)) (of_nat (recs rs + s + l))
    \<and> only_buf data b b'"
proof -
  have l': "0 < l" "l \<le> bs" "8 + length name \<le> l" "l < 2 ^ 16"
    using dentry_len_bounds [of "length name"] name bs(2,3) l by simp_all
  have off: "unat offset = recs rs" "recs rs \<le> n" using st by (simp_all add: dir_state_def)
  have names: "unat (of_nat (length name) :: u8) = length name" "unat (of_nat l :: u16) = l"
    using name l'(4) by (simp_all add: unat_of_nat)
  have bs0: "block_size info \<noteq> 0" using bs by auto
  have end32: "unat (offset + ucast (of_nat l :: u16)) = recs rs + l"
  proof -
    have "unat (ucast (of_nat l :: u16) :: u32) = l" using l'(4) by (simp add: unsigned_ucast_eq take_bit_eq_mod names)
    then show ?thesis using off room by (subst unat_add_small) simp_all
  qed
  have "offset + ucast (of_nat l :: u16) \<noteq> 0" using end32 l'(1) by auto
  then have e1: "unat (offset + ucast (of_nat l :: u16) - 1) = recs rs + l - 1"
    using end32 by (simp add: unat_minus_one)
  define sb where "sb = offset div block_size info"
  define eb where "eb = (offset + ucast (of_nat l :: u16) - 1) div block_size info"
  have sbn: "unat sb = recs rs div bs" by (simp add: sb_def unat_div off bs(1))
  have ebn: "unat eb = (if recs rs mod bs + l \<le> bs then recs rs div bs else recs rs div bs + 1)"
    using last_byte_block [OF l'(1,2)] by (simp add: eb_def unat_div e1 bs(1) [symmetric])
  have cross: "sb \<noteq> eb \<longleftrightarrow> s \<noteq> 0"
    using mod_less_divisor [of bs "recs rs"] bs(2) by (auto simp: word_unat_eq_iff sbn ebn s skip_def not_le)
  have grow_ok: "records_ok bs 0 (grow_last s rs)"
    using st bs(3) l'(2) by (intro records_ok_grow) (auto simp: dir_state_def s skip_def split: if_splits)
  have recs_grow: "recs (grow_last s rs) = recs rs + s"
    by (cases "rs = []") (use l'(2) in \<open>auto simp: recs_grow_last s skip_def\<close>)
  have block_end: "(recs rs + s) mod bs = 0 \<and> (recs rs div bs + 1) * bs = recs rs + s" if "s \<noteq> 0"
  proof -
    have c: "recs rs mod bs + l > bs" using that by (auto simp: s skip_def split: if_splits)
    have "(recs rs div bs + 1) * bs = bs * (recs rs div bs) + bs" by simp
    moreover have "s = bs - recs rs mod bs" using c by (simp add: s skip_def)
    moreover have "recs rs mod bs < bs" using bs(2) by simp
    ultimately have "(recs rs div bs + 1) * bs = recs rs + s" using mult_div_mod_eq [of bs "recs rs"] by linarith
    then show ?thesis by (metis mod_mult_self2_is_0)
  qed
  have at_end: "eb * block_size info = of_nat (recs rs + s)" if "s \<noteq> 0"
  proof -
    have c: "recs rs mod bs + l > bs" using that by (auto simp: s skip_def split: if_splits)
    have "(recs rs div bs + 1) * bs = recs rs + s" using block_end [OF that] by blast
    then have "unat eb * unat (block_size info) = recs rs + s" using ebn c bs(1) by simp
    then show ?thesis by (metis of_nat_mult of_nat_unat ucast_id)
  qed
  define b1_at where "b1_at = (\<lambda>b1 :: build. cells (bufs b1) data = Some (dir_buffer n (grow_last s rs)) \<and> only_buf data b b1)"
  have "\<exists>b1. (if sb \<noteq> eb then (case prev of None \<Rightarrow> Inl Critical
                | Some p \<Rightarrow> rbind (add_rec_len b data p (eb * block_size info - offset)) (\<lambda>b. Inr (b, eb * block_size info)))
             else Inr (b, offset)) = Inr (b1, of_nat (recs rs + s)) \<and> b1_at b1"
  proof (cases "s = 0")
    case True
    have "offset = of_nat (recs rs)" using off(1) by (metis of_nat_unat ucast_id)
    moreover have "b1_at b" using True st by (auto simp: b1_at_def dir_state_def intro: only_buf_refl)
    ultimately show ?thesis using True cross by simp
  next
    case False
    have "rs \<noteq> []" using False l'(2) by (auto simp: s skip_def)
    then obtain p where p: "prev = Some p" using st by (auto simp: dir_state_def)
    have "unat (of_nat (recs rs + s) :: u32) = recs rs + s" using room by (simp add: unat_of_nat del: of_nat_add)
    then have "unat (eb * block_size info - offset) = s"
      using off(1) by (simp add: at_end [OF False] unat_sub word_le_nat_alt)
    from add_rec_len_state [OF st [unfolded p] \<open>rs \<noteq> []\<close> this grow_ok] room obtain b1 where
      "add_rec_len b data p (eb * block_size info - offset) = Inr b1" "b1_at b1" by (auto simp: b1_at_def)
    then show ?thesis using False cross by (simp add: p at_end [OF False])
  qed
  then obtain b1 where b1: "(if sb \<noteq> eb then (case prev of None \<Rightarrow> Inl Critical
                | Some p \<Rightarrow> rbind (add_rec_len b data p (eb * block_size info - offset)) (\<lambda>b. Inr (b, eb * block_size info)))
             else Inr (b, offset)) = Inr (b1, of_nat (recs rs + s))"
    "cells (bufs b1) data = Some (dir_buffer n (grow_last s rs))" "only_buf data b b1"
    by (auto simp: b1_at_def)
  have new: "record_ok bs (recs rs + s) ((ino, ty, chars name), l)"
  proof (cases "s = 0")
    case True
    moreover have "recs rs mod bs < bs" using bs(2) by simp
    ultimately have "recs rs mod bs + l \<le> bs" unfolding s skip_def by (simp split: if_splits)
    then show ?thesis using True name l' by (simp add: record_ok_simp)
  next
    case False
    then show ?thesis using block_end name l' by (simp add: record_ok_simp)
  qed
  have at: "unat (of_nat (recs rs + s) :: u32) = recs rs + s" using room by (simp add: unat_of_nat del: of_nat_add)
  have "put_at (dir_buffer n (grow_last s rs)) (recs rs + s)
      (dentry_bytes ino (of_nat l) (of_nat (length name)) ty (chars name))
    = Inr (dir_buffer n (grow_last s rs @ [((ino, ty, chars name), l)]))"
    using put_record [OF grow_ok new, of n] room by (simp add: recs_grow)
  from put_buf_state [OF b1(2) this] obtain b2 where b2:
    "put_buf b1 data (recs rs + s) (dentry_bytes ino (of_nat l) (of_nat (length name)) ty (chars name)) = Inr b2"
    "cells (bufs b2) data = Some (dir_buffer n (grow_last s rs @ [((ino, ty, chars name), l)]))" "only_buf data b1 b2"
    by blast
  have cast: "ucast (of_nat l :: u16) = (of_nat l :: u32)"
    using l'(4) by (simp add: word_unat_eq_iff unsigned_ucast_eq take_bit_eq_mod names unat_of_nat)
  have "add_dentry info b data offset prev ino name ty = Inr (recs rs + s, of_nat (recs rs + s + l), b2)"
    unfolding add_dentry_def Let_def names l [symmetric] udiv_def if_not_P [OF bs0] rbind_Inr
      b1(1) [unfolded sb_def eb_def] prod.case at
    using b2(1) l'(3) by (simp add: names cast)
  moreover have "dir_state bs n data b2 (grow_last s rs @ [((ino, ty, chars name), l)]) (Some (recs rs + s)) (of_nat (recs rs + s + l))"
    using b2(2) grow_ok new room by (simp add: dir_state_def recs_grow unat_of_nat del: of_nat_add)
  ultimately show ?thesis using only_buf_trans [OF b1(3) b2(3)] by blast
qed

section \<open>All entries\<close>

text \<open>The records after adding the entries \<open>es\<close>, and where they end.\<close>

fun place :: "nat \<Rightarrow> dir_record list \<Rightarrow> dir_entry list \<Rightarrow> dir_record list" where
  "place bs rs [] = rs"
| "place bs rs ((ino, ty, nm) # es) = (let l = dentry_len (length nm) in
     place bs (grow_last (skip bs (recs rs) l) rs @ [((ino, ty, nm), l)]) es)"

fun placed_size :: "nat \<Rightarrow> nat \<Rightarrow> nat list \<Rightarrow> nat" where
  "placed_size bs off [] = off"
| "placed_size bs off (k # ks) = (let l = dentry_len k in placed_size bs (off + skip bs off l + l) ks)"

lemma placed_size_mono: "off \<le> placed_size bs off ks"
proof (induction ks arbitrary: off)
  case (Cons k ks)
  from Cons.IH [of "off + skip bs off (dentry_len k) + dentry_len k"] show ?case by (simp add: Let_def)
qed simp

lemma skip_less: "l \<le> bs \<Longrightarrow> 0 < l \<Longrightarrow> skip bs off l < l"
  by (auto simp: skip_def)

lemma placed_size_bound:
  "\<forall>k \<in> set ks. k < 256 \<Longrightarrow> 264 \<le> bs \<Longrightarrow> placed_size bs off ks \<le> off + 528 * length ks"
proof (induction ks arbitrary: off)
  case (Cons k ks)
  have l: "dentry_len k \<le> 264" "0 < dentry_len k" using dentry_len_bounds [of k] Cons.prems by simp_all
  then have "skip bs off (dentry_len k) < dentry_len k" using Cons.prems(2) by (intro skip_less) simp_all
  then show ?case using Cons.IH [of "off + skip bs off (dentry_len k) + dentry_len k"] Cons.prems l
    by (simp add: Let_def)
qed simp

lemma map_place [simp]: "map fst (place bs rs es) = map fst rs @ es"
  by (induction bs rs es rule: place.induct) (simp_all add: Let_def)

text \<open>The size that \<open>dentry_size\<close> computes.\<close>

lemma dentry_sizes_placed:
  assumes "bs = unat (block_size info)" "bs \<noteq> 0" "placed_size bs (unat k) (map (\<lambda>d. length (filename d)) ds) < 2 ^ 32"
    "\<forall>d \<in> set ds. length (filename d) < 256" "264 \<le> bs" "bs < 2 ^ 16"
  shows "dentry_sizes info ds k = Inr (of_nat (placed_size bs (unat k) (map (\<lambda>d. length (filename d)) ds)))"
  using assms(3,4)
proof (induction ds arbitrary: k)
  case Nil
  then show ?case by simp
next
  case (Cons d ds)
  let ?l = "dentry_len (length (filename d))" and ?m = "unat k mod bs"
  have l: "?l \<le> 264" using dentry_len_bounds Cons.prems by simp
  have "block_size info \<noteq> 0" using assms(1,2) by auto
  have m: "unat (k mod block_size info) = ?m" by (simp add: unat_mod assms(1))
  have ul: "unat (of_nat ?l :: u32) = ?l" using l by (simp add: unat_of_nat)
  have "?m < bs" using assms(2) by simp
  then have cross: "k mod block_size info + of_nat ?l > block_size info \<longleftrightarrow> bs < ?m + ?l"
    using l assms(6) by (simp add: word_less_nat_alt unat_add_small m ul assms(1) [symmetric])
  have gap: "unat (block_size info - k mod block_size info) = bs - ?m"
    using \<open>?m < bs\<close> by (subst unat_sub) (simp_all add: word_le_nat_alt m assms(1) [symmetric])
  have "unat k + skip bs (unat k) ?l + ?l < 2 ^ 32"
    using Cons.prems(1) placed_size_mono [of "unat k + skip bs (unat k) ?l + ?l" bs] by (simp add: Let_def) (meson le_less_trans)
  then have k: "unat ((if k mod block_size info + of_nat ?l > block_size info
      then k + (block_size info - k mod block_size info) else k) + of_nat ?l) = unat k + skip bs (unat k) ?l + ?l"
  proof (cases "bs < ?m + ?l")
    case True
    then have lim: "unat k + (bs - ?m) + ?l < 2 ^ 32" using \<open>unat k + skip bs (unat k) ?l + ?l < 2 ^ 32\<close> by (simp add: skip_def)
    then have g: "unat (k + (block_size info - k mod block_size info)) = unat k + (bs - ?m)"
      by (subst unat_add_small) (simp_all add: gap)
    then have "unat (k + (block_size info - k mod block_size info) + of_nat ?l) = unat k + (bs - ?m) + ?l"
      using lim by (subst unat_add_small) (simp_all add: ul)
    then show ?thesis using True cross by (simp add: skip_def)
  next
    case False
    then show ?thesis using cross \<open>unat k + skip bs (unat k) ?l + ?l < 2 ^ 32\<close>
      by (simp add: skip_def unat_add_small ul)
  qed
  show ?case using Cons.IH [of "(if k mod block_size info + of_nat ?l > block_size info
      then k + (block_size info - k mod block_size info) else k) + of_nat ?l"] Cons.prems \<open>block_size info \<noteq> 0\<close>
    unfolding k by (simp add: umod_def Let_def)
qed

text \<open>Where the records start.\<close>

definition starts :: "dir_record list \<Rightarrow> nat list" where
  "starts rs = map (\<lambda>i. recs (take i rs)) [0..<length rs]"

lemma length_starts [simp]: "length (starts rs) = length rs"
  by (simp add: starts_def)

lemma nth_starts: "m < length rs \<Longrightarrow> starts rs ! m = recs (take m rs)"
  by (simp add: starts_def)

lemma length_grow_last [simp]: "length (grow_last k rs) = length rs"
  by (induction k rs rule: grow_last.induct) auto

lemma take_grow_last: "m < length rs \<Longrightarrow> take m (grow_last k rs) = take m rs"
proof (induction k rs arbitrary: m rule: grow_last.induct)
  case (3 k r v va)
  then show ?case by (cases m) auto
qed auto

lemma take_place: "m < length rs \<Longrightarrow> take m (place bs rs es) = take m rs"
  by (induction bs rs es rule: place.induct) (auto simp: Let_def take_grow_last)

lemma length_place: "length (place bs rs es) = length rs + length es"
  by (induction bs rs es rule: place.induct) (auto simp: Let_def)

lemma drop_starts:
  assumes "length rs1 = Suc m"
  shows "drop m (starts (place bs rs1 es)) = recs (take m rs1) # drop (Suc m) (starts (place bs rs1 es))"
proof -
  have "m < length (starts (place bs rs1 es))" using assms by (simp add: length_place)
  then have "drop m (starts (place bs rs1 es)) = starts (place bs rs1 es) ! m # drop (Suc m) (starts (place bs rs1 es))"
    by (rule Cons_nth_drop_Suc [symmetric])
  moreover have "starts (place bs rs1 es) ! m = recs (take m rs1)"
    using assms by (simp add: nth_starts length_place take_place)
  ultimately show ?thesis by simp
qed

lemma add_dentries_state:
  assumes st: "dir_state bs n data b rs (Some prev) offset" "rs \<noteq> []"
    and bs: "bs = unat (block_size info)" "264 \<le> bs" "bs < 2 ^ 16"
    and names: "\<forall>d \<in> set ds. length (filename d) < 256"
    and room: "placed_size bs (recs rs) (map (\<lambda>d. length (filename d)) ds) \<le> n" "n < 2 ^ 32"
  shows "\<exists>prev' offset' ds' b'. add_dentries info b data (of_nat n) offset prev ds = Inr (prev', offset', ds', b')
    \<and> dir_state bs n data b' (place bs rs (map (\<lambda>d. (0, file_type d, chars (filename d))) ds)) (Some prev') offset'
    \<and> map dinode ds' = map (\<lambda>k. Some (data, k))
        (drop (length rs) (starts (place bs rs (map (\<lambda>d. (0, file_type d, chars (filename d))) ds))))
    \<and> only_buf data b b'"
  using st names room(1)
proof (induction ds arbitrary: b rs prev offset)
  case Nil
  then show ?case by (auto simp: dir_state_def intro: only_buf_refl)
next
  case (Cons d ds)
  define l where "l = dentry_len (length (filename d))"
  define s where "s = skip bs (recs rs) l"
  define rs1 where "rs1 = grow_last s rs @ [((0, file_type d, chars (filename d)), l)]"
  have r1: "recs rs1 = recs rs + s + l" by (simp add: rs1_def recs_grow_last Cons.prems(2))
  have size: "placed_size bs (recs rs1) (map (\<lambda>d. length (filename d)) ds) \<le> n"
    using Cons.prems(4) by (simp add: Let_def l_def s_def r1)
  then have room1: "recs rs + s + l \<le> n" using placed_size_mono [of "recs rs1" bs] by (simp add: r1) (meson le_trans)
  have "length (filename d) < 256" using Cons.prems(3) by simp
  from add_dentry_state [OF Cons.prems(1) bs this l_def s_def room1 room(2)] obtain b1 where b1:
    "add_dentry info b data offset (Some prev) 0 (filename d) (file_type d)
      = Inr (recs rs + s, of_nat (recs rs + s + l), b1)"
    "dir_state bs n data b1 rs1 (Some (recs rs + s)) (of_nat (recs rs + s + l))" "only_buf data b b1"
    unfolding rs1_def by blast
  have "rs1 \<noteq> []" by (simp add: rs1_def)
  from Cons.IH [OF b1(2) this _ size] Cons.prems(3) obtain prev' offset' ds' b' where rest:
    "add_dentries info b1 data (of_nat n) (of_nat (recs rs + s + l)) (recs rs + s) ds = Inr (prev', offset', ds', b')"
    "dir_state bs n data b' (place bs rs1 (map (\<lambda>d. (0, file_type d, chars (filename d))) ds)) (Some prev') offset'"
    "map dinode ds' = map (\<lambda>k. Some (data, k))
        (drop (length rs1) (starts (place bs rs1 (map (\<lambda>d. (0, file_type d, chars (filename d))) ds))))"
    "only_buf data b1 b'" by auto
  have len: "length rs1 = Suc (length rs)" "recs (take (length rs) rs1) = recs rs + s"
    by (simp_all add: rs1_def recs_grow_last Cons.prems(2))
  have "unat (of_nat (recs rs + s + l) :: u32) = recs rs + s + l" "unat (of_nat n :: u32) = n"
    using room1 room(2) by (simp_all add: unat_of_nat del: of_nat_add)
  then have past: "\<not> (of_nat (recs rs + s + l) > (of_nat n :: u32))" "of_nat (recs rs + s + l) = (of_nat n :: u32) \<longleftrightarrow> recs rs + s + l = n"
    using room1 by (simp_all add: word_less_nat_alt word_unat_eq_iff del: of_nat_add)
  have "recs rs + s + l \<noteq> n \<or> ds = []"
  proof (cases ds)
    case (Cons e es)
    let ?k = "dentry_len (length (filename e))"
    have "0 < ?k" by (simp add: dentry_len_def)
    then have "recs rs1 < recs rs1 + skip bs (recs rs1) ?k + ?k" by simp
    then have "recs rs1 < placed_size bs (recs rs1) (map (\<lambda>d. length (filename d)) ds)"
      using less_le_trans [OF _ placed_size_mono] by (simp only: Cons list.map placed_size.simps Let_def)
    then show ?thesis using size r1 by simp
  qed simp
  with past have "\<not> (of_nat (recs rs + s + l) > (of_nat n :: u32) \<or> of_nat (recs rs + s + l) = (of_nat n :: u32) \<and> ds \<noteq> [])"
    by blast
  then show ?case
    using b1(1) rest drop_starts [OF len(1)] len only_buf_trans [OF b1(3) rest(4)]
    by (simp add: Let_def l_def [symmetric] s_def [symmetric] rs1_def [symmetric] del: of_nat_add)
qed

section \<open>The inode numbers\<close>

fun set_inodes :: "build \<Rightarrow> dentry list \<Rightarrow> u32 list \<Rightarrow> build res" where
  "set_inodes b (d # ds) (i # is) = rbind (set_dentry_inode b d i) (\<lambda>b. set_inodes b ds is)"
| "set_inodes b ds is = Inr b"

fun with_inode :: "dir_record \<Rightarrow> u32 \<Rightarrow> dir_record" where
  "with_inode ((ino, ty, nm), l) i = ((i, ty, nm), l)"

lemma with_inode_simps [simp]: "snd (with_inode r i) = snd r" "record_ok bs off (with_inode r i) = record_ok bs off r"
  by (cases "(r, i)" rule: with_inode.cases, simp add: record_ok_simp)+

lemma set_record_inode:
  assumes "records_ok bs 0 rs" "m < length rs"
  shows "put_at (concat (map record_bytes rs)) (recs (take m rs)) (le32 i)
    = Inr (concat (map record_bytes (rs[m := with_inode (rs ! m) i])))"
proof -
  obtain ino ty nm l where r: "rs ! m = ((ino, ty, nm), l)" by (metis prod.exhaust)
  have e: "rs = take m rs @ ((ino, ty, nm), l) # drop (Suc m) rs" using assms(2) r by (metis id_take_nth_drop)
  have u: "rs[m := with_inode (rs ! m) i] = take m rs @ ((i, ty, nm), l) # drop (Suc m) rs"
    using assms(2) r by (simp add: upd_conv_take_nth_drop)
  have "records_ok bs 0 (take m rs @ ((ino, ty, nm), l) # drop (Suc m) rs)" using assms(1) e by metis
  then have "records_ok bs 0 (take m rs)" by simp
  note len = length_records [OF this]
  have a: "concat (map record_bytes rs) = concat (map record_bytes (take m rs)) @ le32 ino @ (le16 (of_nat l)
      @ [of_nat (length nm), ty] @ nm @ replicate (l - (8 + length nm)) 0 @ concat (map record_bytes (drop (Suc m) rs)))"
    by (subst e) (simp add: record_bytes.simps dentry_bytes_def)
  show ?thesis
    unfolding a u len [symmetric] by (subst put_at_middle) (simp_all add: record_bytes.simps dentry_bytes_def)
qed

lemma records_ok_update: "records_ok bs off rs \<Longrightarrow> records_ok bs off (rs[m := with_inode (rs ! m) i])"
proof (induction rs arbitrary: off m)
  case (Cons r rs)
  then show ?case by (cases m) simp_all
qed simp

lemma recs_update: "recs (take k (rs[m := with_inode (rs ! m) i])) = recs (take k rs)"
proof (induction rs arbitrary: k m)
  case (Cons r rs)
  then show ?case by (cases m; cases k) simp_all
qed simp

lemma set_inodes_state:
  assumes "cells (bufs b) data = Some (concat (map record_bytes rs))" "records_ok bs 0 rs"
    "map dinode ds = map (\<lambda>k. Some (data, k)) (drop m (starts rs))" "length is = length ds" "m + length ds = length rs"
  shows "\<exists>b'. set_inodes b ds is = Inr b'
    \<and> cells (bufs b') data = Some (concat (map record_bytes (take m rs @ map2 with_inode (drop m rs) is)))
    \<and> records_ok bs 0 (take m rs @ map2 with_inode (drop m rs) is)"
  using assms
proof (induction ds arbitrary: b rs m "is")
  case Nil
  then show ?case by simp
next
  case (Cons d ds)
  obtain i "is'" where i: "is = i # is'" using Cons.prems(4) by (cases "is") auto
  have m: "m < length rs" using Cons.prems(5) by simp
  let ?rs = "rs[m := with_inode (rs ! m) i]"
  have "drop m (starts rs) = recs (take m rs) # drop (Suc m) (starts rs)"
    using m Cons_nth_drop_Suc [of m "starts rs"] by (simp add: nth_starts)
  then have d: "dinode d = Some (data, recs (take m rs))"
    "map dinode ds = map (\<lambda>k. Some (data, k)) (drop (Suc m) (starts rs))" using Cons.prems(3) by simp_all
  have "starts ?rs = starts rs" by (simp add: starts_def recs_update)
  from put_buf_state [OF Cons.prems(1) set_record_inode [OF Cons.prems(2) m]] obtain b1 where b1:
    "set_dentry_inode b d i = Inr b1" "cells (bufs b1) data = Some (concat (map record_bytes ?rs))"
    by (auto simp: set_dentry_inode_def d)
  from Cons.IH [OF b1(2) records_ok_update [OF Cons.prems(2)], of "Suc m" "is'"] obtain b2 where b2:
    "set_inodes b1 ds is' = Inr b2"
    "cells (bufs b2) data = Some (concat (map record_bytes (take (Suc m) ?rs @ map2 with_inode (drop (Suc m) ?rs) is')))"
    "records_ok bs 0 (take (Suc m) ?rs @ map2 with_inode (drop (Suc m) ?rs) is')"
    using d(2) Cons.prems(4,5) i \<open>starts ?rs = starts rs\<close> by auto
  have "take (Suc m) ?rs @ map2 with_inode (drop (Suc m) ?rs) is' = take m rs @ map2 with_inode (drop m rs) is"
    using m by (simp add: i take_Suc_conv_app_nth drop_update_cancel flip: Cons_nth_drop_Suc)
  then show ?case using b1(1) b2 by (simp add: i)
qed

section \<open>The directory\<close>

lemma recs_place:
  "rs \<noteq> [] \<Longrightarrow> recs (place bs rs es) = placed_size bs (recs rs) (map (\<lambda>(ino, ty, nm). length nm) es)"
  by (induction bs rs es rule: place.induct) (simp_all add: Let_def recs_grow_last)

lemma dir_buffer_full: "recs rs = n \<Longrightarrow> dir_buffer n rs = concat (map record_bytes rs)"
  by (simp add: dir_buffer_def)

text \<open>Rounding up leaves less than a block, and nothing when the size is a number of blocks.\<close>

lemma round_up_rest:
  fixes bs :: nat
  assumes "0 < bs" "n = bs * ((z + (bs - 1)) div bs)"
  shows "z \<le> n" "n \<noteq> z \<Longrightarrow> z mod bs \<noteq> 0 \<and> z mod bs + (n - z) = bs"
proof -
  define q m where "q = z div bs" and "m = z mod bs"
  have z: "z = bs * q + m" "m < bs" using assms(1) by (simp_all add: q_def m_def)
  have "(z + (bs - 1)) div bs = q + (m + (bs - 1)) div bs"
    using assms(1) unfolding z(1) add.assoc by (simp only: div_mult_self4)
  moreover have "(m + (bs - 1)) div bs = (if m = 0 then 0 else 1)"
    using z(2) assms(1) by (auto intro!: div_nat_eqI)
  ultimately have n: "n = bs * q + (if m = 0 then 0 else bs)" using assms(2) by (simp add: distrib_left)
  then show "z \<le> n" "n \<noteq> z \<Longrightarrow> z mod bs \<noteq> 0 \<and> z mod bs + (n - z) = bs"
    using z by (auto simp: m_def [symmetric] split: if_splits)
qed

lemma fill_directory_state:
  assumes buf: "cells (bufs b) data = Some (replicate n 0)"
    and bs: "bs = unat (block_size info)" "264 \<le> bs" "bs < 2 ^ 16" and names: "\<forall>d \<in> set ds. length (filename d) < 256"
    and z: "z = placed_size bs 24 (map (\<lambda>d. length (filename d)) ds)" "n = bs * ((z + (bs - 1)) div bs)" "n < 2 ^ 32"
  shows "\<exists>ds' b' rs. fill_directory info b data (of_nat n) ino parent ds = Inr (ds', b')
    \<and> cells (bufs b') data = Some (concat (map record_bytes rs)) \<and> records_ok bs 0 rs \<and> recs rs = n
    \<and> map fst rs = (ino, 2, chars ''.'') # (parent, 2, chars ''..'') # map (\<lambda>d. (0, file_type d, chars (filename d))) ds
    \<and> map dinode ds' = map (\<lambda>k. Some (data, k)) (drop 2 (starts rs)) \<and> only_buf data b b'"
proof -
  let ?r1 = "[((ino, 2, chars ''.''), 12)] :: dir_record list"
  let ?r2 = "?r1 @ [((parent, 2, chars ''..''), 12)]"
  have zn: "z \<le> n" "24 \<le> z" using round_up_rest(1) [OF _ z(2)] bs(2) z(1) placed_size_mono by simp_all
  have len: "dentry_len (length ''.'') = 12" "dentry_len (length ''..'') = 12" by (simp_all add: dentry_len_def)
  have no_skip: "skip bs 0 12 = 0" "skip bs 12 12 = 0" using bs(2) by (simp_all add: skip_def)
  have "dir_state bs n data b [] None 0" using buf by (simp add: dir_state_def dir_buffer_def)
  from add_dentry_state [OF this bs, of "''.''" 12 0 ino 2]
  have "\<exists>b1. add_dentry info b data 0 None ino ''.'' 2 = Inr (0, 12, b1)
      \<and> dir_state bs n data b1 ?r1 (Some 0) 12 \<and> only_buf data b b1"
    using zn z(3) len no_skip by simp
  then obtain b1 where b1: "add_dentry info b data 0 None ino ''.'' 2 = Inr (0, 12, b1)"
    "dir_state bs n data b1 ?r1 (Some 0) 12" "only_buf data b b1" by blast
  from add_dentry_state [OF b1(2) bs, of "''..''" 12 0 parent 2]
  have "\<exists>b2. add_dentry info b1 data 12 (Some 0) parent ''..'' 2 = Inr (12, 24, b2)
      \<and> dir_state bs n data b2 ?r2 (Some 12) 24 \<and> only_buf data b1 b2"
    using zn z(3) len no_skip by simp
  then obtain b2 where b2: "add_dentry info b1 data 12 (Some 0) parent ''..'' 2 = Inr (12, 24, b2)"
    "dir_state bs n data b2 ?r2 (Some 12) 24" "only_buf data b1 b2" by blast
  let ?es = "map (\<lambda>d. (0, file_type d, chars (filename d))) ds"
  define rs where "rs = place bs ?r2 ?es"
  from add_dentries_state [OF b2(2) _ bs names] zn(1) z(1,3) obtain prev' offset' ds' b3 where b3:
    "add_dentries info b2 data (of_nat n) 24 12 ds = Inr (prev', offset', ds', b3)"
    "dir_state bs n data b3 rs (Some prev') offset'"
    "map dinode ds' = map (\<lambda>k. Some (data, k)) (drop 2 (starts rs))" "only_buf data b2 b3"
    by (auto simp: rs_def numeral_2_eq_2)
  have rz: "recs rs = z"
    unfolding rs_def z(1) by (subst recs_place) (simp_all add: comp_def)
  have fst_rs: "map fst rs = (ino, 2, chars ''.'') # (parent, 2, chars ''..'') # ?es" by (simp add: rs_def)
  then have ne: "rs \<noteq> []" by auto
  have ok: "records_ok bs 0 rs" and off: "unat offset' = z" using b3(2) rz by (simp_all add: dir_state_def)
  have "unat (of_nat n - offset') = n - z"
    using off zn(1) z(3) by (subst unat_sub) (simp_all add: word_le_nat_alt unat_of_nat)
  moreover have grown: "records_ok bs 0 (grow_last (n - z) rs)"
    using round_up_rest(2) [OF _ z(2)] bs(2) by (intro records_ok_grow [OF ok bs(3)]) (simp add: rz)
  ultimately obtain b4 where b4: "add_rec_len b3 data prev' (of_nat n - offset') = Inr b4"
    "cells (bufs b4) data = Some (dir_buffer n (grow_last (n - z) rs))" "only_buf data b3 b4"
    using add_rec_len_state [OF b3(2) ne] zn(1) rz by fastforce
  have n: "recs (grow_last (n - z) rs) = n" using ne zn(1) rz by (simp add: recs_grow_last)
  have "starts (grow_last (n - z) rs) = starts rs" by (simp add: starts_def take_grow_last)
  then show ?thesis
    using b1(1) b2(1) b3(1,3) b4 grown n fst_rs dir_buffer_full [OF n]
      only_buf_trans [OF only_buf_trans [OF b1(3) b2(3)] only_buf_trans [OF b3(4) b4(3)]]
    by (intro exI [of _ ds'] exI [of _ b4] exI [of _ "grow_last (n - z) rs"]) (simp add: fill_directory_def)
qed

lemma recs_with_inode: "length xs = length is \<Longrightarrow> recs (map2 with_inode xs is) = recs xs"
  by (induction xs "is" rule: list_induct2) simp_all

lemma fst_with_inode:
  "length xs = length is \<Longrightarrow> map fst (map2 with_inode xs is) = map2 (\<lambda>(ino, ty, nm) i. (i, ty, nm)) (map fst xs) is"
proof (induction xs "is" rule: list_induct2)
  case (Cons x xs i "is")
  then show ?case by (cases "(x, i)" rule: with_inode.cases) simp
qed simp

lemma length_le_recs: "records_ok bs off rs \<Longrightarrow> length rs \<le> recs rs"
proof (induction rs arbitrary: off)
  case (Cons r rs)
  have "8 \<le> snd r" using Cons.prems by (cases "(bs, off, r)" rule: record_ok.cases) (simp add: record_ok_simp)
  then show ?case using Cons.IH [of "off + snd r"] Cons.prems by simp
qed simp

text \<open>C2: a directory reads back. The size that \<open>make_directory\<close> computes holds its records; they fill the
  buffer and none crosses a block; once the inode numbers have gone through the pointers that the
  entries were left with, the reader finds \<open>.\<close>, \<open>..\<close> and every entry under its name, type and inode.\<close>

theorem directory_reads_back:
  assumes buf: "cells (bufs b) data = Some (replicate (unat n) 0)"
    and bs: "bs = unat (block_size info)" "264 \<le> bs" "bs < 2 ^ 16"
    and names: "\<forall>d \<in> set ds. length (filename d) < 256" and few: "length ds < 2 ^ 22"
    and size: "dentry_size info ds = Inr sz" "DIV_ROUND_UP sz (block_size info) = Inr blocks" "n = blocks * block_size info"
    and inos: "length inos = length ds"
  shows "\<exists>ds' b1 b2 bytes. fill_directory info b data n ino parent ds = Inr (ds', b1)
    \<and> set_inodes b1 ds' inos = Inr b2 \<and> cells (bufs b2) data = Some bytes \<and> length bytes = unat n
    \<and> read_dir bs 0 (length bytes) bytes = Some ((ino, 2, chars ''.'') # (parent, 2, chars ''..'')
         # map2 (\<lambda>d i. (i, file_type d, chars (filename d))) ds inos)"
proof -
  define z where "z = placed_size bs 24 (map (\<lambda>d. length (filename d)) ds)"
  define q where "q = (z + (bs - 1)) div bs"
  have "z \<le> 24 + 528 * length ds"
    using placed_size_bound [of "map (\<lambda>d. length (filename d)) ds" bs 24] names bs(2) by (simp add: z_def)
  then have z31: "z < 2 ^ 32 - 2 ^ 17" using few by simp
  have "dentry_sizes info ds 24 = Inr (of_nat (placed_size bs (unat (24 :: u32)) (map (\<lambda>d. length (filename d)) ds)))"
    by (rule dentry_sizes_placed [OF bs(1) _ _ names bs(2,3)]) (use z31 bs(2) in \<open>simp_all add: z_def\<close>)
  then have "sz = of_nat z" using size(1) by (simp add: dentry_size_def z_def)
  moreover have "DIV_ROUND_UP (of_nat z) (of_nat bs :: u32) = Inr (of_nat q)"
    by (rule DIV_ROUND_UP_of_nat) (use z31 bs(2,3) in \<open>simp_all add: q_def\<close>)
  then have "DIV_ROUND_UP (of_nat z) (block_size info) = Inr (of_nat q)" by (simp add: bs(1))
  ultimately have "n = of_nat (bs * q)" using size(2,3) bs(1) by (simp add: mult.commute)
  moreover have "bs * q \<le> z + (bs - 1)" unfolding q_def by (rule times_div_less_eq_dividend)
  then have n32: "bs * q < 2 ^ 32" using z31 bs(3) by simp
  ultimately have n: "unat n = bs * q" by (simp add: unat_of_nat del: of_nat_mult)
  have lim: "unat n < 2 ^ 32" using n n32 by simp
  have same: "of_nat (unat n) = n" by simp
  from fill_directory_state [OF buf bs names z_def n [unfolded q_def] lim, of ino parent, unfolded same]
  obtain ds' b1 rs where f: "fill_directory info b data n ino parent ds = Inr (ds', b1)"
    "cells (bufs b1) data = Some (concat (map record_bytes rs))" "records_ok bs 0 rs" "recs rs = unat n"
    "map fst rs = (ino, 2, chars ''.'') # (parent, 2, chars ''..'') # map (\<lambda>d. (0, file_type d, chars (filename d))) ds"
    "map dinode ds' = map (\<lambda>k. Some (data, k)) (drop 2 (starts rs))"
    by (elim exE conjE) (rule that)
  have len: "length rs = length ds + 2" "length ds' = length ds"
    using arg_cong [OF f(5), of length] arg_cong [OF f(6), of length] by simp_all
  let ?rs = "take 2 rs @ map2 with_inode (drop 2 rs) inos"
  from set_inodes_state [OF f(2,3,6), of inos] len inos obtain b2 where b2: "set_inodes b1 ds' inos = Inr b2"
    "cells (bufs b2) data = Some (concat (map record_bytes ?rs))" "records_ok bs 0 ?rs" by auto
  have "recs ?rs = recs (take 2 rs @ drop 2 rs)"
    unfolding recs_simps using len inos by (subst recs_with_inode) simp_all
  then have "recs ?rs = recs rs" by simp
  have "map fst (map2 with_inode (drop 2 rs) inos)
      = map2 (\<lambda>(ino, ty, nm) i. (i, ty, nm)) (map fst (drop 2 rs)) inos"
    by (rule fst_with_inode) (use len inos in simp)
  then have "map fst ?rs = take 2 (map fst rs) @ map2 (\<lambda>(ino, ty, nm) i. (i, ty, nm)) (drop 2 (map fst rs)) inos"
    by (simp only: map_append take_map drop_map)
  then have fst: "map fst ?rs = (ino, 2, chars ''.'') # (parent, 2, chars ''..'')
      # map2 (\<lambda>d i. (i, file_type d, chars (filename d))) ds inos"
    unfolding f(5) by (simp add: zip_map1 comp_def case_prod_unfold cong: map_cong)
  have "length (concat (map record_bytes ?rs)) = unat n"
    using length_records [OF b2(3)] \<open>recs ?rs = recs rs\<close> f(4) by simp
  moreover have "length ?rs \<le> unat n"
    using length_le_recs [OF b2(3)] \<open>recs ?rs = recs rs\<close> f(4) by simp
  ultimately show ?thesis using f(1) b2 fst read_dir_records [OF b2(3), of "unat n"] by auto
qed

definition dir_build :: build where
  "dir_build = demo_build\<lparr>bufs := \<lparr>cells = [0 \<mapsto> replicate 1024 0], brk = 1\<rparr>\<rparr>"

theorem directory_reads_back_witness:
  "\<exists>ds' b1 b2 bytes. fill_directory demo_info dir_build 0 1024 2 2 [lost_found 0 []] = Inr (ds', b1)
    \<and> set_inodes b1 ds' [11] = Inr b2 \<and> cells (bufs b2) 0 = Some bytes \<and> length bytes = 1024
    \<and> read_dir 1024 0 (length bytes) bytes
        = Some [(2, 2, chars ''.''), (2, 2, chars ''..''), (11, 2, chars ''lost+found'')]"
proof -
  have e: "map2 (\<lambda>d i. (i, file_type d, chars (filename d))) [lost_found 0 []] [11] = [(11 :: u32, 2, chars ''lost+found'')]"
    "unat (1024 :: u32) = 1024" by (simp_all add: lost_found_def)
  have buf: "cells (bufs dir_build) 0 = Some (replicate (unat (1024 :: u32)) 0)" by (simp add: dir_build_def)
  have sizes: "1024 = unat (block_size demo_info)" "1024 = 1 * block_size demo_info" by (simp_all add: demo_info_def)
  have names: "\<forall>d \<in> set [lost_found 0 []]. length (filename d) < 256" by (simp add: lost_found_def)
  have size: "dentry_size demo_info [lost_found 0 []] = Inr 44" "DIV_ROUND_UP 44 (block_size demo_info) = Inr 1"
    by code_simp+
  show ?thesis
    using directory_reads_back [OF buf sizes(1) _ _ names _ size sizes(2), of "[11]" 2 2] unfolding e by simp
qed

end
