(* ===== verification/Sparse_Roundtrip.thy ===== *)
theory Sparse_Roundtrip
  imports Sparse_Write Disk_Format
begin

text \<open>
  Writing an image in sparse format and importing it again. The chunks of the file become pieces of
  a queue that read their data from the file; byte by byte the image is the one that was written.
\<close>

section \<open>Appending to a queue\<close>

definition read_queue :: "read_state \<Rightarrow> u32 \<Rightarrow> seg list \<Rightarrow> bool" where
  "read_queue r bs xs \<longleftrightarrow> sf_block_size (rs_file r) = bs \<and> bbl_block_size (sf_list (rs_file r)) = bs
     \<and> sorted_segs xs \<and> (\<exists>as. queue_list (rs_mem r) (sf_list (rs_file r)) as xs \<and> last_used_ok (sf_list (rs_file r)) as)"

text \<open>A piece behind all others that continues none of them.\<close>

lemma add_at_end:
  assumes q: "read_queue r bs xs" "bs \<noteq> 0"
    and new: "\<forall>x \<in> set xs. fst x < block \<and> \<not> can_merge bs x (block, n, k) \<and> \<not> can_merge bs (block, n, k) x"
  shows "\<exists>m bbl. backed_block_add (rs_mem r) (sf_list (rs_file r)) k n block = Inr (0, m, bbl)
    \<and> read_queue (r\<lparr>rs_mem := m, rs_file := (rs_file r)\<lparr>sf_list := bbl\<rparr>\<rparr>) bs (xs @ [(block, n, k)])"
proof -
  let ?m = "rs_mem r" and ?bbl = "sf_list (rs_file r)"
  obtain as where q': "queue_list ?m ?bbl as xs" "last_used_ok ?bbl as" "sorted_segs xs"
    "bbl_block_size ?bbl = bs" "sf_block_size (rs_file r) = bs"
    using q(1) by (auto simp: read_queue_def)
  let ?c = "\<lparr>bb_block = block, bb_len = n, bb_kind = k, bb_next = None\<rparr>"
  let ?m1 = "?m\<lparr>cells := (cells ?m)(brk ?m := Some ?c), brk := Suc (brk ?m)\<rparr>"
  have ok: "mem_ok ?m" and ch: "chain bb_next (cells ?m) (data_blocks ?bbl) as None"
    and xs: "xs = List.map (seg_at ?m) as" using q'(1) by (simp_all add: queue_list_def)
  have fresh: "brk ?m \<notin> set as" using chain_below [OF ok ch] by auto
  have ql: "queue_list ?m1 ?bbl as xs" using ok ch xs fresh by (auto simp: queue_list_def seg_at_def)
  have seg: "seg_of ?c = (block, n, k)" by (simp add: seg_of_def)
  have blk: "bb_block ?c \<notin> fst ` set xs" using new by auto
  obtain m' bbl' as' where r: "queue_bb ?m1 ?bbl (brk ?m) = Inr (0, m', bbl')"
    "bbl_block_size bbl' = bs" "queue_list m' bbl' as' (insert_seg bs (block, n, k) xs)" "last_used_ok bbl' as'"
  proof (rule queue_bb_inserts [OF ql q'(2,3), of "brk ?m" ?c])
    fix m' bbl' as'
    assume a: "queue_bb ?m1 ?bbl (brk ?m) = Inr (0, m', bbl')" "bbl_block_size bbl' = bbl_block_size ?bbl"
      "queue_list m' bbl' as' (insert_seg (bbl_block_size ?bbl) (seg_of ?c) xs)"
      "(\<forall>x \<in> set xs. \<not> can_merge (bbl_block_size ?bbl) x (seg_of ?c)) \<longrightarrow> last_used_ok bbl' as'"
    show thesis by (rule that [OF a(1)]) (use a new q'(4) seg in auto)
  qed (use q(2) q'(4) blk fresh in auto)
  have ins: "insert_seg bs (block, n, k) xs = xs @ [(block, n, k)]"
  proof (rule sorted_segs_unique)
    show "sorted_segs (insert_seg bs (block, n, k) xs)"
      by (rule insert_seg_apart) (use new q'(3) blk seg in auto)
    show "sorted_segs (xs @ [(block, n, k)])"
      using new q'(3) by (simp add: sorted_segs_def sorted_wrt_append)
    show "set (insert_seg bs (block, n, k) xs) = set (xs @ [(block, n, k)])"
      by (subst insert_seg_apart) (use new q'(3) blk seg in auto)
  qed
  have "sorted_segs (xs @ [(block, n, k)])" using new q'(3) by (simp add: sorted_segs_def sorted_wrt_append)
  then show ?thesis using r q'(5) unfolding ins
    by (intro exI [of _ m'] exI [of _ bbl']) (auto simp: backed_block_add_def malloc_cell_def read_queue_def)
qed

section \<open>Chunks\<close>

fun chunk_blocks :: "u32 \<Rightarrow> chunk \<Rightarrow> nat" where
  "chunk_blocks bs (Raw d) = length d div unat bs"
| "chunk_blocks bs (Fill v k) = k"
| "chunk_blocks bs (Skip k) = k"
| "chunk_blocks bs (Crc v) = 0"

fun chunk_content :: "u32 \<Rightarrow> chunk \<Rightarrow> u8 list" where
  "chunk_content bs (Raw d) = d"
| "chunk_content bs (Fill v k) = fill_bytes v (k * unat bs)"
| "chunk_content bs (Skip k) = replicate (k * unat bs) 0"
| "chunk_content bs (Crc v) = []"

text \<open>The chunks of data that a queue is written as; \<open>mmap\<close> bounds the length of raw data.\<close>

fun data_chunk :: "u32 \<Rightarrow> chunk \<Rightarrow> bool" where
  "data_chunk bs (Raw d) \<longleftrightarrow> d \<noteq> [] \<and> unat bs dvd length d \<and> length d < 2147479552 \<and> length d + unat bs < 2 ^ 32"
| "data_chunk bs (Fill v k) \<longleftrightarrow> 0 < k \<and> k * unat bs + unat bs < 2 ^ 32 \<and> 4 dvd unat bs"
| "data_chunk bs (Skip k) \<longleftrightarrow> 0 < k"
| "data_chunk bs (Crc v) \<longleftrightarrow> False"

text \<open>No two fill chunks of one value in a row: the queue would have joined them.\<close>

fun fills_apart :: "u32 option \<Rightarrow> chunk list \<Rightarrow> bool" where
  "fills_apart p [] = True"
| "fills_apart p (Fill v k # cs) \<longleftrightarrow> p \<noteq> Some v \<and> fills_apart (Some v) cs"
| "fills_apart p (c # cs) \<longleftrightarrow> fills_apart None cs"

text \<open>The pieces that the chunks become, from offset \<open>off\<close> of the file and block \<open>blk\<close> of the image on.\<close>

fun read_segs :: "u32 \<Rightarrow> u32 \<Rightarrow> nat \<Rightarrow> nat \<Rightarrow> chunk list \<Rightarrow> seg list" where
  "read_segs bs fdn off blk [] = []"
| "read_segs bs fdn off blk (Raw d # cs) =
     (of_nat blk, of_nat (length d), BACKED_BLOCK_FD fdn (of_nat (off + 12)))
       # read_segs bs fdn (off + 12 + length d) (blk + length d div unat bs) cs"
| "read_segs bs fdn off blk (Fill v k # cs) =
     (of_nat blk, of_nat (k * unat bs), BACKED_BLOCK_FILL v) # read_segs bs fdn (off + 16) (blk + k) cs"
| "read_segs bs fdn off blk (c # cs) = read_segs bs fdn (off + length (encode bs c)) (blk + chunk_blocks bs c) cs"

definition reading :: "read_state \<Rightarrow> u32 \<Rightarrow> seg list \<Rightarrow> nat \<Rightarrow> nat \<Rightarrow> u32 option \<Rightarrow> bool" where
  "reading r bs xs cur off p \<longleftrightarrow> read_queue r bs xs
     \<and> (\<forall>(b, n, k) \<in> set xs. unat bs \<le> unat n \<and> unat b + unat n div unat bs \<le> cur
          \<and> (case k of BACKED_BLOCK_FD f pos \<Rightarrow> unat pos + unat n \<le> off
                     | BACKED_BLOCK_FILL v \<Rightarrow> unat b + unat n div unat bs = cur \<longrightarrow> p = Some v | _ \<Rightarrow> False))"

lemma offset_plus:
  "unat (a :: u64) + unat (l :: u32) < 2 ^ 64 \<Longrightarrow> unat (a + ucast l) = unat a + unat l"
  by (subst unat_add_small) (simp_all add: unsigned_ucast_eq take_bit_eq_mod)

lemma reading_add:
  assumes r: "reading r bs xs cur off p" and bs: "bs \<noteq> 0" and j: "unat n = j * unat bs" "0 < j" "cur + j < 2 ^ 31"
    and k: "case k of BACKED_BLOCK_FD f pos \<Rightarrow> off < unat pos \<and> unat pos + unat n = off' \<and> p' = None
       | BACKED_BLOCK_FILL v \<Rightarrow> p \<noteq> Some v \<and> p' = Some v \<and> off \<le> off' | _ \<Rightarrow> False"
  shows "\<exists>m bbl. backed_block_add (rs_mem r) (sf_list (rs_file r)) k n (of_nat cur) = Inr (0, m, bbl)
    \<and> reading (r\<lparr>rs_mem := m, rs_file := (rs_file r)\<lparr>sf_list := bbl\<rparr>\<rparr>) bs (xs @ [(of_nat cur, n, k)]) (cur + j) off' p'"
proof -
  have pos: "0 < unat bs" using bs by (simp add: unat_gt_0)
  have cur: "unat (of_nat cur :: u32) = cur" using j(3) by (simp add: unat_of_nat)
  have nj: "unat n div unat bs = j" "unat bs \<le> unat n" using j pos by auto
  have apart: "fst x < of_nat cur \<and> \<not> can_merge bs x (of_nat cur, n, k) \<and> \<not> can_merge bs (of_nat cur, n, k) x"
    if x: "x \<in> set xs" for x
  proof -
    obtain b l q where e: "x = (b, l, q)" by (cases x)
    have i: "unat bs \<le> unat l" "unat b + unat l div unat bs \<le> cur"
      "case q of BACKED_BLOCK_FD f pos \<Rightarrow> unat pos + unat l \<le> off
         | BACKED_BLOCK_FILL v \<Rightarrow> unat b + unat l div unat bs = cur \<longrightarrow> p = Some v | _ \<Rightarrow> False"
      using r x e by (auto simp: reading_def)
    have "0 < unat l div unat bs" using i(1) pos by (simp add: div_greater_zero_iff)
    then have lt: "unat b < cur" using i(2) by linarith
    have ends: "unat (b + l div bs) = unat b + unat l div unat bs" "unat (of_nat cur + n div bs) = cur + j"
      using i(2) j(3) cur nj by (simp_all add: unat_div unat_add_small)
    have "of_nat cur + n div bs \<noteq> b" using ends(2) lt by auto
    then have "\<not> can_merge bs (of_nat cur, n, k) (b, l, q)" by (simp add: can_merge_def)
    moreover have "\<not> can_merge bs (b, l, q) (of_nat cur, n, k)"
    proof
      assume m: "can_merge bs (b, l, q) (of_nat cur, n, k)"
      then have at: "unat b + unat l div unat bs = cur" using ends(1) cur by (auto simp: can_merge_def)
      show False
      proof (cases q)
        case (BACKED_BLOCK_FD f o1)
        then obtain o2 where o2: "k = BACKED_BLOCK_FD f o2" "o1 + ucast l = o2" "off < unat o2"
          using m k by (cases k) (auto simp: can_merge_def)
        have "unat o2 < 2 ^ 64" by (rule less_le_trans [OF unsigned_less]) simp
        moreover have "unat o1 + unat l \<le> off" using i(3) BACKED_BLOCK_FD by simp
        moreover from calculation have "unat (o1 + ucast l) = unat o1 + unat l"
          using o2(3) by (intro offset_plus) simp
        ultimately show False using o2(2,3) by simp
      qed (use m i(3) k at in \<open>cases k; auto simp: can_merge_def\<close>)+
    qed
    ultimately show ?thesis using lt cur e by (simp add: word_less_nat_alt)
  qed
  have q: "read_queue r bs xs" using r by (simp add: reading_def)
  obtain m bbl where a: "backed_block_add (rs_mem r) (sf_list (rs_file r)) k n (of_nat cur) = Inr (0, m, bbl)"
    "read_queue (r\<lparr>rs_mem := m, rs_file := (rs_file r)\<lparr>sf_list := bbl\<rparr>\<rparr>) bs (xs @ [(of_nat cur, n, k)])"
    using add_at_end [OF q bs, of "of_nat cur" n k] apart by blast
  have "off \<le> off'" using k by (auto split: bb_kind.splits)
  define good where "good b l q \<longleftrightarrow> unat bs \<le> unat l \<and> unat b + unat l div unat bs \<le> cur + j
     \<and> (case q of BACKED_BLOCK_FD f pos \<Rightarrow> unat pos + unat l \<le> off'
         | BACKED_BLOCK_FILL v \<Rightarrow> unat b + unat l div unat bs = cur + j \<longrightarrow> p' = Some v | _ \<Rightarrow> False)"
    for b l :: u32 and q
  have "good b l q" if "(b, l, q) \<in> set xs" for b l q
  proof -
    have "unat bs \<le> unat l \<and> unat b + unat l div unat bs \<le> cur \<and> (case q of BACKED_BLOCK_FD f pos \<Rightarrow> unat pos + unat l \<le> off
         | BACKED_BLOCK_FILL v \<Rightarrow> unat b + unat l div unat bs = cur \<longrightarrow> p = Some v | _ \<Rightarrow> False)"
      using r that by (auto simp: reading_def)
    then show ?thesis using j(2) \<open>off \<le> off'\<close> by (cases q) (auto simp: good_def)
  qed
  moreover have "good (of_nat cur) n k" using nj cur k by (cases k) (auto simp: good_def)
  ultimately have "\<forall>(b, l, q) \<in> set (xs @ [(of_nat cur, n, k)]). good b l q" by auto
  then have "reading (r\<lparr>rs_mem := m, rs_file := (rs_file r)\<lparr>sf_list := bbl\<rparr>\<rparr>) bs (xs @ [(of_nat cur, n, k)]) (cur + j) off' p'"
    using a(2) unfolding reading_def good_def by (intro conjI)
  then show ?thesis using a(1) by blast
qed

section \<open>Reading the chunks\<close>

lemma header_fields [simp]:
  "get16 (chunk_header t a b) 0 = t" "get32 (chunk_header t a b) 4 = a" "get32 (chunk_header t a b) 8 = b"
proof -
  show "get16 (chunk_header t a b) 0 = t" by (simp add: chunk_header_def)
  have "get32 ((le16 t @ le16 0) @ le32 a @ le32 b) 4 = a" by (subst get32_append) simp_all
  then show "get32 (chunk_header t a b) 4 = a" by (simp add: chunk_header_def)
  have "get32 ((le16 t @ le16 0 @ le32 a) @ le32 b @ []) 8 = b" by (subst get32_append) (simp_all only: get32_le32, simp)
  then show "get32 (chunk_header t a b) 8 = b" by (simp add: chunk_header_def)
qed

lemma read_all_part:
  assumes "fd_bytes fd = pre @ d @ post" "fd_pos fd = length pre"
  shows "read_all fd (length d) = (0, d, fd\<lparr>fd_pos := length pre + length d\<rparr>)"
  using assms by (simp add: read_all_def)

lemma reading_fd [simp]: "reading (r\<lparr>rs_fd := f\<rparr>) bs xs cur off p = reading r bs xs cur off p"
  by (simp add: reading_def read_queue_def)

lemma reading_block: "reading r bs xs cur off p \<Longrightarrow> sf_block_size (rs_file r) = bs"
  by (simp add: reading_def read_queue_def)

text \<open>A gap moves on: no piece ends at the new block.\<close>

lemma reading_gap:
  assumes "reading r bs xs cur off p" "0 < k" "off \<le> off'"
  shows "reading r bs xs (cur + k) off' None"
  using assms by (fastforce simp: reading_def split: bb_kind.splits)

definition file_at :: "read_state \<Rightarrow> nat \<Rightarrow> read_state" where
  "file_at r k = r\<lparr>rs_fd := (rs_fd r)\<lparr>fd_pos := k\<rparr>\<rparr>"

lemma sint_of_nat_small: "j < 2 ^ 31 \<Longrightarrow> sint (of_nat j :: u32) = int j"
  by (simp add: signed_of_nat signed_take_bit_int_eq_self)

lemma process_raw:
  assumes c: "data_chunk bs (Raw d)" and bs: "bs \<noteq> 0" and r: "reading r bs xs cur off p"
    and pos: "fd_pos (rs_fd r) = off + 12" "off + 12 + length d < 2 ^ 63" and cur: "cur + length d div unat bs < 2 ^ 31"
  shows "\<exists>r'. process_chunk r fdn (of_nat (off + 12)) 12
        (chunk_header CHUNK_TYPE_RAW (of_nat (length d div unat bs)) (12 + of_nat (length d))) (of_nat cur) None
      = Inr (int (length d div unat bs), None, r')
    \<and> reading r' bs (xs @ [(of_nat cur, of_nat (length d), BACKED_BLOCK_FD fdn (of_nat (off + 12)))])
        (cur + length d div unat bs) (off + 12 + length d) None
    \<and> rs_fd r' = (rs_fd r)\<lparr>fd_pos := off + 12 + length d\<rparr> \<and> sf_len (rs_file r') = sf_len (rs_file r)"
proof -
  define j where "j = length d div unat bs"
  have d: "length d = j * unat bs" "0 < j" "length d < 2 ^ 32"
  proof -
    show l: "length d = j * unat bs" "length d < 2 ^ 32" using c by (simp_all add: j_def)
    then have "j = 0 \<Longrightarrow> d = []" by simp
    then show "0 < j" using c by (intro gr0I) auto
  qed
  have len: "unat (of_nat (length d) :: u32) = length d" using d(3) by (simp add: unat_of_nat)
  have o: "unat (of_nat (off + 12) :: u64) = off + 12" using pos(2) by (simp add: unat_of_nat del: of_nat_add)
  have n: "of_nat j * bs = (of_nat (length d) :: u32)"
    by (metis d(1) of_nat_mult of_nat_unat ucast_id)
  have div: "of_nat (length d) div bs = (of_nat j :: u32)" "of_nat (length d) mod bs = (0 :: u32)"
  proof -
    have "0 < unat bs" using bs by (simp add: unat_gt_0)
    moreover from this have "j \<le> length d" unfolding d(1) by simp
    then have "unat (of_nat j :: u32) = j" using d(3) by (simp add: unat_of_nat)
    moreover have "unat (of_nat (length d) div bs) = length d div unat bs" "unat (of_nat (length d) mod bs) = length d mod unat bs"
      by (simp_all add: unat_div unat_mod len)
    ultimately show "of_nat (length d) div bs = (of_nat j :: u32)" "of_nat (length d) mod bs = (0 :: u32)"
      using d(1) by (simp_all add: word_unat_eq_iff)
  qed
  have h: "unat (of_nat (length d) :: u32) = j * unat bs" using len d(1) by simp
  have k: "case BACKED_BLOCK_FD fdn (of_nat (off + 12)) of
      BACKED_BLOCK_FD f pos \<Rightarrow> off < unat pos \<and> unat pos + unat (of_nat (length d) :: u32) = off + 12 + length d \<and> (None :: u32 option) = None
    | BACKED_BLOCK_FILL v \<Rightarrow> p \<noteq> Some v \<and> None = Some v \<and> off \<le> off + 12 + length d | _ \<Rightarrow> False"
    using o len by (simp del: of_nat_add)
  have lim: "cur + j < 2 ^ 31" using cur by (simp add: j_def)
  from reading_add [OF r bs h d(2) lim k]
  obtain m bbl where a: "backed_block_add (rs_mem r) (sf_list (rs_file r)) (BACKED_BLOCK_FD fdn (of_nat (off + 12)))
      (of_nat (length d)) (of_nat cur) = Inr (0, m, bbl)"
    "reading (r\<lparr>rs_mem := m, rs_file := (rs_file r)\<lparr>sf_list := bbl\<rparr>\<rparr>) bs
      (xs @ [(of_nat cur, of_nat (length d), BACKED_BLOCK_FD fdn (of_nat (off + 12)))]) (cur + j) (off + 12 + length d) None"
    by (elim exE conjE) (rule that)
  let ?r = "r\<lparr>rs_mem := m, rs_file := (rs_file r)\<lparr>sf_list := bbl\<rparr>\<rparr>"
  let ?r' = "?r\<lparr>rs_fd := (rs_fd r)\<lparr>fd_pos := off + 12 + length d\<rparr>\<rparr>"
  have add: "sparse_file_add_fd r fdn (of_nat (off + 12)) (of_nat (length d)) (of_nat cur) = Inr (0, ?r)"
    using a(1) by (simp add: sparse_file_add_fd_def backed_block_add_fd_def)
  have raw: "process_raw_chunk r (of_nat (length d)) fdn (of_nat (off + 12)) (of_nat j) (of_nat cur) None = Inr (0, None, ?r')"
    unfolding process_raw_chunk_def Let_def reading_block [OF r] n umod_def udiv_def if_not_P [OF bs] rbind_Inr div add
    using pos(1) by (simp add: len lseek_cur_def)
  have "process_chunk r fdn (of_nat (off + 12)) 12 (chunk_header CHUNK_TYPE_RAW (of_nat j) (12 + of_nat (length d))) (of_nat cur) None
      = Inr (int j, None, ?r')"
    using raw lim by (simp add: process_chunk_def Let_def sint_of_nat_small del: of_nat_add)
  then show ?thesis using a(2) unfolding j_def [symmetric]
    by (intro exI [of _ ?r']) (simp del: of_nat_add)
qed

lemma process_fill:
  assumes c: "data_chunk bs (Fill v k)" and bs: "bs \<noteq> 0" and r: "reading r bs xs cur off p" and v: "p \<noteq> Some v"
    and pos: "fd_bytes (rs_fd r) = pre @ le32 v @ post" "fd_pos (rs_fd r) = length pre" "length pre = off + 12"
    and cur: "cur + k < 2 ^ 31"
  shows "\<exists>r'. process_chunk r fdn start 12 (chunk_header CHUNK_TYPE_FILL (of_nat k) 16) (of_nat cur) None
      = Inr (int k, None, r')
    \<and> reading r' bs (xs @ [(of_nat cur, of_nat (k * unat bs), BACKED_BLOCK_FILL v)]) (cur + k) (off + 16) (Some v)
    \<and> rs_fd r' = (rs_fd r)\<lparr>fd_pos := off + 16\<rparr> \<and> sf_len (rs_file r') = sf_len (rs_file r)"
proof -
  let ?fd = "(rs_fd r)\<lparr>fd_pos := off + 16\<rparr>"
  let ?r0 = "r\<lparr>rs_fd := ?fd\<rparr>"
  have ok: "0 < k" "unat (of_nat (k * unat bs) :: u32) = k * unat bs"
    using c by (simp_all add: unat_of_nat del: of_nat_mult)
  have n: "of_nat k * bs = (of_nat (k * unat bs) :: u32)" by simp
  have r0: "reading ?r0 bs xs cur off p" using r by simp
  have kind: "case BACKED_BLOCK_FILL v of
      BACKED_BLOCK_FD f pos \<Rightarrow> off < unat pos \<and> unat pos + unat (of_nat (k * unat bs) :: u32) = off + 16 \<and> Some v = None
    | BACKED_BLOCK_FILL w \<Rightarrow> p \<noteq> Some w \<and> Some v = Some w \<and> off \<le> off + 16 | _ \<Rightarrow> False"
    using v by simp
  from reading_add [OF r0 bs ok(2,1) cur kind]
  obtain m bbl where a: "backed_block_add (rs_mem ?r0) (sf_list (rs_file ?r0)) (BACKED_BLOCK_FILL v)
      (of_nat (k * unat bs)) (of_nat cur) = Inr (0, m, bbl)"
    "reading (?r0\<lparr>rs_mem := m, rs_file := (rs_file ?r0)\<lparr>sf_list := bbl\<rparr>\<rparr>) bs
      (xs @ [(of_nat cur, of_nat (k * unat bs), BACKED_BLOCK_FILL v)]) (cur + k) (off + 16) (Some v)"
    by (elim exE conjE) (rule that)
  let ?r' = "?r0\<lparr>rs_mem := m, rs_file := (rs_file r)\<lparr>sf_list := bbl\<rparr>\<rparr>"
  have add: "sparse_file_add_fill ?r0 v (of_nat (k * unat bs)) (of_nat cur) = Inr (0, ?r')"
    using a(1) by (simp add: sparse_file_add_fill_def backed_block_add_fill_def)
  have four: "read_all (rs_fd r) 4 = (0, le32 v, ?fd)"
    using read_all_part [OF pos(1,2)] pos(3) by (simp add: add.commute)
  have get: "get32 (le32 v) 0 = v" using get32_le32 [of v "[]"] by simp
  have "process_fill_chunk r 4 (of_nat k) (of_nat cur) None = Inr (0, None, ?r')"
    unfolding process_fill_chunk_def Let_def reading_block [OF r] n four prod.case
    using add by (simp add: get del: of_nat_mult)
  then have "process_chunk r fdn start 12 (chunk_header CHUNK_TYPE_FILL (of_nat k) 16) (of_nat cur) None
      = Inr (int k, None, ?r')"
    using cur by (simp add: process_chunk_def Let_def sint_of_nat_small)
  then show ?thesis using a(2) by (intro exI [of _ ?r']) simp
qed

lemma process_skip:
  "k < 2 ^ 31 \<Longrightarrow> process_chunk r fdn start 12 (chunk_header CHUNK_TYPE_DONT_CARE (of_nat k) 12) b None = Inr (int k, None, r)"
  by (simp add: process_chunk_def process_skip_chunk_def Let_def sint_of_nat_small)

fun fill_value :: "chunk \<Rightarrow> u32 option" where
  "fill_value (Fill v k) = Some v"
| "fill_value c = None"

lemma fills_apart_Cons: "fills_apart p (c # cs) \<longleftrightarrow> (fill_value c = None \<or> fill_value c \<noteq> p) \<and> fills_apart (fill_value c) cs"
  by (cases c) auto

lemma read_segs_Cons: "read_segs bs fdn off blk (c # cs) =
    read_segs bs fdn off blk [c] @ read_segs bs fdn (off + length (encode bs c)) (blk + chunk_blocks bs c) cs"
  by (cases c) (simp_all add: encode_def add.assoc)

text \<open>One round of the loop over the chunks.\<close>

lemma chunk_step:
  assumes c: "data_chunk bs c" and bs: "bs \<noteq> 0" and r: "reading r bs xs cur off p"
    and p: "fill_value c = None \<or> fill_value c \<noteq> p"
    and fd: "fd_bytes (rs_fd r) = pre @ encode bs c @ post" "fd_pos (rs_fd r) = length pre" "length pre = off"
    and lim: "off + length (encode bs c) < 2 ^ 63" "cur + chunk_blocks bs c < 2 ^ 31"
  shows "\<exists>r'. chunk_loop (Suc n) r fdn 12 (of_nat cur) None
      = chunk_loop n r' fdn 12 (of_nat (cur + chunk_blocks bs c)) None
    \<and> reading r' bs (xs @ read_segs bs fdn off cur [c]) (cur + chunk_blocks bs c) (off + length (encode bs c)) (fill_value c)
    \<and> rs_fd r' = (rs_fd r)\<lparr>fd_pos := off + length (encode bs c)\<rparr> \<and> sf_len (rs_file r') = sf_len (rs_file r)"
proof -
  define h d where "h = take 12 (encode bs c)" and "d = drop 12 (encode bs c)"
  have enc: "encode bs c = h @ d" and h: "length h = 12"
    by (simp_all add: h_def d_def) (cases c, simp_all add: encode_def)
  let ?r = "r\<lparr>rs_fd := (rs_fd r)\<lparr>fd_pos := off + 12\<rparr>\<rparr>"
  have hdr: "read_all (rs_fd r) 12 = (0, h, (rs_fd r)\<lparr>fd_pos := off + 12\<rparr>)"
    using read_all_part [of "rs_fd r" pre h "d @ post"] fd enc h by simp
  have step: "chunk_loop (Suc n) r fdn 12 (of_nat cur) None
      = chunk_loop n r' fdn 12 (of_nat (cur + chunk_blocks bs c)) None"
    if "process_chunk ?r fdn (of_nat (off + 12)) 12 h (of_nat cur) None = Inr (int (chunk_blocks bs c), None, r')" for r'
    using that hdr by (simp add: Let_def)
  have r': "reading ?r bs xs cur off p" using r by simp
  show ?thesis
  proof (cases c)
    case (Raw data)
    have hd: "h = chunk_header CHUNK_TYPE_RAW (of_nat (length data div unat bs)) (12 + of_nat (length data))"
      by (simp add: h_def Raw encode_def)
    have l: "length (encode bs c) = 12 + length data" by (simp add: Raw encode_def)
    from process_raw [OF c [unfolded Raw] bs r'] lim l obtain r1 where
      "process_chunk ?r fdn (of_nat (off + 12)) 12 h (of_nat cur) None = Inr (int (chunk_blocks bs c), None, r1)"
      "reading r1 bs (xs @ [(of_nat cur, of_nat (length data), BACKED_BLOCK_FD fdn (of_nat (off + 12)))])
        (cur + length data div unat bs) (off + 12 + length data) None"
      "rs_fd r1 = (rs_fd r)\<lparr>fd_pos := off + 12 + length data\<rparr>" "sf_len (rs_file r1) = sf_len (rs_file r)"
      unfolding hd by (auto simp: Raw simp del: of_nat_add)
    then show ?thesis using step l by (intro exI [of _ r1]) (simp add: Raw add.assoc)
  next
    case (Fill v k)
    have hd: "h = chunk_header CHUNK_TYPE_FILL (of_nat k) 16" "d = le32 v"
      by (simp_all add: h_def d_def Fill encode_def)
    have l: "length (encode bs c) = 16" by (simp add: Fill encode_def)
    have data: "fd_bytes (rs_fd ?r) = (pre @ h) @ le32 v @ post" "fd_pos (rs_fd ?r) = length (pre @ h)" "length (pre @ h) = off + 12"
      using fd enc h hd(2) by simp_all
    have v: "p \<noteq> Some v" using p Fill by auto
    from process_fill [OF c [unfolded Fill] bs r' v data, where start = "of_nat (off + 12)" and fdn = fdn] lim(2) obtain r1 where
      "process_chunk ?r fdn (of_nat (off + 12)) 12 h (of_nat cur) None = Inr (int (chunk_blocks bs c), None, r1)"
      "reading r1 bs (xs @ [(of_nat cur, of_nat (k * unat bs), BACKED_BLOCK_FILL v)]) (cur + k) (off + 16) (Some v)"
      "rs_fd r1 = (rs_fd r)\<lparr>fd_pos := off + 16\<rparr>" "sf_len (rs_file r1) = sf_len (rs_file r)"
      unfolding hd by (auto simp: Fill simp del: of_nat_add of_nat_mult)
    then show ?thesis using step l by (intro exI [of _ r1]) (simp add: Fill del: of_nat_mult)
  next
    case (Skip k)
    have hd: "h = chunk_header CHUNK_TYPE_DONT_CARE (of_nat k) 12" by (simp add: h_def Skip encode_def)
    have l: "length (encode bs c) = 12" by (simp add: Skip encode_def)
    have "reading ?r bs xs (cur + k) (off + 12) None" 
      using reading_gap [OF r' _ le_add1, of k 12] c by (simp add: Skip)
    then show ?thesis using step [of ?r] process_skip [of k ?r fdn "of_nat (off + 12)" "of_nat cur"] lim(2) l
      by (intro exI [of _ ?r]) (simp add: Skip hd del: of_nat_add)
  qed (use c in simp)
qed

definition all_blocks :: "u32 \<Rightarrow> chunk list \<Rightarrow> nat" where
  "all_blocks bs cs = sum_list (map (chunk_blocks bs) cs)"

lemma chunk_loop_reads:
  assumes "\<forall>c \<in> set cs. data_chunk bs c" "bs \<noteq> 0" "reading r bs xs cur off p" "fills_apart p cs"
    and "fd_bytes (rs_fd r) = pre @ concat (map (encode bs) cs)" "fd_pos (rs_fd r) = length pre" "length pre = off"
    and "off + length (concat (map (encode bs) cs)) < 2 ^ 63" "cur + all_blocks bs cs < 2 ^ 31"
  shows "\<exists>r' off' q. chunk_loop (length cs) r fdn 12 (of_nat cur) None = Inr (0, of_nat (cur + all_blocks bs cs), r')
    \<and> reading r' bs (xs @ read_segs bs fdn off cur cs) (cur + all_blocks bs cs) off' q
    \<and> fd_bytes (rs_fd r') = fd_bytes (rs_fd r) \<and> sf_len (rs_file r') = sf_len (rs_file r)"
  using assms
proof (induction cs arbitrary: r xs cur off p pre)
  case Nil
  then show ?case by (auto simp: all_blocks_def)
next
  case (Cons c cs)
  have b: "all_blocks bs (c # cs) = chunk_blocks bs c + all_blocks bs cs" by (simp add: all_blocks_def)
  from chunk_step [OF _ Cons.prems(2,3), of c pre "concat (map (encode bs) cs)" "length cs"] Cons.prems
  obtain r1 where r1: "chunk_loop (Suc (length cs)) r fdn 12 (of_nat cur) None
      = chunk_loop (length cs) r1 fdn 12 (of_nat (cur + chunk_blocks bs c)) None"
    "reading r1 bs (xs @ read_segs bs fdn off cur [c]) (cur + chunk_blocks bs c) (off + length (encode bs c)) (fill_value c)"
    "rs_fd r1 = (rs_fd r)\<lparr>fd_pos := off + length (encode bs c)\<rparr>" "sf_len (rs_file r1) = sf_len (rs_file r)"
    by (auto simp: fills_apart_Cons b simp del: of_nat_add chunk_loop.simps)
  from Cons.IH [OF _ Cons.prems(2) r1(2), of "pre @ encode bs c"] Cons.prems r1(3)
  obtain r2 off' q where
    "chunk_loop (length cs) r1 fdn 12 (of_nat (cur + chunk_blocks bs c)) None
      = Inr (0, of_nat (cur + chunk_blocks bs c + all_blocks bs cs), r2)"
    "reading r2 bs ((xs @ read_segs bs fdn off cur [c]) @ read_segs bs fdn (off + length (encode bs c)) (cur + chunk_blocks bs c) cs)
      (cur + chunk_blocks bs c + all_blocks bs cs) off' q"
    "fd_bytes (rs_fd r2) = fd_bytes (rs_fd r1)" "sf_len (rs_file r2) = sf_len (rs_file r1)"
    by (auto simp: fills_apart_Cons b simp del: of_nat_add)
  then show ?case using r1(1,3,4) read_segs_Cons [of bs fdn off cur c cs]
    by (intro exI [of _ r2] exI [of _ off'] exI [of _ q]) (simp add: b add.assoc del: of_nat_add chunk_loop.simps)
qed

section \<open>Importing the file\<close>

lemma image_header:
  "length (sparse_image bs N cs) = 28 + length (concat (map (encode bs) cs))"
  "get32 (take 28 (sparse_image bs N cs)) 0 = SPARSE_HEADER_MAGIC" "get16 (take 28 (sparse_image bs N cs)) 4 = 1"
  "get16 (take 28 (sparse_image bs N cs)) 8 = 28" "get16 (take 28 (sparse_image bs N cs)) 10 = 12"
  "get32 (take 28 (sparse_image bs N cs)) 12 = bs" "get32 (take 28 (sparse_image bs N cs)) 16 = of_nat (N div unat bs)"
  "get32 (take 28 (sparse_image bs N cs)) 20 = of_nat (length cs)"
  "drop 28 (sparse_image bs N cs) = concat (map (encode bs) cs)"
proof -
  let ?m = "le32 SPARSE_HEADER_MAGIC @ le16 1 @ le16 0 @ le16 28 @ le16 12 @ le32 bs @ le32 (of_nat (N div unat bs)) @ le32 (of_nat (length cs)) @ le32 0"
  have t: "take 28 (sparse_image bs N cs) = ?m" by (simp add: sparse_image_def)
  show "length (sparse_image bs N cs) = 28 + length (concat (map (encode bs) cs))"
    "drop 28 (sparse_image bs N cs) = concat (map (encode bs) cs)" by (simp_all add: sparse_image_def)
  have at32: "get32 (xs @ le32 w @ ys) k = w" if "length xs = k" for xs ys w k
    using that by (simp add: get32_append)
  have at16: "get16 (xs @ le16 w @ ys) k = w" if "length xs = k" for xs ys w k
    using that by (simp add: get16_def le16_def nth_append) (rule bit_word_eqI, auto simp: bit_simps)
  show "get32 (take 28 (sparse_image bs N cs)) 0 = SPARSE_HEADER_MAGIC" unfolding t by simp
  show "get16 (take 28 (sparse_image bs N cs)) 4 = 1"
    unfolding t using at16 [of "le32 SPARSE_HEADER_MAGIC" 4 1] by simp
  show "get16 (take 28 (sparse_image bs N cs)) 8 = 28"
    unfolding t using at16 [of "le32 SPARSE_HEADER_MAGIC @ le16 1 @ le16 0" 8 28] by simp
  show "get16 (take 28 (sparse_image bs N cs)) 10 = 12"
    unfolding t using at16 [of "le32 SPARSE_HEADER_MAGIC @ le16 1 @ le16 0 @ le16 28" 10 12] by simp
  show "get32 (take 28 (sparse_image bs N cs)) 12 = bs"
    unfolding t using at32 [of "le32 SPARSE_HEADER_MAGIC @ le16 1 @ le16 0 @ le16 28 @ le16 12" 12 bs] by simp
  show "get32 (take 28 (sparse_image bs N cs)) 16 = of_nat (N div unat bs)"
    unfolding t using at32 [of "le32 SPARSE_HEADER_MAGIC @ le16 1 @ le16 0 @ le16 28 @ le16 12 @ le32 bs" 16] by simp
  show "get32 (take 28 (sparse_image bs N cs)) 20 = of_nat (length cs)"
    unfolding t using at32 [of "le32 SPARSE_HEADER_MAGIC @ le16 1 @ le16 0 @ le16 28 @ le16 12 @ le32 bs @ le32 (of_nat (N div unat bs))" 20] by simp
qed

definition readable :: "u32 \<Rightarrow> nat \<Rightarrow> chunk list \<Rightarrow> bool" where
  "readable bs N cs \<longleftrightarrow> bs \<noteq> 0 \<and> (\<forall>c \<in> set cs. data_chunk bs c) \<and> fills_apart None cs
     \<and> length cs < 2 ^ 32 \<and> all_blocks bs cs < 2 ^ 31 \<and> length (sparse_image bs N cs) < 2 ^ 63"

lemma import_reads:
  assumes ok: "readable bs N cs" "N = all_blocks bs cs * unat bs" and fd: "fd_bytes (rs_fd r) = sparse_image bs N cs" "fd_pos (rs_fd r) = 0"
    and mem: "mem_ok (rs_mem r)"
  shows "\<exists>r'. sparse_file_import r fdn False = Inr (True, r')
    \<and> read_queue r' bs (read_segs bs fdn 28 0 cs) \<and> sf_len (rs_file r') = int N"
proof -
  let ?img = "sparse_image bs N cs" and ?n = "all_blocks bs cs"
  have h: "bs \<noteq> 0" "\<forall>c \<in> set cs. data_chunk bs c" "fills_apart None cs" "length cs < 2 ^ 32" "?n < 2 ^ 31"
    "N = ?n * unat bs" "length ?img < 2 ^ 63" by (insert ok [unfolded readable_def], (elim conjE, assumption)+)
  have pos: "0 < unat bs" using h(1) by (simp add: unat_gt_0)
  have blocks: "N div unat bs = ?n" using pos h(6) by simp
  have len: "uint (of_nat ?n :: u32) * uint bs = int N"
  proof -
    have "unat (of_nat ?n :: u32) = ?n" using h(5) by (simp add: unat_of_nat)
    then have "uint (of_nat ?n :: u32) = int ?n" by (metis uint_nat)
    then show ?thesis using h(6) uint_nat [of bs] by simp
  qed
  have "?n * unat bs < 2 ^ 31 * 2 ^ 32"
    using h(5) pos by (intro mult_strict_mono) (use unat_less_32 [of bs] in simp_all)
  then have "N < 2 ^ 63" unfolding h(6) by simp
  then have small: "int N < 2 ^ 63" by simp
  let ?s = "sparse_file_new bs (int N)"
  let ?r1 = "r\<lparr>rs_file := ?s, rs_fd := (rs_fd r)\<lparr>fd_pos := 28\<rparr>\<rparr>"
  have hdr: "read_all f 28 = (0, take 28 ?img, f\<lparr>fd_pos := 28\<rparr>)" if "fd_bytes f = ?img" "fd_pos f = 0" for f
    using that image_header(1) [of bs N cs] by (simp add: read_all_def)
  have "reading ?r1 bs [] 0 28 None"
    using mem h(1) by (auto simp: reading_def read_queue_def sparse_file_new_def backed_block_list_new_def
      queue_list_def sorted_segs_def last_used_ok_def intro: exI [of _ "[]"])
  moreover have "fd_bytes (rs_fd ?r1) = take 28 ?img @ concat (map (encode bs) cs)"
    using fd image_header(9) [of bs N cs] append_take_drop_id [of 28 ?img] by simp
  moreover have "length (take 28 ?img) = 28" "28 + length (concat (map (encode bs) cs)) < 2 ^ 63"
    using image_header(1) [of bs N cs] h(7) by simp_all
  ultimately obtain r2 off' q where r2: "chunk_loop (length cs) ?r1 fdn 12 0 None = Inr (0, of_nat ?n, r2)"
    "reading r2 bs (read_segs bs fdn 28 0 cs) ?n off' q" "sf_len (rs_file r2) = int N"
    using chunk_loop_reads [OF h(2,1) _ h(3), of ?r1 "[]" 0 28 "take 28 ?img" fdn] h(5)
    by (auto simp: sparse_file_new_def)
  have count: "unat (of_nat (length cs) :: u32) = length cs" using h(4) by (simp add: unat_of_nat)
  let ?r0 = "r\<lparr>rs_file := ?s, rs_fd := (rs_fd r)\<lparr>fd_pos := 0\<rparr>\<rparr>"
  have read: "sparse_file_read_sparse ?r0 fdn False = Inr (0, r2)"
    using r2(1) hdr [of "rs_fd ?r0"] fd
    by (simp add: sparse_file_read_sparse_def image_header count blocks Let_def)
  have "sparse_file_import r fdn False = Inr (True, r2)"
    using read hdr [OF fd] small
    by (simp add: sparse_file_import_def sparse_file_read_def image_header blocks len Let_def)
  then show ?thesis using r2 by (auto simp: reading_def)
qed

section \<open>The bytes of a queue\<close>

text \<open>An ordered queue from its first piece on: zeros up to the piece, the piece padded to whole
  blocks, the rest.\<close>

lemma image_byte_Cons:
  assumes p: "placed bs (unat b + blocks_of bs n) xs N" and d: "piece_bytes e (b, n, k) = Some d" and bs: "bs \<noteq> 0"
  shows "image_byte e bs ((b, n, k) # xs) i =
    (if i < unat b * unat bs then 0
     else if i < (unat b + blocks_of bs n) * unat bs
       then (d @ replicate (blocks_of bs n * unat bs - unat n) 0) ! (i - unat b * unat bs)
     else image_byte e bs xs i)"
proof -
  have len: "length d = unat n" by (rule length_piece_bytes [OF d])
  have pos: "0 < unat bs" using bs by (simp add: unat_gt_0)
  have up: "unat n \<le> blocks_of bs n * unat bs" using div_round_up_le [OF pos, of "unat n"] by simp
  have before: "i < (unat b + blocks_of bs n) * unat bs \<Longrightarrow>
      List.find (\<lambda>(b, n, k). unat b * unat bs \<le> i \<and> i < unat b * unat bs + unat n) xs = None"
    by (rule placed_before [OF p])
  show ?thesis using before d len up
    by (auto simp: image_byte_def nth_append add_mult_distrib)
qed

lemma image_gap:
  assumes "placed bs (lst + j) xs N" "(lst + j) * unat bs \<le> M"
  shows "List.map (image_byte e bs xs) [lst * unat bs..<M]
    = replicate (j * unat bs) 0 @ List.map (image_byte e bs xs) [(lst + j) * unat bs..<M]"
proof -
  have "image_byte e bs xs i = 0" if "i < (lst + j) * unat bs" for i
    using placed_before [OF assms(1) that] by (simp add: image_byte_def)
  then have "List.map (image_byte e bs xs) [lst * unat bs..<(lst + j) * unat bs] = replicate (j * unat bs) 0"
    by (intro nth_equalityI) (simp_all add: add_mult_distrib)
  moreover have "[lst * unat bs..<M] = [lst * unat bs..<(lst + j) * unat bs] @ [(lst + j) * unat bs..<M]"
    using upt_add_eq_append [of "lst * unat bs" "(lst + j) * unat bs" "M - (lst + j) * unat bs"] assms(2)
    by (simp add: add_mult_distrib)
  ultimately show ?thesis by simp
qed

lemma image_piece:
  assumes p: "placed bs (unat b + blocks_of bs n) xs N" "(unat b + blocks_of bs n) * unat bs \<le> M"
    and d: "piece_bytes e (b, n, k) = Some d" and bs: "bs \<noteq> 0"
  shows "List.map (image_byte e bs ((b, n, k) # xs)) [unat b * unat bs..<M]
    = (d @ replicate (blocks_of bs n * unat bs - unat n) 0)
      @ List.map (image_byte e bs xs) [(unat b + blocks_of bs n) * unat bs..<M]"
proof -
  let ?e = "(unat b + blocks_of bs n) * unat bs"
  have len: "length d = unat n" by (rule length_piece_bytes [OF d])
  have pos: "0 < unat bs" using bs by (simp add: unat_gt_0)
  have up: "unat n \<le> blocks_of bs n * unat bs" using div_round_up_le [OF pos, of "unat n"] by simp
  note c = image_byte_Cons [OF p(1) d bs]
  have "[unat b * unat bs..<M] = [unat b * unat bs..<?e] @ [?e..<M]"
    using upt_add_eq_append [of "unat b * unat bs" ?e "M - ?e"] p(2) by (simp add: add_mult_distrib)
  moreover have "List.map (image_byte e bs ((b, n, k) # xs)) [unat b * unat bs..<?e]
      = d @ replicate (blocks_of bs n * unat bs - unat n) 0"
    using len up by (intro nth_equalityI) (simp_all add: c add_mult_distrib)
  moreover have "List.map (image_byte e bs ((b, n, k) # xs)) [?e..<M] = List.map (image_byte e bs xs) [?e..<M]"
    by (intro map_cong) (auto simp: c add_mult_distrib)
  ultimately show ?thesis by simp
qed

lemma whole_blocks: "0 < b \<Longrightarrow> b dvd n \<Longrightarrow> (n + b - 1) div b * b = (n :: nat)"
  using div_round_up_exact [of b] by (auto elim!: dvdE simp: mult.commute)

text \<open>The chunks that a queue is written as carry its bytes.\<close>

lemma piece_content:
  assumes "writable e bs (b, n, k)" "bs \<noteq> 0"
  shows "chunk_content bs (piece_chunk e bs (b, n, k))
    = the (piece_bytes e (b, n, k)) @ replicate (blocks_of bs n * unat bs - unat n) 0"
proof -
  have "0 < unat bs" using assms(2) by (simp add: unat_gt_0)
  then show ?thesis using assms(1) whole_blocks [of "unat bs" "unat n"]
    by (cases k) (auto simp: piece_chunk_def writable_def piece_bytes_def fill_bytes_def)
qed

lemma chunks_of_content:
  assumes "placed bs lst xs N" "bs \<noteq> 0" "\<forall>s \<in> set xs. writable e bs s" "lst < 2 ^ 32"
  shows "concat (List.map (chunk_content bs) (chunks_of e bs (of_nat lst) xs))
      = List.map (image_byte e bs xs) [lst * unat bs..<unat (end_block bs (of_nat lst) xs) * unat bs]
    \<and> lst \<le> unat (end_block bs (of_nat lst) xs) \<and> unat (end_block bs (of_nat lst) xs) * unat bs \<le> N
    \<and> placed bs lst xs (unat (end_block bs (of_nat lst) xs) * unat bs)"
  using assms
proof (induction bs lst xs N rule: placed.induct)
  case (1 bs lst N)
  then show ?case by (simp add: unat_of_nat)
next
  case (2 bs lst b n k xs N)
  let ?stop = "unat (end_block bs (b + of_nat (blocks_of bs n)) xs)"
  have lst: "unat (of_nat lst :: u32) = lst" using 2(5) by (simp add: unat_of_nat)
  obtain d where d: "piece_bytes e (b, n, k) = Some d" using 2(4) by (auto simp: writable_def)
  have nxt: "of_nat (unat b + blocks_of bs n) = b + of_nat (blocks_of bs n)" by simp
  have ih: "concat (List.map (chunk_content bs) (chunks_of e bs (b + of_nat (blocks_of bs n)) xs))
      = List.map (image_byte e bs xs) [(unat b + blocks_of bs n) * unat bs..<?stop * unat bs]"
    "unat b + blocks_of bs n \<le> ?stop" "?stop * unat bs \<le> N" "placed bs (unat b + blocks_of bs n) xs (?stop * unat bs)"
    using 2 by (simp_all add: nxt)
  have le: "(unat b + blocks_of bs n) * unat bs \<le> ?stop * unat bs" using ih(2) by simp
  have gap: "concat (List.map (chunk_content bs) (if b > of_nat lst then [Skip (unat b - unat (of_nat lst :: u32))] else []))
      = replicate ((unat b - lst) * unat bs) 0"
    using 2(2) by (simp add: word_less_nat_alt lst)
  have p: "placed bs (lst + (unat b - lst)) ((b, n, k) # xs) (?stop * unat bs)" using 2(2) ih(4) by simp
  have b: "lst + (unat b - lst) = unat b" using 2(2) by simp
  have "unat b * unat bs \<le> ?stop * unat bs" using ih(2) by simp
  then have "List.map (image_byte e bs ((b, n, k) # xs)) [lst * unat bs..<?stop * unat bs]
    = replicate ((unat b - lst) * unat bs) 0 @ (d @ replicate (blocks_of bs n * unat bs - unat n) 0)
      @ List.map (image_byte e bs xs) [(unat b + blocks_of bs n) * unat bs..<?stop * unat bs]"
    using image_gap [OF p, of "?stop * unat bs" e] image_piece [OF ih(4) le d 2(3)] unfolding b by simp
  moreover have "chunk_content bs (piece_chunk e bs (b, n, k)) = d @ replicate (blocks_of bs n * unat bs - unat n) 0"
    using piece_content [of e bs b n k] 2(3,4) d by simp
  ultimately show ?case using gap ih 2(2) by simp
qed

lemma image_chunks_content:
  assumes "placed bs 0 xs N" "bs \<noteq> 0" "\<forall>s \<in> set xs. writable e bs s" "unat bs dvd N"
  shows "concat (List.map (chunk_content bs) (image_chunks e bs xs N)) = List.map (image_byte e bs xs) [0..<N]"
proof -
  let ?stop = "unat (end_block bs 0 xs)"
  have c: "concat (List.map (chunk_content bs) (chunks_of e bs 0 xs)) = List.map (image_byte e bs xs) [0..<?stop * unat bs]"
    "?stop * unat bs \<le> N" "placed bs 0 xs (?stop * unat bs)"
    using chunks_of_content [OF assms(1-3)] by simp_all
  obtain K where K: "N = K * unat bs" using assms(4) by (metis dvd_def mult.commute)
  have pos: "0 < unat bs" using assms(2) by (simp add: unat_gt_0)
  have le: "?stop \<le> K" using c(2) pos unfolding K by simp
  have zero: "image_byte e bs xs i = 0" if "?stop * unat bs \<le> i" for i
  proof -
    have "List.find (\<lambda>(b, n, k). unat b * unat bs \<le> i \<and> i < unat b * unat bs + unat n) xs = None"
      if "placed bs l xs M" "M \<le> i" for l M
      using that assms(2)
    proof (induction bs l xs M rule: placed.induct)
      case (2 bs lst b n k xs N)
      have "(unat b + blocks_of bs n) * unat bs \<le> N" using 2(2) placed_end by auto
      moreover have "unat n \<le> blocks_of bs n * unat bs"
        using div_round_up_le [of "unat bs" "unat n"] 2(4) by (simp add: unat_gt_0)
      ultimately show ?case using 2 by (simp add: add_mult_distrib)
    qed simp
    from this [OF c(3) that] show ?thesis by (simp add: image_byte_def)
  qed
  have "List.map (image_byte e bs xs) [0..<N]
      = List.map (image_byte e bs xs) [0..<?stop * unat bs] @ List.map (image_byte e bs xs) [?stop * unat bs..<N]"
    using upt_add_eq_append [of 0 "?stop * unat bs" "N - ?stop * unat bs"] c(2) by simp
  also have "List.map (image_byte e bs xs) [?stop * unat bs..<N] = replicate (N - ?stop * unat bs) 0"
    using zero by (intro nth_equalityI) simp_all
  finally have "List.map (image_byte e bs xs) [0..<N]
      = List.map (image_byte e bs xs) [0..<?stop * unat bs] @ replicate (N - ?stop * unat bs) 0" .
  moreover have "(N - ?stop * unat bs) div unat bs * unat bs = N - ?stop * unat bs"
    unfolding K by (simp add: diff_mult_distrib [symmetric])
  ultimately show ?thesis using c(1,2) by (simp add: image_chunks_def Let_def)
qed

lemma chunk_content_length: "data_chunk bs c \<Longrightarrow> length (chunk_content bs c) = chunk_blocks bs c * unat bs"
  by (cases c) auto

lemma content_length:
  "\<forall>c \<in> set cs. data_chunk bs c \<Longrightarrow> length (concat (List.map (chunk_content bs) cs)) = all_blocks bs cs * unat bs"
  by (induction cs) (auto simp: all_blocks_def chunk_content_length add_mult_distrib)

text \<open>The pieces of the chunks carry the bytes of the chunks.\<close>

definition carries :: "env \<Rightarrow> u32 \<Rightarrow> nat \<Rightarrow> seg list \<Rightarrow> nat \<Rightarrow> u8 list \<Rightarrow> bool" where
  "carries e bs lst xs M d \<longleftrightarrow> placed bs lst xs M \<and> (\<forall>s \<in> set xs. writable e bs s)
     \<and> List.map (image_byte e bs xs) [lst * unat bs..<M] = d"

lemma carries_Nil: "carries e bs lst [] (lst * unat bs) []"
  by (simp add: carries_def)

lemma carries_gap: "carries e bs (lst + j) xs M d \<Longrightarrow> carries e bs lst xs M (replicate (j * unat bs) 0 @ d)"
  using image_gap [of bs lst j xs M M e] placed_end [of bs "lst + j" xs M]
  by (cases xs) (auto simp: carries_def add_mult_distrib)

lemma carries_piece:
  assumes c: "carries e bs (blk + j) xs M d'" and bs: "bs \<noteq> 0" and n: "length d = j * unat bs" "length d + unat bs < 2 ^ 32"
    and w: "writable e bs (of_nat blk, of_nat (length d), k)" "piece_bytes e (of_nat blk, of_nat (length d), k) = Some d"
    and b: "blk + j < 2 ^ 32"
  shows "carries e bs blk ((of_nat blk, of_nat (length d), k) # xs) M (d @ d')"
proof -
  have pos: "0 < unat bs" using bs by (simp add: unat_gt_0)
  have l: "unat (of_nat (length d) :: u32) = length d" "unat (of_nat blk :: u32) = blk"
    using n(2) b by (simp_all add: unat_of_nat)
  have "(length d + unat bs - 1) div unat bs * unat bs = j * unat bs"
    using whole_blocks [OF pos, of "length d"] n(1) by simp
  then have j: "(length d + unat bs - 1) div unat bs = j" using pos by simp
  have "(blk + j) * unat bs \<le> M" using c placed_end by (auto simp: carries_def)
  then show ?thesis
    using image_piece [of bs "of_nat blk" "of_nat (length d)" xs M M e k d, unfolded l j] c w bs b n(1)
    unfolding carries_def placed.simps l j by simp
qed

lemma read_segs_content:
  assumes "\<forall>c \<in> set cs. data_chunk bs c" "bs \<noteq> 0" "env_fd e fdn = pre @ concat (List.map (encode bs) cs)" "length pre = off"
    and "off + length (concat (List.map (encode bs) cs)) < 2 ^ 63" "blk + all_blocks bs cs < 2 ^ 31"
    and most: "unat bs \<le> MAX_RW_COUNT"
  shows "carries e bs blk (read_segs bs fdn off blk cs) ((blk + all_blocks bs cs) * unat bs)
    (concat (List.map (chunk_content bs) cs))"
  using assms
proof (induction cs arbitrary: pre off blk)
  case Nil
  then show ?case by (simp add: all_blocks_def carries_Nil)
next
  case (Cons c cs)
  let ?rest = "concat (List.map (encode bs) cs)"
  have all: "all_blocks bs (c # cs) = chunk_blocks bs c + all_blocks bs cs" by (simp add: all_blocks_def)
  have ih: "carries e bs (blk + chunk_blocks bs c) (read_segs bs fdn (off + length (encode bs c)) (blk + chunk_blocks bs c) cs)
      ((blk + all_blocks bs (c # cs)) * unat bs) (concat (List.map (chunk_content bs) cs))"
    using Cons.IH [of "pre @ encode bs c" "off + length (encode bs c)" "blk + chunk_blocks bs c"] Cons.prems
    by (simp add: all add.assoc)
  have fdb: "env_fd e fdn = pre @ encode bs c @ ?rest" using Cons.prems(3) by simp
  show ?case
  proof (cases c)
    case (Raw d)
    let ?j = "length d div unat bs"
    have d: "d \<noteq> []" "length d = ?j * unat bs" "length d < 2147479552" "length d + unat bs < 2 ^ 32"
      using Cons.prems(1) Raw by simp_all
    have o: "unat (of_nat (off + 12) :: u64) = off + 12"
      using Cons.prems(5) Raw by (simp add: unat_of_nat encode_def del: of_nat_add)
    have n: "unat (of_nat (length d) :: u32) = length d" using d(3) by (simp add: unat_of_nat)
    obtain h where h: "length h = 12" "encode bs c = h @ d" using Raw
      by (intro that [of "chunk_header CHUNK_TYPE_RAW (of_nat ?j) (CHUNK_HEADER_LEN + of_nat (length d))"]) (simp_all add: encode_def)
    let ?s = "(of_nat blk, of_nat (length d), BACKED_BLOCK_FD fdn (of_nat (off + 12))) :: seg"
    have bytes: "piece_bytes e ?s = Some d"
      unfolding piece_bytes_def file_part_def prod.case bb_kind.case n o fdb h(2) mapped_def
      using d(1,3) h(1) Cons.prems(4) by simp
    have w: "writable e bs ?s" using bytes n d(3,4) most by (simp add: writable_def)
    have "blk + ?j < 2 ^ 32" using Cons.prems(6) all Raw by simp
    with carries_piece [OF _ Cons.prems(2) d(2,4) w bytes] ih
    show ?thesis using Raw h by (simp add: add.assoc)
  next
    case (Fill v k)
    let ?d = "fill_bytes v (k * unat bs)"
    have f: "0 < k" "k * unat bs + unat bs < 2 ^ 32" "4 dvd unat bs" using Cons.prems(1) Fill by simp_all
    have n: "unat (of_nat (k * unat bs) :: u32) = k * unat bs" using f(2) by (simp add: unat_of_nat del: of_nat_mult)
    let ?s = "(of_nat blk, of_nat (length ?d), BACKED_BLOCK_FILL v) :: seg"
    have bytes: "piece_bytes e ?s = Some ?d"
      by (simp add: piece_bytes_def fill_bytes_def n del: of_nat_mult)
    have w: "writable e bs ?s" using bytes n f most by (simp add: writable_def del: of_nat_mult)
    have "blk + k < 2 ^ 32" using Cons.prems(6) all Fill by simp
    with carries_piece [OF _ Cons.prems(2) _ _ w bytes, of k] ih f(2)
    show ?thesis using Fill by (simp add: encode_def add.assoc)
  next
    case (Skip k)
    then show ?thesis using carries_gap [OF ih [unfolded Skip chunk_blocks.simps]] by (simp add: encode_def)
  next
    case (Crc v)
    then show ?thesis using Cons.prems(1) by simp
  qed
qed

section \<open>Property\<close>

text \<open>C8: an image written in sparse format without a checksum, imported again and written as a plain
  file, gives byte for byte the image of the first queue: chunks of raw data come back as pieces of
  the file that was read, fill chunks as fills, and gaps as zeros.\<close>

theorem sparse_roundtrip:
  assumes "queue_list m (sf_list s) as xs" "sf_block_size s \<noteq> 0"
    and "\<forall>x \<in> set xs. writable e (sf_block_size s) x"
    and "placed (sf_block_size s) 0 xs (nat (sf_len s))"
    and "0 \<le> sf_len s" "unat (sf_block_size s) dvd nat (sf_len s)"
    and "readable (sf_block_size s) (nat (sf_len s)) (image_chunks e (sf_block_size s) xs (nat (sf_len s)))"
    and "length (sparse_image (sf_block_size s) (nat (sf_len s))
       (image_chunks e (sf_block_size s) xs (nat (sf_len s)))) \<le> room"
    and "mem_ok m'" "nat (sf_len s) \<le> room'" "unat (sf_block_size s) \<le> MAX_RW_COUNT"
  shows "\<exists>f r g. sparse_file_write e m s (new_file room) True False = Inr (0, f)
    \<and> sparse_file_import \<lparr>rs_mem = m', rs_file = s', rs_fd = f\<lparr>fd_pos := 0\<rparr>, copybuf = buf\<rparr> fdn False = Inr (True, r)
    \<and> sparse_file_write (e\<lparr>env_fd := (env_fd e)(fdn := fd_bytes f)\<rparr>) (rs_mem r) (rs_file r) (new_file room') False crc
      = Inr (0, g)
    \<and> fd_bytes g = List.map (image_byte e (sf_block_size s) xs) [0..<nat (sf_len s)]"
proof -
  let ?bs = "sf_block_size s" and ?N = "nat (sf_len s)"
  let ?cs = "image_chunks e ?bs xs ?N"
  have ok: "\<forall>c \<in> set ?cs. data_chunk ?bs c" "all_blocks ?bs ?cs < 2 ^ 31" "length (sparse_image ?bs ?N ?cs) < 2 ^ 63"
    by (insert assms(7) [unfolded readable_def], (elim conjE, assumption)+)
  obtain f where f: "sparse_file_write e m s (new_file room) True False = Inr (0, f)" "fd_bytes f = sparse_image ?bs ?N ?cs"
    using sparse_file_write_sparse [OF assms(1-6), of False room] assms(8,11) by auto
  have content: "concat (List.map (chunk_content ?bs) ?cs) = List.map (image_byte e ?bs xs) [0..<?N]"
    by (rule image_chunks_content [OF assms(4,2,3,6)])
  have N: "?N = all_blocks ?bs ?cs * unat ?bs" using content_length [OF ok(1)] unfolding content by simp
  let ?e = "e\<lparr>env_fd := (env_fd e)(fdn := fd_bytes f)\<rparr>" and ?ys = "read_segs ?bs fdn 28 0 ?cs"
  obtain r where r: "sparse_file_import \<lparr>rs_mem = m', rs_file = s', rs_fd = f\<lparr>fd_pos := 0\<rparr>, copybuf = buf\<rparr> fdn False = Inr (True, r)"
    "read_queue r ?bs ?ys" "sf_len (rs_file r) = int ?N"
    using import_reads [OF assms(7) N, of "\<lparr>rs_mem = m', rs_file = s', rs_fd = f\<lparr>fd_pos := 0\<rparr>, copybuf = buf\<rparr>" fdn]
      f(2) assms(9) by auto
  have "carries ?e ?bs 0 ?ys ((0 + all_blocks ?bs ?cs) * unat ?bs) (concat (List.map (chunk_content ?bs) ?cs))"
    using f(2) image_header(1,9) [of ?bs ?N ?cs] append_take_drop_id [of 28 "sparse_image ?bs ?N ?cs"] ok assms(11)
    by (intro read_segs_content [where pre = "take 28 (sparse_image ?bs ?N ?cs)", OF ok(1) assms(2)]) simp_all
  then have c: "placed ?bs 0 ?ys ?N" "\<forall>x \<in> set ?ys. writable ?e ?bs x"
    "List.map (image_byte ?e ?bs ?ys) [0..<?N] = List.map (image_byte e ?bs xs) [0..<?N]"
    unfolding carries_def content N [symmetric] add_0 mult_0 by blast+
  obtain as' where q: "queue_list (rs_mem r) (sf_list (rs_file r)) as' ?ys" and bs: "sf_block_size (rs_file r) = ?bs"
    using r(2) unfolding read_queue_def by blast
  obtain g where "sparse_file_write ?e (rs_mem r) (rs_file r) (new_file room') False crc = Inr (0, g)"
    "fd_bytes g = List.map (image_byte ?e ?bs ?ys) [0..<?N]"
    using sparse_file_write_plain [OF q, of ?e room' crc] c(1,2) r(3) bs assms(2,5,10,11) by auto
  then show ?thesis using f(1) r(1) c(3) by auto
qed

theorem sparse_roundtrip_witness:
  "\<exists>f r g. sparse_file_write demo_env demo_mem demo_file (new_file 200) True False = Inr (0, f)
    \<and> sparse_file_import \<lparr>rs_mem = demo_mem, rs_file = demo_file, rs_fd = f\<lparr>fd_pos := 0\<rparr>, copybuf = []\<rparr> 3 False = Inr (True, r)
    \<and> sparse_file_write (demo_env\<lparr>env_fd := (env_fd demo_env)(3 := fd_bytes f)\<rparr>) (rs_mem r) (rs_file r) (new_file 32) False False
      = Inr (0, g)
    \<and> fd_bytes g = List.map (image_byte demo_env 8 [(1, 5, BACKED_BLOCK_DATA (Sb, 0))]) [0..<32]"
proof -
  let ?xs = "[(1, 5, BACKED_BLOCK_DATA (Sb, 0))] :: seg list"
  have cs: "image_chunks demo_env (sf_block_size demo_file) ?xs (nat (sf_len demo_file))
      = [Skip 1, Raw [1, 2, 3, 4, 5, 0, 0, 0], Skip 2]"
    by (simp add: image_chunks_def piece_chunk_def piece_bytes_def demo_env_def demo_file_def
        numeral_3_eq_3)
  have "readable (sf_block_size demo_file) (nat (sf_len demo_file)) [Skip 1, Raw [1, 2, 3, 4, 5, 0, 0, 0], Skip 2]"
    "length (sparse_image (sf_block_size demo_file) (nat (sf_len demo_file)) [Skip 1, Raw [1, 2, 3, 4, 5, 0, 0, 0], Skip 2]) \<le> 200"
    by (simp_all add: readable_def demo_file_def all_blocks_def sparse_image_def encode_def)
      presburger
  moreover have "mem_ok demo_mem" using demo_queue by (simp add: queue_list_def)
  moreover have "nat (sf_len demo_file) \<le> 32" "sf_block_size demo_file = 8" "nat (sf_len demo_file) = 32"
    "unat (sf_block_size demo_file) \<le> MAX_RW_COUNT" by (simp_all add: demo_file_def)
  ultimately show ?thesis
    using sparse_roundtrip [OF demo_queue demo_ok(1,5,2,3,4), unfolded cs, of 200 demo_mem 32 demo_file "[]" 3 False] by simp
qed

end
