(* ===== verification/Fixup_Runs.thy ===== *)
theory Fixup_Runs
  imports Fixup Build_Invariant
begin

text \<open>
  Runs of the renumbering tool. One that is asked not to write leaves the image as it is: the
  postconditions are those of \<open>Build_Invariant\<close>, and the collection \<open>dry\<close> carries one per function.
  One that writes records its state in the image, from where the next run goes on.
\<close>

section \<open>Reading\<close>

text \<open>The bytes of the image, with the state that a run without writing keeps in memory.\<close>

definition image_of :: "fixup \<Rightarrow> u8 list \<times> fixup_state" where
  "image_of x = (fd_bytes (fx_fd x), fx_state x)"

lemma image_of_update [simp]:
  "image_of (x\<lparr>fx_desc := d\<rparr>) = image_of x" "image_of (x\<lparr>fx_count := n\<rparr>) = image_of x"
  by (simp_all add: image_of_def)

named_theorems dry \<open>functions that leave the image alone\<close>

lemma read_all_bytes: "read_all f n = (ret, got, g) \<Longrightarrow> fd_bytes g = fd_bytes f"
  by (auto simp: read_all_def Let_def)

lemma read_at_dry [dry]:
  "(\<And>bs y. image_of y = image_of x \<Longrightarrow> P (bs, y)) \<Longrightarrow> post P (read_at x off n)"
  by (auto simp: read_at_def image_of_def Let_def read_all_def)

lemma read_sb_dry [dry]:
  "(\<And>sb fd. fd_bytes fd = fd_bytes f \<Longrightarrow> P (sb, fd)) \<Longrightarrow> post P (read_sb f)"
  by (auto simp: read_sb_def Let_def read_all_def)

lemma read_block_dry [dry]:
  "(\<And>bs y. image_of y = image_of x \<Longrightarrow> P (bs, y)) \<Longrightarrow> post P (read_block cf x b)"
  by (auto simp: read_block_def image_of_def Let_def read_all_def)

lemma write_block_dry [dry]:
  "no_write cf \<Longrightarrow> (\<And>y. image_of y = image_of x \<Longrightarrow> P y) \<Longrightarrow> post P (write_block cf x b bs)"
  by (simp add: write_block_def)

lemmas no_image [dry] =
  post_any [where m = "word_at bs i" for bs i] post_any [where m = "half_at bs i" for bs i]
  post_any [where m = "byte_at bs i" for bs i] post_any [where m = "name_at bs i n" for bs i n]
  post_any [where m = "rd xs i" for xs i] 
  post_any [where m = "wr xs i v" for xs i v]
  post_any [where m = "udiv a b" for a b] post_any [where m = "umod a b" for a b]
  post_any [where m = "DIV_ROUND_UP a b" for a b] post_any [where m = "header_depth bs" for bs]
  post_any [where m = "header_entries bs" for bs] post_any [where m = "get_extent_ents bs bl" for bs bl]
  post_any [where m = "get_direct_blocks info ino bl" for info ino bl]
  post_any [where m = "get_indirect is bs bl" for "is" bs bl]
  post_any [where m = "renumber cf p n i" for cf p n i]
  post_any [where m = "clear_bits is bm" for "is" bm] post_any [where m = "ext4_bg_has_super_block info i" for info i]
  post_any [where m = "ext4_parse_sb_info info force sb" for info force sb]
  post_any [where m = "EXT4_ALIGN a b" for a b]

lemma put_at_dry [dry]: "(\<And>zs. length zs = length xs \<Longrightarrow> P zs) \<Longrightarrow> post P (put_at xs i ys)"
  by (auto simp: put_at_def)

lemma read_inode_dry [dry]:
  "(\<And>ino y. image_of y = image_of x \<Longrightarrow> P (ino, y)) \<Longrightarrow> post P (read_inode cf x inum)"
  by (auto simp: read_inode_def Let_def intro!: dry)

section \<open>Walking\<close>

lemma indirect_dry [dry]:
  "(\<And>bl y. image_of y = image_of x \<Longrightarrow> P (bl, y)) \<Longrightarrow> post P (get_block_list_indirect cf x ino bl)"
  by (auto simp: get_block_list_indirect_def get_indirect_blocks_def intro!: dry)

lemma extent_children_dry:
  assumes "\<And>x bs bl Q. (\<And>bl y. image_of y = image_of x \<Longrightarrow> Q (bl, y)) \<Longrightarrow> post Q (below x bs bl)"
    and "\<And>bl y. image_of y = image_of x \<Longrightarrow> P (bl, y)"
  shows "post P (extent_children below n cf x bs bl)"
  using assms(2)
proof (induction n arbitrary: x bl)
  case (Suc n)
  show ?case
    by (auto intro!: dry assms(1) Suc.IH Suc.prems)
qed simp

lemma get_extent_idx_dry [dry]:
  "(\<And>bl y. image_of y = image_of x \<Longrightarrow> P (bl, y)) \<Longrightarrow> post P (get_extent_idx fuel cf x bs bl)"
proof (induction fuel arbitrary: x bs bl P)
  case (Suc fuel)
  show ?case by (auto intro!: dry extent_children_dry Suc.IH Suc.prems)
qed simp

lemma extents_dry [dry]:
  "(\<And>bl y. image_of y = image_of x \<Longrightarrow> P (bl, y)) \<Longrightarrow> post P (get_block_list_extents cf x ino bl)"
  by (auto simp: get_block_list_extents_def Let_def simp del: get_extent_idx.simps intro!: dry)

lemma is_entry_dir_dry [dry]:
  "(\<And>d y. image_of y = image_of x \<Longrightarrow> P (d, y)) \<Longrightarrow> post P (is_entry_dir cf x i t p)"
  by (auto simp: is_entry_dir_def intro!: dry)

lemma dir_entries_dry:
  assumes "\<And>x ino Q. (\<And>y. image_of y = image_of x \<Longrightarrow> Q y) \<Longrightarrow> post Q (sub x ino)"
    and "\<And>y buf. image_of y = image_of x \<Longrightarrow> P (y, buf)"
  shows "post P (dir_entries sub cf pass new_ipg x buf off prev)"
  using assms(2)
proof (induction "length buf - off" arbitrary: pass x buf off prev P rule: less_induct)
  case less
  have IH: "post P (dir_entries sub cf pass' new_ipg y buf' (off + unat r) prev')"
    if "image_of y = image_of x" "length buf' = length buf" "(r :: u16) \<noteq> 0" "off < length buf" for pass' y buf' r prev'
  proof (rule less.hyps)
    have "0 < unat r" using that(3) by (simp add: unat_gt_0)
    then show "length buf' - (off + unat r) < length buf - off" using that(2,4) by linarith
  qed (use less.prems that(1) in simp)
  show ?case
    unfolding dir_entries.simps [of sub cf pass new_ipg x buf off prev]
    by (auto simp: Let_def intro!: dry assms(1) less.prems IH)
qed

lemma read_dir_blocks_dry [dry]:
  "(\<And>bs y. image_of y = image_of x \<Longrightarrow> P (bs, y)) \<Longrightarrow> post P (read_dir_blocks is cf x bl)"
proof (induction "is" arbitrary: x P)
  case (Cons i "is")
  show ?case by (auto simp: split: option.splits intro!: dry Cons.IH Cons.prems)
qed simp

lemma write_dir_blocks_dry [dry]:
  "no_write cf \<Longrightarrow> (\<And>y. image_of y = image_of x \<Longrightarrow> P y) \<Longrightarrow> post P (write_dir_blocks is cf pass x bl buf)"
proof (induction "is" arbitrary: x P)
  case (Cons i "is")
  show ?case by (auto simp: Let_def split: option.splits prod.splits intro!: dry Cons.IH Cons.prems)
qed simp

lemma recurse_dir_dry [dry]:
  "no_write cf \<Longrightarrow> (\<And>y. image_of y = image_of x \<Longrightarrow> P y) \<Longrightarrow> post P (recurse_dir fuel cf pass new_ipg x ino)"
proof (induction fuel arbitrary: x ino P)
  case (Suc fuel)
  show ?case
    by (auto simp: Let_def intro!: dry dir_entries_dry Suc.IH Suc.prems)
qed simp

section \<open>The superblocks\<close>

lemma check_inode_bitmap_dry [dry]:
  "no_write cf \<Longrightarrow> (\<And>y. image_of y = image_of x \<Longrightarrow> P y) \<Longrightarrow> post P (check_inode_bitmap cf x b n)"
  by (auto simp: check_inode_bitmap_def intro!: dry)

lemma update_descs_dry [dry]:
  "no_write cf \<Longrightarrow> (\<And>y. image_of y = image_of x \<Longrightarrow> P y) \<Longrightarrow> post P (update_descs is cf u e n x)"
proof (induction "is" arbitrary: u x P)
  case (Cons i "is")
  show ?case by (auto intro!: dry Cons.IH Cons.prems)
qed simp

lemma write_copies_dry [dry]:
  "no_write cf \<Longrightarrow> (\<And>y. image_of y = image_of x \<Longrightarrow> P y) \<Longrightarrow> post P (write_copies is cf sb x)"
proof (induction "is" arbitrary: sb x P)
  case (Cons i "is")
  show ?case using Cons.prems(1) by (auto simp: Let_def split: prod.splits intro!: dry Cons.IH Cons.prems)
qed simp

lemma update_superblocks_dry [dry]:
  "no_write cf \<Longrightarrow> (\<And>y. image_of y = image_of x \<Longrightarrow> P y) \<Longrightarrow>
     post P (update_superblocks_and_bg_desc cf s n x)"
  by (auto simp: update_superblocks_and_bg_desc_def Let_def image_of_def intro!: dry)

section \<open>The tool\<close>

lemma state_dry [simp]:
  "no_write cf \<Longrightarrow> set_fs_fixup_state cf s x = Inr (x\<lparr>fx_state := s\<rparr>)"
  "no_write cf \<Longrightarrow> get_fs_fixup_state cf x = Inr (fx_state x, x)"
  by (simp_all add: set_fs_fixup_state_def get_fs_fixup_state_def)

lemma walk_root_dry [dry]:
  "no_write cf \<Longrightarrow> (\<And>y. image_of y = image_of x \<Longrightarrow> P y) \<Longrightarrow> post P (walk_root cf p n r x)"
  by (auto simp: walk_root_def simp del: recurse_dir.simps intro!: dry)

lemma read_ext_dry [dry]:
  "(\<And>i g sb y. image_of y = image_of x \<Longrightarrow> P (i, g, sb, y)) \<Longrightarrow> post P (read_ext info force x)"
  by (auto simp: read_ext_def Let_def image_of_def intro!: dry)

text \<open>A function that leaves image and state alone, by its result.\<close>

lemma dry_frame:
  assumes "no_write cf"
  shows "walk_root cf p n r x = Inr y \<Longrightarrow> image_of y = image_of x"
    "update_superblocks_and_bg_desc cf s n x = Inr y \<Longrightarrow> image_of y = image_of x"
  using walk_root_dry [OF assms, of x "\<lambda>y. image_of y = image_of x" p n r]
    update_superblocks_dry [OF assms, of x "\<lambda>y. image_of y = image_of x" s n] by auto

text \<open>The passes of a run without writing, each from where the one before stopped.\<close>

lemma fixup_steps_dry:
  assumes cf: "no_write cf" and x: "fx_state x = STATE_UNSET" and run: "fixup_steps cf n root x = Inr y"
  obtains a b c d e where
    "walk_root cf SANITY_CHECK_PASS n root x = Inr a"
    "update_superblocks_and_bg_desc cf STATE_UNSET n a = Inr b"
    "walk_root cf MARK_INODE_NUMS n root (b\<lparr>fx_state := STATE_MARKING_INUMS, fx_count := 0\<rparr>) = Inr c"
    "walk_root cf UPDATE_INODE_NUMS n root (c\<lparr>fx_state := STATE_UPDATING_INUMS, fx_count := 0\<rparr>) = Inr d"
    "update_superblocks_and_bg_desc cf STATE_UPDATING_SB n (d\<lparr>fx_state := STATE_UPDATING_SB\<rparr>) = Inr e"
    "y = e\<lparr>fx_state := STATE_UNSET\<rparr>" "fd_bytes (fx_fd y) = fd_bytes (fx_fd x)"
proof -
  have same: "cf\<lparr>no_write := True\<rparr> = cf" using cf by (cases cf) simp
  note keep = dry_frame [OF cf, unfolded image_of_def prod.inject]
  obtain a b where ab: "walk_root cf SANITY_CHECK_PASS n root x = Inr a"
    "update_superblocks_and_bg_desc cf STATE_UNSET n a = Inr b"
    using run x by (auto simp: fixup_steps_def cf same)
  let ?b = "b\<lparr>fx_state := STATE_MARKING_INUMS, fx_count := 0\<rparr>"
  obtain c where c: "walk_root cf MARK_INODE_NUMS n root ?b = Inr c"
    using run x ab by (auto simp: fixup_steps_def cf same)
  let ?c = "c\<lparr>fx_state := STATE_UPDATING_INUMS, fx_count := 0\<rparr>"
  obtain d where d: "walk_root cf UPDATE_INODE_NUMS n root ?c = Inr d"
    using run x ab c by (auto simp: fixup_steps_def cf same)
  let ?d = "d\<lparr>fx_state := STATE_UPDATING_SB\<rparr>"
  obtain e where e: "update_superblocks_and_bg_desc cf STATE_UPDATING_SB n ?d = Inr e" "y = e\<lparr>fx_state := STATE_UNSET\<rparr>"
    using run x ab c d by (auto simp: fixup_steps_def cf same)
  have "fd_bytes (fx_fd y) = fd_bytes (fx_fd x)"
    using keep(1) [OF ab(1)] keep(2) [OF ab(2)] keep(1) [OF c] keep(1) [OF d] keep(2) [OF e(1)] e(2) by simp
  with that [OF ab c d e] show thesis .
qed

text \<open>C11: a run of the renumbering tool that is asked not to write and returns without an error has gone
  through everything: the check of all directories, the check of the superblocks, the pass that
  marks the inode numbers, the one that updates them and the update of the superblocks, each on the
  image as it was and with the state in memory moved on, which is the finished one again at the
  end; and every byte of the image is as it was.\<close>

theorem dry_run_leaves_image:
  assumes "ext4fixup_internal info force True bail fd = Inr x"
  shows "fd_bytes (fx_fd x) = fd_bytes fd
    \<and> (\<exists>info' geom sb x0 n root x1 cf a b c d e.
        read_ext info force \<lparr>fx_fd = fd, fx_desc = [], fx_count = 0, fx_state = STATE_UNSET\<rparr> = Inr (info', geom, sb, x0)
      \<and> cf = \<lparr>cf_info = info', cf_geom = geom, no_write = True, stop = bail\<rparr>
      \<and> read_inode cf x0 2 = Inr (root, x1) \<and> S_ISDIR (i_mode root)
      \<and> walk_root cf SANITY_CHECK_PASS n root x1 = Inr a
      \<and> update_superblocks_and_bg_desc cf STATE_UNSET n a = Inr b
      \<and> walk_root cf MARK_INODE_NUMS n root (b\<lparr>fx_state := STATE_MARKING_INUMS, fx_count := 0\<rparr>) = Inr c
      \<and> walk_root cf UPDATE_INODE_NUMS n root (c\<lparr>fx_state := STATE_UPDATING_INUMS, fx_count := 0\<rparr>) = Inr d
      \<and> update_superblocks_and_bg_desc cf STATE_UPDATING_SB n (d\<lparr>fx_state := STATE_UPDATING_SB\<rparr>) = Inr e
      \<and> x = e\<lparr>fx_state := STATE_UNSET\<rparr>)"
proof -
  let ?x = "\<lparr>fx_fd = fd, fx_desc = [], fx_count = 0, fx_state = STATE_UNSET\<rparr>"
  obtain info' geom sb x0 where r: "read_ext info force ?x = Inr (info', geom, sb, x0)"
    using assms by (auto simp: ext4fixup_internal_def)
  define cf where "cf = \<lparr>cf_info = info', cf_geom = geom, no_write = True, stop = bail\<rparr>"
  obtain n root x1 where s: "read_inode cf x0 2 = Inr (root, x1)" "S_ISDIR (i_mode root)"
    "fixup_steps cf n root x1 = Inr x"
    using assms unfolding ext4fixup_internal_def r rbind_Inr prod.case Let_def cf_def [symmetric]
    by (auto split: if_splits)
  have "image_of x0 = image_of ?x"
    using read_ext_dry [of ?x "\<lambda>(i, g, sb, y). image_of y = image_of ?x" info force] r by auto
  moreover have "image_of x1 = image_of x0"
    using read_inode_dry [of x0 "\<lambda>(i, y). image_of y = image_of x0" cf 2] s(1) by auto
  ultimately have x1: "fd_bytes (fx_fd x1) = fd_bytes fd" "fx_state x1 = STATE_UNSET"
    by (simp_all add: image_of_def)
  have "no_write cf" by (simp add: cf_def)
  from fixup_steps_dry [OF this x1(2) s(3)] obtain a b c d e where p:
    "walk_root cf SANITY_CHECK_PASS n root x1 = Inr a"
    "update_superblocks_and_bg_desc cf STATE_UNSET n a = Inr b"
    "walk_root cf MARK_INODE_NUMS n root (b\<lparr>fx_state := STATE_MARKING_INUMS, fx_count := 0\<rparr>) = Inr c"
    "walk_root cf UPDATE_INODE_NUMS n root (c\<lparr>fx_state := STATE_UPDATING_INUMS, fx_count := 0\<rparr>) = Inr d"
    "update_superblocks_and_bg_desc cf STATE_UPDATING_SB n (d\<lparr>fx_state := STATE_UPDATING_SB\<rparr>) = Inr e"
    "x = e\<lparr>fx_state := STATE_UNSET\<rparr>" "fd_bytes (fx_fd x) = fd_bytes (fx_fd x1)" by metis
  show ?thesis
    using r cf_def s(1,2) p(1-6) p(7) [unfolded x1(1)] by blast
qed

text \<open>An image of one group with an empty root directory.\<close>

definition tiny_sb :: ext4_super_block where
  "tiny_sb = zero_sb\<lparr>s_inodes_count := 16, s_blocks_count_lo := 64, s_first_data_block := 1,
     s_blocks_per_group := 64, s_inodes_per_group := 16, s_magic := EXT4_SUPER_MAGIC,
     s_state := EXT4_VALID_FS, s_inode_size := 256, s_feature_incompat := 2\<rparr>"

definition tiny_desc :: ext2_group_desc where
  "tiny_desc = zero_desc\<lparr>bg_inode_bitmap := 3, bg_inode_table := 3\<rparr>"

definition tiny_root :: ext4_inode where
  "tiny_root = zero_inode\<lparr>i_mode := 0x4000\<rparr>"

definition tiny_image :: "u8 list" where
  "tiny_image = replicate 1024 0 @ sb_bytes tiny_sb @ (desc_bytes tiny_desc @ replicate 992 0)
     @ replicate 256 0 @ inode_bytes tiny_root @ replicate 612 0"

definition tiny_info :: fs_info where
  "tiny_info = \<lparr>len = 65536, block_size = 1024, blocks_per_group = 64, inodes_per_group = 16,
     inode_size = 256, inodes = 16, journal_blocks = 0, feat_ro_compat = 0, feat_compat = 0, feat_incompat = 2,
     bg_desc_reserve_blocks = 0, reserve_pcnt = 0, label = Some '''', no_journal = 0, uuid = replicate 16 0\<rparr>"

definition tiny_geom :: fs_geom where
  "tiny_geom = \<lparr>first_data_block = 1, len_blocks = 64, inode_table_blocks = 4, groups = 1, bg_desc_blocks = 1,
     default_i_flags = 128, blocks_per_ind = 256, blocks_per_dind = 65536, blocks_per_tind = 0\<rparr>"

lemma tiny_parts:
  "length tiny_image = 4096" "take 1024 (drop 1024 tiny_image) = sb_bytes tiny_sb" "length (sb_bytes tiny_sb) = 1024"
  "take 1024 (drop 2048 tiny_image) = desc_bytes tiny_desc @ replicate 992 0"
  "take 156 (drop 3328 tiny_image) = inode_bytes tiny_root"
  "sb_of_bytes (sb_bytes tiny_sb) = tiny_sb" "inode_of_bytes (inode_bytes tiny_root) = tiny_root"
  "desc_of_bytes (desc_bytes tiny_desc @ more_bytes) = tiny_desc" "length (inode_bytes tiny_root) = 156"
proof -
  have s: "sb_ok tiny_sb" and d: "desc_ok tiny_desc" and i: "inode_ok tiny_root"
    by (simp_all add: sb_ok_def tiny_sb_def zero_sb_def desc_ok_def tiny_desc_def zero_desc_def
        inode_ok_def tiny_root_def zero_inode_def)
  note l = length_sb_bytes [OF s] length_desc_bytes [OF d] length_inode_bytes [OF i]
  show "length tiny_image = 4096" "take 1024 (drop 1024 tiny_image) = sb_bytes tiny_sb" "length (sb_bytes tiny_sb) = 1024"
    "take 1024 (drop 2048 tiny_image) = desc_bytes tiny_desc @ replicate 992 0"
    "take 156 (drop 3328 tiny_image) = inode_bytes tiny_root"
    "length (inode_bytes tiny_root) = 156"
    by (simp_all add: tiny_image_def l)
  show "sb_of_bytes (sb_bytes tiny_sb) = tiny_sb" "inode_of_bytes (inode_bytes tiny_root) = tiny_root"
    "desc_of_bytes (desc_bytes tiny_desc @ more_bytes) = tiny_desc"
    using sb_of_sb_bytes [OF s, of "[]"] inode_of_inode_bytes [OF i, of "[]"] desc_of_desc_bytes [OF d, of more_bytes]
    by simp_all
qed

lemma tiny_geom: "ext4_init_fs_aux_info tiny_info = Inr tiny_geom"
  by code_simp

lemma tiny_parse: "ext4_parse_sb_info tiny_info False tiny_sb = Inr (tiny_info, tiny_geom, tiny_sb)"
proof -
  have "c_string (replicate 16 0 @ replicate 64 0) = ''''" by code_simp
  then have "ext4_parse_sb tiny_sb tiny_info = Inr (0, tiny_info)"
    by (simp add: ext4_parse_sb_def tiny_sb_def zero_sb_def tiny_info_def)
  then show ?thesis
    using tiny_geom by (simp add: ext4_parse_sb_info_def tiny_sb_def zero_sb_def tiny_geom_def) (simp add: tiny_info_def)
qed

lemma first_desc: "0 < n \<Longrightarrow> rd (take_descs n (desc_bytes tiny_desc @ more_bytes)) 0 = Inr tiny_desc"
  by (cases n) (simp_all add: tiny_parts(8))

theorem dry_run_leaves_image_witness:
  "\<exists>x. ext4fixup_internal tiny_info False True (0, 0, 0) \<lparr>fd_bytes = tiny_image, fd_pos = 0, fd_room = 4096\<rparr> = Inr x
    \<and> fd_bytes (fx_fd x) = tiny_image"
proof -
  let ?fd = "\<lparr>fd_bytes = tiny_image, fd_pos = 0, fd_room = 4096\<rparr>"
  let ?ds = "take_descs 32 (desc_bytes tiny_desc @ replicate 992 0)"
  have rd_sb: "read_sb f = Inr (tiny_sb, f\<lparr>fd_pos := 2048\<rparr>)" if "fd_bytes f = tiny_image" for f
    using that tiny_parts(1,2,3,6) by (simp add: read_sb_def)
  have ext: "read_ext tiny_info False \<lparr>fx_fd = ?fd, fx_desc = [], fx_count = 0, fx_state = STATE_UNSET\<rparr>
    = Inr (tiny_info, tiny_geom, tiny_sb, \<lparr>fx_fd = ?fd\<lparr>fd_pos := 3072\<rparr>, fx_desc = ?ds, fx_count = 0, fx_state = STATE_UNSET\<rparr>)"
    using rd_sb [of ?fd] tiny_parse tiny_parts(1,4)
    by (simp add: read_ext_def) (simp add: tiny_info_def tiny_geom_def read_at_def read_all_def Let_def)
  define cf where "cf = \<lparr>cf_info = tiny_info, cf_geom = tiny_geom, no_write = True, stop = (0, 0, 0)\<rparr>"
  define good where "good x \<longleftrightarrow> fd_bytes (fx_fd x) = tiny_image \<and> rd (fx_desc x) 0 = Inr tiny_desc" for x :: fixup
  have inode: "read_inode cf x 2 = Inr (tiny_root, x\<lparr>fx_fd := (fx_fd x)\<lparr>fd_pos := 3484\<rparr>\<rparr>)" if "good x" for x
    using that tiny_parts(1,5,7,9)
    by (simp add: good_def read_inode_def cf_def tiny_info_def tiny_desc_def zero_desc_def read_at_def read_all_def Let_def)
  have walk: "walk_root cf p 16 tiny_root x = Inr x" for p x
    by (simp add: walk_root_def tiny_root_def zero_inode_def cf_def tiny_info_def Let_def get_block_list_indirect_def
        get_direct_blocks_def dir_entries.simps)
  have bitmap: "check_inode_bitmap cf x 0 16 = Inr (x\<lparr>fx_fd := (fx_fd x)\<lparr>fd_pos := 4096\<rparr>\<rparr>)" if "good x" for x
    using that tiny_parts(1)
    by (simp add: good_def check_inode_bitmap_def cf_def tiny_info_def tiny_desc_def zero_desc_def read_block_def read_all_def Let_def)
  have descs: "\<exists>y. update_descs [0] cf u 0 16 x = Inr y \<and> good y \<and> fx_state y = fx_state x" if "good x" for u x
  proof -
    have "fx_desc x \<noteq> []" "fx_desc x ! 0 = tiny_desc" using that by (auto simp: good_def rd_eq_Inr)
    then have "good (x\<lparr>fx_desc := (fx_desc x)[0 := tiny_desc]\<rparr>)" using that by (simp add: good_def)
    with bitmap [OF that] bitmap [OF this] that \<open>fx_desc x \<noteq> []\<close> \<open>fx_desc x ! 0 = tiny_desc\<close>
    show ?thesis by (cases u) (auto simp: good_def)
  qed
  have copies: "write_copies [0] cf sb x = Inr x" for sb x
    by (simp add: cf_def tiny_info_def tiny_geom_def ext4_bg_has_super_block_def Let_def)
  have update: "\<exists>y. update_superblocks_and_bg_desc cf s 16 x = Inr y \<and> good y \<and> fx_state y = fx_state x"
    if "good x" for s x
  proof -
    have "good (x\<lparr>fx_fd := (fx_fd x)\<lparr>fd_pos := 2048\<rparr>\<rparr>)" using that by (simp add: good_def)
    from descs [OF this, of "s = STATE_UPDATING_SB"]
    obtain y where y: "update_descs [0] cf (s = STATE_UPDATING_SB) 0 16 (x\<lparr>fx_fd := (fx_fd x)\<lparr>fd_pos := 2048\<rparr>\<rparr>) = Inr y"
      "good y" "fx_state y = fx_state x" by auto
    have n: "len_blocks tiny_geom = 64" "blocks_per_group tiny_info = 64" "block_size tiny_info = 1024"
      "inode_size tiny_info = 256" "groups tiny_geom = 1" "s_inodes_per_group tiny_sb = 16" "s_inodes_count tiny_sb = 16"
      "cf_info cf = tiny_info" "cf_geom cf = tiny_geom"
      by (simp_all add: tiny_geom_def tiny_info_def tiny_sb_def zero_sb_def cf_def)
    show ?thesis using y that rd_sb [of "fx_fd x"]
      by (simp add: update_superblocks_and_bg_desc_def n DIV_ROUND_UP_def good_def copies Let_def
          del: update_descs.simps write_copies.simps)
  qed
  have nw: "no_write cf" "cf\<lparr>no_write := True\<rparr> = cf" by (simp_all add: cf_def)
  have steps: "\<exists>y. fixup_steps cf 16 tiny_root x = Inr y" if g: "good x" "fx_state x = STATE_UNSET" for x
  proof -
    obtain y where y: "update_superblocks_and_bg_desc cf STATE_UNSET 16 x = Inr y" "good y" using update [OF g(1)] by blast
    have "good (y\<lparr>fx_state := STATE_MARKING_INUMS, fx_count := 0, fx_state := STATE_UPDATING_INUMS, fx_count := 0,
        fx_state := STATE_UPDATING_SB\<rparr>)" using y(2) by (simp add: good_def)
    from update [OF this, of STATE_UPDATING_SB]
    show ?thesis using y(1) g(2)
      by (auto simp: fixup_steps_def get_fs_fixup_state_def set_fs_fixup_state_def nw walk)
  qed
  let ?x = "\<lparr>fx_fd = ?fd\<lparr>fd_pos := 3072\<rparr>, fx_desc = ?ds, fx_count = 0, fx_state = STATE_UNSET\<rparr>"
  have "good ?x" using first_desc [of 32 "replicate 992 0"] by (simp add: good_def)
  moreover from this have "good (?x\<lparr>fx_fd := (fx_fd ?x)\<lparr>fd_pos := 3484\<rparr>\<rparr>)" by (simp add: good_def)
  ultimately obtain y where "read_inode cf ?x 2 = Inr (tiny_root, ?x\<lparr>fx_fd := (fx_fd ?x)\<lparr>fd_pos := 3484\<rparr>\<rparr>)"
    "fixup_steps cf 16 tiny_root (?x\<lparr>fx_fd := (fx_fd ?x)\<lparr>fd_pos := 3484\<rparr>\<rparr>) = Inr y"
    using inode steps by fastforce
  moreover have "S_ISDIR (i_mode tiny_root)" "EXT4_ALIGN 16 4 = Inr (16 :: u32)"
    "feat_incompat tiny_info = 2" "block_size tiny_info = 1024" "inode_size tiny_info = 256" "inodes_per_group tiny_info = 16"
    "s_desc_size tiny_sb = 0"
    by (simp_all add: S_ISDIR_def tiny_root_def EXT4_ALIGN_def DIV_ROUND_UP_def tiny_info_def tiny_sb_def zero_sb_def)
  ultimately have "ext4fixup_internal tiny_info False True (0, 0, 0) ?fd = Inr y"
    unfolding ext4fixup_internal_def ext rbind_Inr prod.case cf_def [symmetric] Let_def by simp
  then show ?thesis using dry_run_leaves_image [of tiny_info False "(0, 0, 0)" ?fd y] by simp
qed

section \<open>The recorded state\<close>

lemma length_take_words [simp]: "length (fst (take_words n bs)) = n" "snd (take_words n bs) = drop (4 * n) bs"
  by (induction n arbitrary: bs) (simp_all add: case_prod_beta take32_def add.commute)

lemma sb_ok_of_bytes: "1024 \<le> length bs \<Longrightarrow> sb_ok (sb_of_bytes bs)"
  by (simp add: sb_ok_def sb_of_bytes_def Let_def case_prod_beta take8_def take16_def take32_def take64_def take_bytes_def)

lemma write_whole_ok:
  assumes "write_whole f d = (ret, g)" "\<not> ret < 0"
  shows "fd_bytes g = put_bytes (fd_bytes f) (fd_pos f) d" "fd_room g = fd_room f"
  using assms by (auto simp: write_whole_def Let_def min_less_iff_disj not_less split: if_splits)

lemma state_of_magic: "state_of (magic_of s) = s"
  by (cases s) (simp_all add: state_of_def magic_of_def)

text \<open>C12: once the tool has recorded a state in the image, the next run reads that state back, and as
  long as the work is not finished the superblock is marked so that the image cannot be mounted:
  the lowest bit of the descriptor size is set exactly while a state other than the finished one
  is recorded.\<close>

theorem recorded_state_survives:
  assumes "\<not> no_write cf" "set_fs_fixup_state cf s x = Inr y"
  shows "(\<exists>z. get_fs_fixup_state cf y = Inr (s, z))
    \<and> (\<exists>sb fd. read_sb (fx_fd y) = Inr (sb, fd) \<and> (s_desc_size sb AND 1 = 1 \<longleftrightarrow> s \<noteq> STATE_UNSET))"
proof (intro conjI)
  let ?mark = "\<lambda>sb. if magic_of s \<noteq> 0 then sb\<lparr>s_desc_size := s_desc_size sb OR 1\<rparr>
       else sb\<lparr>s_desc_size := s_desc_size sb AND NOT 1\<rparr>"
  obtain x1 sb f2 f3 where r: "write_at x 0 (le64 (magic_of s)) = Inr x1" "read_sb (fx_fd x1) = Inr (sb, f2)"
    "write_sb f2 1024 (?mark sb) = Inr f3" "y = x1\<lparr>fx_fd := f3\<rparr>"
    using assms(2) unfolding set_fs_fixup_state_def Let_def if_not_P [OF assms(1)] rbind_eq_Inr
    by (elim exE conjE) (auto simp only: prod.case rbind_eq_Inr sum.inject)
  have b1: "fd_bytes (fx_fd x1) = put_bytes (fd_bytes (fx_fd x)) 0 (le64 (magic_of s))" "fd_room (fx_fd x1) = fd_room (fx_fd x)"
    using r(1) by (auto simp: write_at_def write_whole_def Let_def min_less_iff_disj not_less split: if_splits)
  have b2: "fd_bytes f2 = fd_bytes (fx_fd x1)" "fd_room f2 = fd_room (fx_fd x1)" "2048 \<le> length (fd_bytes f2)"
    "sb = sb_of_bytes (take 1024 (drop 1024 (fd_bytes f2)))"
    using r(2) by (auto simp: read_sb_def Let_def min_def split: if_splits)
  have ok: "sb_ok (?mark sb)" using sb_ok_of_bytes [of "take 1024 (drop 1024 (fd_bytes f2))"] b2(3,4)
    by (auto simp: sb_ok_def)
  have n: "length (sb_bytes (?mark sb)) = 1024" by (rule length_sb_bytes [OF ok])
  have b3: "fd_bytes f3 = put_bytes (fd_bytes f2) 1024 (sb_bytes (?mark sb))"
    using r(3) by (auto simp: write_sb_def write_whole_def Let_def min_less_iff_disj not_less split: if_splits)
  have eq: "fd_bytes f3 = take 1024 (fd_bytes f2) @ sb_bytes (?mark sb) @ drop 2048 (fd_bytes f2)"
    using n b2(3) unfolding b3 by (auto simp: put_bytes_def)
  have "take 8 (fd_bytes f2) = le64 (magic_of s)"
    unfolding b2(1) b1(1) by (simp add: put_bytes_def le64_def le32_def)
  then have "take 8 (fd_bytes f3) = le64 (magic_of s)" using b2(3) by (simp add: eq)
  then show "\<exists>z. get_fs_fixup_state cf y = Inr (s, z)"
    using assms(1) r(4) take64_le64 [of "magic_of s" "[]"]
    by (auto simp: get_fs_fixup_state_def read_at_def read_all_def Let_def state_of_magic)
  have "take 1024 (drop 1024 (fd_bytes f3)) = sb_bytes (?mark sb)" using n b2(3) by (simp add: eq)
  then have "read_sb f3 = Inr (?mark sb, f3\<lparr>fd_pos := 2048\<rparr>)"
    using n sb_of_sb_bytes [OF ok, of "[]"] by (simp add: read_sb_def)
  moreover have "(s_desc_size (?mark sb) AND 1 = 1) = (s \<noteq> STATE_UNSET)"
  proof -
    have "(w OR 1) AND 1 = (1 :: u16)" "(w AND NOT 1) AND 1 = (0 :: u16)" for w
      by (rule bit_word_eqI, auto simp: bit_simps)+
    then show ?thesis by (cases s) (simp_all add: magic_of_def)
  qed
  ultimately show "\<exists>sb fd. read_sb (fx_fd y) = Inr (sb, fd) \<and> (s_desc_size sb AND 1 = 1 \<longleftrightarrow> s \<noteq> STATE_UNSET)"
    using r(4) by auto
qed

theorem recorded_state_survives_witness:
  "\<exists>cf x y. \<not> no_write cf \<and> set_fs_fixup_state cf STATE_UPDATING_INUMS x = Inr y
    \<and> (\<exists>z. get_fs_fixup_state cf y = Inr (STATE_UPDATING_INUMS, z))"
proof -
  let ?cf = "\<lparr>cf_info = tiny_info, cf_geom = tiny_geom, no_write = False, stop = (0, 0, 0)\<rparr>"
  let ?x = "\<lparr>fx_fd = \<lparr>fd_bytes = tiny_image, fd_pos = 0, fd_room = 4096\<rparr>, fx_desc = [], fx_count = 0, fx_state = STATE_UNSET\<rparr>"
  let ?f = "\<lparr>fd_bytes = put_bytes tiny_image 0 (le64 MAGIC_STATE_UPDATING_INUMS), fd_pos = 8, fd_room = 4096\<rparr>"
  have w: "write_at ?x 0 (le64 MAGIC_STATE_UPDATING_INUMS) = Inr (?x\<lparr>fx_fd := ?f\<rparr>)"
    by (simp add: write_at_def write_whole_def le64_def le32_def Let_def)
  have "take 1024 (drop 1024 (fd_bytes ?f)) = sb_bytes tiny_sb"
    using tiny_parts(2) by (simp add: put_bytes_def le64_def le32_def drop_drop)
  then have r: "read_sb ?f = Inr (tiny_sb, ?f\<lparr>fd_pos := 2048\<rparr>)"
    using tiny_parts(3,6) by (simp add: read_sb_def)
  have "sb_ok (tiny_sb\<lparr>s_desc_size := s_desc_size tiny_sb OR 1\<rparr>)" by (simp add: sb_ok_def tiny_sb_def zero_sb_def)
  then obtain g where "write_sb (?f\<lparr>fd_pos := 2048\<rparr>) 1024 (tiny_sb\<lparr>s_desc_size := s_desc_size tiny_sb OR 1\<rparr>) = Inr g"
    using write_read_sb [of _ "?f\<lparr>fd_pos := 2048\<rparr>"] by fastforce
  with w r have "set_fs_fixup_state ?cf STATE_UPDATING_INUMS ?x = Inr (?x\<lparr>fx_fd := g\<rparr>)"
    by (simp add: set_fs_fixup_state_def magic_of_def)
  moreover have "\<not> no_write ?cf" by simp
  ultimately show ?thesis using recorded_state_survives by blast
qed

end
