(* ===== verification/Capability.thy ===== *)
theory Capability
  imports Xattr
begin

text \<open>
  What the attributes of \<open>Xattr\<close> are used for in this program: the capabilities of a file, stored
  behind its fresh inode and read back from there.
\<close>

section \<open>The capability of a file\<close>

text \<open>The bytes behind an inode with one attribute, its value at the end.\<close>

definition capability_entry :: "nat \<Rightarrow> xattr_entry" where
  "capability_entry n = \<lparr>e_name_len = 10, e_name_index = EXT4_XATTR_INDEX_SECURITY, e_value_offs = of_nat (n - 24),
     e_value_block = 0, e_value_size = 20, e_hash = 0, e_name = chars ''capability''\<rparr>"

definition one_attribute :: "u32 \<Rightarrow> nat \<Rightarrow> u8 list \<Rightarrow> u8 list" where
  "one_attribute magic n value = le32 magic @ entry_bytes (capability_entry n) @ replicate (n - 50) 0 @ value"

lemma length_entry: "length (entry_bytes (capability_entry n)) = 26"
  by (simp add: entry_bytes_def capability_entry_def chars_def)

lemma get32_zeros: "i + 4 \<le> n \<Longrightarrow> get32 (replicate n 0) i = 0"
  by (simp add: get32_def)

lemma get32_append_le: "i + 4 \<le> length xs \<Longrightarrow> get32 (xs @ ys) i = get32 xs i"
  by (simp add: get32_def nth_append)

lemma get32_append_ge: "length xs \<le> i \<Longrightarrow> get32 (xs @ ys) i = get32 ys (i - length xs)"
proof -
  assume "length xs \<le> i"
  then obtain j where "i = length xs + j" by (metis le_Suc_ex)
  then show ?thesis by (simp add: get32_def nth_append)
qed

lemma get16_skip: "length xs = i \<Longrightarrow> get16 (xs @ ys) i = get16 ys 0"
  by (simp add: get16_def nth_append)

lemma one_attribute_parts:
  fixes magic :: u32
  assumes "56 \<le> n" "length value = 20"
  defines "bs \<equiv> one_attribute magic n value"
  shows "length bs = n" "get32 bs 0 = magic" "bs ! 4 = 10" "get32 bs 4 \<noteq> 0"
    "read_entry bs 4 = Inr (capability_entry n)" "get32 bs 32 = 0" "take 20 (drop (n - 20) bs) = value"
proof -
  let ?e = "entry_bytes (capability_entry n)" and ?r = "replicate (n - 50) 0 @ value"
  show l: "length bs = n" using assms by (simp add: one_attribute_def length_entry)
  show "get32 bs 0 = magic" by (simp add: bs_def one_attribute_def)
  have "get32 bs 32 = get32 ?r 2" by (simp add: bs_def one_attribute_def get32_append_ge length_entry)
  also have "\<dots> = 0" using assms(1) by (simp add: get32_append_le get32_zeros)
  finally show "get32 bs 32 = 0" .
  have "drop (n - 20) bs = value" using assms by (simp add: one_attribute_def length_entry)
  then show "take 20 (drop (n - 20) bs) = value" using assms(2) by simp
  define a where "a = le32 magic @ [10, EXT4_XATTR_INDEX_SECURITY]"
  have b: "bs = a @ le16 (of_nat (n - 24)) @ le32 0 @ le32 20 @ le32 0 @ chars ''capability'' @ ?r"
    by (simp add: bs_def one_attribute_def entry_bytes_def capability_entry_def a_def)
  have la: "length a = 6" by (simp add: a_def)
  have f: "bs ! 4 = 10" "bs ! 5 = EXT4_XATTR_INDEX_SECURITY" by (simp_all add: b a_def nth_append)
  show "bs ! 4 = 10" by (rule f)
  have "(bs ! 4) AND 10 = 10" by (simp add: f)
  show "get32 bs 4 \<noteq> 0"
  proof
    assume "get32 bs 4 = 0"
    then have "bit (get32 bs 4) 1 = False" by simp
    then show False using f(1) by (simp add: get32_def bit_simps)
  qed
  have g: "get16 bs 6 = of_nat (n - 24)" "get32 bs 8 = 0" "get32 bs 12 = 20" "get32 bs 16 = 0"
    unfolding b by (simp_all add: get16_skip get32_append_ge la)
  have "take 10 (drop 20 bs) = chars ''capability''" unfolding b by (simp add: chars_def la)
  then show "read_entry bs 4 = Inr (capability_entry n)"
    using f g l assms(1) by (simp add: read_entry_def capability_entry_def)
qed

text \<open>What \<open>xattr_addto_range\<close> does to the zeroed bytes behind a fresh inode.\<close>

lemma addto_fresh:
  assumes "56 \<le> n" "length value = 20"
  shows "xattr_addto_range force (replicate n 0) 4 n 4 EXT4_XATTR_INDEX_SECURITY (chars ''capability'') value
    = Inr (Some 4, one_attribute 0 n value)"
proof -
  let ?bs = "one_attribute 0 n value" and ?e = "entry_bytes (capability_entry n)"
  note parts = one_attribute_parts [OF assms, of 0]
  let ?mid = "replicate 4 0 @ ?e @ replicate (n - 30) 0"
  have free: "xattr_free_space force (replicate n 0) 4 n = Inr (n - 4)"
    using assms(1) by (simp add: xattr_free_space_def free_space_loop.simps IS_LAST_ENTRY_def get32_zeros)
  have lst: "xattr_get_last (replicate n 0) 4 = Inr 4"
    using assms(1) by (simp add: xattr_get_last.simps IS_LAST_ENTRY_def get32_zeros)
  have sane: "xattr_assert_sane force ?bs 4 = Inr ()"
    using parts assms(1) by (simp add: xattr_assert_sane.simps IS_LAST_ENTRY_def EXT4_XATTR_LEN_def)
  have p1: "put_at (replicate n 0) 4 (replicate 28 0) = Inr (replicate n 0)"
    using assms(1) by (simp add: put_at_def replicate_add [symmetric])
  have p2: "put_at (replicate n 0) 4 ?e = Inr ?mid"
    using assms(1) by (simp add: put_at_def length_entry)
  have m: "take (n - 20) ?mid = replicate 4 0 @ ?e @ replicate (n - 50) 0" "drop n ?mid = []"
    using assms(1) by (simp_all add: length_entry)
  have p3: "put_at ?mid (n - 20) (replicate 20 0) = Inr ?mid"
  proof -
    have "replicate (n - 30) (0 :: u8) = replicate (n - 50) 0 @ replicate 20 0" using assms(1) by (simp add: replicate_add [symmetric])
    then show ?thesis using assms(1) m by (simp add: put_at_def length_entry)
  qed
  have p4: "put_at ?mid (n - 20) value = Inr ?bs"
  proof -
    have "le32 0 = replicate 4 (0 :: u8)" by (simp add: le32_def eval_nat_numeral)
    then show ?thesis using assms m by (simp add: put_at_def length_entry one_attribute_def)
  qed
  have len: "length (chars ''capability'') = 10" "EXT4_XATTR_LEN 10 = 28" "EXT4_XATTR_SIZE 20 = 20"
    by (simp_all add: chars_def EXT4_XATTR_LEN_def EXT4_XATTR_SIZE_def)
  have val: "4 + (n - 4) - 20 = n - 20" "(28 :: nat) + 20 \<le> n - 4" using assms(1) by simp_all
  have "of_nat (n - 20) - of_nat 4 = (of_nat (n - 24) :: u16)"
    using assms(1) of_nat_diff [of 4 "n - 20", where 'a = u16] by simp
  then have e: "\<lparr>e_name_len = of_nat 10, e_name_index = EXT4_XATTR_INDEX_SECURITY,
      e_value_offs = of_nat (n - 20) - of_nat 4, e_value_block = 0, e_value_size = of_nat 20, e_hash = 0,
      e_name = chars ''capability''\<rparr> = capability_entry n"
    unfolding capability_entry_def by simp
  show ?thesis
    unfolding xattr_addto_range_def Let_def len assms(2) free rbind_Inr lst p1 val(1) e p2 p3 p4 sane
    using val(2) by simp
qed

lemma length_cap: "length (vfs_cap_data caps) = 20"
  by (simp add: vfs_cap_data_def)

lemma cap_words:
  "ucast (get32 (vfs_cap_data caps) 4) OR push_bit 32 (ucast (get32 (vfs_cap_data caps) 12)) = (caps :: u64)"
proof -
  have "get32 (vfs_cap_data caps) 4 = ucast (caps AND 0xffffffff)" "get32 (vfs_cap_data caps) 12 = ucast (drop_bit 32 caps)"
    by (simp_all add: vfs_cap_data_def get32_append_ge)
  moreover have "ucast (ucast (caps AND mask 32) :: u32) OR push_bit 32 (ucast (ucast (drop_bit 32 caps) :: u32)) = caps"
    by (rule bit_word_eqI) (auto simp: bit_simps)
  moreover have "(0xffffffff :: u64) = mask 32" by (simp add: mask_eq_exp_minus_1)
  ultimately show ?thesis by (simp only:)
qed

text \<open>C13: the capabilities given to a file whose inode has no attributes yet are stored behind the inode
  as the one attribute \<open>security.capability\<close>: a reader finds the magic number, one entry under that
  name and no further entry, and at the offset that the entry gives the 64 bits that were set; no
  other inode changes.\<close>

theorem capabilities_read_back:
  assumes "get_inode_ptr info b inode_num = Inr (ino, b1)" "inode_tail b1 ino = replicate n 0"
    and "56 \<le> n" "n < 65536" "caps \<noteq> 0"
  shows "\<exists>b2 x. inode_set_capabilities info b force inode_num caps = Inr (True, b2)
    \<and> get32 (inode_tail b2 ino) 0 = EXT4_XATTR_MAGIC
    \<and> read_entry (inode_tail b2 ino) 4 = Inr x \<and> e_name_index x = 6 \<and> e_name x = chars ''capability''
    \<and> IS_LAST_ENTRY (inode_tail b2 ino) (4 + EXT4_XATTR_LEN (unat (e_name_len x))) = Inr True
    \<and> (let v = take (unat (e_value_size x)) (drop (4 + unat (e_value_offs x)) (inode_tail b2 ino)) in
        v = vfs_cap_data caps \<and> ucast (get32 v 4) OR push_bit 32 (ucast (get32 v 12)) = caps)
    \<and> length (inode_tail b2 ino) = n \<and> i_extra_isize (inode_at b2 ino) = 28
    \<and> (\<forall>p. p \<noteq> ino \<longrightarrow> inode_tail b2 p = inode_tail b1 p \<and> inode_at b2 p = inode_at b1 p)"
proof -
  let ?v = "vfs_cap_data caps" and ?t = "one_attribute EXT4_XATTR_MAGIC n (vfs_cap_data caps)"
  let ?b2 = "update_inode (b1\<lparr>inode_tail := (inode_tail b1)(ino := ?t)\<rparr>) ino (\<lambda>i. i\<lparr>i_extra_isize := 28\<rparr>)"
  note parts = one_attribute_parts [OF assms(3) length_cap, of EXT4_XATTR_MAGIC caps]
  have "put_at (one_attribute 0 n ?v) 0 (le32 EXT4_XATTR_MAGIC) = Inr ?t" by (simp add: put_at_def one_attribute_def)
  then have "xattr_addto_inode b1 force ino EXT4_XATTR_INDEX_SECURITY (chars ''capability'') ?v = Inr (True, ?b2)"
    using addto_fresh [OF assms(3) length_cap, of force caps] assms(2) by (simp add: xattr_addto_inode_def Let_def)
  then have run: "inode_set_capabilities info b force inode_num caps = Inr (True, ?b2)"
    using assms(1,5) by (simp add: inode_set_capabilities_def xattr_add_def)
  have off: "4 + unat (of_nat (n - 24) :: u16) = n - 20" using assms(3,4) by (simp add: unat_of_nat del: of_nat_diff)
  then have e: "4 + unat (e_value_offs (capability_entry n)) = n - 20" "unat (e_value_size (capability_entry n)) = 20"
    by (simp_all only: capability_entry_def xattr_entry.simps) simp
  show ?thesis
  proof (intro exI [of _ ?b2] exI [of _ "capability_entry n"] conjI run)
    have t: "inode_tail ?b2 ino = ?t" by (simp add: update_inode_def)
    show "IS_LAST_ENTRY (inode_tail ?b2 ino) (4 + EXT4_XATTR_LEN (unat (e_name_len (capability_entry n)))) = Inr True"
      unfolding t using parts assms(3) by (simp add: IS_LAST_ENTRY_def EXT4_XATTR_LEN_def capability_entry_def)
    show "let v = take (unat (e_value_size (capability_entry n))) (drop (4 + unat (e_value_offs (capability_entry n))) (inode_tail ?b2 ino)) in
        v = vfs_cap_data caps \<and> ucast (get32 v 4) OR push_bit 32 (ucast (get32 v 12)) = caps"
      unfolding t e parts(7) Let_def using cap_words [of caps] by simp
  qed (use parts in \<open>auto simp: update_inode_def capability_entry_def\<close>)
qed

theorem capabilities_read_back_witness:
  "\<exists>b2 x. inode_set_capabilities demo_info (demo_build\<lparr>aux := (aux demo_build)\<lparr>bgs := [zero_bg\<lparr>inode_table := Some (Inode_Table 0)\<rparr>]\<rparr>\<rparr>)
      False 12 0x400 = Inr (True, b2) \<and> read_entry (inode_tail b2 (Inode_Table 0, 2816)) 4 = Inr x
    \<and> e_name x = chars ''capability''"
proof -
  let ?b = "demo_build\<lparr>aux := (aux demo_build)\<lparr>bgs := [zero_bg\<lparr>inode_table := Some (Inode_Table 0)\<rparr>]\<rparr>\<rparr>"
  have "get_inode_ptr demo_info ?b 12 = Inr ((Inode_Table 0, 2816), ?b)"
    by (simp add: get_inode_ptr_def get_inode_def allocate_bg_inode_table_def demo_info_def demo_build_def demo_aux_def)
  moreover have "inode_tail ?b (Inode_Table 0, 2816) = replicate 100 0" by (simp add: demo_build_def)
  ultimately show ?thesis
    using capabilities_read_back [of demo_info ?b 12 "(Inode_Table 0, 2816)" ?b 100 "0x400" False]
    by (auto simp del: rbind_eq_Inr)
qed

end
