(* ===== verification/Inode_Alloc.thy ===== *)
theory Inode_Alloc
  imports Consistency
begin

text \<open>
  Allocating inodes: as long as a group has a free inode the allocation succeeds, with the lowest
  number that is free, and the numbers run out exactly when all are taken.
\<close>

section \<open>The free inodes\<close>

definition inodes_free :: "nat \<Rightarrow> fs_aux_info \<Rightarrow> nat set" where
  "inodes_free ipg a = {i * ipg + j | i j. i < length (bgs a) \<and> unat (first_free_inode (bgs a ! i)) \<le> j \<and> j \<le> ipg}"

lemma inode_slot_unique:
  assumes "i * ipg + j = i' * ipg + j'" "1 \<le> j" "j \<le> ipg" "1 \<le> j'" "j' \<le> (ipg :: nat)"
  shows "i = i' \<and> j = j'"
proof -
  obtain p q where p: "j = Suc p" "j' = Suc q" "p < ipg" "q < ipg"
    using assms(2-5) by (cases j; cases j') auto
  then have "i * ipg + p = i' * ipg + q" using assms(1) by simp
  moreover have "(i * ipg + p) div ipg = i" "(i' * ipg + q) div ipg = i'" using p(3,4) by simp_all
  ultimately show ?thesis using p by auto
qed

lemma finite_inodes_free: "finite (inodes_free ipg a)"
proof (rule finite_subset)
  show "inodes_free ipg a \<subseteq> (\<lambda>(i, j). i * ipg + j) ` ({..<length (bgs a)} \<times> {..ipg})"
    by (force simp: inodes_free_def)
qed simp

text \<open>One inode out of group \<open>i\<close>.\<close>

lemma reserve_one:
  assumes g: "groups_good bs ipg e N a" "i < length (bgs a)" and f: "free_inodes (bgs a ! i) \<noteq> 0"
  shows "\<exists>a'. reserve_inodes a i 1 = Inr (first_free_inode (bgs a ! i), a') \<and> groups_good bs ipg e N a'
    \<and> inodes_free ipg a' = inodes_free ipg a - {i * ipg + unat (first_free_inode (bgs a ! i))}"
proof -
  let ?bg = "bgs a ! i" and ?f = "unat (first_free_inode (bgs a ! i))"
  have m: "1 \<le> free_inodes ?bg" using f by (simp add: word_le_nat_alt unat_gt_0 Suc_le_eq)
  note good = groups_good_bg [OF g]
  obtain bm where bm: "inode_bits (bitmaps ?bg) (inode_bitmap ?bg) (unat (1 :: u32)) (first_free_inode ?bg - 1) = Inr bm"
    using group_good_inodes [OF good m] by blast
  let ?a = "set_bg a i (?bg\<lparr>bitmaps := bm, first_free_inode := first_free_inode ?bg + 1, free_inodes := free_inodes ?bg - 1\<rparr>)"
  have run: "reserve_inodes a i 1 = Inr (first_free_inode ?bg, ?a)"
  proof -
    have "\<not> free_inodes ?bg < 1" using f by simp
    then show ?thesis
      unfolding reserve_inodes_def get_free_inodes_def rd_in [OF g(2)] rbind_Inr if_not_P [OF \<open>\<not> free_inodes ?bg < 1\<close>] bm
      by (simp only:)
  qed
  have n: "?f + unat (free_inodes ?bg) = ipg + 1" "1 \<le> ?f" "ipg + 1 < 2 ^ 32"
    using good by (auto simp: group_good_def blocks_ok_def)
  have "1 \<le> unat (free_inodes ?bg)" using m by (simp add: word_le_nat_alt)
  then have f': "?f \<le> ipg" "unat (first_free_inode ?bg + 1) = ?f + 1"
    using n by (simp_all add: unat_add_small)
  have low: "1 \<le> unat (first_free_inode (bgs a ! k))" if "k < length (bgs a)" for k
    using groups_good_bg [OF g(1) that] by (simp add: group_good_def)
  have bgs: "length (bgs ?a) = length (bgs a)" "bgs ?a ! k = (if k = i then ?bg\<lparr>bitmaps := bm,
      first_free_inode := first_free_inode ?bg + 1, free_inodes := free_inodes ?bg - 1\<rparr> else bgs a ! k)"
    if "k < length (bgs a)" for k
    using that by (simp_all add: set_bg_def nth_list_update)
  have "inodes_free ipg ?a = inodes_free ipg a - {i * ipg + ?f}"
  proof (intro equalityI subsetI)
    fix x assume "x \<in> inodes_free ipg ?a"
    then obtain k j where x: "x = k * ipg + j" "k < length (bgs a)" "unat (first_free_inode (bgs ?a ! k)) \<le> j" "j \<le> ipg"
      using g(2) by (auto simp: inodes_free_def set_bg_def)
    then have "unat (first_free_inode (bgs a ! k)) \<le> j" "k = i \<Longrightarrow> ?f < j"
      using x(3) [unfolded bgs(2) [OF x(2)]] f'(2) by (cases "k = i"; simp)+
    moreover from this low [OF x(2)] have "x \<noteq> i * ipg + ?f"
      using inode_slot_unique [of k ipg j i ?f] x(1,4) f'(1) n(2) by fastforce
    ultimately show "x \<in> inodes_free ipg a - {i * ipg + ?f}" using x by (auto simp: inodes_free_def)
  next
    fix x assume "x \<in> inodes_free ipg a - {i * ipg + ?f}"
    then obtain k j where x: "x = k * ipg + j" "k < length (bgs a)" "unat (first_free_inode (bgs a ! k)) \<le> j" "j \<le> ipg"
      "x \<noteq> i * ipg + ?f" by (auto simp: inodes_free_def)
    then have "unat (first_free_inode (bgs ?a ! k)) \<le> j" using bgs(2) [OF x(2)] f'(2) by (cases "k = i") auto
    then show "x \<in> inodes_free ipg ?a" using x bgs(1) [OF x(2)] by (auto simp: inodes_free_def)
  qed
  then show ?thesis using run groups_good_reserve_inodes [OF run g(1)] by blast
qed

section \<open>Allocating\<close>

lemma allocate_inode_from_spec:
  assumes g: "groups_good bs ipg e N a" and lim: "unat N * ipg + ipg < 4294967295" and ipg: "unat (inodes_per_group info) = ipg"
    and m: "m \<le> unat N" "\<forall>i < m. free_inodes (bgs a ! i) = 0"
  shows "if inodes_free ipg a = {} then allocate_inode_from info a [m..<unat N] = Inr (EXT4_ALLOCATE_FAILED, a)
    else \<exists>inode a'. allocate_inode_from info a [m..<unat N] = Inr (inode, a') \<and> unat inode = Min (inodes_free ipg a)
      \<and> groups_good bs ipg e N a' \<and> inodes_free ipg a' = inodes_free ipg a - {unat inode}"
  using m
proof (induction "unat N - m" arbitrary: m)
  case 0
  have len: "length (bgs a) = unat N" using g by (simp add: groups_good_def)
  have "inodes_free ipg a = {}"
  proof (rule equals0I)
    fix x assume "x \<in> inodes_free ipg a"
    then obtain i j where x: "i < unat N" "unat (first_free_inode (bgs a ! i)) \<le> j" "j \<le> ipg"
      by (auto simp: inodes_free_def len)
    then have "free_inodes (bgs a ! i) = 0" using 0 by simp
    then show False using groups_good_bg [OF g, of i] x len by (auto simp: group_good_def)
  qed
  then show ?case using 0 by simp
next
  case (Suc k)
  have m: "m < unat N" using Suc.hyps(2) by simp
  have len: "length (bgs a) = unat N" using g by (simp add: groups_good_def)
  have list: "[m..<unat N] = m # [Suc m..<unat N]" using m by (simp add: upt_conv_Cons)
  show ?case
  proof (cases "free_inodes (bgs a ! m) = 0")
    case True
    then have "reserve_inodes a m 1 = Inr (EXT4_ALLOCATE_FAILED, a)"
      using m len by (simp add: reserve_inodes_def get_free_inodes_def)
    moreover have "\<forall>i < Suc m. free_inodes (bgs a ! i) = 0" using Suc.prems(2) True by (simp add: less_Suc_eq)
    ultimately show ?thesis using Suc.hyps(1) [of "Suc m"] Suc.hyps(2) m list by simp
  next
    case False
    let ?f = "unat (first_free_inode (bgs a ! m))"
    have ml: "m < length (bgs a)" using m len by simp
    note good = groups_good_bg [OF g ml]
    from reserve_one [OF g ml False] obtain a' where a': "reserve_inodes a m 1 = Inr (first_free_inode (bgs a ! m), a')"
      "groups_good bs ipg e N a'" "inodes_free ipg a' = inodes_free ipg a - {m * ipg + ?f}" by blast
    have "1 \<le> unat (free_inodes (bgs a ! m))" using False by (simp add: unat_gt_0 Suc_le_eq)
    then have f: "1 \<le> ?f" "?f \<le> ipg" using good by (auto simp: group_good_def)
    have "m * ipg \<le> unat N * ipg" using m by simp
    then have small: "m * ipg + ?f < 4294967295" using lim f(2) by linarith
    have u: "unat (of_nat m * inodes_per_group info + first_free_inode (bgs a ! m)) = m * ipg + ?f"
    proof -
      have "of_nat m * inodes_per_group info + first_free_inode (bgs a ! m) = (of_nat (m * ipg + ?f) :: u32)"
        unfolding ipg [symmetric] by simp
      then show ?thesis using small by (simp only: unat_of_nat) simp
    qed
    have nf: "first_free_inode (bgs a ! m) \<noteq> EXT4_ALLOCATE_FAILED"
    proof
      assume "first_free_inode (bgs a ! m) = EXT4_ALLOCATE_FAILED"
      then have "?f = 4294967295" by simp
      then show False using small by simp
    qed
    have mem: "m * ipg + ?f \<in> inodes_free ipg a" using f ml by (auto simp: inodes_free_def)
    have "Min (inodes_free ipg a) = m * ipg + ?f"
    proof (rule Min_eqI [OF finite_inodes_free _ mem])
      fix x assume "x \<in> inodes_free ipg a"
      then obtain i j where x: "x = i * ipg + j" "i < length (bgs a)" "unat (first_free_inode (bgs a ! i)) \<le> j" "j \<le> ipg"
        by (auto simp: inodes_free_def)
      consider "i < m" | "i = m" | "m < i" by linarith
      then show "m * ipg + ?f \<le> x"
      proof cases
        case 1
        then show ?thesis using Suc.prems(2) groups_good_bg [OF g x(2)] x(3,4) by (auto simp: group_good_def)
      next
        case 3
        then have "Suc m * ipg \<le> i * ipg" by (intro mult_le_mono1) simp
        then show ?thesis using x(1) f(2) by simp
      qed (use x in simp)
    qed
    then show ?thesis using a' mem u nf unfolding list by (auto simp del: unat_0_iff)
  qed
qed

text \<open>Allocating one inode after the other.\<close>

fun allocate_inodes :: "fs_info \<Rightarrow> nat \<Rightarrow> fs_aux_info \<Rightarrow> (u32 list \<times> fs_aux_info) res" where
  "allocate_inodes info 0 a = Inr ([], a)"
| "allocate_inodes info (Suc k) a =
     rbind (allocate_inode info a) (\<lambda>(inode, a). rbind (allocate_inodes info k a) (\<lambda>(is, a). Inr (inode # is, a)))"

lemma take_sorted_list_of_set:
  assumes "finite U" "U \<noteq> {}"
  shows "sorted_list_of_set U = Min U # sorted_list_of_set (U - {Min U})"
  using assms by (simp add: sorted_list_of_set_nonempty)

text \<open>C14: inodes can be allocated one after the other for as long as one is free: \<open>k\<close> allocations
  return the \<open>k\<close> lowest free inode numbers in order, and once all are taken the next one reports the
  failure and changes nothing.\<close>

theorem allocation_until_exhausted:
  assumes "groups_good bs ipg e N a" "unat N * ipg + ipg < 4294967295" "unat (inodes_per_group info) = ipg"
    and "k \<le> card (inodes_free ipg a)"
  shows "\<exists>is a'. allocate_inodes info k a = Inr (is, a')
    \<and> List.map unat is = take k (sorted_list_of_set (inodes_free ipg a))
    \<and> (k = card (inodes_free ipg a) \<longrightarrow> allocate_inode info a' = Inr (EXT4_ALLOCATE_FAILED, a'))"
  using assms(1,4)
proof (induction k arbitrary: a)
  case 0
  have n: "groups a = N" using 0 by (simp add: groups_good_def)
  show ?case
    using allocate_inode_from_spec [OF 0(1) assms(2,3), of 0] finite_inodes_free [of ipg a]
    by (auto simp: allocate_inode_def n)
next
  case (Suc k)
  have n: "groups a = N" using Suc.prems(1) by (simp add: groups_good_def)
  have ne: "inodes_free ipg a \<noteq> {}" using Suc.prems(2) by auto
  from allocate_inode_from_spec [OF Suc.prems(1) assms(2,3), of 0] ne
  obtain inode a1 where r: "allocate_inode info a = Inr (inode, a1)" "unat inode = Min (inodes_free ipg a)"
    "groups_good bs ipg e N a1" "inodes_free ipg a1 = inodes_free ipg a - {unat inode}"
    by (auto simp: allocate_inode_def n)
  have "card (inodes_free ipg a1) = card (inodes_free ipg a) - 1"
    using finite_inodes_free ne by (simp add: r(2,4) card_Diff_singleton)
  then have c: "k \<le> card (inodes_free ipg a1)" "k = card (inodes_free ipg a1) \<longleftrightarrow> Suc k = card (inodes_free ipg a)"
    using Suc.prems(2) by auto
  from Suc.IH [OF r(3) c(1)] obtain "is" a2 where "allocate_inodes info k a1 = Inr (is, a2)"
    "List.map unat is = take k (sorted_list_of_set (inodes_free ipg a1))"
    "Suc k = card (inodes_free ipg a) \<longrightarrow> allocate_inode info a2 = Inr (EXT4_ALLOCATE_FAILED, a2)"
    unfolding c(2) by blast
  then show ?case using r take_sorted_list_of_set [OF finite_inodes_free ne] by auto
qed

theorem allocation_until_exhausted_witness:
  "\<exists>is a'. allocate_inodes (small_info\<lparr>inodes_per_group := 8\<rparr>) 8
      (demo_groups\<lparr>groups := 1, bgs := [(demo_group 8 8)\<lparr>inode_bitmap := 1, first_free_inode := 1, free_inodes := 8\<rparr>]\<rparr>) = Inr (is, a')
    \<and> List.map unat is = [1, 2, 3, 4, 5, 6, 7, 8]
    \<and> allocate_inode (small_info\<lparr>inodes_per_group := 8\<rparr>) a' = Inr (EXT4_ALLOCATE_FAILED, a')"
proof -
  let ?bg = "(demo_group 8 8)\<lparr>inode_bitmap := 1, first_free_inode := 1, free_inodes := 8\<rparr>"
  let ?a = "demo_groups\<lparr>groups := 1, bgs := [?bg]\<rparr>" and ?info = "small_info\<lparr>inodes_per_group := 8\<rparr>"
  have bits: "bm_bit [0, 0] k = False" for k by (simp add: bm_bit_def nth_Cons split: nat.splits)
  have "group_good 1 8 8 ?bg"
    using demo_group_ok [of 8 8]
    by (simp add: group_good_def blocks_ok_def demo_group_def zero_bg_def bits)
  then have good: "groups_good 1 8 (\<lambda>_. 8) 1 ?a" by (simp add: groups_good_def)
  have free: "inodes_free 8 ?a = {1..8}" by (auto simp: inodes_free_def)
  have list: "take 8 (sorted_list_of_set {1..8}) = [1, 2, 3, 4, 5, 6, 7, 8 :: nat]" by code_simp
  have "unat (inodes_per_group ?info) = 8" by (simp add: small_info_def)
  from allocation_until_exhausted [OF good _ this, of 8] show ?thesis unfolding free list by simp
qed

end
