(* ===== verification/Known_Defects.thy ===== *)
theory Known_Defects
  imports Sparse_Roundtrip Indirect
begin

text \<open>
  Small instances that show where the code does not do what its surroundings rely on. Each is named
  in the list of findings.
\<close>

text \<open>The remainder is taken of an unsigned difference that has wrapped: with one
  descriptor block and three reserved ones, entry 0 belongs to reserved block 2, the code computes 0.\<close>

lemma resize_index_wraps: "resize_index 0 1 3 = Inr 0"
  by code_simp

text \<open>A checksum chunk in a file that is read without a check goes through a null pointer.\<close>

lemma crc_chunk_without_check: "process_chunk r fdn off 12 (chunk_header CHUNK_TYPE_CRC32 0 16) block None = Inl Fault"
  by (simp add: process_chunk_def Let_def)

text \<open>The checksum of a fill chunk covers one block, whatever its length: a reader that checks refuses
  an image with a fill of two blocks.\<close>

lemma fill_crc_of_one_block:
  "chunks_crc 4 0 [Fill 1 2] \<noteq> sparse_crc32 0 (chunk_content 4 (Fill 1 2))"
  by code_simp

end
