(* ===== verification/Spec2Isabelle.thy ===== *)
theory Spec2Isabelle
  imports Ext4_Prelude Crc Bitmap Fs_Geometry Heap_Lists Backed_Block Sparse_Output Sparse_Write
    Block_Group Group_Alloc C_Text Regions Sha1 Uuid Sparse_Read Disk_Format Superblock Extents Indirect Directories Xattr Fixup Canned_Config Make_Ext4fs Resparse Build_Invariant Consistency Extent_Layout Directory_Data Sparse_Roundtrip Gzip_Output Fixup_Runs Capability Inode_Alloc Known_Defects
begin

text \<open>
  A verification development for \<^verbatim>\<open>make_ext4fs\<close>, the program that builds an ext4 image from a source
  directory, for its renumbering tool \<^verbatim>\<open>ext4fixup\<close> and for the library \<^verbatim>\<open>libsparse\<close> that writes images.
  Paths below are relative to \<^verbatim>\<open>src/\<close>, the directory of the C files.

  \<^bold>\<open>How the program works and which theory models it.\<close> The command line
  (\<^verbatim>\<open>make_ext4fs_main.c\<close>) fills \<open>fs_info\<close>; the defaults and the layout in groups follow from it
  (\<^verbatim>\<open>make_ext4fs.c\<close>, \<^verbatim>\<open>ext4_utils.c\<close>). The allocator of \<^verbatim>\<open>allocate.c\<close> keeps bitmaps and counts per
  group and hands out lists of regions. The walk over the directory makes inodes, extents, directory
  blocks and attributes, and queues every piece of data in a list ordered by block. At the end the
  counts are summed up, the superblock and its copies are queued, and \<^verbatim>\<open>libsparse\<close> writes the queue
  as a plain file, a gzip file or a sparse image.

  \<^item> \<open>Ext4_Prelude\<close>: C integers as words, \<open>'a res\<close> for functions that can stop (\<open>Error\<close> and \<open>Critical\<close>
    are the two error macros, \<open>Assert\<close> is a failed assertion, \<open>Fault\<close> undefined behaviour, \<open>Diverge\<close> a
    loop that does not end), checked array accesses, \<open>DIV_ROUND_UP\<close>. \<open>Heap_Lists\<close>: cells on a heap and the chains through them.
    \<open>C_Text\<close>: the text functions of the C library that are used. \<open>Bitmap\<close>: bits of byte arrays.
  \<^item> \<open>Crc\<close>: \<^verbatim>\<open>crc16.c\<close>, \<^verbatim>\<open>libsparse/sparse_crc32.c\<close>. \<open>Sha1\<close>: \<^verbatim>\<open>sha1.c\<close>, rounds unrolled as in the source.
    \<open>Uuid\<close>: \<^verbatim>\<open>uuid5.c\<close>, \<open>parse_uuid\<close>, \<open>uuid_bin_to_str\<close> and \<open>parse_num\<close> of \<^verbatim>\<open>ext4_utils.c\<close>.
  \<^item> \<open>Fs_Geometry\<close>: \<open>struct fs_info\<close>, \<open>ext4_init_fs_aux_info\<close> and the defaults \<open>compute_...\<close>.
  \<^item> \<open>Backed_Block\<close>: \<^verbatim>\<open>libsparse/backed_block.c\<close>, with its cells on an explicit heap.
    \<open>Sparse_Output\<close>, \<open>Gzip_Output\<close>: \<^verbatim>\<open>libsparse/output_file.c\<close> and the writing half of \<^verbatim>\<open>libsparse/sparse.c\<close>.
    \<open>Resparse\<close>: splitting, moving and destroying queues, \<open>sparse_file_resparse\<close>.
    \<open>Sparse_Read\<close>: \<^verbatim>\<open>libsparse/sparse_read.c\<close>.
  \<^item> \<open>Block_Group\<close>, \<open>Group_Alloc\<close>, \<open>Regions\<close>: \<^verbatim>\<open>allocate.c\<close>: groups (\<open>block_group_info\<close>), blocks and inodes
    of one group, and \<open>struct block_allocation\<close> with its two lists of regions on a heap.
  \<^item> \<open>Disk_Format\<close>, \<open>Superblock\<close>: the structures of \<^verbatim>\<open>ext4.h\<close> as records with their bytes, and the
    superblock code of \<^verbatim>\<open>ext4_utils.c\<close> and \<^verbatim>\<open>ext4_sb.c\<close>. The record \<open>build\<close> is the whole state under
    construction: \<open>fs_aux_info\<close>, superblock and descriptors, inodes, buffers, regions and the queue.
  \<^item> \<open>Extents\<close>, \<open>Indirect\<close>: \<^verbatim>\<open>extent.c\<close>, \<^verbatim>\<open>indirect.c\<close>. \<open>Directories\<close>, \<open>Xattr\<close>: \<^verbatim>\<open>contents.c\<close>.
    \<open>Canned_Config\<close>: \<^verbatim>\<open>canned_fs_config.c\<close>. \<open>Make_Ext4fs\<close>: the walk over the source tree,
    \<open>make_ext4fs_internal\<close> and the options; what the host answers (directory listings, \<open>lstat\<close>, file
    contents, \<open>fs_config\<close> functions) is the record \<open>host\<close>.
  \<^item> \<open>Fixup\<close>: \<^verbatim>\<open>ext4fixup.c\<close> with its three passes and the state it is resumed from.

  \<^bold>\<open>What is proved.\<close>
  \<^item> The construction as a whole: \<open>Build_Invariant\<close> has the locale \<open>build_invariant\<close>, a property kept by
    the few operations that change groups, queue and superblock, and lifts it over the walk and the
    inodes made on the way; \<open>Consistency\<close> interprets it and concludes that every image that
    \<open>build_file_system\<close> returns has bitmaps, group counts, descriptors and superblock counts that agree.
    \<open>Inode_Alloc\<close>: inodes are handed out until all are taken.
  \<^item> The data: \<open>Extent_Layout\<close> (extents map file blocks to the allocation; the loop over the regions
    queues the right bytes; the reader there is our reading of the on-disk format, with the limits of
    \<^verbatim>\<open>ext4_extents.h\<close>), \<open>Directory_Data\<close> (a checking reader finds every entry), \<open>Capability\<close>
    (capabilities are read back), \<open>Superblock\<close> (round trip, checksums, counts, copies).
  \<^item> The allocator: locale \<open>block_source\<close>, interpreted on the groups; best fit serves a request with
    disjoint free regions (\<open>Regions\<close>), release undoes reservation (\<open>Block_Group\<close>).
  \<^item> The writer: the queue does not depend on the order of the calls (locale \<open>piece_sink\<close>); plain and
    sparse files hold exactly the image (\<open>Sparse_Write\<close>); a sparse image imported again and written
    plain gives the same bytes (\<open>Sparse_Roundtrip\<close>); gzip files and the length computed ahead agree
    with the plain file (locale \<open>in_step\<close> of \<open>Gzip_Output\<close>).
  \<^item> Checksums and names: the tables equal the bit-serial registers (locale \<open>table_crc\<close>), SHA-1 equals
    the hash of FIPS 180, UUIDs are printed and parsed.
  \<^item> The renumbering tool (\<open>Fixup_Runs\<close>): without writing it goes through all passes and leaves the image
    alone; the state it records survives, and the image cannot be mounted before it is done.
  \<^item> Errors: assertions, divisions by zero, accesses to freed cells and lost groups that the code
    reaches are theorems about the model; \<open>Known_Defects\<close> has three small ones more.

  \<^bold>\<open>Bounds and fuel.\<close> Walks over a chain of cells take as fuel the number of addresses in use plus one;
  a chain that is not circular is shorter, so running out is \<open>Diverge\<close> and means that the C loop does
  not end. The walk over directories takes the depth of the source tree as fuel, for which an
  argument is given; \<open>recurse_dir\<close> and \<open>get_extent_idx\<close> take the number of bytes of the image plus one,
  more than there are blocks on a path without repetition. The loops over entries of a directory and
  over attributes end because the offset grows; a record length of zero is \<open>Diverge\<close>. Other loops are
  structural or have a measure. Lengths of \<open>off_t\<close> and \<open>int64_t\<close> are integers, with a \<open>Fault\<close> where
  they would leave their range, and so are return codes and the \<open>int\<close> length of a write: the code passes it
  an unsigned length, which \<open>int_len\<close> reads as signed, so that from \<open>2 ^ 31\<close> on the write fails; a single
  write takes at most \<open>MAX_RW_COUNT\<close> bytes, as on Linux. The other numbers are words of their width.

  \<^bold>\<open>Not modelled.\<close> zlib itself (its functions are an argument; the one theorem about gzip files assumes
  that a stream takes what it is given); the \<open>ioctl\<close> calls of \<^verbatim>\<open>wipe.c\<close> and for the size of a block
  device (arguments); everything that is only printed, with \<^verbatim>\<open>libsparse/sparse_err.c\<close>; failures of
  \<open>malloc\<close>; declarations of \<^verbatim>\<open>jbd2.h\<close>, \<^verbatim>\<open>ext4_kernel_headers.h\<close> and of structures of \<^verbatim>\<open>ext4.h\<close> that no
  function uses; big-endian hosts.
\<close>

end
